(* ===== verification/Prelude.thy ===== *)
theory Prelude
  imports
    Main
    "HOL-Library.AList"
    "HOL-Library.Word"
    "HOL-Library.Char_ord"
    "HOL-Library.List_Lexorder"
begin

text \<open>
  Shared vocabulary of the development: Go maps, Go errors, panics and the list combinators
  that every component uses.

  \<^item> A Go map with string keys is an association list with distinct keys (\<open>gmap\<close>). The order
    of the list stands for the order in which one \<open>range\<close> loop visits the map, which Go leaves
    open; theorems are stated for every list, so they hold for every visiting order.
    \<open>nil\<close> and the empty map behave alike when read and differ when written (a write to \<open>nil\<close>
    panics), so a map-valued field is an \<open>nmap\<close>, \<open>None\<close> being \<open>nil\<close>.
  \<^item> A function that returns \<open>(T, error)\<close> has type \<open>'a res\<close>: \<open>Inl\<close> carries the constant part of
    the error text, \<open>Inr\<close> the value.
  \<^item> A computation that may panic has an \<open>option\<close> type; \<open>None\<close> is the panic.
\<close>

named_theorems gmap_simps \<open>reads after writes on Go maps\<close>
named_theorems res_simps \<open>propagation of errors\<close>

section \<open>Go maps\<close>

type_synonym 'v gmap = "(string \<times> 'v) list"
type_synonym 'v nmap = "'v gmap option"

abbreviation gset :: "string \<Rightarrow> 'v \<Rightarrow> 'v gmap \<Rightarrow> 'v gmap" where
  "gset \<equiv> AList.update"

abbreviation gdel :: "string \<Rightarrow> 'v gmap \<Rightarrow> 'v gmap" where
  "gdel \<equiv> AList.delete"

definition wf_gmap :: "'v gmap \<Rightarrow> bool" where
  "wf_gmap m \<longleftrightarrow> distinct (map fst m)"

definition entries :: "'v nmap \<Rightarrow> 'v gmap" where
  "entries m = (case m of None \<Rightarrow> [] | Some es \<Rightarrow> es)"

definition nget :: "'v nmap \<Rightarrow> string \<Rightarrow> 'v option" where
  "nget m k = map_of (entries m) k"

definition nset :: "string \<Rightarrow> 'v \<Rightarrow> 'v nmap \<Rightarrow> 'v nmap option" where
  "nset k v m = (case m of None \<Rightarrow> None | Some es \<Rightarrow> Some (Some (gset k v es)))"

definition ndel :: "string \<Rightarrow> 'v nmap \<Rightarrow> 'v nmap" where
  "ndel k m = map_option (gdel k) m"

definition make_if_nil :: "'v nmap \<Rightarrow> 'v nmap" where
  "make_if_nil m = (case m of None \<Rightarrow> Some [] | Some es \<Rightarrow> Some es)"

definition wf_nmap :: "'v nmap \<Rightarrow> bool" where
  "wf_nmap m \<longleftrightarrow> wf_gmap (entries m)"

text \<open>The loop \<open>for k, v := range src { dst[k] = v }\<close>.\<close>

fun gset_all :: "'v gmap \<Rightarrow> 'v gmap \<Rightarrow> 'v gmap" where
  "gset_all [] dst = dst"
| "gset_all ((k, v) # src) dst = gset_all src (gset k v dst)"

lemma entries_simps [simp]: "entries None = []" "entries (Some es) = es"
  by (simp_all add: entries_def)

lemma entries_make_if_nil [simp]: "entries (make_if_nil m) = entries m"
  by (simp add: make_if_nil_def split: option.splits)

lemma make_if_nil_Some [simp]: "make_if_nil (Some es) = Some es" "make_if_nil None = Some []"
  by (simp_all add: make_if_nil_def)

lemma make_if_nil_entries: "make_if_nil m = Some (entries m)"
  by (cases m) simp_all

lemma nset_simps [simp]:
  "nset k v None = None"
  "nset k v (Some es) = Some (Some (gset k v es))"
  by (simp_all add: nset_def)

lemma ndel_simps [simp]: "ndel k None = None" "ndel k (Some es) = Some (gdel k es)"
  by (simp_all add: ndel_def)

lemma nget_simps [simp]: "nget None k = None" "nget (Some es) k = map_of es k"
  by (simp_all add: nget_def)

lemma map_of_gset [gmap_simps, simp]: "map_of (gset k v m) = (map_of m)(k \<mapsto> v)"
  by (rule update_conv')

lemma map_of_gdel [gmap_simps, simp]: "map_of (gdel k m) = (map_of m)(k := None)"
  by (rule delete_conv')

lemma entries_ndel [simp]: "entries (ndel k m) = gdel k (entries m)"
  by (cases m) simp_all

lemma nget_ndel [gmap_simps]: "nget (ndel k m) k' = (if k' = k then None else nget m k')"
  by (cases m) simp_all

lemma wf_gmap_Nil [simp]: "wf_gmap []"
  by (simp add: wf_gmap_def)

lemma wf_gmap_gset [simp, intro]: "wf_gmap m \<Longrightarrow> wf_gmap (gset k v m)"
  by (simp add: wf_gmap_def distinct_update)

lemma wf_gmap_gdel [simp, intro]: "wf_gmap m \<Longrightarrow> wf_gmap (gdel k m)"
  by (simp add: wf_gmap_def distinct_delete)

lemma wf_gmap_filter [simp, intro]: "wf_gmap m \<Longrightarrow> wf_gmap (filter P m)"
  by (simp add: wf_gmap_def distinct_map_filter)

lemma wf_gmap_gset_all: "wf_gmap dst \<Longrightarrow> wf_gmap (gset_all src dst)"
  by (induction src dst rule: gset_all.induct) auto

lemma map_of_gset_all_rev: "map_of (gset_all src dst) = map_of dst ++ map_of (rev src)"
  by (induction src dst rule: gset_all.induct) (auto simp: map_add_def fun_eq_iff split: option.splits)

lemma map_of_rev_wf: "wf_gmap m \<Longrightarrow> map_of (rev m) = map_of m"
  by (rule map_of_eqI) (auto simp: wf_gmap_def rev_map [symmetric] map_of_is_SomeI
      dest: map_of_SomeD intro!: map_of_eqI)

lemma map_of_gset_all [gmap_simps]:
  "wf_gmap src \<Longrightarrow> map_of (gset_all src dst) = map_of dst ++ map_of src"
  by (simp add: map_of_gset_all_rev map_of_rev_wf)

lemma map_of_filter_keys:
  assumes "wf_gmap m"
  shows "map_of (filter (\<lambda>(k, v). P k v) m) k =
    (case map_of m k of None \<Rightarrow> None | Some v \<Rightarrow> if P k v then Some v else None)"
  using assms
proof (induction m)
  case (Cons x m)
  obtain k' v' where x: "x = (k', v')" by (cases x)
  from Cons.prems x have wf: "wf_gmap m" and notin: "map_of m k' = None"
    by (auto simp: wf_gmap_def map_of_eq_None_iff)
  from Cons.IH [OF wf] notin x show ?case by auto
qed simp

lemma set_gset: "set (gset k v m) \<subseteq> insert (k, v) (set m)"
  by (induction m) auto

lemma gset_fresh: "k \<notin> fst ` set m \<Longrightarrow> gset k v m = m @ [(k, v)]"
  by (induction m) auto

lemma gdel_filter: "gdel k m = filter (\<lambda>(k', _). k' \<noteq> k) m"
  by (induction m) auto

lemma gset_in_place: "map_of m k = Some v \<Longrightarrow> map fst (gset k w m) = map fst m"
  by (induction m) (auto split: if_splits)

lemma gset_same [simp]: "map_of m k = Some v \<Longrightarrow> gset k v m = m"
  by (induction m) (auto split: if_splits)

section \<open>Errors\<close>

type_synonym 'a res = "string + 'a"

definition rbind :: "'e + 'a \<Rightarrow> ('a \<Rightarrow> 'e + 'b) \<Rightarrow> 'e + 'b" where
  "rbind r f = (case r of Inl e \<Rightarrow> Inl e | Inr a \<Rightarrow> f a)"

lemma rbind_simps [simp]: "rbind (Inl e) f = Inl e" "rbind (Inr a) f = f a"
  by (simp_all add: rbind_def)

lemma rbind_Inr_iff [res_simps]: "rbind r f = Inr b \<longleftrightarrow> (\<exists>a. r = Inr a \<and> f a = Inr b)"
  by (cases r) simp_all

lemma rbind_Inl_iff [res_simps]: "rbind r f = Inl e \<longleftrightarrow> r = Inl e \<or> (\<exists>a. r = Inr a \<and> f a = Inl e)"
  by (cases r) simp_all

text \<open>A loop that computes one value per element and returns at the first error.\<close>

fun rmap :: "('a \<Rightarrow> 'e + 'b) \<Rightarrow> 'a list \<Rightarrow> 'e + 'b list" where
  "rmap f [] = Inr []"
| "rmap f (x # xs) =
    (case f x of
      Inl e \<Rightarrow> Inl e
    | Inr y \<Rightarrow> (case rmap f xs of Inl e \<Rightarrow> Inl e | Inr ys \<Rightarrow> Inr (y # ys)))"

lemma rmap_Inr_iff [res_simps]:
  "rmap f xs = Inr ys \<longleftrightarrow> list_all2 (\<lambda>x y. f x = Inr y) xs ys"
  by (induction xs arbitrary: ys) (auto simp: list_all2_Cons1 split: sum.splits, metis sum.inject(2))

lemma rmap_Inr_length: "rmap f xs = Inr ys \<Longrightarrow> length ys = length xs"
  by (simp add: rmap_Inr_iff list_all2_lengthD)

lemma rmap_skip: "\<forall>u \<in> set us. \<exists>y. f u = Inr y \<Longrightarrow> rmap f (us @ x # vs) = Inl e \<longleftrightarrow> rmap f (x # vs) = Inl e"
  by (induction us) (auto split: sum.splits)

text \<open>The error of such a loop is the error of its first failing element.\<close>

lemma rmap_first_error:
  assumes "\<forall>u \<in> set us. \<exists>y. f u = Inr y" and "f x = Inl e"
  shows "rmap f (us @ x # vs) = Inl e"
  using assms by (simp add: rmap_skip)

lemma rmap_Inl_dest:
  "rmap f xs = Inl e \<Longrightarrow> \<exists>us x vs. xs = us @ x # vs \<and> f x = Inl e \<and> (\<forall>u \<in> set us. \<exists>y. f u = Inr y)"
proof (induction xs)
  case (Cons x xs)
  show ?case
  proof (cases "f x")
    case (Inl a)
    with Cons.prems have "x # xs = [] @ x # xs \<and> f x = Inl e" by simp
    then show ?thesis by (metis empty_iff list.set(1))
  next
    case (Inr b)
    with Cons.prems have "rmap f xs = Inl e" by (simp split: sum.splits)
    with Cons.IH obtain us y vs where "xs = us @ y # vs" "f y = Inl e" "\<forall>u \<in> set us. \<exists>y. f u = Inr y"
      by blast
    with Inr have "x # xs = (x # us) @ y # vs \<and> f y = Inl e \<and> (\<forall>u \<in> set (x # us). \<exists>y. f u = Inr y)"
      by simp
    then show ?thesis by blast
  qed
qed simp

lemma rmap_cong [fundef_cong]:
  "xs = ys \<Longrightarrow> (\<And>x. x \<in> set ys \<Longrightarrow> f x = g x) \<Longrightarrow> rmap f xs = rmap g ys"
  by (induction xs arbitrary: ys) (force split: sum.splits)+

section \<open>Panics\<close>

text \<open>A loop whose body may panic.\<close>

fun omap :: "('a \<Rightarrow> 'b option) \<Rightarrow> 'a list \<Rightarrow> 'b list option" where
  "omap f [] = Some []"
| "omap f (x # xs) =
    (case f x of
      None \<Rightarrow> None
    | Some y \<Rightarrow> (case omap f xs of None \<Rightarrow> None | Some ys \<Rightarrow> Some (y # ys)))"

fun ofold :: "('a \<Rightarrow> 's \<Rightarrow> 's option) \<Rightarrow> 'a list \<Rightarrow> 's \<Rightarrow> 's option" where
  "ofold f [] s = Some s"
| "ofold f (x # xs) s = (case f x s of None \<Rightarrow> None | Some s' \<Rightarrow> ofold f xs s')"

lemma omap_Some_iff: "omap f xs = Some ys \<longleftrightarrow> list_all2 (\<lambda>x y. f x = Some y) xs ys"
  by (induction xs arbitrary: ys) (auto simp: list_all2_Cons1 split: option.splits, metis option.inject)

lemma omap_total: "(\<And>x. x \<in> set xs \<Longrightarrow> f x = Some (g x)) \<Longrightarrow> omap f xs = Some (map g xs)"
  by (induction xs) auto

lemma omap_None_iff: "omap f xs = None \<longleftrightarrow> (\<exists>x \<in> set xs. f x = None)"
  by (induction xs) (auto split: option.splits)

lemma ofold_append: "ofold f (xs @ ys) s = Option.bind (ofold f xs s) (ofold f ys)"
  by (induction xs arbitrary: s) (auto split: option.splits)

lemma ofold_total: "(\<And>x s. x \<in> set xs \<Longrightarrow> f x s = Some (g x s)) \<Longrightarrow> ofold f xs s = Some (fold g xs s)"
  by (induction xs arbitrary: s) auto

lemma ofold_invariant:
  assumes "ofold f xs s = Some t" and "P s"
    and "\<And>x s s'. x \<in> set xs \<Longrightarrow> P s \<Longrightarrow> f x s = Some s' \<Longrightarrow> P s'"
  shows "P t"
  using assms
proof (induction xs arbitrary: s)
  case (Cons x xs)
  from Cons.prems(1) obtain s' where s': "f x s = Some s'" "ofold f xs s' = Some t"
    by (auto split: option.splits)
  moreover have "P s'" using Cons.prems(2,3) s'(1) by (meson list.set_intros(1))
  ultimately show ?case using Cons.IH Cons.prems(3) by (meson list.set_intros(2))
qed simp

lemma fold_invariant:
  assumes "P s" and "\<And>x s. x \<in> set xs \<Longrightarrow> P s \<Longrightarrow> P (f x s)"
  shows "P (fold f xs s)"
  using assms by (induction xs arbitrary: s) auto

lemma map_of_Some_wf: "wf_gmap m \<Longrightarrow> (k, v) \<in> set m \<longleftrightarrow> map_of m k = Some v"
  by (auto simp: wf_gmap_def dest: map_of_SomeD)

section \<open>In-place compaction of a slice\<close>

text \<open>
  The idiom of the filtering processors: read the slice from left to right, write the elements
  to keep back to its front and cut it to the number written. \<open>f\<close> gives \<open>None\<close> for a panic,
  \<open>Some None\<close> for an element to drop and \<open>Some (Some y)\<close> for an element to keep as \<open>y\<close>;
  \<open>n\<close> elements remain to be read at \<open>j\<close>, \<open>i\<close> have been written.
\<close>

fun compact_loop :: "('a \<Rightarrow> 'a option option) \<Rightarrow> nat \<Rightarrow> nat \<Rightarrow> nat \<Rightarrow> 'a list \<Rightarrow> (nat \<times> 'a list) option" where
  "compact_loop f 0 j i arr = Some (i, arr)"
| "compact_loop f (Suc n) j i arr =
    (case f (arr ! j) of
      None \<Rightarrow> None
    | Some None \<Rightarrow> compact_loop f n (Suc j) i arr
    | Some (Some y) \<Rightarrow> compact_loop f n (Suc j) (Suc i) (arr[i := y]))"

definition compact :: "('a \<Rightarrow> 'a option option) \<Rightarrow> 'a list \<Rightarrow> 'a list option" where
  "compact f xs = map_option (\<lambda>(i, arr). take i arr) (compact_loop f (length xs) 0 0 xs)"

lemma compact_loop_eq:
  assumes "i \<le> j" and "j + n = length arr"
  shows "map_option (\<lambda>(i', arr'). take i' arr') (compact_loop f n j i arr) =
    map_option (\<lambda>ys. take i arr @ List.map_filter id ys) (omap f (drop j arr))"
  using assms
proof (induction n arbitrary: i j arr)
  case (Suc n)
  then have d: "drop j arr = arr ! j # drop (Suc j) arr" by (simp add: Cons_nth_drop_Suc)
  show ?case
  proof (cases "f (arr ! j)")
    case None
    then show ?thesis by (simp add: d)
  next
    case (Some r)
    show ?thesis
    proof (cases r)
      case None
      with Some Suc.IH [of i "Suc j" arr] Suc.prems show ?thesis
        by (simp add: d option.map_comp comp_def List.map_filter_def split: option.splits)
    next
      case (Some y)
      have "take (Suc i) (arr[i := y]) = take i arr @ [y]"
        using Suc.prems by (simp add: take_Suc_conv_app_nth)
      moreover have "drop (Suc j) (arr[i := y]) = drop (Suc j) arr"
        using Suc.prems(1) by simp
      ultimately show ?thesis
        using Suc.IH [of "Suc i" "Suc j" "arr[i := y]"] Suc.prems \<open>f (arr ! j) = Some r\<close> Some
        by (simp add: d List.map_filter_def split: option.splits)
    qed
  qed
qed (simp add: List.map_filter_def)

lemma compact_eq: "compact f xs = map_option (List.map_filter id) (omap f xs)"
  using compact_loop_eq [of 0 0 "length xs" xs f] by (simp add: compact_def)

lemma omap_map_option: "omap (\<lambda>x. map_option (g x) (h x)) xs = map_option (map2 g xs) (omap h xs)"
  by (induction xs) (auto split: option.splits)

text \<open>When the test never panics, compaction is the library's \<open>filter\<close>.\<close>

lemma compact_filter:
  assumes "\<And>x. x \<in> set xs \<Longrightarrow> f x = Some (if P x then Some x else None)"
  shows "compact f xs = Some (filter P xs)"
proof -
  have "omap f xs = Some (map (\<lambda>x. if P x then Some x else None) xs)"
    using assms by (rule omap_total)
  moreover have "List.map_filter id (map (\<lambda>x. if P x then Some x else None) xs) = filter P xs"
    by (induction xs) (auto simp: List.map_filter_def)
  ultimately show ?thesis by (simp add: compact_eq)
qed

section \<open>Deleting entries while ranging over a map\<close>

text \<open>
  \<open>for k, v := range m { if P(k, v) { delete(m, k) } }\<close>: an entry is deleted when it is visited,
  so every entry is visited once.
\<close>

fun range_delete :: "(string \<Rightarrow> 'v \<Rightarrow> bool) \<Rightarrow> 'v gmap \<Rightarrow> 'v gmap \<Rightarrow> 'v gmap" where
  "range_delete P [] m = m"
| "range_delete P ((k, v) # es) m = range_delete P es (if P k v then gdel k m else m)"

lemma range_delete_filter_gen:
  assumes "wf_gmap es"
  shows "range_delete P es m =
    filter (\<lambda>(k, v). case map_of es k of None \<Rightarrow> True | Some w \<Rightarrow> \<not> P k w) m"
  using assms
proof (induction P es m rule: range_delete.induct)
  case (2 P k v es m)
  then have notin: "map_of es k = None" by (auto simp: wf_gmap_def map_of_eq_None_iff)
  from 2 have "wf_gmap es" by (simp add: wf_gmap_def)
  with 2 have IH: "range_delete P es (if P k v then gdel k m else m) =
    filter (\<lambda>(k, v). case map_of es k of None \<Rightarrow> True | Some w \<Rightarrow> \<not> P k w) (if P k v then gdel k m else m)"
    by simp
  show ?case
    by (simp only: range_delete.simps IH) (auto simp: AList.delete_eq notin intro!: filter_cong split: if_splits)
qed (simp add: case_prod_beta)

lemma range_delete_filter: "wf_gmap m \<Longrightarrow> range_delete P m m = filter (\<lambda>(k, v). \<not> P k v) m"
  by (subst range_delete_filter_gen)
    (auto simp: wf_gmap_def map_of_is_SomeI intro!: filter_cong split: option.splits)

section \<open>Ranging over a map that the loop body extends\<close>

text \<open>
  When the body inserts into the map it ranges over, Go leaves open whether the loop visits the
  new keys. Such a loop takes the sequence of keys it visits as an argument: it looks each one up
  in the current map and skips it when it is gone. A \<open>visit_order\<close> gives the sequence for the map
  as it is when the loop starts; it covers the loop when it contains all of its keys.
\<close>

type_synonym 'v visit_order = "'v gmap \<Rightarrow> string list"

definition covers :: "'v visit_order \<Rightarrow> bool" where
  "covers ord \<longleftrightarrow> (\<forall>m. set (map fst m) \<subseteq> set (ord m))"

fun range_visit :: "('s \<Rightarrow> 'v gmap) \<Rightarrow> (string \<Rightarrow> 'v \<Rightarrow> 's \<Rightarrow> 's) \<Rightarrow> string list \<Rightarrow> 's \<Rightarrow> 's" where
  "range_visit get body [] s = s"
| "range_visit get body (k # ks) s =
    range_visit get body ks (case map_of (get s) k of None \<Rightarrow> s | Some v \<Rightarrow> body k v s)"

lemma covers_map_fst: "covers (map fst)"
  by (simp add: covers_def)

lemma range_visit_invariant:
  assumes "P s" and "\<And>k v s. P s \<Longrightarrow> map_of (get s) k = Some v \<Longrightarrow> P (body k v s)"
  shows "P (range_visit get body ks s)"
  using assms(1)
proof (induction ks arbitrary: s)
  case (Cons k ks)
  then have "P (case map_of (get s) k of None \<Rightarrow> s | Some v \<Rightarrow> body k v s)"
    by (cases "map_of (get s) k") (auto intro: assms(2))
  then show ?case using Cons.IH by simp
qed simp

end
