(* ===== verification/Go_Strings.thy ===== *)
theory Go_Strings
  imports Prelude
begin

text \<open>
  The part of Go's standard library for strings that the modelled code calls: \<open>strings\<close>
  (Index, Cut, Split, Join, Trim*, ToUpper and ToLower as keys of ASCII tables), \<open>strconv\<close>
  (Itoa, Atoi, ParseInt, ParseUint), \<open>path/filepath\<close> (Base, Clean, Join on a Unix system) and
  the UTF-8 pass of \<open>string([]rune(s))\<close>. A Go string is a sequence of bytes, here a list of
  \<open>char\<close>; a literal of the source is the same list.
\<close>

section \<open>Prefixes, suffixes, searching\<close>

definition slash :: char where "slash = CHR ''/''"

definition has_prefix :: "string \<Rightarrow> string \<Rightarrow> bool" where
  "has_prefix s p \<longleftrightarrow> take (length p) s = p"

definition has_suffix :: "string \<Rightarrow> string \<Rightarrow> bool" where
  "has_suffix s p \<longleftrightarrow> length p \<le> length s \<and> drop (length s - length p) s = p"

definition trim_prefix :: "string \<Rightarrow> string \<Rightarrow> string" where
  "trim_prefix s p = (if has_prefix s p then drop (length p) s else s)"

definition trim_suffix :: "string \<Rightarrow> string \<Rightarrow> string" where
  "trim_suffix s p = (if has_suffix s p then take (length s - length p) s else s)"

definition trim_left_char :: "char \<Rightarrow> string \<Rightarrow> string" where
  "trim_left_char c s = dropWhile (\<lambda>x. x = c) s"

definition trim_right_char :: "char \<Rightarrow> string \<Rightarrow> string" where
  "trim_right_char c s = rev (dropWhile (\<lambda>x. x = c) (rev s))"

text \<open>\<open>strings.IndexByte\<close> and \<open>strings.Index\<close>; \<open>None\<close> is the result \<open>-1\<close>.\<close>

fun index_char :: "char \<Rightarrow> string \<Rightarrow> nat option" where
  "index_char c [] = None"
| "index_char c (x # xs) = (if x = c then Some 0 else map_option Suc (index_char c xs))"

fun index_sub :: "string \<Rightarrow> string \<Rightarrow> nat option" where
  "index_sub p [] = (if p = [] then Some 0 else None)"
| "index_sub p (x # xs) =
    (if has_prefix (x # xs) p then Some 0 else map_option Suc (index_sub p xs))"

lemma index_char_Some:
  "index_char c s = Some i \<longleftrightarrow> i < length s \<and> s ! i = c \<and> c \<notin> set (take i s)"
  by (induction s arbitrary: i) (auto simp: nth_Cons split: nat.splits)

lemma index_char_None [simp]: "index_char c s = None \<longleftrightarrow> c \<notin> set s"
  by (induction s) auto

lemma index_sub_Some_le: "index_sub p s = Some i \<Longrightarrow> i + length p \<le> length s"
proof (induction s arbitrary: i)
  case (Cons x xs)
  show ?case
  proof (cases "has_prefix (x # xs) p")
    case True
    then have "take (length p) (x # xs) = p" by (simp add: has_prefix_def)
    then have "length p \<le> length (x # xs)" by (metis length_take min.cobounded1)
    with True Cons.prems show ?thesis by simp
  next
    case False
    with Cons.prems Cons.IH show ?thesis by auto
  qed
qed (simp split: if_splits)

section \<open>Splitting and joining\<close>

text \<open>\<open>strings.Split\<close> with a one-byte separator, and \<open>strings.Join\<close>.\<close>

fun split_char :: "char \<Rightarrow> string \<Rightarrow> string list" where
  "split_char c [] = [[]]"
| "split_char c (x # xs) =
    (if x = c then [] # split_char c xs
     else (case split_char c xs of [] \<Rightarrow> [[x]] | w # ws \<Rightarrow> (x # w) # ws))"

fun join :: "string \<Rightarrow> string list \<Rightarrow> string" where
  "join sep [] = []"
| "join sep [w] = w"
| "join sep (w # v # ws) = w @ sep @ join sep (v # ws)"

lemma split_char_not_Nil [simp]: "split_char c s \<noteq> []"
  by (induction s) (auto split: list.splits)

lemma join_split_char: "join [c] (split_char c s) = s"
proof (induction s)
  case (Cons x xs)
  obtain w ws where w: "split_char c xs = w # ws" by (meson neq_Nil_conv split_char_not_Nil)
  with Cons.IH show ?case by (cases ws) auto
qed simp

lemma split_char_no_sep: "c \<notin> set w \<Longrightarrow> split_char c w = [w]"
  by (induction w) auto

lemma split_char_append:
  "c \<notin> set w \<Longrightarrow> split_char c (w @ c # s) = w # split_char c s"
  by (induction w) auto

lemma split_char_elem: "w \<in> set (split_char c s) \<Longrightarrow> c \<notin> set w"
  by (induction s arbitrary: w) (auto split: if_splits list.splits)

lemma set_split_char: "w \<in> set (split_char c s) \<Longrightarrow> set w \<subseteq> set s"
  by (induction s arbitrary: w) (fastforce split: if_splits list.splits)+

lemma split_join_char:
  "ws \<noteq> [] \<Longrightarrow> \<forall>w \<in> set ws. c \<notin> set w \<Longrightarrow> split_char c (join [c] ws) = ws"
proof (induction "[c]" ws rule: join.induct)
  case (2 w)
  then show ?case by (simp add: split_char_no_sep)
next
  case (3 w v ws)
  then show ?case by (simp add: split_char_append)
qed simp

text \<open>\<open>strings.Cut\<close>: the text before and after the first separator, and whether there is one.\<close>

definition cut_char :: "char \<Rightarrow> string \<Rightarrow> string \<times> string \<times> bool" where
  "cut_char c s =
    (case index_char c s of
      None \<Rightarrow> (s, [], False)
    | Some i \<Rightarrow> (take i s, drop (Suc i) s, True))"

lemma cut_char_no_sep: "c \<notin> set s \<Longrightarrow> cut_char c s = (s, [], False)"
  by (auto simp: cut_char_def split: option.splits)

lemma index_char_append: "c \<notin> set w \<Longrightarrow> index_char c (w @ c # s) = Some (length w)"
  by (induction w) auto

lemma cut_char_append: "c \<notin> set w \<Longrightarrow> cut_char c (w @ c # s) = (w, s, True)"
  by (simp add: cut_char_def index_char_append)

text \<open>\<open>strings.Split\<close> with any separator; an empty one splits after every UTF-8 sequence.\<close>

definition byte :: "char \<Rightarrow> nat" where "byte c = of_char c"

definition is_cont :: "char \<Rightarrow> bool" where
  "is_cont c \<longleftrightarrow> 128 \<le> byte c \<and> byte c < 192"

text \<open>The length of the UTF-8 sequence at the start of a string, 0 for an invalid one.\<close>

fun rune_len :: "string \<Rightarrow> nat" where
  "rune_len [] = 0"
| "rune_len (a # s) =
    (let n = byte a in
     if n < 128 then 1
     else if 194 \<le> n \<and> n < 224 then
       (case s of b # _ \<Rightarrow> if is_cont b then 2 else 0 | _ \<Rightarrow> 0)
     else if 224 \<le> n \<and> n < 240 then
       (case s of
          b # c # _ \<Rightarrow>
            if is_cont b \<and> is_cont c \<and> (n = 224 \<longrightarrow> 160 \<le> byte b) \<and> (n = 237 \<longrightarrow> byte b < 160)
            then 3 else 0
        | _ \<Rightarrow> 0)
     else if 240 \<le> n \<and> n < 245 then
       (case s of
          b # c # d # _ \<Rightarrow>
            if is_cont b \<and> is_cont c \<and> is_cont d \<and> (n = 240 \<longrightarrow> 144 \<le> byte b) \<and> (n = 244 \<longrightarrow> byte b < 144)
            then 4 else 0
        | _ \<Rightarrow> 0)
     else 0)"

function explode :: "string \<Rightarrow> string list" where
  "explode s =
    (if s = [] then []
     else (let w = max 1 (rune_len s) in take w s # explode (drop w s)))"
  by pat_completeness auto
termination
  by (relation "measure length") auto

function split_str :: "string \<Rightarrow> string \<Rightarrow> string list" where
  "split_str sep s =
    (if sep = [] then explode s
     else (case index_sub sep s of
        None \<Rightarrow> [s]
      | Some i \<Rightarrow> take i s # split_str sep (drop (i + length sep) s)))"
  by pat_completeness auto
termination
proof (relation "measure (\<lambda>(sep, s). length s)", goal_cases)
  case (2 sep s i)
  then have "i + length sep \<le> length s"
    by (auto dest!: index_sub_Some_le)
  moreover obtain n where "length sep = Suc n"
    using "2"(1) by (cases sep) auto
  ultimately have "length s - (i + length sep) < length s" by linarith
  then show ?case by simp
qed simp

declare explode.simps [simp del] split_str.simps [simp del]

text \<open>
  \<open>string([]rune(s))\<close>: every invalid byte becomes the replacement character U+FFFD. The loops
  of the modelled parsers compare runes with ASCII characters only, and an ASCII character is
  never part of a longer UTF-8 sequence, so the loops run over the bytes of this string.
\<close>

function utf8_fix :: "string \<Rightarrow> string" where
  "utf8_fix s =
    (if s = [] then []
     else if rune_len s = 0
     then CHR 0xEF # CHR 0xBF # CHR 0xBD # utf8_fix (tl s)
     else take (rune_len s) s @ utf8_fix (drop (rune_len s) s))"
  by pat_completeness auto
termination
  by (relation "measure length") auto

declare utf8_fix.simps [simp del]

definition is_ascii :: "string \<Rightarrow> bool" where
  "is_ascii s \<longleftrightarrow> list_all (\<lambda>c. byte c < 128) s"

lemma rune_len_ascii: "byte c < 128 \<Longrightarrow> rune_len (c # s) = 1"
  by simp

lemma utf8_fix_Nil [simp]: "utf8_fix [] = []"
  by (simp add: utf8_fix.simps)

lemma utf8_fix_ascii: "is_ascii s \<Longrightarrow> utf8_fix s = s"
proof (induction s)
  case (Cons c s)
  then have "byte c < 128" "utf8_fix s = s" by (auto simp: is_ascii_def)
  then show ?case by (subst utf8_fix.simps) (simp del: rune_len.simps add: rune_len_ascii)
qed simp

section \<open>Trimming white space, letter case\<close>

text \<open>The UTF-8 encodings of the white space characters \<open>strings.TrimSpace\<close> removes.\<close>

definition spaces :: "string list" where
  "spaces =
    [[CHR 9], [CHR 10], [CHR 11], [CHR 12], [CHR 13], [CHR 32],
     [CHR 0xC2, CHR 0x85], [CHR 0xC2, CHR 0xA0], [CHR 0xE1, CHR 0x9A, CHR 0x80]] @
    map (\<lambda>n. [CHR 0xE2, CHR 0x80, char_of (n + 128)]) [0..<11] @
    [[CHR 0xE2, CHR 0x80, CHR 0xA8], [CHR 0xE2, CHR 0x80, CHR 0xA9],
     [CHR 0xE2, CHR 0x80, CHR 0xAF], [CHR 0xE2, CHR 0x81, CHR 0x9F],
     [CHR 0xE3, CHR 0x80, CHR 0x80]]"

fun drop_spaces :: "nat \<Rightarrow> string list \<Rightarrow> string \<Rightarrow> string" where
  "drop_spaces 0 ws s = s"
| "drop_spaces (Suc n) ws s =
    (case find (has_prefix s) ws of
      None \<Rightarrow> s
    | Some w \<Rightarrow> drop_spaces n ws (drop (length w) s))"

definition trim_space :: "string \<Rightarrow> string" where
  "trim_space s =
    (let l = drop_spaces (length s) spaces s
     in rev (drop_spaces (length l) (map rev spaces) (rev l)))"

text \<open>
  \<open>strings.ToUpper\<close> and \<open>strings.ToLower\<close> where the result is only compared with ASCII
  constants: the ASCII letters are mapped, and so are the four other letters whose counterpart
  is ASCII (U+0131, U+017F, U+0130, U+212A). Other letters stay, and match no ASCII constant.
\<close>

definition upper_char :: "char \<Rightarrow> char" where
  "upper_char c = (if 97 \<le> byte c \<and> byte c \<le> 122 then char_of (byte c - 32) else c)"

definition lower_char :: "char \<Rightarrow> char" where
  "lower_char c = (if 65 \<le> byte c \<and> byte c \<le> 90 then char_of (byte c + 32) else c)"

fun to_upper :: "string \<Rightarrow> string" where
  "to_upper [] = []"
| "to_upper (a # s) =
    (case s of
      b # t \<Rightarrow>
        if a = CHR 0xC4 \<and> b = CHR 0xB1 then CHR ''I'' # to_upper t
        else if a = CHR 0xC5 \<and> b = CHR 0xBF then CHR ''S'' # to_upper t
        else upper_char a # to_upper s
    | [] \<Rightarrow> [upper_char a])"

fun to_lower :: "string \<Rightarrow> string" where
  "to_lower [] = []"
| "to_lower (a # s) =
    (case s of
      b # t \<Rightarrow>
        if a = CHR 0xC4 \<and> b = CHR 0xB0 then CHR ''i'' # to_lower t
        else (case t of
            c # u \<Rightarrow>
              if a = CHR 0xE2 \<and> b = CHR 0x84 \<and> c = CHR 0xAA then CHR ''k'' # to_lower u
              else lower_char a # to_lower s
          | [] \<Rightarrow> lower_char a # to_lower s)
    | [] \<Rightarrow> [lower_char a])"

section \<open>Decimal numbers\<close>

fun dec :: "nat \<Rightarrow> string" where
  "dec n = (if n < 10 then [char_of (48 + n)] else dec (n div 10) @ [char_of (48 + n mod 10)])"

declare dec.simps [simp del]

definition digit_val :: "char \<Rightarrow> nat option" where
  "digit_val c = (if 48 \<le> byte c \<and> byte c \<le> 57 then Some (byte c - 48) else None)"

fun parse_digits :: "nat \<Rightarrow> string \<Rightarrow> nat option" where
  "parse_digits acc [] = Some acc"
| "parse_digits acc (c # s) =
    (case digit_val c of None \<Rightarrow> None | Some d \<Rightarrow> parse_digits (10 * acc + d) s)"

definition parse_nat :: "string \<Rightarrow> nat option" where
  "parse_nat s = (if s = [] then None else parse_digits 0 s)"

text \<open>
  \<open>strconv.FormatUint\<close>, \<open>strconv.Itoa\<close>, \<open>strconv.ParseUint(s, 10, 64)\<close> and
  \<open>strconv.ParseInt(s, 10, 64)\<close>, which is also \<open>strconv.Atoi\<close> on a 64-bit system. The second
  component is the error, the first the value that accompanies it: 0 for a syntax error, the
  nearest bound for a range error.
\<close>

definition itoa :: "int \<Rightarrow> string" where
  "itoa i = (if i < 0 then CHR ''-'' # dec (nat (- i)) else dec (nat i))"

datatype num_err = ErrSyntax | ErrRange

definition parse_uint :: "string \<Rightarrow> int \<times> num_err option" where
  "parse_uint s =
    (case parse_nat s of
      None \<Rightarrow> (0, Some ErrSyntax)
    | Some n \<Rightarrow> if n < 2 ^ 64 then (int n, None) else (2 ^ 64 - 1, Some ErrRange))"

definition parse_int :: "string \<Rightarrow> int \<times> num_err option" where
  "parse_int s =
    (let (neg, t) = (case s of
        [] \<Rightarrow> (False, [])
      | c # r \<Rightarrow> if c = CHR ''-'' then (True, r) else if c = CHR ''+'' then (False, r) else (False, s))
     in case parse_nat t of
      None \<Rightarrow> (0, Some ErrSyntax)
    | Some n \<Rightarrow>
        if neg then (if n \<le> 2 ^ 63 then (- int n, None) else (- (2 ^ 63), Some ErrRange))
        else (if n < 2 ^ 63 then (int n, None) else (2 ^ 63 - 1, Some ErrRange)))"

definition atoi :: "string \<Rightarrow> int res" where
  "atoi s = (case parse_int s of (i, None) \<Rightarrow> Inr i | (_, Some _) \<Rightarrow> Inl ''strconv.Atoi'')"

lemma byte_char_of [simp]: "n < 256 \<Longrightarrow> byte (char_of n) = n"
  by (simp add: byte_def)

lemma digit_val_char_of [simp]: "d < 10 \<Longrightarrow> digit_val (char_of (48 + d)) = Some d"
  by (simp add: digit_val_def)

lemma parse_digits_append:
  "parse_digits acc (s @ t) = Option.bind (parse_digits acc s) (\<lambda>a. parse_digits a t)"
  by (induction s arbitrary: acc) (auto split: option.splits)

lemma dec_not_Nil [simp]: "dec n \<noteq> []"
  by (subst dec.simps) simp

lemma parse_digits_dec: "parse_digits 0 (dec n) = Some n"
proof (induction n rule: dec.induct)
  case (1 n)
  show ?case
  proof (cases "n < 10")
    case True
    then show ?thesis by (subst dec.simps) simp
  next
    case False
    with 1 have "parse_digits 0 (dec (n div 10)) = Some (n div 10)" by simp
    with False show ?thesis by (subst dec.simps) (simp add: parse_digits_append)
  qed
qed

lemma parse_nat_dec [simp]: "parse_nat (dec n) = Some n"
  by (simp add: parse_nat_def parse_digits_dec)

lemma dec_digit: "c \<in> set (dec n) \<Longrightarrow> 48 \<le> byte c \<and> byte c \<le> 57"
proof (induction n rule: dec.induct)
  case (1 n)
  have "n mod 10 < 10" by simp
  with 1 show ?case by (subst (asm) (2) dec.simps) (auto split: if_splits)
qed

lemma hd_dec_not_sign: "dec n = c # r \<Longrightarrow> c \<noteq> CHR ''-'' \<and> c \<noteq> CHR ''+''"
  using dec_digit [of c n] by (auto simp: byte_def)

text \<open>Printing a 64-bit integer and reading it back gives the integer.\<close>

lemma parse_int_itoa:
  assumes "- (2 ^ 63) \<le> i" and "i < 2 ^ 63"
  shows "parse_int (itoa i) = (i, None)"
proof (cases "i < 0")
  case True
  with assms have "nat (- i) \<le> 2 ^ 63" by simp
  with True show ?thesis by (simp add: parse_int_def itoa_def)
next
  case False
  with assms have "nat i < 2 ^ 63" by simp
  moreover obtain c r where "dec (nat i) = c # r" by (meson dec_not_Nil neq_Nil_conv)
  moreover from this have "c \<noteq> CHR ''-'' \<and> c \<noteq> CHR ''+''" by (rule hd_dec_not_sign)
  moreover from \<open>dec (nat i) = c # r\<close> have "parse_nat (c # r) = Some (nat i)"
    by (metis parse_nat_dec)
  ultimately show ?thesis using False by (simp add: parse_int_def itoa_def)
qed

lemma atoi_itoa: "- (2 ^ 63) \<le> i \<Longrightarrow> i < 2 ^ 63 \<Longrightarrow> atoi (itoa i) = Inr i"
  by (simp add: atoi_def parse_int_itoa)

lemma parse_int_bounds: "parse_int s = (i, e) \<Longrightarrow> - (2 ^ 63) \<le> i \<and> i < 2 ^ 63"
  by (auto simp: parse_int_def Let_def split: prod.splits option.splits if_splits)

lemma atoi_bounds: "atoi s = Inr i \<Longrightarrow> - (2 ^ 63) \<le> i \<and> i < 2 ^ 63"
  by (cases "parse_int s") (auto simp: atoi_def dest: parse_int_bounds split: option.splits)

section \<open>File paths\<close>

definition base_name :: "string \<Rightarrow> string" where
  "base_name s =
    (if s = [] then ''.''
     else let t = trim_right_char slash s;
              b = rev (takeWhile (\<lambda>c. c \<noteq> slash) (rev t))
          in if b = [] then ''/'' else b)"

fun clean_segs :: "bool \<Rightarrow> string list \<Rightarrow> string list \<Rightarrow> string list" where
  "clean_segs rooted out [] = rev out"
| "clean_segs rooted out (w # ws) =
    (if w = [] \<or> w = ''.'' then clean_segs rooted out ws
     else if w = ''..'' then
       (case out of
          [] \<Rightarrow> clean_segs rooted (if rooted then [] else [w]) ws
        | o' # os \<Rightarrow> clean_segs rooted (if o' = ''..'' then w # out else os) ws)
     else clean_segs rooted (w # out) ws)"

definition clean_path :: "string \<Rightarrow> string" where
  "clean_path p =
    (let rooted = (p \<noteq> [] \<and> hd p = slash);
         t = join ''/'' (clean_segs rooted [] (split_char slash p))
     in if rooted then slash # t else if t = [] then ''.'' else t)"

definition join_path :: "string list \<Rightarrow> string" where
  "join_path ws =
    (case dropWhile (\<lambda>w. w = []) ws of
      [] \<Rightarrow> []
    | ws' \<Rightarrow> clean_path (join ''/'' ws'))"

end
