(* ===== verification/Go_Float.thy ===== *)
theory Go_Float
  imports Prelude
begin

text \<open>
  IEEE 754 binary64 and binary32 values as Go stores them: a \<open>float64\<close> is its 64-bit pattern, a
  \<open>float32\<close> its 32-bit pattern (\<open>math.Float64frombits\<close> and \<open>math.Float32frombits\<close> are then the
  identity). Conversions and the four operations the modelled code uses go through the exact
  value: decode the pattern, compute with integers, and encode the exact quotient with
  round-to-nearest-even, which is how IEEE 754 defines them.
\<close>

datatype fval = FNaN | FInf bool | FNum bool nat int \<comment> \<open>sign, m, e: the value is m times 2 to the e\<close>

definition decode_float :: "nat \<Rightarrow> nat \<Rightarrow> nat \<Rightarrow> fval" where
  "decode_float mbits ebits n =
    (let man = n mod 2 ^ mbits;
         ex = (n div 2 ^ mbits) mod 2 ^ ebits;
         neg = odd (n div 2 ^ (mbits + ebits));
         bias = 2 ^ (ebits - 1) - 1 + int mbits
     in if ex = 2 ^ ebits - 1 then (if man = 0 then FInf neg else FNaN)
        else if ex = 0 then FNum neg man (1 - bias)
        else FNum neg (2 ^ mbits + man) (int ex - bias))"

definition decode64 :: "64 word \<Rightarrow> fval" where
  "decode64 w = decode_float 52 11 (unat w)"

definition decode32 :: "32 word \<Rightarrow> fval" where
  "decode32 w = decode_float 23 8 (unat w)"

fun bitlen :: "nat \<Rightarrow> nat" where
  "bitlen n = (if n = 0 then 0 else Suc (bitlen (n div 2)))"

declare bitlen.simps [simp del]

definition pow2 :: "int \<Rightarrow> nat" where
  "pow2 e = 2 ^ nat e"

text \<open>
  The nearest binary64 number to \<open>n / d\<close>, ties to even: the exponent of the last place
  (subnormal numbers share the smallest one), then the rounded significand. A carry out of the
  significand moves into the exponent field by itself.
\<close>

definition enc_exp :: "nat \<Rightarrow> nat \<Rightarrow> int" where
  "enc_exp n d =
    (let k = int (bitlen n) - int (bitlen d);
         fl = (if d * pow2 k \<le> n * pow2 (- k) then k else k - 1)
     in max (fl - 52) (- 1074))"

definition enc_mant :: "nat \<Rightarrow> nat \<Rightarrow> int \<Rightarrow> nat" where
  "enc_mant n d e =
    (let num = n * pow2 (- e);
         den = d * pow2 e;
         q = num div den;
         r = num mod den
     in if den < 2 * r \<or> (2 * r = den \<and> odd q) then Suc q else q)"

definition encode64 :: "bool \<Rightarrow> nat \<Rightarrow> nat \<Rightarrow> 64 word" where
  "encode64 neg n d =
    word_of_nat ((if neg then 2 ^ 63 else 0) +
      (if n = 0 then 0
       else min (2047 * 2 ^ 52) (nat (enc_exp n d + 1074) * 2 ^ 52 + enc_mant n d (enc_exp n d))))"

definition f64_nan :: "64 word" where "f64_nan = 0x7FF8000000000001"
definition f64_inf :: "bool \<Rightarrow> 64 word" where
  "f64_inf neg = (if neg then 0xFFF0000000000000 else 0x7FF0000000000000)"

text \<open>\<open>float64(i)\<close> for an integer, and the truncating conversion back (\<open>None\<close>: not finite).\<close>

definition f64_of_int :: "int \<Rightarrow> 64 word" where
  "f64_of_int i = encode64 (i < 0) (nat \<bar>i\<bar>) 1"

definition trunc_fval :: "fval \<Rightarrow> int option" where
  "trunc_fval v =
    (case v of
      FNum neg m e \<Rightarrow>
        let t = int (m * pow2 e div pow2 (- e)) in Some (if neg then - t else t)
    | _ \<Rightarrow> None)"

definition f64_trunc :: "64 word \<Rightarrow> int option" where "f64_trunc w = trunc_fval (decode64 w)"
definition f32_trunc :: "32 word \<Rightarrow> int option" where "f32_trunc w = trunc_fval (decode32 w)"

definition fval_neg :: "fval \<Rightarrow> bool" where
  "fval_neg v = (case v of FNaN \<Rightarrow> False | FInf neg \<Rightarrow> neg | FNum neg m e \<Rightarrow> neg \<and> m \<noteq> 0)"

definition f64_of_fval :: "fval \<Rightarrow> 64 word" where
  "f64_of_fval v =
    (case v of
      FNaN \<Rightarrow> f64_nan
    | FInf neg \<Rightarrow> f64_inf neg
    | FNum neg m e \<Rightarrow> encode64 neg (m * pow2 e) (pow2 (- e)))"

definition f64_of_f32 :: "32 word \<Rightarrow> 64 word" where "f64_of_f32 w = f64_of_fval (decode32 w)"

text \<open>Product and quotient of two \<open>float64\<close> values.\<close>

definition f64_mul :: "64 word \<Rightarrow> 64 word \<Rightarrow> 64 word" where
  "f64_mul a b =
    (case (decode64 a, decode64 b) of
      (FNum s m e, FNum t n f) \<Rightarrow>
        encode64 (s \<noteq> t) (m * n * pow2 (e + f)) (pow2 (- (e + f)))
    | (FInf s, FInf t) \<Rightarrow> f64_inf (s \<noteq> t)
    | (FInf s, FNum t n f) \<Rightarrow> if n = 0 then f64_nan else f64_inf (s \<noteq> t)
    | (FNum s m e, FInf t) \<Rightarrow> if m = 0 then f64_nan else f64_inf (s \<noteq> t)
    | _ \<Rightarrow> f64_nan)"

definition f64_div :: "64 word \<Rightarrow> 64 word \<Rightarrow> 64 word" where
  "f64_div a b =
    (case (decode64 a, decode64 b) of
      (FNum s m e, FNum t n f) \<Rightarrow>
        if n = 0 then (if m = 0 then f64_nan else f64_inf (s \<noteq> t))
        else encode64 (s \<noteq> t) (m * pow2 (e - f)) (n * pow2 (f - e))
    | (FInf s, FNum t n f) \<Rightarrow> f64_inf (s \<noteq> t)
    | (FNum s m e, FInf t) \<Rightarrow> encode64 (s \<noteq> t) 0 1
    | _ \<Rightarrow> f64_nan)"

definition f64_finite :: "64 word \<Rightarrow> bool" where
  "f64_finite w = (case decode64 w of FNum _ _ _ \<Rightarrow> True | _ \<Rightarrow> False)"

definition f32_finite :: "32 word \<Rightarrow> bool" where
  "f32_finite w = (case decode32 w of FNum _ _ _ \<Rightarrow> True | _ \<Rightarrow> False)"

section \<open>Integers up to 2 to the 53 are represented exactly\<close>

lemma bitlen_0 [simp]: "bitlen 0 = 0"
  by (simp add: bitlen.simps)

lemma bitlen_pos: "0 < n \<Longrightarrow> 0 < bitlen n"
  by (subst bitlen.simps) simp

lemma bitlen_bounds: "0 < n \<Longrightarrow> 2 ^ (bitlen n - 1) \<le> n \<and> n < 2 ^ bitlen n"
proof (induction n rule: bitlen.induct)
  case (1 n)
  show ?case
  proof (cases "n div 2 = 0")
    case True
    with "1.prems" have "n = 1" by auto
    then show ?thesis by (simp add: bitlen.simps)
  next
    case False
    with "1.prems" "1.IH" have IH: "2 ^ (bitlen (n div 2) - 1) \<le> n div 2" "n div 2 < 2 ^ bitlen (n div 2)"
      by auto
    from False bitlen_pos [of "n div 2"] have "bitlen (n div 2) = Suc (bitlen (n div 2) - 1)"
      by simp
    with IH have "2 ^ bitlen (n div 2) \<le> n \<and> n < 2 * 2 ^ bitlen (n div 2)"
      by (metis (no_types, lifting) div_less_iff_less_mult less_eq_div_iff_mult_less_eq
          mult.commute power_Suc zero_less_numeral)
    with "1.prems" show ?thesis by (subst (1 2) bitlen.simps) simp
  qed
qed

lemma bitlen_1: "bitlen (Suc 0) = 1"
  by (simp add: bitlen.simps)

text \<open>The exponent and the significand the encoder chooses for a small integer.\<close>

lemma bitlen_le_53: "0 < n \<Longrightarrow> n < 2 ^ 53 \<Longrightarrow> bitlen n \<le> 53"
proof (rule ccontr)
  assume n: "0 < n" "n < 2 ^ 53" and "\<not> bitlen n \<le> 53"
  then have "(2::nat) ^ 53 \<le> 2 ^ (bitlen n - 1)" by (intro power_increasing) auto
  with bitlen_bounds [OF n(1)] n(2) show False by linarith
qed

lemma enc_exp_small:
  assumes "0 < n" and "n < 2 ^ 53"
  shows "enc_exp n 1 = int (bitlen n) - 53"
proof -
  from assms bitlen_bounds bitlen_pos
  have lo: "2 ^ (bitlen n - 1) \<le> n" and pos: "0 < bitlen n" by auto
  have k: "int (bitlen n) - int (bitlen 1) = int (bitlen n - 1)"
    using pos by (simp add: bitlen_1 of_nat_diff)
  have p: "pow2 (int (bitlen n - 1)) = 2 ^ (bitlen n - 1)" "pow2 (- int (bitlen n - 1)) = 1"
    by (simp_all add: pow2_def)
  have "enc_exp n 1 = max (int (bitlen n - 1) - 52) (- 1074)"
    unfolding enc_exp_def Let_def k p using lo by simp
  also have "\<dots> = int (bitlen n) - 53" using pos by (simp add: of_nat_diff)
  finally show ?thesis .
qed

lemma enc_mant_small:
  assumes "0 < n" and "n < 2 ^ 53"
  shows "enc_mant n 1 (int (bitlen n) - 53) = n * 2 ^ (53 - bitlen n)"
proof -
  have "bitlen n \<le> 53" using assms by (rule bitlen_le_53)
  then have p: "pow2 (- (int (bitlen n) - 53)) = 2 ^ (53 - bitlen n)" "pow2 (int (bitlen n) - 53) = 1"
    by (simp_all add: pow2_def nat_diff_distrib)
  show ?thesis unfolding enc_mant_def Let_def p by simp
qed

lemma scaled_bounds:
  assumes "0 < n" and "n < 2 ^ 53"
  shows "2 ^ 52 \<le> n * 2 ^ (53 - bitlen n)" and "n * 2 ^ (53 - bitlen n) < 2 ^ 53"
proof -
  from assms have b: "bitlen n \<le> 53" "0 < bitlen n" by (auto intro: bitlen_le_53 bitlen_pos)
  from bitlen_bounds [OF assms(1)] have n: "2 ^ (bitlen n - 1) \<le> n" "n < 2 ^ bitlen n" by auto
  have "(2::nat) ^ 52 = 2 ^ (bitlen n - 1) * 2 ^ (53 - bitlen n)"
    using b by (simp flip: power_add)
  moreover have "2 ^ (bitlen n - 1) * 2 ^ (53 - bitlen n) \<le> n * 2 ^ (53 - bitlen n)"
    using n(1) by (rule mult_right_mono) simp
  ultimately show "2 ^ 52 \<le> n * 2 ^ (53 - bitlen n)" by simp
  have "(2::nat) ^ 53 = 2 ^ bitlen n * 2 ^ (53 - bitlen n)"
    using b by (simp flip: power_add)
  moreover have "n * 2 ^ (53 - bitlen n) < 2 ^ bitlen n * 2 ^ (53 - bitlen n)"
    using n(2) by (rule mult_strict_right_mono) simp
  ultimately show "n * 2 ^ (53 - bitlen n) < 2 ^ 53" by simp
qed

text \<open>The pattern of a small non-zero integer: exponent field and significand.\<close>

definition small_pattern :: "bool \<Rightarrow> nat \<Rightarrow> nat" where
  "small_pattern neg n =
    (if neg then 2 ^ 63 else 0) + ((1022 + bitlen n) * 2 ^ 52 + (n * 2 ^ (53 - bitlen n) - 2 ^ 52))"

lemma unat_encode64_small:
  assumes "0 < n" and "n < 2 ^ 53"
  shows "unat (encode64 neg n 1) = small_pattern neg n"
proof -
  from assms have b: "bitlen n \<le> 53" "0 < bitlen n" by (auto intro: bitlen_le_53 bitlen_pos)
  let ?q = "n * 2 ^ (53 - bitlen n)"
  note q = scaled_bounds [OF assms]
  have ex: "nat (int (bitlen n) - 53 + 1074) = 1021 + bitlen n" by linarith
  have eq: "(1021 + bitlen n) * 2 ^ 52 + ?q = (1022 + bitlen n) * 2 ^ 52 + (?q - 2 ^ 52)"
    using q(1) by (simp add: algebra_simps)
  have "(1021 + bitlen n) * 2 ^ 52 \<le> 1074 * (2::nat) ^ 52" using b by (intro mult_right_mono) auto
  with q(2) have lt: "(1021 + bitlen n) * 2 ^ 52 + ?q < 2047 * 2 ^ 52" by simp
  then have m: "min (2047 * 2 ^ 52) ((1021 + bitlen n) * 2 ^ 52 + ?q) = (1021 + bitlen n) * 2 ^ 52 + ?q"
    by (intro min_absorb2) linarith
  have "encode64 neg n 1 = word_of_nat (small_pattern neg n)"
    unfolding encode64_def enc_exp_small [OF assms] enc_mant_small [OF assms] ex m small_pattern_def
    using assms(1) by (simp only: eq [symmetric] if_False less_not_refl2)
  moreover have "small_pattern neg n < 2 ^ 64"
    using lt unfolding small_pattern_def eq [symmetric] by (cases neg) simp_all
  ultimately show ?thesis by (simp add: unsigned_of_nat take_bit_nat_eq_self)
qed

lemma decode_small_pattern:
  assumes "0 < n" and "n < 2 ^ 53"
  shows "decode_float 52 11 (small_pattern neg n) =
    FNum neg (n * 2 ^ (53 - bitlen n)) (int (bitlen n) - 53)"
proof -
  from assms have b: "bitlen n \<le> 53" "0 < bitlen n" by (auto intro: bitlen_le_53 bitlen_pos)
  define m where "m = n * 2 ^ (53 - bitlen n) - 2 ^ 52"
  define x where "x = 1022 + bitlen n"
  have m: "m < 2 ^ 52" "2 ^ 52 + m = n * 2 ^ (53 - bitlen n)"
    using scaled_bounds [OF assms] by (simp_all add: m_def)
  have x: "x < 2047" "0 < x" using b by (simp_all add: x_def)
  have w: "small_pattern neg n = ((if neg then 2048 else 0) + x) * 2 ^ 52 + m"
    by (simp add: small_pattern_def m_def x_def algebra_simps)
  have d: "small_pattern neg n div 2 ^ 52 = (if neg then 2048 else 0) + x"
    "small_pattern neg n mod 2 ^ 52 = m"
    unfolding w using m(1) by (simp_all only: div_mult_self3 mod_mult_self3 div_less mod_less)
  have s: "small_pattern neg n div 2 ^ (52 + 11) = ((if neg then 2048 else 0) + x) div 2048"
    unfolding power_add div_mult2_eq d by simp
  have t: "((if neg then 2048 else 0) + x) div 2048 = (if neg then 1 else 0)"
    "((if neg then 2048 else 0) + x) mod 2 ^ 11 = x"
    using x(1) by (cases neg; simp)+
  have e: "int x - (2 ^ (11 - 1) - 1 + int 52) = int (bitlen n) - 53" by (simp add: x_def)
  show ?thesis
    unfolding decode_float_def Let_def s t d e using x m(2) by (simp add: x_def)
qed

text \<open>\<open>int(float64(i)) = i\<close> whenever \<open>i\<close> has at most 53 significant bits.\<close>

lemma f64_trunc_of_int:
  assumes "\<bar>i\<bar> < 2 ^ 53"
  shows "f64_trunc (f64_of_int i) = Some i"
proof (cases "i = 0")
  case True
  then show ?thesis
    by (simp add: f64_trunc_def f64_of_int_def encode64_def decode64_def decode_float_def
        trunc_fval_def pow2_def)
next
  case False
  define n where "n = nat \<bar>i\<bar>"
  have n: "0 < n" "n < 2 ^ 53" using False assms by (auto simp: n_def)
  then have b: "bitlen n \<le> 53" by (rule bitlen_le_53)
  have "decode64 (f64_of_int i) = FNum (i < 0) (n * 2 ^ (53 - bitlen n)) (int (bitlen n) - 53)"
    unfolding decode64_def f64_of_int_def n_def [symmetric] unat_encode64_small [OF n]
    by (rule decode_small_pattern [OF n])
  moreover have "pow2 (int (bitlen n) - 53) = 1" "pow2 (- (int (bitlen n) - 53)) = 2 ^ (53 - bitlen n)"
    using b by (simp_all add: pow2_def nat_diff_distrib)
  ultimately have "f64_trunc (f64_of_int i) = Some (if i < 0 then - int n else int n)"
    unfolding f64_trunc_def trunc_fval_def by (simp add: Let_def)
  then show ?thesis by (simp add: n_def)
qed

end
