(* ===== verification/Gnmi_Types.thy ===== *)
theory Gnmi_Types
  imports Go_Strings Go_Float
begin

text \<open>
  The gNMI protocol messages the program exchanges, as the Go structures generated from
  \<open>gnmi.proto\<close> present them: pointers are options, repeated fields lists, \<open>oneof\<close> fields
  datatypes. A \<open>bytes\<close> field is a list of bytes.
\<close>

section \<open>Paths\<close>

record path_elem =
  pe_name :: string
  pe_key :: "string nmap"

record gpath =
  p_origin :: string
  p_elem :: "path_elem list"
  p_target :: string

definition empty_path :: gpath where
  "empty_path = \<lparr>p_origin = [], p_elem = [], p_target = []\<rparr>"

text \<open>The generated getters read a zero value through a nil pointer.\<close>

definition get_elem :: "gpath option \<Rightarrow> path_elem list" where
  "get_elem p = (case p of None \<Rightarrow> [] | Some q \<Rightarrow> p_elem q)"

definition get_target :: "gpath option \<Rightarrow> string" where
  "get_target p = (case p of None \<Rightarrow> [] | Some q \<Rightarrow> p_target q)"

section \<open>Values, updates and notifications\<close>

datatype typed_value =
    TVUnset
  | TVAscii string
  | TVBool bool
  | TVBytes string
  | TVDecimal "64 word" "32 word" \<comment> \<open>digits, precision\<close>
  | TVFloat "32 word"
  | TVDouble "64 word"
  | TVInt "64 word"
  | TVString string
  | TVUint "64 word"
  | TVLeaflist "typed_value list"
  | TVProtoBytes string
  | TVAny string
  | TVJsonIetf string
  | TVJson string

record gupdate =
  u_path :: "gpath option"
  u_val :: "typed_value option"

record notification =
  n_timestamp :: "64 word"
  n_prefix :: "gpath option"
  n_update :: "gupdate list"
  n_delete :: "gpath list"
  n_atomic :: bool

datatype subscribe_response = SRUpdate notification | SRSync bool | SRUnset

text \<open>The extensions the program builds; \<open>ExtOther\<close> stands for any other, by its serialisation.\<close>

datatype commit_action =
    CommitRequest "64 word" | CommitConfirm | CommitCancel | CommitSetRollback "64 word"

datatype history_request = HistorySnapshot "64 word" | HistoryRange "64 word" "64 word"

datatype extension =
    ExtCommit string commit_action
  | ExtDepth "32 word"
  | ExtHistory history_request
  | ExtOther string

record get_response =
  gr_notification :: "notification list"
  gr_extension :: "extension list"

section \<open>Values of Go type any\<close>

text \<open>
  The dynamic types that flow through the event pipeline. \<open>VTypedNil\<close> is a nil map or slice
  inside an interface (not the nil interface \<open>VNil\<close>), \<open>VProto\<close> a pointer to a protobuf message.
\<close>

datatype nil_kind = KBytes | KMap | KList | KStrMap | KStrList

datatype gval =
    VNil
  | VBool bool
  | VStr string
  | VInt "64 word" | VInt8 "8 word" | VInt16 "16 word" | VInt32 "32 word" | VInt64 "64 word"
  | VUint "64 word" | VUint8 "8 word" | VUint16 "16 word" | VUint32 "32 word" | VUint64 "64 word"
  | VF32 "32 word"
  | VF64 "64 word"
  | VBytes string
  | VList "gval list"
  | VMap "(string \<times> gval) list"
  | VStrMap "(string \<times> string) list"
  | VStrList "string list"
  | VTypedNil nil_kind
  | VProto typed_value

lemma size_gval_entry [termination_simp]:
  "(k, v) \<in> set kvs \<Longrightarrow> size v < Suc (size_list (size_prod (\<lambda>_. 0) size) kvs)"
  by (induction kvs) auto

definition as_str :: "gval \<Rightarrow> string option" where
  "as_str v = (case v of VStr s \<Rightarrow> Some s | _ \<Rightarrow> None)"

lemma as_str_Some [simp]: "as_str v = Some s \<longleftrightarrow> v = VStr s"
  by (cases v) (auto simp: as_str_def)

lemma as_str_VStr [simp]: "as_str (VStr s) = Some s"
  by (simp add: as_str_def)

section \<open>Events\<close>

text \<open>
  \<open>EventMsg\<close> of \<open>pkg/formatters/event.go\<close>. The processors receive pointers, which may be nil:
  \<open>event_msg option\<close>. They update the message in place; the model returns the updated message.
\<close>

record event_msg =
  em_name :: string
  em_timestamp :: "64 word"
  em_tags :: "string nmap"
  em_values :: "gval nmap"
  em_deletes :: "string list option"

abbreviation tags_of :: "event_msg \<Rightarrow> string gmap" where
  "tags_of e \<equiv> entries (em_tags e)"

abbreviation values_of :: "event_msg \<Rightarrow> gval gmap" where
  "values_of e \<equiv> entries (em_values e)"

definition deletes_of :: "event_msg \<Rightarrow> string list" where
  "deletes_of e = (case em_deletes e of None \<Rightarrow> [] | Some ds \<Rightarrow> ds)"

definition zero_event :: event_msg where
  "zero_event = \<lparr>em_name = [], em_timestamp = 0, em_tags = None, em_values = None, em_deletes = None\<rparr>"

definition wf_event :: "event_msg \<Rightarrow> bool" where
  "wf_event e \<longleftrightarrow> wf_nmap (em_tags e) \<and> wf_nmap (em_values e)"

end
