(* ===== verification/Event.thy ===== *)
theory Event
  imports Gnmi_Types
begin

text \<open>
  \<open>pkg/formatters/event.go\<close> and \<open>getValue\<close> of \<open>pkg/formatters/msg.go\<close>: the conversion of gNMI
  responses to events, and of events to and from generic maps. Parameters: \<open>unm\<close> is
  \<open>json.Unmarshal\<close> into an \<open>any\<close>, \<open>flat\<close> is \<open>Flatten\<close> of the go-map-flattener package with the
  given prefix.
\<close>

section \<open>Tags from paths\<close>

fun key_tags :: "string \<Rightarrow> string gmap \<Rightarrow> string gmap \<Rightarrow> string gmap" where
  "key_tags nm [] tags = tags"
| "key_tags nm ((k, v) # kvs) tags =
    key_tags nm kvs
      (if nm = [] then gset k v tags
       else gset (last (split_char CHR '':'' nm) @ ''_'' @ k) v tags)"

fun elems_tags :: "path_elem list \<Rightarrow> string \<times> string gmap \<Rightarrow> string \<times> string gmap" where
  "elems_tags [] st = st"
| "elems_tags (e # es) (sb, tags) =
    elems_tags es
      (if pe_name e \<noteq> [] then sb @ ''/'' @ pe_name e else sb,
       key_tags (pe_name e) (entries (pe_key e)) tags)"

definition tags_from_path :: "gpath option \<Rightarrow> string \<times> string nmap" where
  "tags_from_path p =
    (case p of
      None \<Rightarrow> ([], None)
    | Some q \<Rightarrow>
        let sb = (if p_origin q \<noteq> [] then p_origin q @ '':'' else []);
            (name, tags) = elems_tags (p_elem q) (sb, [])
        in (name, Some (if p_target q \<noteq> [] then gset ''target'' (p_target q) tags else tags)))"

section \<open>Values\<close>

fun normalize_empty :: "gval \<Rightarrow> gval" where
  "normalize_empty VNil = VBool True"
| "normalize_empty (VList xs) =
    (case xs of [VNil] \<Rightarrow> VBool True | _ \<Rightarrow> VList (map normalize_empty xs))"
| "normalize_empty (VMap kvs) = VMap (map (\<lambda>(k, v). (k, normalize_empty v)) kvs)"
| "normalize_empty v = v"

definition pow10 :: "nat \<Rightarrow> 64 word" where
  "pow10 n =
    (if n \<le> 308 then f64_mul (encode64 False (10 ^ (32 * (n div 32))) 1) (encode64 False (10 ^ (n mod 32)) 1)
     else f64_inf False)"

definition get_value :: "(string \<Rightarrow> gval res) \<Rightarrow> typed_value option \<Rightarrow> gval res" where
  "get_value unm tv =
    (let json = (\<lambda>b. if b \<noteq> [] then unm b else Inr VNil)
     in case tv of
      None \<Rightarrow> Inr VNil
    | Some v \<Rightarrow>
        (case v of
          TVUnset \<Rightarrow> Inr VNil
        | TVAscii s \<Rightarrow> Inr (VStr s)
        | TVBool b \<Rightarrow> Inr (VBool b)
        | TVBytes s \<Rightarrow> Inr (VBytes s)
        | TVDecimal d p \<Rightarrow> Inr (VProto v)
        | TVFloat f \<Rightarrow> Inr (VF32 f)
        | TVDouble f \<Rightarrow> Inr (VF64 f)
        | TVInt i \<Rightarrow> Inr (VInt64 i)
        | TVString s \<Rightarrow> Inr (VStr s)
        | TVUint u \<Rightarrow> Inr (VUint64 u)
        | TVLeaflist vs \<Rightarrow> Inr (VProto v)
        | TVProtoBytes s \<Rightarrow> Inr (VBytes s)
        | TVAny s \<Rightarrow> Inr (VProto v)
        | TVJsonIetf b \<Rightarrow> json b
        | TVJson b \<Rightarrow> json b))"

definition flat_json ::
  "(string \<Rightarrow> gval res) \<Rightarrow> (string \<Rightarrow> gval gmap \<Rightarrow> gval gmap res) \<Rightarrow> string \<Rightarrow> string \<Rightarrow> gval nmap res" where
  "flat_json unm flat prefix b =
    (if b = [] then Inr (Some [])
     else rbind (unm b) (\<lambda>value.
       case normalize_empty value of
         VMap kvs \<Rightarrow> rbind (flat prefix kvs) (\<lambda>m. Inr (Some m))
       | v \<Rightarrow> Inr (Some [(prefix, v)])))"

definition get_value_flat ::
  "(string \<Rightarrow> gval res) \<Rightarrow> (string \<Rightarrow> gval gmap \<Rightarrow> gval gmap res) \<Rightarrow>
   string \<Rightarrow> typed_value option \<Rightarrow> gval nmap res" where
  "get_value_flat unm flat prefix tv =
    (let one = (\<lambda>v. Inr (Some [(prefix, v)]))
     in case tv of
      None \<Rightarrow> Inr None
    | Some v \<Rightarrow>
        (case v of
          TVUnset \<Rightarrow> Inr (Some [])
        | TVAscii s \<Rightarrow> one (VStr s)
        | TVBool b \<Rightarrow> one (VBool b)
        | TVBytes s \<Rightarrow> one (VBytes s)
        | TVDecimal d p \<Rightarrow> one (VF64 (f64_div (f64_of_int (sint d)) (pow10 (unat p))))
        | TVFloat f \<Rightarrow> one (VF32 f)
        | TVDouble f \<Rightarrow> one (VF64 f)
        | TVInt i \<Rightarrow> one (VInt64 i)
        | TVString s \<Rightarrow> one (VStr s)
        | TVUint u \<Rightarrow> one (VUint64 u)
        | TVLeaflist vs \<Rightarrow> rbind (rmap (\<lambda>t. get_value unm (Some t)) vs) (\<lambda>xs. one (VList xs))
        | TVProtoBytes s \<Rightarrow> one (VBytes s)
        | TVAny s \<Rightarrow> one (VProto v)
        | TVJsonIetf b \<Rightarrow> flat_json unm flat prefix b
        | TVJson b \<Rightarrow> flat_json unm flat prefix b))"

section \<open>Events from updates and deletes\<close>

text \<open>The path below the prefix; both are joined by exactly one slash.\<close>

definition event_path :: "string \<Rightarrow> string \<Rightarrow> string" where
  "event_path prefix name = trim_right_char slash prefix @ ''/'' @ trim_left_char slash name"

fun merge_path_tags :: "string \<Rightarrow> string gmap \<Rightarrow> string gmap \<Rightarrow> string gmap" where
  "merge_path_tags pn [] tags = tags"
| "merge_path_tags pn ((k, v) # ptags) tags =
    merge_path_tags pn ptags
      (case map_of tags k of
        Some vv \<Rightarrow> if v \<noteq> vv then gset (pn @ ''_'' @ k) v tags else tags
      | None \<Rightarrow> gset k v tags)"

definition update_to_event ::
  "(string \<Rightarrow> gval res) \<Rightarrow> (string \<Rightarrow> gval gmap \<Rightarrow> gval gmap res) \<Rightarrow>
   string \<Rightarrow> string \<Rightarrow> 64 word \<Rightarrow> gupdate \<Rightarrow> string nmap \<Rightarrow> event_msg res" where
  "update_to_event unm flat name prefix ts upd tags =
    (let etags = gset_all (entries tags) [];
         (pname, ptags) = tags_from_path (u_path upd);
         pn = event_path prefix pname;
         etags' = merge_path_tags pn (entries ptags) etags
     in rbind (get_value_flat unm flat pn (u_val upd)) (\<lambda>vals.
          Inr \<lparr>em_name = name, em_timestamp = ts, em_tags = Some etags', em_values = vals, em_deletes = None\<rparr>))"

definition delete_to_event :: "string \<Rightarrow> string \<Rightarrow> 64 word \<Rightarrow> gpath option \<Rightarrow> string nmap \<Rightarrow> event_msg" where
  "delete_to_event name prefix ts del tags =
    (let etags = gset_all (entries tags) [];
         (pname, ptags) = tags_from_path del;
         pn = event_path prefix pname;
         etags' = merge_path_tags pn (entries ptags) etags
     in \<lparr>em_name = name, em_timestamp = ts, em_tags = Some etags', em_values = None, em_deletes = Some [pn]\<rparr>)"

fun add_meta_loop :: "string gmap \<Rightarrow> string gmap \<Rightarrow> string gmap" where
  "add_meta_loop [] tags = tags"
| "add_meta_loop ((k, v) # meta) tags =
    add_meta_loop meta
      (if k = ''format'' then tags
       else case map_of tags k of
         Some _ \<Rightarrow> gset (''meta_'' @ k) v tags
       | None \<Rightarrow> gset k v tags)"

text \<open>Both callers pass an event whose tags map has been allocated.\<close>

definition add_meta_tags :: "string nmap \<Rightarrow> event_msg \<Rightarrow> event_msg" where
  "add_meta_tags meta e = e\<lparr>em_tags := map_option (add_meta_loop (entries meta)) (em_tags e)\<rparr>"

text \<open>
  The source compares the new event with the address of a fresh zero value, which is never
  equal, so every event is appended.
\<close>

definition updates_to_events ::
  "(string \<Rightarrow> gval res) \<Rightarrow> (string \<Rightarrow> gval gmap \<Rightarrow> gval gmap res) \<Rightarrow>
   string \<Rightarrow> string \<Rightarrow> 64 word \<Rightarrow> gupdate list \<Rightarrow> string nmap \<Rightarrow> string nmap \<Rightarrow> event_msg list res" where
  "updates_to_events unm flat name prefix ts upds tags meta =
    rmap (\<lambda>upd. rbind (update_to_event unm flat name prefix ts upd tags)
      (\<lambda>e. Inr (add_meta_tags meta e))) upds"

text \<open>
  The processors run one after the other, each on the result of the one before; a processor is a
  function on lists of event pointers that may panic.
\<close>

type_synonym processor = "event_msg option list \<Rightarrow> event_msg option list option"

fun run_processors :: "processor list \<Rightarrow> processor" where
  "run_processors [] evs = Some evs"
| "run_processors (ep # eps) evs =
    (case ep evs of None \<Rightarrow> None | Some evs' \<Rightarrow> run_processors eps evs')"

definition response_events ::
  "(string \<Rightarrow> gval res) \<Rightarrow> (string \<Rightarrow> gval gmap \<Rightarrow> gval gmap res) \<Rightarrow>
   string \<Rightarrow> notification \<Rightarrow> string nmap \<Rightarrow> event_msg list res" where
  "response_events unm flat name n meta =
    (let (prefix, ptags) = tags_from_path (n_prefix n)
     in rbind (updates_to_events unm flat name prefix (n_timestamp n) (n_update n) ptags meta)
       (\<lambda>uevs. Inr (uevs @
          map (\<lambda>d. add_meta_tags meta (delete_to_event name prefix (n_timestamp n) (Some d) ptags))
            (n_delete n))))"

definition response_to_event_msgs ::
  "(string \<Rightarrow> gval res) \<Rightarrow> (string \<Rightarrow> gval gmap \<Rightarrow> gval gmap res) \<Rightarrow>
   string \<Rightarrow> subscribe_response option \<Rightarrow> string nmap \<Rightarrow> processor list \<Rightarrow>
   event_msg option list res option" where
  "response_to_event_msgs unm flat name rsp meta eps =
    (case rsp of
      Some (SRUpdate n) \<Rightarrow>
        (case response_events unm flat name n meta of
          Inl err \<Rightarrow> Some (Inl err)
        | Inr evs \<Rightarrow> map_option Inr (run_processors eps (map Some evs)))
    | _ \<Rightarrow> Some (Inr []))"

definition get_response_to_event_msgs ::
  "(string \<Rightarrow> gval res) \<Rightarrow> (string \<Rightarrow> gval gmap \<Rightarrow> gval gmap res) \<Rightarrow>
   get_response option \<Rightarrow> string nmap \<Rightarrow> processor list \<Rightarrow> event_msg option list res option" where
  "get_response_to_event_msgs unm flat rsp meta eps =
    (case rsp of
      None \<Rightarrow> Some (Inr [])
    | Some r \<Rightarrow>
        (case rmap (\<lambda>n. let (prefix, ptags) = tags_from_path (n_prefix n)
              in updates_to_events unm flat ''get-request'' prefix (n_timestamp n) (n_update n) ptags meta)
            (gr_notification r) of
          Inl err \<Rightarrow> Some (Inl err)
        | Inr evss \<Rightarrow> map_option Inr (run_processors eps (map Some (concat evss)))))"

section \<open>Events as generic maps\<close>

definition to_map :: "event_msg option \<Rightarrow> gval gmap option" where
  "to_map eo =
    (case eo of
      None \<Rightarrow> None
    | Some e \<Rightarrow> Some
        ((if em_name e \<noteq> [] then [(''name'', VStr (em_name e))] else []) @
         (if em_timestamp e \<noteq> 0 then [(''timestamp'', VInt64 (em_timestamp e))] else []) @
         (if tags_of e \<noteq> [] then [(''tags'', VMap (map (\<lambda>(k, v). (k, VStr v)) (tags_of e)))] else []) @
         (if values_of e \<noteq> [] then [(''values'', VMap (values_of e))] else []) @
         (if deletes_of e \<noteq> [] then [(''deletes'', VList (map VStr (deletes_of e)))] else [])))"

text \<open>
  \<open>num64\<close>: \<open>Inl\<close> an \<open>int64\<close>, \<open>Inr\<close> a \<open>uint64\<close>. The conversion of a float outside the range of
  \<open>uint64\<close> is left to the implementation (\<open>f2u\<close>).
\<close>

definition f64_to_u64 :: "(64 word \<Rightarrow> 64 word) \<Rightarrow> 64 word \<Rightarrow> 64 word" where
  "f64_to_u64 f2u w =
    (case f64_trunc w of
      Some i \<Rightarrow> if 0 \<le> i \<and> i < 2 ^ 64 then word_of_int i else f2u w
    | None \<Rightarrow> f2u w)"

definition num64 :: "(64 word \<Rightarrow> 64 word) \<Rightarrow> gval \<Rightarrow> (64 word + 64 word) option" where
  "num64 f2u v =
    (case v of
      VInt i \<Rightarrow> Some (Inl i)
    | VInt8 i \<Rightarrow> Some (Inl (scast i))
    | VInt16 i \<Rightarrow> Some (Inl (scast i))
    | VInt32 i \<Rightarrow> Some (Inl (scast i))
    | VInt64 i \<Rightarrow> Some (Inl i)
    | VUint i \<Rightarrow> Some (Inr i)
    | VUint8 i \<Rightarrow> Some (Inr (ucast i))
    | VUint16 i \<Rightarrow> Some (Inr (ucast i))
    | VUint32 i \<Rightarrow> Some (Inr (ucast i))
    | VUint64 i \<Rightarrow> Some (Inr i)
    | VF64 f \<Rightarrow> Some (Inr (f64_to_u64 f2u f))
    | _ \<Rightarrow> None)"

definition str_or_empty :: "gval \<Rightarrow> string" where
  "str_or_empty v = (case v of VStr s \<Rightarrow> s | _ \<Rightarrow> [])"

definition from_name :: "gval option \<Rightarrow> string res" where
  "from_name v =
    (case v of
      None \<Rightarrow> Inr []
    | Some (VStr s) \<Rightarrow> Inr s
    | Some _ \<Rightarrow> Inl ''could not convert map to event message, name it not a string'')"

definition from_timestamp :: "(64 word \<Rightarrow> 64 word) \<Rightarrow> gval option \<Rightarrow> 64 word res" where
  "from_timestamp f2u v =
    (case v of
      None \<Rightarrow> Inr 0
    | Some x \<Rightarrow>
        (case num64 f2u x of
          None \<Rightarrow> Inl ''could not convert map to event message, timestamp is not an int64''
        | Some (Inl i) \<Rightarrow> Inr i
        | Some (Inr i) \<Rightarrow> Inr i))"

definition from_tags :: "gval option \<Rightarrow> string nmap res" where
  "from_tags v =
    (case v of
      None \<Rightarrow> Inr None
    | Some (VStrMap m) \<Rightarrow> Inr (Some m)
    | Some (VTypedNil KStrMap) \<Rightarrow> Inr None
    | Some (VMap m) \<Rightarrow> Inr (Some (map (\<lambda>(k, x). (k, str_or_empty x)) m))
    | Some (VTypedNil KMap) \<Rightarrow> Inr (Some [])
    | Some _ \<Rightarrow> Inl ''could not convert map to event message, tags are not a map[string]string'')"

definition from_values :: "gval option \<Rightarrow> gval nmap res" where
  "from_values v =
    (case v of
      None \<Rightarrow> Inr None
    | Some (VMap m) \<Rightarrow> Inr (Some m)
    | Some (VTypedNil KMap) \<Rightarrow> Inr None
    | Some (VStrMap m) \<Rightarrow> Inr (Some (map (\<lambda>(k, x). (k, VStr x)) m))
    | Some (VTypedNil KStrMap) \<Rightarrow> Inr (Some [])
    | Some _ \<Rightarrow> Inl ''could not convert map to event message, values are not a map[string]interface{}'')"

definition from_deletes :: "gval option \<Rightarrow> string list option res" where
  "from_deletes v =
    (case v of
      None \<Rightarrow> Inr None
    | Some (VStrList ds) \<Rightarrow> Inr (Some ds)
    | Some (VTypedNil KStrList) \<Rightarrow> Inr None
    | Some (VList xs) \<Rightarrow>
        (let ds = List.map_filter as_str xs in Inr (if ds = [] then None else Some ds))
    | Some (VTypedNil KList) \<Rightarrow> Inr None
    | Some _ \<Rightarrow> Inl ''could not convert map to event message, name it not a string'')"

definition event_from_map :: "(64 word \<Rightarrow> 64 word) \<Rightarrow> gval gmap option \<Rightarrow> event_msg option res" where
  "event_from_map f2u mo =
    (case mo of
      None \<Rightarrow> Inr None
    | Some m \<Rightarrow>
        rbind (from_name (map_of m ''name'')) (\<lambda>name.
        rbind (from_timestamp f2u (map_of m ''timestamp'')) (\<lambda>ts.
        rbind (from_tags (map_of m ''tags'')) (\<lambda>tags.
        rbind (from_values (map_of m ''values'')) (\<lambda>vals.
        rbind (from_deletes (map_of m ''deletes'')) (\<lambda>dels.
          Inr (Some \<lparr>em_name = name, em_timestamp = ts, em_tags = tags,
            em_values = vals, em_deletes = dels\<rparr>)))))))"

section \<open>Properties\<close>

lemma update_to_event_Inr:
  "update_to_event unm flat name prefix ts upd tags = Inr e \<Longrightarrow>
   em_name e = name \<and> em_timestamp e = ts \<and> em_deletes e = None \<and> (\<exists>tg. em_tags e = Some tg) \<and>
   get_value_flat unm flat (event_path prefix (fst (tags_from_path (u_path upd)))) (u_val upd) = Inr (em_values e)"
  by (auto simp: update_to_event_def rbind_Inr_iff case_prod_beta Let_def)

lemma add_meta_tags_frame [simp]:
  "em_name (add_meta_tags meta e) = em_name e" "em_timestamp (add_meta_tags meta e) = em_timestamp e"
  "em_values (add_meta_tags meta e) = em_values e" "em_deletes (add_meta_tags meta e) = em_deletes e"
  by (simp_all add: add_meta_tags_def)

lemma wf_tags_from_path [simp]: "wf_gmap (entries (snd (tags_from_path p)))"
proof -
  have keys: "wf_gmap tags \<Longrightarrow> wf_gmap (key_tags nm kvs tags)" for nm kvs tags
    by (induction nm kvs tags rule: key_tags.induct) auto
  have elems: "wf_gmap (snd st) \<Longrightarrow> wf_gmap (snd (elems_tags es st))" for es st
    by (induction es st rule: elems_tags.induct) (auto simp: keys)
  have nil: "wf_gmap []" by (simp add: wf_gmap_def)
  show ?thesis
  proof (cases p)
    case (Some q)
    define st where "st = elems_tags (p_elem q) (if p_origin q \<noteq> [] then p_origin q @ '':'' else [], [])"
    have "wf_gmap (snd st)" unfolding st_def by (rule elems) (simp add: nil)
    then show ?thesis by (auto simp: Some tags_from_path_def Let_def case_prod_beta st_def [symmetric])
  qed (simp add: tags_from_path_def nil)
qed

lemma gset_all_fresh: "wf_gmap (dst @ src) \<Longrightarrow> gset_all src dst = dst @ src"
  by (induction src dst rule: gset_all.induct) (auto simp: wf_gmap_def gset_fresh)

lemma has_prefix_qualified: "has_prefix (pn @ ''_'' @ k) (pn @ ''_'')"
  by (simp add: has_prefix_def)

lemma merge_path_tags_plain:
  assumes "wf_gmap ptags" and np: "\<not> has_prefix k (pn @ ''_'')"
  shows "map_of (merge_path_tags pn ptags tags) k =
    (case map_of tags k of Some v \<Rightarrow> Some v | None \<Rightarrow> map_of ptags k)"
  using assms(1)
proof (induction ptags arbitrary: tags)
  case (Cons x ptags)
  obtain k0 v0 where x: "x = (k0, v0)" by (cases x)
  have wf: "wf_gmap ptags" "map_of ptags k0 = None"
    using Cons.prems x by (auto simp: wf_gmap_def map_of_eq_None_iff)
  have "k \<noteq> pn @ ''_'' @ k0" using np has_prefix_qualified [of pn k0] by auto
  then have "map_of (case map_of tags k0 of Some vv \<Rightarrow> if v0 \<noteq> vv then gset (pn @ ''_'' @ k0) v0 tags else tags
      | None \<Rightarrow> gset k0 v0 tags) k = (if k = k0 \<and> map_of tags k0 = None then Some v0 else map_of tags k)"
    by (auto split: option.splits)
  with Cons.IH [OF wf(1)] x wf(2) show ?case by (auto split: option.splits)
qed (simp split: option.split)

lemma merge_path_tags_untouched:
  assumes "k \<notin> fst ` set ptags" and "\<forall>(k, v) \<in> set ptags. \<not> has_prefix k (pn @ ''_'')"
  shows "map_of (merge_path_tags pn ptags tags) (pn @ ''_'' @ k) = map_of tags (pn @ ''_'' @ k)"
  using assms
proof (induction ptags arbitrary: tags)
  case (Cons x ptags)
  obtain k0 v0 where x: "x = (k0, v0)" by (cases x)
  have "k \<noteq> k0" "pn @ ''_'' @ k \<noteq> k0" using Cons.prems x has_prefix_qualified [of pn k] by auto
  with Cons x show ?case by (auto split: option.splits)
qed simp

lemma merge_path_tags_moved:
  assumes "wf_gmap ptags" and "\<forall>(k, v) \<in> set ptags. \<not> has_prefix k (pn @ ''_'')"
    and "map_of ptags k = Some v" and "map_of tags k = Some w" and "v \<noteq> w"
  shows "map_of (merge_path_tags pn ptags tags) (pn @ ''_'' @ k) = Some v"
  using assms
proof (induction ptags arbitrary: tags)
  case (Cons x ptags)
  obtain k0 v0 where x: "x = (k0, v0)" by (cases x)
  have wf: "wf_gmap ptags" "k0 \<notin> fst ` set ptags" and nq: "\<forall>(k, v) \<in> set ptags. \<not> has_prefix k (pn @ ''_'')"
    using Cons.prems(1,2) x by (auto simp: wf_gmap_def)
  show ?case
  proof (cases "k = k0")
    case True
    with merge_path_tags_untouched [OF wf(2) nq] Cons.prems(3-5) x show ?thesis by simp
  next
    case False
    then have p: "map_of ptags k = Some v" using Cons.prems(3) x by simp
    have "\<not> has_prefix k (pn @ ''_'')" using nq p by (auto dest!: map_of_SomeD)
    then have "map_of (case map_of tags k0 of Some vv \<Rightarrow> if v0 \<noteq> vv then gset (pn @ ''_'' @ k0) v0 tags else tags
      | None \<Rightarrow> gset k0 v0 tags) k = Some w"
      using Cons.prems(4) False has_prefix_qualified [of pn k0] by (auto split: option.splits)
    from Cons.IH [OF wf(1) nq p this Cons.prems(5)] x show ?thesis by simp
  qed
qed simp

text \<open>No key has the form of a qualified one.\<close>

definition plain_keys :: "string \<Rightarrow> 'v gmap \<Rightarrow> bool" where
  "plain_keys pn m \<longleftrightarrow> (\<forall>(k, v) \<in> set m. \<not> has_prefix k (pn @ ''_''))"

lemma plain_keys_append [simp]: "plain_keys pn (m @ m') \<longleftrightarrow> plain_keys pn m \<and> plain_keys pn m'"
  by (auto simp: plain_keys_def)

lemma merge_path_tags_set:
  "x \<in> set (merge_path_tags pn ptags tags) \<Longrightarrow>
   x \<in> set tags \<or> x \<in> set ptags \<or> (\<exists>k. fst x = pn @ ''_'' @ k \<and> (k, snd x) \<in> set ptags)"
proof (induction pn ptags tags rule: merge_path_tags.induct)
  case (2 pn k v ptags tags)
  define tags' where "tags' = (case map_of tags k of
      Some vv \<Rightarrow> if v \<noteq> vv then gset (pn @ ''_'' @ k) v tags else tags | None \<Rightarrow> gset k v tags)"
  have tags': "y \<in> set tags \<or> y = (k, v) \<or> y = (pn @ ''_'' @ k, v)" if "y \<in> set tags'" for y
    using that set_gset [of "pn @ ''_'' @ k" v tags] set_gset [of k v tags]
    by (auto simp: tags'_def split: option.splits if_splits)
  have "x \<in> set tags' \<or> x \<in> set ptags \<or> (\<exists>k. fst x = pn @ ''_'' @ k \<and> (k, snd x) \<in> set ptags)"
    unfolding tags'_def by (rule "2.IH") (use "2.prems" in simp)
  then show ?case
  proof (elim disjE)
    assume "x \<in> set tags'"
    from tags' [OF this] show ?thesis by auto
  qed auto
qed simp

lemma merge_path_tags_adds:
  assumes "wf_gmap ptags" and "plain_keys pn ptags" and "(k, v) \<in> set ptags"
  shows "map_of (merge_path_tags pn ptags tags) (if map_of tags k \<in> {None, Some v} then k else pn @ ''_'' @ k) = Some v"
proof -
  have k: "map_of ptags k = Some v" "\<not> has_prefix k (pn @ ''_'')" using assms by (auto simp: wf_gmap_def plain_keys_def)
  show ?thesis
    using merge_path_tags_plain [OF assms(1) k(2), of tags] merge_path_tags_moved [of ptags pn k v tags] assms(1,2) k(1)
    by (cases "map_of tags k") (auto simp: plain_keys_def)
qed

lemma add_meta_loop_set:
  "x \<in> set (add_meta_loop meta tags) \<Longrightarrow>
   x \<in> set tags \<or> (\<exists>k. k \<noteq> ''format'' \<and> fst x \<in> {k, ''meta_'' @ k} \<and> (k, snd x) \<in> set meta)"
proof (induction meta tags rule: add_meta_loop.induct)
  case (2 k v meta tags)
  define tags' where "tags' = (if k = ''format'' then tags else case map_of tags k of
      Some _ \<Rightarrow> gset (''meta_'' @ k) v tags | None \<Rightarrow> gset k v tags)"
  have tags': "y \<in> set tags \<or> (k \<noteq> ''format'' \<and> (y = (k, v) \<or> y = (''meta_'' @ k, v)))" if "y \<in> set tags'" for y
    using that set_gset [of "''meta_'' @ k" v tags] set_gset [of k v tags]
    by (auto simp: tags'_def split: option.splits if_splits)
  have "x \<in> set tags' \<or> (\<exists>k. k \<noteq> ''format'' \<and> fst x \<in> {k, ''meta_'' @ k} \<and> (k, snd x) \<in> set meta)"
    unfolding tags'_def by (rule "2.IH") (use "2.prems" in simp)
  then show ?case
  proof (elim disjE)
    assume "x \<in> set tags'"
    from tags' [OF this] show ?thesis by auto
  qed auto
qed simp

lemma add_meta_loop_keeps:
  "map_of tags k = Some v \<Longrightarrow> \<not> has_prefix k ''meta_'' \<or> (\<exists>k'. k = ''meta_'' @ k' \<and> k' \<notin> fst ` set meta \<and> k \<notin> fst ` set meta) \<Longrightarrow>
   map_of (add_meta_loop meta tags) k = Some v"
proof (induction meta tags rule: add_meta_loop.induct)
  case (2 k0 v0 meta tags)
  have "k \<noteq> ''meta_'' @ k0" using "2.prems"(2) by (auto simp: has_prefix_def)
  then have "map_of (if k0 = ''format'' then tags else case map_of tags k0 of
      Some _ \<Rightarrow> gset (''meta_'' @ k0) v0 tags | None \<Rightarrow> gset k0 v0 tags) k = Some v"
    using "2.prems"(1) by (auto split: option.splits)
  from "2.IH" [OF this] show ?case using "2.prems"(2) by auto
qed simp

lemma add_meta_loop_adds:
  "wf_gmap meta \<Longrightarrow> plain_keys ''meta'' meta \<Longrightarrow> (k, v) \<in> set meta \<Longrightarrow> k \<noteq> ''format'' \<Longrightarrow>
   map_of (add_meta_loop meta tags) (if map_of tags k = None then k else ''meta_'' @ k) = Some v"
proof (induction meta tags rule: add_meta_loop.induct)
  case (2 k' v' meta tags)
  define tags' where "tags' = (if k' = ''format'' then tags else case map_of tags k' of
      Some _ \<Rightarrow> gset (''meta_'' @ k') v' tags | None \<Rightarrow> gset k' v' tags)"
  have wf: "wf_gmap meta" "plain_keys ''meta'' meta" "k' \<notin> fst ` set meta"
    using "2.prems" by (auto simp: wf_gmap_def plain_keys_def)
  have step: "add_meta_loop ((k', v') # meta) tags = add_meta_loop meta tags'" by (simp add: tags'_def)
  show ?case
  proof (cases "k = k'")
    case True
    then have v: "v = v'" using "2.prems"(3) wf(3) by force
    have pk: "\<not> has_prefix k ''meta_''" using "2.prems"(2) True by (simp add: plain_keys_def)
    show ?thesis
    proof (cases "map_of tags k")
      case None
      then have "map_of tags' k = Some v" using True v "2.prems"(4) by (simp add: tags'_def)
      from add_meta_loop_keeps [OF this] None pk show ?thesis unfolding step by simp
    next
      case (Some w)
      then have "map_of tags' (''meta_'' @ k) = Some v" using True v "2.prems"(4) by (simp add: tags'_def)
      moreover have "''meta_'' @ k \<notin> fst ` set meta" using wf(2) by (force simp: plain_keys_def has_prefix_def)
      ultimately have "map_of (add_meta_loop meta tags') (''meta_'' @ k) = Some v"
        using wf(3) True by (intro add_meta_loop_keeps) auto
      with Some show ?thesis unfolding step by simp
    qed
  next
    case False
    then have kv: "(k, v) \<in> set meta" using "2.prems"(3) by auto
    have "k \<noteq> ''meta_'' @ k'" using kv wf(2) by (auto simp: plain_keys_def has_prefix_def)
    then have "map_of tags' k = map_of tags k" using False by (auto simp: tags'_def split: option.splits)
    with "2.IH" [OF wf(1,2) kv "2.prems"(4)] show ?thesis unfolding step by (simp add: tags'_def)
  qed
qed simp

text \<open>
  What the tags \<open>T\<close> of an event owe to the tags of the prefix, of the path and of the metadata: they
  come from nowhere else, and, unless a key looks like a qualified one, all of them are there.
\<close>

definition tags_kept :: "string \<Rightarrow> string gmap \<Rightarrow> string gmap \<Rightarrow> string gmap \<Rightarrow> string gmap \<Rightarrow> bool" where
  "tags_kept pn pre path meta T \<longleftrightarrow>
    (\<forall>(k, v) \<in> set T. (k, v) \<in> set pre \<union> set path \<or> (\<exists>k'. k = pn @ ''_'' @ k' \<and> (k', v) \<in> set path) \<or>
      (\<exists>k'. k' \<noteq> ''format'' \<and> k \<in> {k', ''meta_'' @ k'} \<and> (k', v) \<in> set meta)) \<and>
    (wf_gmap meta \<and> plain_keys pn (pre @ path) \<and> plain_keys ''meta'' (pre @ path @ meta @ [(pn @ ''_'', [])]) \<longrightarrow>
      (\<forall>(k, v) \<in> set pre. map_of T k = Some v) \<and>
      (\<forall>(k, v) \<in> set path. map_of T (if map_of pre k \<in> {None, Some v} then k else pn @ ''_'' @ k) = Some v) \<and>
      (\<forall>(k, v) \<in> set meta. k \<noteq> ''format'' \<longrightarrow>
        (\<exists>k' \<in> {k, ''meta_'' @ k}. map_of T k' = Some v)))"

lemma qualified_not_meta:
  assumes "\<not> has_prefix (pn @ ''_'') ''meta_''"
  shows "\<not> has_prefix (pn @ ''_'' @ k) ''meta_''"
proof
  assume "has_prefix (pn @ ''_'' @ k) ''meta_''"
  then have t: "take 5 (pn @ ''_'' @ k) = ''meta_''" by (simp only: has_prefix_def) (simp add: eval_nat_numeral)
  have "pn @ ''_'' @ k = ''meta_'' @ drop 5 (pn @ ''_'' @ k)"
    using append_take_drop_id [of 5 "pn @ ''_'' @ k"] unfolding t by (rule sym)
  then have "pn = ''meta'' \<or> (\<exists>r. pn = ''meta_'' @ r)" by (auto simp: append_eq_Cons_conv)
  with assms show False by (auto simp: has_prefix_def)
qed

lemma event_tags_kept:
  assumes "wf_gmap pre" and "wf_gmap path"
  shows "tags_kept pn pre path meta (add_meta_loop meta (merge_path_tags pn path (gset_all pre [])))"
proof -
  have pre: "gset_all pre [] = pre" using gset_all_fresh [of "[]" pre] assms(1) by simp
  let ?M = "merge_path_tags pn path pre"
  have origin: "(k, v) \<in> set pre \<union> set path \<or> (\<exists>k'. k = pn @ ''_'' @ k' \<and> (k', v) \<in> set path) \<or>
      (\<exists>k'. k' \<noteq> ''format'' \<and> k \<in> {k', ''meta_'' @ k'} \<and> (k', v) \<in> set meta)"
    if "(k, v) \<in> set (add_meta_loop meta ?M)" for k v
    using add_meta_loop_set [OF that] merge_path_tags_set [of "(k, v)" pn path pre] by auto
  have whole: "(\<forall>(k, v) \<in> set pre. map_of (add_meta_loop meta ?M) k = Some v) \<and>
      (\<forall>(k, v) \<in> set path. map_of (add_meta_loop meta ?M) (if map_of pre k \<in> {None, Some v} then k else pn @ ''_'' @ k) = Some v) \<and>
      (\<forall>(k, v) \<in> set meta. k \<noteq> ''format'' \<longrightarrow> (\<exists>k' \<in> {k, ''meta_'' @ k}. map_of (add_meta_loop meta ?M) k' = Some v))"
    if c: "wf_gmap meta" "plain_keys pn (pre @ path)" "plain_keys ''meta'' (pre @ path @ meta @ [(pn @ ''_'', [])])"
  proof -
    have p: "\<not> has_prefix k (pn @ ''_'')" "\<not> has_prefix k ''meta_''" if "(k, v) \<in> set pre \<union> set path" for k v
      using c(2,3) that by (auto simp: plain_keys_def)
    have q: "\<not> has_prefix (pn @ ''_'' @ k) ''meta_''" for k
      using c(3) by (intro qualified_not_meta) (simp add: plain_keys_def)
    have m: "plain_keys ''meta'' meta" "plain_keys pn path" using c(2,3) by simp_all
    have 1: "map_of (add_meta_loop meta ?M) k = Some v" if "(k, v) \<in> set pre" for k v
      using p [of k v] that assms by (intro add_meta_loop_keeps) (auto simp: merge_path_tags_plain wf_gmap_def)
    have 2: "map_of (add_meta_loop meta ?M) (if map_of pre k \<in> {None, Some v} then k else pn @ ''_'' @ k) = Some v"
      if "(k, v) \<in> set path" for k v
      using p(2) [of k v] q [of k] that
      by (intro add_meta_loop_keeps merge_path_tags_adds assms(2) m(2)) (auto split: if_splits)
    have 3: "\<exists>k' \<in> {k, ''meta_'' @ k}. map_of (add_meta_loop meta ?M) k' = Some v" if "(k, v) \<in> set meta" "k \<noteq> ''format''" for k v
      using add_meta_loop_adds [OF c(1) m(1) that, of ?M] by (auto split: if_splits)
    show ?thesis using 1 2 3 by blast
  qed
  show ?thesis unfolding tags_kept_def pre using origin whole by blast
qed

text \<open>The two fields of the tags that the loops fill, for an update and for a delete.\<close>

lemma update_to_event_tags:
  assumes "update_to_event unm flat name prefix ts upd tags = Inr e" and "wf_gmap (entries tags)"
  shows "\<exists>T. em_tags (add_meta_tags meta e) = Some T \<and>
    tags_kept (event_path prefix (fst (tags_from_path (u_path upd)))) (entries tags)
      (entries (snd (tags_from_path (u_path upd)))) (entries meta) T"
  using assms(1) event_tags_kept [OF assms(2), of "entries (snd (tags_from_path (u_path upd)))"]
  by (auto simp: update_to_event_def rbind_Inr_iff case_prod_beta Let_def add_meta_tags_def)

lemma delete_to_event_tags:
  assumes "wf_gmap (entries tags)"
  shows "\<exists>T. em_tags (add_meta_tags meta (delete_to_event name prefix ts del tags)) = Some T \<and>
    tags_kept (event_path prefix (fst (tags_from_path del))) (entries tags)
      (entries (snd (tags_from_path del))) (entries meta) T"
  using event_tags_kept [OF assms, of "entries (snd (tags_from_path del))"]
  by (auto simp: delete_to_event_def case_prod_beta Let_def add_meta_tags_def)

text \<open>C28. A notification becomes one event per update, then one event per delete, in order: all carry the
  subscription name and the time stamp of the notification, an update event holds the flattened
  value at its path below the prefix and no deletes, and a delete event holds the deleted path and
  no values. The tags of each event are those of the prefix, of its path and of the metadata, and no
  others: as long as no key looks like a qualified one (\<open>path_key\<close> or \<open>meta_key\<close>), every tag of the
  prefix is kept under its key, a tag of the path under its key, or under the qualified one when the prefix has
  another value there, and every metadata entry but the format under its key or \<open>meta_key\<close>.\<close>

theorem response_events_complete:
  assumes "response_events unm flat name n meta = Inr evs"
  shows "length evs = length (n_update n) + length (n_delete n) \<and>
    (\<forall>e \<in> set evs. em_name e = name \<and> em_timestamp e = n_timestamp n) \<and>
    (\<forall>i < length (n_update n). em_deletes (evs ! i) = None \<and>
      get_value_flat unm flat
        (event_path (fst (tags_from_path (n_prefix n))) (fst (tags_from_path (u_path (n_update n ! i)))))
        (u_val (n_update n ! i)) = Inr (em_values (evs ! i)) \<and>
      (\<exists>T. em_tags (evs ! i) = Some T \<and>
        tags_kept (event_path (fst (tags_from_path (n_prefix n))) (fst (tags_from_path (u_path (n_update n ! i)))))
          (entries (snd (tags_from_path (n_prefix n)))) (entries (snd (tags_from_path (u_path (n_update n ! i)))))
          (entries meta) T)) \<and>
    (\<forall>i < length (n_delete n). em_values (evs ! (length (n_update n) + i)) = None \<and>
      em_deletes (evs ! (length (n_update n) + i)) =
        Some [event_path (fst (tags_from_path (n_prefix n))) (fst (tags_from_path (Some (n_delete n ! i))))] \<and>
      (\<exists>T. em_tags (evs ! (length (n_update n) + i)) = Some T \<and>
        tags_kept (event_path (fst (tags_from_path (n_prefix n))) (fst (tags_from_path (Some (n_delete n ! i)))))
          (entries (snd (tags_from_path (n_prefix n)))) (entries (snd (tags_from_path (Some (n_delete n ! i)))))
          (entries meta) T))"
proof -
  obtain prefix ptags where p: "tags_from_path (n_prefix n) = (prefix, ptags)" by fastforce
  have wf: "wf_gmap (entries ptags)" using wf_tags_from_path [of "n_prefix n"] by (simp add: p)
  let ?dels = "map (\<lambda>d. add_meta_tags meta (delete_to_event name prefix (n_timestamp n) (Some d) ptags)) (n_delete n)"
  from assms p obtain uevs where u: "evs = uevs @ ?dels"
    "list_all2 (\<lambda>upd e. rbind (update_to_event unm flat name prefix (n_timestamp n) upd ptags)
       (\<lambda>e. Inr (add_meta_tags meta e)) = Inr e) (n_update n) uevs"
    by (auto simp: response_events_def updates_to_events_def rbind_Inr_iff rmap_Inr_iff)
  have len: "length uevs = length (n_update n)" using u(2) by (simp add: list_all2_lengthD)
  have upd: "em_name (uevs ! i) = name" "em_timestamp (uevs ! i) = n_timestamp n" "em_deletes (uevs ! i) = None"
      "get_value_flat unm flat (event_path prefix (fst (tags_from_path (u_path (n_update n ! i)))))
        (u_val (n_update n ! i)) = Inr (em_values (uevs ! i))"
      "\<exists>T. em_tags (uevs ! i) = Some T \<and>
        tags_kept (event_path prefix (fst (tags_from_path (u_path (n_update n ! i))))) (entries ptags)
          (entries (snd (tags_from_path (u_path (n_update n ! i))))) (entries meta) T" if "i < length (n_update n)" for i
  proof -
    from list_all2_nthD [OF u(2) that] obtain e
      where e: "update_to_event unm flat name prefix (n_timestamp n) (n_update n ! i) ptags = Inr e"
        "uevs ! i = add_meta_tags meta e"
      by (auto simp: rbind_Inr_iff)
    show "em_name (uevs ! i) = name" "em_timestamp (uevs ! i) = n_timestamp n" "em_deletes (uevs ! i) = None"
      "get_value_flat unm flat (event_path prefix (fst (tags_from_path (u_path (n_update n ! i)))))
        (u_val (n_update n ! i)) = Inr (em_values (uevs ! i))"
      using update_to_event_Inr [OF e(1)] by (simp_all add: e(2))
    show "\<exists>T. em_tags (uevs ! i) = Some T \<and>
        tags_kept (event_path prefix (fst (tags_from_path (u_path (n_update n ! i))))) (entries ptags)
          (entries (snd (tags_from_path (u_path (n_update n ! i))))) (entries meta) T"
      using update_to_event_tags [OF e(1) wf] by (simp add: e(2))
  qed
  have del: "em_name (delete_to_event name prefix t d ptags) = name \<and> em_timestamp (delete_to_event name prefix t d ptags) = t \<and>
      em_values (delete_to_event name prefix t d ptags) = None \<and>
      em_deletes (delete_to_event name prefix t d ptags) = Some [event_path prefix (fst (tags_from_path d))]" for t d
    by (simp add: delete_to_event_def case_prod_beta Let_def)
  have "\<forall>e \<in> set uevs. em_name e = name \<and> em_timestamp e = n_timestamp n"
    using upd(1,2) by (auto simp: in_set_conv_nth len)
  then show ?thesis using upd len del delete_to_event_tags [OF wf] p by (auto simp: u(1) nth_append)
qed

definition sample_path :: gpath where
  "sample_path = \<lparr>p_origin = [], p_elem = [\<lparr>pe_name = ''a'', pe_key = None\<rparr>], p_target = []\<rparr>"

definition sample_notification :: notification where
  "sample_notification = \<lparr>n_timestamp = 5, n_prefix = None,
    n_update = [\<lparr>u_path = Some sample_path, u_val = Some (TVInt 1)\<rparr>], n_delete = [sample_path], n_atomic = False\<rparr>"

theorem response_events_complete_witness:
  "\<exists>evs. response_events (\<lambda>_. Inr VNil) (\<lambda>_ m. Inr m) ''sub'' sample_notification None = Inr evs \<and>
    length evs = 2"
proof -
  have "\<exists>evs. response_events (\<lambda>_. Inr VNil) (\<lambda>_ m. Inr m) ''sub'' sample_notification None = Inr evs"
    by (simp add: response_events_def sample_notification_def sample_path_def updates_to_events_def
        update_to_event_def get_value_flat_def Let_def case_prod_beta)
  then obtain evs where "response_events (\<lambda>_. Inr VNil) (\<lambda>_ m. Inr m) ''sub'' sample_notification None = Inr evs" ..
  with response_events_complete [OF this] show ?thesis by (simp add: sample_notification_def)
qed

text \<open>The conversion of a notification fails exactly with the error of the first update whose value
  cannot be converted; deletes never fail.\<close>

theorem response_events_first_error:
  assumes "n_update n = us @ u # vs"
    and "\<forall>w \<in> set us. \<exists>m. get_value_flat unm flat
      (event_path (fst (tags_from_path (n_prefix n))) (fst (tags_from_path (u_path w)))) (u_val w) = Inr m"
    and "get_value_flat unm flat
      (event_path (fst (tags_from_path (n_prefix n))) (fst (tags_from_path (u_path u)))) (u_val u) = Inl err"
  shows "response_events unm flat name n meta = Inl err"
proof -
  obtain prefix ptags where p: "tags_from_path (n_prefix n) = (prefix, ptags)" by fastforce
  let ?f = "\<lambda>upd. rbind (update_to_event unm flat name prefix (n_timestamp n) upd ptags) (\<lambda>e. Inr (add_meta_tags meta e))"
  have "\<forall>w \<in> set us. \<exists>e. ?f w = Inr e"
    using assms(2) p by (auto simp: update_to_event_def case_prod_beta Let_def)
  moreover have "?f u = Inl err"
    using assms(3) p by (simp add: update_to_event_def case_prod_beta Let_def)
  ultimately have "rmap ?f (us @ u # vs) = Inl err" by (rule rmap_first_error)
  then show ?thesis by (simp add: response_events_def updates_to_events_def p assms(1))
qed

theorem response_events_first_error_witness:
  "response_events (\<lambda>_. Inl ''bad json'') (\<lambda>_ m. Inr m) ''sub''
     \<lparr>n_timestamp = 5, n_prefix = None,
      n_update = [\<lparr>u_path = Some sample_path, u_val = Some (TVJson ''x'')\<rparr>], n_delete = [sample_path], n_atomic = False\<rparr> None =
   Inl ''bad json''"
  by (rule response_events_first_error [of _ "[]" "\<lparr>u_path = Some sample_path, u_val = Some (TVJson ''x'')\<rparr>" "[]"])
    (simp_all add: get_value_flat_def flat_json_def)

definition nil_if_empty :: "'a list option \<Rightarrow> 'a list option" where
  "nil_if_empty x = (if x = Some [] then None else x)"

lemma map_filter_as_str: "List.map_filter as_str (map VStr ss) = ss"
  by (induction ss) (simp_all add: List.map_filter_def)

lemma str_or_empty_VStr: "map ((\<lambda>(k, x). (k, str_or_empty x)) \<circ> (\<lambda>(k, v). (k, VStr v))) m = m"
  by (induction m) (auto simp: str_or_empty_def)

text \<open>C34. Turning an event into a generic map and back gives the same event, up to empty maps and
  lists, which come back as nil.\<close>

theorem event_map_roundtrip:
  "event_from_map f2u (to_map (Some e)) =
    Inr (Some (e\<lparr>em_tags := nil_if_empty (em_tags e), em_values := nil_if_empty (em_values e),
      em_deletes := nil_if_empty (em_deletes e)\<rparr>))"
proof -
  obtain m where m: "to_map (Some e) = Some m" by (simp add: to_map_def)
  have "map_of m ''name'' = (if em_name e = [] then None else Some (VStr (em_name e)))"
    "map_of m ''timestamp'' = (if em_timestamp e = 0 then None else Some (VInt64 (em_timestamp e)))"
    "map_of m ''tags'' = (if tags_of e = [] then None else Some (VMap (map (\<lambda>(k, v). (k, VStr v)) (tags_of e))))"
    "map_of m ''values'' = (if values_of e = [] then None else Some (VMap (values_of e)))"
    "map_of m ''deletes'' = (if deletes_of e = [] then None else Some (VList (map VStr (deletes_of e))))"
    using m by (auto simp: to_map_def)
  then show ?thesis
    unfolding m event_from_map_def
    by (cases e; cases "em_tags e"; cases "em_values e"; cases "em_deletes e")
      (simp_all add: from_name_def from_timestamp_def num64_def from_tags_def from_values_def from_deletes_def
        nil_if_empty_def deletes_of_def str_or_empty_VStr map_filter_as_str)
qed

text \<open>Tags of the prefix win over tags of the path, and no tag of a path is lost: a path tag whose
  key the prefix already uses with another value is kept under the qualified key.\<close>

theorem path_tags_preserved:
  assumes "wf_gmap ptags" and "\<forall>(k, v) \<in> set ptags. \<not> has_prefix k (pn @ ''_'')"
    and "map_of ptags k = Some v"
  shows "(\<forall>w. map_of tags k = Some w \<longrightarrow> map_of (merge_path_tags pn ptags tags) k = Some w) \<and>
    (map_of (merge_path_tags pn ptags tags) k = Some v \<or>
     map_of (merge_path_tags pn ptags tags) (pn @ ''_'' @ k) = Some v)"
proof -
  have "\<not> has_prefix k (pn @ ''_'')" using assms(2,3) by (auto dest!: map_of_SomeD)
  note plain = merge_path_tags_plain [OF assms(1) this, of tags]
  show ?thesis
  proof (cases "map_of tags k")
    case None
    with plain assms(3) show ?thesis by simp
  next
    case (Some w)
    with plain merge_path_tags_moved [OF assms(1,2,3) Some] show ?thesis by (cases "v = w") simp_all
  qed
qed

theorem path_tags_preserved_witness:
  "map_of (merge_path_tags ''/p'' [(''name'', ''x'')] [(''name'', ''y'')]) ''name'' = Some ''y'' \<and>
   map_of (merge_path_tags ''/p'' [(''name'', ''x'')] [(''name'', ''y'')]) ''/p_name'' = Some ''x''"
  using path_tags_preserved [of "[(''name'', ''x'')]" "''/p''" "''name''" "''x''" "[(''name'', ''y'')]"]
  by (simp add: wf_gmap_def has_prefix_def)

fun null_free :: "gval \<Rightarrow> bool" where
  "null_free VNil = False"
| "null_free (VList xs) = list_all null_free xs"
| "null_free (VMap kvs) = list_all (\<lambda>kv. null_free (snd kv)) kvs"
| "null_free v = True"

lemma normalize_empty_VList:
  "normalize_empty (VList xs) = (if xs = [VNil] then VBool True else VList (map normalize_empty xs))"
  by (cases "xs = [VNil]") (auto split: list.splits gval.splits)

lemma normalize_empty_null_free: "null_free (normalize_empty v)"
proof (induction v)
  case (VList xs)
  then show ?case by (simp add: normalize_empty_VList list_all_iff del: normalize_empty.simps(2))
next
  case (VMap kvs)
  then show ?case by (auto simp: list_all_iff)
qed simp_all

lemma null_free_normalize: "null_free v \<Longrightarrow> normalize_empty v = v"
proof (induction v rule: null_free.induct)
  case (2 xs)
  then have "map normalize_empty xs = xs" by (simp add: list_all_iff map_idI)
  moreover have "xs \<noteq> [VNil]" using 2 by auto
  ultimately show ?case by (simp add: normalize_empty_VList del: normalize_empty.simps(2))
next
  case (3 kvs)
  then have "map (\<lambda>(k, v). (k, normalize_empty v)) kvs = kvs"
    by (auto simp: list_all_iff intro!: map_idI)
  then show ?case by simp
qed simp_all

text \<open>Normalising a decoded JSON value leaves no null that was alone or alone in a list, is
  idempotent and keeps the keys of every map.\<close>

theorem normalize_empty_ok:
  "null_free (normalize_empty v) \<and> normalize_empty (normalize_empty v) = normalize_empty v"
  by (simp add: normalize_empty_null_free null_free_normalize)

end
