(* ===== verification/Go_Base64.thy ===== *)
theory Go_Base64
  imports Go_Strings
begin

text \<open>
  \<open>base64.StdEncoding\<close>: the encoder with padding, and the decoder, which skips line breaks and
  does not check the unused bits of the last symbol.
\<close>

definition b64_char :: "nat \<Rightarrow> char" where
  "b64_char n =
    (if n < 26 then char_of (65 + n)
     else if n < 52 then char_of (71 + n)
     else if n < 62 then char_of (n - 4)
     else if n = 62 then CHR ''+'' else CHR ''/'')"

definition b64_val :: "char \<Rightarrow> nat option" where
  "b64_val c =
    (let n = byte c
     in if 65 \<le> n \<and> n \<le> 90 then Some (n - 65)
        else if 97 \<le> n \<and> n \<le> 122 then Some (n - 71)
        else if 48 \<le> n \<and> n \<le> 57 then Some (n + 4)
        else if c = CHR ''+'' then Some 62
        else if c = CHR ''/'' then Some 63
        else None)"

definition chr :: "nat \<Rightarrow> char" where "chr n = char_of (n mod 256)"

fun b64_encode :: "string \<Rightarrow> string" where
  "b64_encode [] = []"
| "b64_encode [a] =
    [b64_char (byte a div 4), b64_char ((byte a mod 4) * 16), CHR ''='', CHR ''='']"
| "b64_encode [a, b] =
    [b64_char (byte a div 4), b64_char ((byte a mod 4) * 16 + byte b div 16),
     b64_char ((byte b mod 16) * 4), CHR ''='']"
| "b64_encode (a # b # c # s) =
    b64_char (byte a div 4) # b64_char ((byte a mod 4) * 16 + byte b div 16) #
    b64_char ((byte b mod 16) * 4 + byte c div 64) # b64_char (byte c mod 64) # b64_encode s"

definition b64_error :: string where "b64_error = ''illegal base64 data''"

fun b64_groups :: "string \<Rightarrow> string res" where
  "b64_groups [] = Inr []"
| "b64_groups (w # x # y # z # s) =
    (case (b64_val w, b64_val x) of
      (Some p, Some q) \<Rightarrow>
        let a = chr (p * 4 + q div 16)
        in (case b64_val y of
              None \<Rightarrow> if y = CHR ''='' \<and> z = CHR ''='' \<and> s = [] then Inr [a] else Inl b64_error
            | Some r \<Rightarrow>
                let b = chr (q mod 16 * 16 + r div 4)
                in (case b64_val z of
                      None \<Rightarrow> if z = CHR ''='' \<and> s = [] then Inr [a, b] else Inl b64_error
                    | Some t \<Rightarrow>
                        (case b64_groups s of
                           Inl e \<Rightarrow> Inl e
                         | Inr u \<Rightarrow> Inr (a # b # chr (r mod 4 * 64 + t) # u))))
    | _ \<Rightarrow> Inl b64_error)"
| "b64_groups _ = Inl b64_error"

definition b64_decode :: "string \<Rightarrow> string res" where
  "b64_decode s = b64_groups (filter (\<lambda>c. c \<noteq> CHR 10 \<and> c \<noteq> CHR 13) s)"

lemma b64_val_char [simp]: "n < 64 \<Longrightarrow> b64_val (b64_char n) = Some n"
proof -
  assume "n < 64"
  then consider "n < 52" | "52 \<le> n" "n < 62" | "n = 62" | "n = 63" by linarith
  then show ?thesis
    by cases (auto simp: b64_char_def b64_val_def byte_def Let_def)
qed

lemma byte_lt [simp]: "byte c < 256"
  by (simp add: byte_def)

lemma chr_byte [simp]: "chr (byte c) = c"
  by (simp add: chr_def byte_def)

lemma b64_val_pad [simp]: "b64_val CHR ''='' = None"
  by (simp add: b64_val_def byte_def)

lemma b64_small [simp]:
  "byte b div 16 div 16 = 0" "byte b div 16 mod 16 = byte b div 16"
  "byte c div 64 div 4 = 0" "byte c div 64 mod 4 = byte c div 64"
proof -
  have "byte b div 16 < 16" "byte c div 64 < 4"
    by (simp_all add: less_mult_imp_div_less)
  then show "byte b div 16 div 16 = 0" "byte b div 16 mod 16 = byte b div 16"
    "byte c div 64 div 4 = 0" "byte c div 64 mod 4 = byte c div 64"
    by (simp_all only: div_less mod_less)
qed

lemma b64_ranges [simp]:
  "byte a div 4 < 64" "byte a mod 4 * 16 < 64" "byte a mod 4 * 16 + byte b div 16 < 64"
  "byte b mod 16 * 4 < 64" "byte b mod 16 * 4 + byte c div 64 < 64" "byte c mod 64 < 64"
  using byte_lt [of a] byte_lt [of b] byte_lt [of c] by linarith+

lemma b64_groups_encode: "b64_groups (b64_encode s) = Inr s"
  by (induction s rule: b64_encode.induct) simp_all

lemma b64_char_not_break: "n < 64 \<Longrightarrow> b64_char n \<noteq> CHR 10 \<and> b64_char n \<noteq> CHR 13"
proof -
  assume "n < 64"
  then have "b64_val (b64_char n) = Some n" by (rule b64_val_char)
  moreover have "b64_val CHR 10 = None" "b64_val CHR 13 = None"
    by (simp_all add: b64_val_def byte_def)
  ultimately show ?thesis by (metis option.distinct(1))
qed

lemma b64_encode_no_break: "c \<in> set (b64_encode s) \<Longrightarrow> c \<noteq> CHR 10 \<and> c \<noteq> CHR 13"
  by (induction s rule: b64_encode.induct) (auto dest: b64_char_not_break simp: b64_char_not_break)

text \<open>Decoding what the encoder wrote gives the bytes back.\<close>

lemma b64_decode_encode: "b64_decode (b64_encode s) = Inr s"
proof -
  have "filter (\<lambda>c. c \<noteq> CHR 10 \<and> c \<noteq> CHR 13) (b64_encode s) = b64_encode s"
    by (rule filter_True) (auto dest: b64_encode_no_break)
  then show ?thesis by (simp add: b64_decode_def b64_groups_encode)
qed

end
