(* ===== verification/Go_Regexp.thy ===== *)
theory Go_Regexp
  imports Go_Strings
begin

text \<open>
  Go's \<open>regexp\<close> package as the processors use it: \<open>MatchString\<close>, \<open>FindStringSubmatch\<close>,
  \<open>SubexpNames\<close> and \<open>ReplaceAllString\<close>. A compiled pattern is its syntax tree over bytes (a
  class of non-ASCII runes is an alternative of byte sequences, as in RE2's compiler) together
  with the names of its groups. Matching is leftmost-first: the matcher explores the
  alternatives in the order of the pattern and keeps the first that succeeds, which is the match
  RE2 reports. The parser from pattern text to syntax tree is a parameter of the definitions
  that compile patterns.
\<close>

datatype rx =
    REps
  | RClass bool "(char \<times> char) list" \<comment> \<open>negated?, byte ranges\<close>
  | RCat rx rx
  | RAlt rx rx
  | RStar bool rx \<comment> \<open>greedy?\<close>
  | RCap nat rx
  | RBegin
  | REnd

record regexp =
  rx_ast :: rx
  rx_names :: "string list" \<comment> \<open>\<open>SubexpNames\<close>: entry 0 is empty, entry n names group n\<close>

type_synonym caps = "(nat \<times> nat \<times> nat) list" \<comment> \<open>group, start, end; the newest first\<close>
type_synonym cont = "nat \<Rightarrow> caps \<Rightarrow> (nat \<times> caps) option"

abbreviation (input) rlit :: "char \<Rightarrow> rx" where
  "rlit c \<equiv> RClass False [(c, c)]"

definition in_class :: "bool \<Rightarrow> (char \<times> char) list \<Rightarrow> char \<Rightarrow> bool" where
  "in_class neg rs c \<longleftrightarrow>
    (list_ex (\<lambda>(lo, hi). byte lo \<le> byte c \<and> byte c \<le> byte hi) rs) \<noteq> neg"

definition or_else :: "'a option \<Rightarrow> 'a option \<Rightarrow> 'a option" where
  "or_else a b = (case a of None \<Rightarrow> b | Some _ \<Rightarrow> a)"

text \<open>
  The iterations of a starred group: every further iteration must advance, so \<open>Suc\<close> of the
  remaining length bounds their number.
\<close>

fun star_loop :: "bool \<Rightarrow> (cont \<Rightarrow> cont) \<Rightarrow> nat \<Rightarrow> cont \<Rightarrow> cont" where
  "star_loop greedy body 0 k i c = k i c"
| "star_loop greedy body (Suc n) k i c =
    (let again = body (\<lambda>j c'. if i < j then star_loop greedy body n k j c' else None) i c
     in if greedy then or_else again (k i c) else or_else (k i c) again)"

fun rx_match :: "rx \<Rightarrow> string \<Rightarrow> cont \<Rightarrow> cont" where
  "rx_match REps s k i c = k i c"
| "rx_match (RClass neg rs) s k i c =
    (if i < length s \<and> in_class neg rs (s ! i) then k (Suc i) c else None)"
| "rx_match (RCat a b) s k i c = rx_match a s (rx_match b s k) i c"
| "rx_match (RAlt a b) s k i c = or_else (rx_match a s k i c) (rx_match b s k i c)"
| "rx_match (RStar g a) s k i c = star_loop g (rx_match a s) (Suc (length s - i)) k i c"
| "rx_match (RCap n a) s k i c = rx_match a s (\<lambda>j c'. k j ((n, i, j) # c')) i c"
| "rx_match RBegin s k i c = (if i = 0 then k i c else None)"
| "rx_match REnd s k i c = (if i = length s then k i c else None)"

definition match_at :: "rx \<Rightarrow> string \<Rightarrow> nat \<Rightarrow> (nat \<times> caps) option" where
  "match_at r s i = rx_match r s (\<lambda>j c. Some (j, c)) i []"

text \<open>The leftmost match at or after a position: start, end and groups.\<close>

fun find_from :: "rx \<Rightarrow> string \<Rightarrow> nat \<Rightarrow> nat \<Rightarrow> (nat \<times> nat \<times> caps) option" where
  "find_from r s 0 i = None"
| "find_from r s (Suc n) i =
    (case match_at r s i of
      Some (j, c) \<Rightarrow> Some (i, j, c)
    | None \<Rightarrow> find_from r s n (Suc i))"

definition find_loc :: "rx \<Rightarrow> string \<Rightarrow> nat \<Rightarrow> (nat \<times> nat \<times> caps) option" where
  "find_loc r s i = find_from r s (Suc (length s) - i) i"

definition match_string :: "regexp \<Rightarrow> string \<Rightarrow> bool" where
  "match_string re s \<longleftrightarrow> find_loc (rx_ast re) s 0 \<noteq> None"

definition group_text :: "string \<Rightarrow> nat \<times> nat \<times> caps \<Rightarrow> nat \<Rightarrow> string" where
  "group_text s m n =
    (case m of (i, j, c) \<Rightarrow>
      if n = 0 then take (j - i) (drop i s)
      else (case map_of c n of None \<Rightarrow> [] | Some (a, b) \<Rightarrow> take (b - a) (drop a s)))"

definition find_submatch :: "regexp \<Rightarrow> string \<Rightarrow> string list option" where
  "find_submatch re s =
    map_option (\<lambda>m. map (group_text s m) [0..<length (rx_names re)]) (find_loc (rx_ast re) s 0)"

section \<open>Replacement\<close>

definition is_word :: "char \<Rightarrow> bool" where
  "is_word c \<longleftrightarrow> in_class False [(CHR ''a'', CHR ''z''), (CHR ''A'', CHR ''Z''), (CHR ''0'', CHR ''9''), (CHR ''_'', CHR ''_'')] c"

text \<open>
  The template of \<open>ReplaceAllString\<close>: after a dollar sign a group name, in braces or the longest
  run of letters, digits and underscores; two dollar signs are one; a malformed reference is
  kept as it is.
\<close>

definition group_ref :: "regexp \<Rightarrow> string \<Rightarrow> nat option" where
  "group_ref re nm =
    (case parse_nat nm of
      Some n \<Rightarrow> if n < length (rx_names re) then Some n else None
    | None \<Rightarrow> find (\<lambda>i. rx_names re ! i = nm) (rev [0..<length (rx_names re)]))"

fun template_ref :: "string \<Rightarrow> (string \<times> string) option" where
  "template_ref [] = None"
| "template_ref (c # s) =
    (if c = CHR ''{'' then
       (let nm = takeWhile is_word s; r = dropWhile is_word s
        in if nm \<noteq> [] \<and> r \<noteq> [] \<and> hd r = CHR ''}'' then Some (nm, tl r) else None)
     else
       (let nm = takeWhile is_word (c # s)
        in if nm \<noteq> [] then Some (nm, dropWhile is_word (c # s)) else None))"

lemma length_dropWhile_word: "length (dropWhile is_word s) \<le> length s"
  by (rule length_dropWhile_le)

lemma template_ref_shorter: "template_ref t = Some (nm, r) \<Longrightarrow> length r \<le> length t"
  using length_dropWhile_word [of "tl t"] length_dropWhile_word [of t]
  by (cases t) (auto simp: Let_def split: if_splits simp del: dropWhile.simps)

function expand :: "regexp \<Rightarrow> string \<Rightarrow> nat \<times> nat \<times> caps \<Rightarrow> string \<Rightarrow> string" where
  "expand re s m [] = []"
| "expand re s m (c # t) =
    (if c \<noteq> CHR ''$'' then c # expand re s m t
     else if t \<noteq> [] \<and> hd t = CHR ''$'' then CHR ''$'' # expand re s m (tl t)
     else (case template_ref t of
        None \<Rightarrow> CHR ''$'' # expand re s m t
      | Some (nm, r) \<Rightarrow>
          (case group_ref re nm of None \<Rightarrow> [] | Some n \<Rightarrow> group_text s m n) @ expand re s m r))"
  by pat_completeness auto
termination
  by (relation "measure (\<lambda>(re, s, m, t). length t)") (auto dest: template_ref_shorter)

text \<open>
  \<open>ReplaceAllString\<close>: \<open>n\<close> bounds the rounds, each of which advances the search position; an empty
  match right after another match is not replaced.
\<close>

fun replace_loop :: "regexp \<Rightarrow> string \<Rightarrow> string \<Rightarrow> nat \<Rightarrow> nat \<Rightarrow> nat \<Rightarrow> string" where
  "replace_loop re s t 0 search prev = drop prev s"
| "replace_loop re s t (Suc n) search prev =
    (if length s < search then drop prev s
     else (case find_loc (rx_ast re) s search of
        None \<Rightarrow> drop prev s
      | Some (i, j, c) \<Rightarrow>
          take (i - prev) (drop prev s) @
          (if prev < j \<or> i = 0 then expand re s (i, j, c) t else []) @
          replace_loop re s t n (max j (search + max 1 (rune_len (drop search s)))) j))"

definition replace_all :: "regexp \<Rightarrow> string \<Rightarrow> string \<Rightarrow> string" where
  "replace_all re s t = replace_loop re s t (length s + 2) 0 0"

section \<open>Properties of the matcher\<close>

lemma or_else_Some: "or_else a b = Some x \<Longrightarrow> a = Some x \<or> b = Some x"
  by (auto simp: or_else_def split: option.splits)

lemma star_loop_result:
  assumes "star_loop g body n k i c = Some x"
    and "\<And>k i c. body k i c = Some x \<Longrightarrow> \<exists>j c'. i \<le> j \<and> k j c' = Some x"
  shows "\<exists>j c'. i \<le> j \<and> k j c' = Some x"
  using assms(1)
proof (induction n arbitrary: i c)
  case (Suc n)
  let ?again = "body (\<lambda>j c'. if i < j then star_loop g body n k j c' else None) i c"
  from Suc.prems have "?again = Some x \<or> k i c = Some x"
    by (auto simp: Let_def dest!: or_else_Some split: if_splits)
  then show ?case
  proof
    assume "?again = Some x"
    from assms(2) [OF this] obtain j c'
      where "(if i < j then star_loop g body n k j c' else None) = Some x" by blast
    then have "i < j" "star_loop g body n k j c' = Some x" by (simp_all split: if_splits)
    then show ?thesis using Suc.IH by (meson less_imp_le order_trans)
  qed auto
qed auto

lemma rx_match_result: "rx_match r s k i c = Some x \<Longrightarrow> \<exists>j c'. i \<le> j \<and> k j c' = Some x"
proof (induction r arbitrary: k i c)
  case (RClass neg rs)
  then have "k (Suc i) c = Some x" by (simp split: if_splits)
  then show ?case by (metis le_SucI order_refl)
next
  case (RCat a b)
  then show ?case by (metis order_trans rx_match.simps(3))
next
  case (RAlt a b)
  from RAlt.prems have "rx_match a s k i c = Some x \<or> rx_match b s k i c = Some x"
    by (auto dest: or_else_Some)
  with RAlt.IH show ?case by blast
next
  case (RStar g a)
  from RStar.prems have "star_loop g (rx_match a s) (Suc (length s - i)) k i c = Some x"
    by (simp del: star_loop.simps)
  then show ?case by (rule star_loop_result) (rule RStar.IH)
next
  case (RCap n a)
  then show ?case by fastforce
qed (auto split: if_splits)

text \<open>A literal class repeated along a fixed string matches exactly that string.\<close>

fun rx_lit :: "string \<Rightarrow> rx" where
  "rx_lit [] = REps"
| "rx_lit (x # xs) = RCat (rlit x) (rx_lit xs)"

definition re_of :: "rx \<Rightarrow> regexp" where
  "re_of r = \<lparr>rx_ast = r, rx_names = [[]]\<rparr>"

lemma in_class_lit [simp]: "in_class False [(x, x)] c \<longleftrightarrow> c = x"
proof -
  have "byte c = byte x \<longleftrightarrow> c = x" by (simp add: byte_def)
  then show ?thesis by (auto simp: in_class_def)
qed

lemma rx_match_lit:
  "i \<le> length s \<Longrightarrow> rx_match (rx_lit p) s k i c = (if has_prefix (drop i s) p \<and> i + length p \<le> length s then k (i + length p) c else None)"
proof (induction p arbitrary: i)
  case Nil
  then show ?case by (simp add: has_prefix_def)
next
  case (Cons x p)
  show ?case
  proof (cases "i < length s")
    case True
    then have "drop i s = s ! i # drop (Suc i) s" by (simp add: Cons_nth_drop_Suc)
    with True Cons.IH [of "Suc i"] Cons.prems show ?thesis by (auto simp: has_prefix_def)
  next
    case False
    with Cons.prems have "i = length s" by simp
    then show ?thesis by (simp add: has_prefix_def)
  qed
qed

end
