(* ===== verification/Condition.thy ===== *)
theory Condition
  imports Event Go_Base64 Go_Regexp
begin

text \<open>
  \<open>pkg/formatters/condition.go\<close>: evaluating a jq condition on an event, and the pieces of
  processor initialisation that all processors share (compiling a list of patterns, compiling a
  condition). The jq engine is the gojq package: a compiled query is a function from its input to
  the first result of its iterator. Parameters: \<open>rj\<close> is the round trip through \<open>encoding/json\<close>
  that the fallback makes, \<open>jqc\<close> is \<open>gojq.Parse\<close> followed by \<open>gojq.Compile\<close>, \<open>compile\<close> is
  \<open>regexp.Compile\<close>.
\<close>

datatype jq_out = JQNone | JQErr string | JQVal gval

type_synonym jq_code = "gval \<Rightarrow> jq_out"
type_synonym rejson = "gval \<Rightarrow> gval res"

lemma size_gval_snd [termination_simp]:
  "kv \<in> set kvs \<Longrightarrow> size (snd kv) < Suc (size_list (size_prod (\<lambda>_. 0) size) kvs)"
  by (induction kvs) auto

fun clone_value :: "rejson \<Rightarrow> gval \<Rightarrow> gval res" where
  "clone_value rj (VF64 w) =
    (if f64_finite w then Inr (VF64 w) else Inl ''json: unsupported value'')"
| "clone_value rj (VF32 w) =
    (if f32_finite w then Inr (VF32 w) else Inl ''json: unsupported value'')"
| "clone_value rj (VBytes b) = Inr (VStr (b64_encode b))"
| "clone_value rj (VTypedNil _) = Inr VNil"
| "clone_value rj (VMap kvs) =
    (case rmap (\<lambda>kv. case clone_value rj (snd kv) of Inl e \<Rightarrow> Inl e | Inr w \<Rightarrow> Inr (fst kv, w)) kvs of
      Inl e \<Rightarrow> Inl e
    | Inr kvs' \<Rightarrow> Inr (VMap kvs'))"
| "clone_value rj (VStrMap m) = Inr (VMap (map (\<lambda>(k, s). (k, VStr s)) m))"
| "clone_value rj (VList xs) =
    (case rmap (clone_value rj) xs of Inl e \<Rightarrow> Inl e | Inr ys \<Rightarrow> Inr (VList ys))"
| "clone_value rj (VStrList ss) = Inr (VList (map VStr ss))"
| "clone_value rj (VProto p) = rj (VProto p)"
| "clone_value rj v = Inr v"

text \<open>A nil event gives a nil map; the input of the query is then that typed nil.\<close>

definition condition_input :: "rejson \<Rightarrow> event_msg option \<Rightarrow> gval res" where
  "condition_input rj e =
    (case to_map e of
      None \<Rightarrow> Inr (VTypedNil KMap)
    | Some m \<Rightarrow> clone_value rj (VMap m))"

definition check_condition :: "rejson \<Rightarrow> jq_code option \<Rightarrow> event_msg option \<Rightarrow> bool res" where
  "check_condition rj code e =
    (case code of
      None \<Rightarrow> Inr True
    | Some run \<Rightarrow>
        rbind (condition_input rj e) (\<lambda>input.
          case run input of
            JQNone \<Rightarrow> Inr False
          | JQErr err \<Rightarrow> Inl err
          | JQVal (VBool b) \<Rightarrow> Inr b
          | JQVal _ \<Rightarrow> Inl ''unexpected condition return type''))"

text \<open>The callers that only log the error go on with the accompanying \<open>false\<close>.\<close>

definition cond_ok :: "bool res \<Rightarrow> bool" where
  "cond_ok r = (case r of Inr b \<Rightarrow> b | Inl _ \<Rightarrow> False)"

section \<open>Shared steps of the processors' Init methods\<close>

type_synonym re_compiler = "string \<Rightarrow> regexp res"
type_synonym jq_compiler = "string \<Rightarrow> jq_code res"

definition compile_regex :: "re_compiler \<Rightarrow> string list \<Rightarrow> regexp list res" where
  "compile_regex compile exprs = rmap compile exprs"

definition matches_any :: "string \<Rightarrow> regexp list \<Rightarrow> bool" where
  "matches_any s pats \<longleftrightarrow> list_ex (\<lambda>re. match_string re s) pats"

definition matches_string :: "gval \<Rightarrow> regexp list \<Rightarrow> bool" where
  "matches_string v pats = (case as_str v of Some s \<Rightarrow> matches_any s pats | None \<Rightarrow> False)"

lemma matches_any_Nil [simp]: "\<not> matches_any s []"
  by (simp add: matches_any_def)

lemma matches_string_Nil [simp]: "\<not> matches_string v []"
  by (simp add: matches_string_def split: option.splits)

section \<open>What a condition sees\<close>

text \<open>
  The values gojq accepts: nil, booleans, strings, numbers that JSON can represent, and maps and
  slices of such values.
\<close>

fun jq_native :: "gval \<Rightarrow> bool" where
  "jq_native (VF64 w) = f64_finite w"
| "jq_native (VF32 w) = f32_finite w"
| "jq_native (VBytes _) = False"
| "jq_native (VTypedNil _) = False"
| "jq_native (VStrMap _) = False"
| "jq_native (VStrList _) = False"
| "jq_native (VProto _) = False"
| "jq_native (VMap kvs) = list_all (\<lambda>kv. jq_native (snd kv)) kvs"
| "jq_native (VList xs) = list_all jq_native xs"
| "jq_native v = True"

lemma clone_value_jq_native:
  "\<forall>p w. rj (VProto p) = Inr w \<longrightarrow> jq_native w \<Longrightarrow> clone_value rj v = Inr w \<Longrightarrow> jq_native w"
proof (induction rj v arbitrary: w rule: clone_value.induct)
  case (5 rj kvs)
  then obtain kvs' where kvs': "w = VMap kvs'"
    "list_all2 (\<lambda>kv kv'. (case clone_value rj (snd kv) of Inl e \<Rightarrow> Inl e | Inr w \<Rightarrow> Inr (fst kv, w)) = Inr kv') kvs kvs'"
    by (auto simp: rmap_Inr_iff split: sum.splits)
  have "jq_native (snd kv')" if "kv' \<in> set kvs'" for kv'
  proof -
    from that obtain i where i: "i < length kvs'" "kv' = kvs' ! i"
      by (metis in_set_conv_nth)
    with kvs'(2) have "i < length kvs"
      "(case clone_value rj (snd (kvs ! i)) of Inl e \<Rightarrow> Inl e | Inr w \<Rightarrow> Inr (fst (kvs ! i), w)) = Inr kv'"
      by (auto simp: list_all2_conv_all_nth)
    then have "kvs ! i \<in> set kvs" "clone_value rj (snd (kvs ! i)) = Inr (snd kv')"
      by (auto split: sum.splits)
    then show ?thesis by (rule "5.IH" [OF _ "5.prems"(1)])
  qed
  with kvs'(1) show ?case by (simp add: list_all_iff)
next
  case (7 rj xs)
  then obtain ys where ys: "w = VList ys" "list_all2 (\<lambda>x y. clone_value rj x = Inr y) xs ys"
    by (auto simp: rmap_Inr_iff split: sum.splits)
  have "jq_native y" if "y \<in> set ys" for y
  proof -
    from that obtain i where i: "i < length ys" "y = ys ! i"
      by (metis in_set_conv_nth)
    with ys(2) have "xs ! i \<in> set xs" "clone_value rj (xs ! i) = Inr y"
      by (auto simp: list_all2_conv_all_nth)
    then show ?thesis by (rule "7.IH" [OF _ "7.prems"(1)])
  qed
  with ys(1) show ?case by (simp add: list_all_iff)
qed (auto simp: list_all_iff split: if_splits)

lemma rmap_id: "(\<And>x. x \<in> set xs \<Longrightarrow> f x = Inr x) \<Longrightarrow> rmap f xs = Inr xs"
  by (induction xs) auto

lemma clone_value_native_id: "jq_native v \<Longrightarrow> clone_value rj v = Inr v"
proof (induction rj v rule: clone_value.induct)
  case (5 rj kvs)
  then show ?case by (simp add: list_all_iff rmap_id)
next
  case (7 rj xs)
  then show ?case by (simp add: list_all_iff rmap_id)
qed auto

section \<open>Properties\<close>

text \<open>Whatever an event holds, the input a condition is evaluated on consists of values gojq accepts,
  provided the JSON round trip of a protobuf message does; and for an event whose values are
  already acceptable the input is the event itself.\<close>

theorem condition_input_native:
  assumes "\<And>p w. rj (VProto p) = Inr w \<Longrightarrow> jq_native w"
  shows "(condition_input rj (Some e) = Inr w \<longrightarrow> jq_native w) \<and>
    (list_all (\<lambda>kv. jq_native (snd kv)) (values_of e) \<longrightarrow>
      map_option Inr (map_option VMap (to_map (Some e))) = Some (condition_input rj (Some e)))"
proof -
  obtain m where m: "to_map (Some e) = Some m" by (simp add: to_map_def)
  have "jq_native w" if "condition_input rj (Some e) = Inr w"
    using clone_value_jq_native [of rj "VMap m" w] that assms
    unfolding condition_input_def m option.case by blast
  moreover have "clone_value rj (VMap m) = Inr (VMap m)" if "list_all (\<lambda>kv. jq_native (snd kv)) (values_of e)"
    by (rule clone_value_native_id) (use m that in \<open>auto simp: to_map_def list_all_iff\<close>)
  ultimately show ?thesis unfolding condition_input_def m by simp
qed

theorem condition_input_native_witness:
  "\<exists>w. condition_input (\<lambda>_. Inr VNil) (Some (zero_event\<lparr>em_values := Some [(''v'', VBytes ''x'')]\<rparr>)) = Inr w \<and> jq_native w"
proof -
  let ?e = "zero_event\<lparr>em_values := Some [(''v'', VBytes ''x'')]\<rparr>"
  obtain w where w: "condition_input (\<lambda>_. Inr VNil) (Some ?e) = Inr w"
    by (simp add: condition_input_def to_map_def zero_event_def deletes_of_def)
  moreover have "jq_native w" using condition_input_native [of "\<lambda>_. Inr VNil" ?e w] w by simp
  ultimately show ?thesis by blast
qed

end
