(* ===== verification/Interfaces.thy ===== *)
theory Interfaces
  imports Condition
begin

text \<open>
  The contracts several processors share, as locales. \<open>in_place_processor\<close> is a processor that
  transforms each event by itself, skips nil pointers and never changes the name of an event;
  \<open>filtering_processor\<close> walks the slice once, keeping, rewriting or dropping each element;
  \<open>selecting_processor\<close> is a filtering processor that rewrites nothing. Every processor theory
  interprets the locale its processor fulfils.
\<close>

definition lift_event :: "(event_msg \<Rightarrow> event_msg option) \<Rightarrow> event_msg option \<Rightarrow> event_msg option option" where
  "lift_event f eo = (case eo of None \<Rightarrow> Some None | Some e \<Rightarrow> map_option Some (f e))"

lemma lift_event_total: "lift_event (\<lambda>e. Some (g e)) eo = Some (map_option g eo)"
  by (simp add: lift_event_def split: option.splits)

locale in_place_processor =
  fixes ev :: "event_msg \<Rightarrow> event_msg option" and app :: processor
  assumes app_def: "app es = omap (lift_event ev) es"
    and keeps_name: "ev e = Some e' \<Longrightarrow> em_name e' = em_name e"
begin

lemma in_place_length: "app es = Some es' \<Longrightarrow> length es' = length es"
  by (auto simp: app_def omap_Some_iff dest: list_all2_lengthD)

lemma in_place_nth:
  "app es = Some es' \<Longrightarrow> i < length es \<Longrightarrow> lift_event ev (es ! i) = Some (es' ! i)"
  by (auto simp: app_def omap_Some_iff list_all2_conv_all_nth)

lemma in_place_name:
  assumes "app es = Some es'" and "i < length es"
  shows "map_option em_name (es' ! i) = map_option em_name (es ! i)"
  using in_place_nth [OF assms]
  by (cases "es ! i"; cases "es' ! i") (auto simp: lift_event_def keeps_name)

lemma in_place_append:
  "app (xs @ ys) = Option.bind (app xs) (\<lambda>us. map_option (\<lambda>vs. us @ vs) (app ys))"
proof -
  have "omap f (xs @ ys) = Option.bind (omap f xs) (\<lambda>us. map_option (\<lambda>vs. us @ vs) (omap f ys))"
    for f :: "event_msg option \<Rightarrow> event_msg option option"
  proof (induction xs)
    case Nil
    show ?case by (cases "omap f ys") simp_all
  next
    case (Cons x xs)
    then show ?case
      by (cases "f x"; cases "omap f xs"; cases "omap f ys") simp_all
  qed
  then show ?thesis by (simp add: app_def)
qed

lemma in_place_panics: "app es = None \<longleftrightarrow> (\<exists>e. Some e \<in> set es \<and> ev e = None)"
  by (auto simp: app_def omap_None_iff lift_event_def split: option.splits)

end

lemma in_place_processorI:
  assumes "\<And>es. app es = Some (map (map_option g) es)" and "\<And>e. em_name (g e) = em_name e"
  shows "in_place_processor (\<lambda>e. Some (g e)) app"
proof
  fix es
  show "app es = omap (lift_event (\<lambda>e. Some (g e))) es"
    unfolding assms(1) by (rule omap_total [symmetric]) (simp add: lift_event_total)
qed (auto simp: assms(2))

lemma in_place_panicI:
  assumes "\<And>es. app es = omap (lift_event f) es" and "\<And>e e'. f e = Some e' \<Longrightarrow> em_name e' = em_name e"
  shows "in_place_processor f app"
  by unfold_locales (simp_all add: assms)

locale filtering_processor =
  fixes step :: "event_msg option \<Rightarrow> event_msg option option option" and app :: processor
  assumes app_step: "app es = compact step es"
begin

lemma filtering_length: "app es = Some es' \<Longrightarrow> length es' \<le> length es"
proof -
  assume "app es = Some es'"
  then obtain rs where rs: "omap step es = Some rs" "es' = List.map_filter id rs"
    by (auto simp: app_step compact_eq)
  have "length (List.map_filter id rs) \<le> length rs"
    by (simp add: List.map_filter_def)
  moreover have "length rs = length es"
    using rs(1) by (auto simp: omap_Some_iff dest: list_all2_lengthD)
  ultimately show ?thesis using rs(2) by simp
qed

lemma filtering_append:
  assumes "app xs = Some xs'" and "app ys = Some ys'"
  shows "app (xs @ ys) = Some (xs' @ ys')"
proof -
  from assms obtain us vs where u: "omap step xs = Some us" "xs' = List.map_filter id us"
    and v: "omap step ys = Some vs" "ys' = List.map_filter id vs"
    by (auto simp: app_step compact_eq)
  have "omap step (xs @ ys) = Some (us @ vs)"
    using u(1) v(1) by (auto simp: omap_Some_iff intro: list_all2_appendI)
  then show ?thesis using u(2) v(2) by (simp add: app_step compact_eq List.map_filter_def)
qed

end

locale selecting_processor = filtering_processor +
  assumes selects: "step e = Some (Some e') \<Longrightarrow> e' = e"
begin

lemma selecting_filter:
  assumes "\<And>e. e \<in> set es \<Longrightarrow> step e \<noteq> None"
  shows "app es = Some (filter (\<lambda>e. step e = Some (Some e)) es)"
proof -
  have "step e = Some (if step e = Some (Some e) then Some e else None)" if "e \<in> set es" for e
    using assms [OF that] selects [of e] by (cases "step e"; cases "the (step e)") auto
  then show ?thesis unfolding app_step by (rule compact_filter)
qed

lemma selecting_subset: "app es = Some es' \<Longrightarrow> set es' \<subseteq> set es"
proof -
  assume a: "app es = Some es'"
  then have "omap step es \<noteq> None" by (auto simp: app_step compact_eq)
  then have "\<And>e. e \<in> set es \<Longrightarrow> step e \<noteq> None" by (auto simp: omap_None_iff)
  from selecting_filter [OF this] a show ?thesis by auto
qed

lemma selecting_idem:
  assumes "app es = Some es'"
  shows "app es' = Some es'"
proof -
  have "omap step es \<noteq> None" using assms by (auto simp: app_step compact_eq)
  then have total: "\<And>e. e \<in> set es \<Longrightarrow> step e \<noteq> None" by (auto simp: omap_None_iff)
  from selecting_filter [OF this] assms have es': "es' = filter (\<lambda>e. step e = Some (Some e)) es"
    by simp
  have "app es' = Some (filter (\<lambda>e. step e = Some (Some e)) es')"
    by (rule selecting_filter) (use total es' in auto)
  then show ?thesis using es' by simp
qed

end

end
