(* ===== verification/Go_Fnv.thy ===== *)
theory Go_Fnv
  imports Go_Strings
begin

text \<open>\<open>hash/fnv\<close>: the 64-bit FNV-1a hash, with the state after each written byte.\<close>

unbundle bit_operations_syntax

definition fnv_offset :: "64 word" where "fnv_offset = 14695981039346656037"
definition fnv_prime :: "64 word" where "fnv_prime = 1099511628211"

definition fnv_write :: "string \<Rightarrow> 64 word \<Rightarrow> 64 word" where
  "fnv_write s h = fold (\<lambda>c h. (h XOR word_of_nat (byte c)) * fnv_prime) s h"

definition fnv1a :: "string \<Rightarrow> 64 word" where
  "fnv1a s = fnv_write s fnv_offset"

lemma fnv_write_append: "fnv_write (s @ t) h = fnv_write t (fnv_write s h)"
  by (simp add: fnv_write_def)

end
