(* ===== verification/Proc_Group.thy ===== *)
theory Proc_Group
  imports Interfaces Go_Fnv "HOL-Library.Multiset"
begin

text \<open>
  The processors that gather events: \<open>event_group_by\<close>, \<open>event_merge\<close> and \<open>event_combine\<close>. The
  slice holds distinct pointers, as the conversion from responses builds it, so an update through
  one element changes no other; merging returns the updated messages. Parameters: \<open>ord\<close> is the order
  in which a \<open>range\<close> visits the groups, \<open>srt\<close> is \<open>sort.Slice\<close> on time stamps, which leaves the
  order of equal time stamps open.
\<close>

section \<open>event-group-by\<close>

record group_cfg =
  gb_tags :: "string list"
  gb_by_name :: bool

text \<open>The bytes hashed for a group; \<open>None\<close> when a tag is missing.\<close>

fun key_bytes :: "string gmap \<Rightarrow> string list \<Rightarrow> string option" where
  "key_bytes tags [] = Some []"
| "key_bytes tags (t # ts) =
    (case map_of tags t of
      None \<Rightarrow> None
    | Some v \<Rightarrow> map_option (\<lambda>r. t @ ''='' @ v @ ''|'' @ r) (key_bytes tags ts))"

definition generate_key_and_check :: "string gmap \<Rightarrow> string list \<Rightarrow> 64 word \<times> bool" where
  "generate_key_and_check tags keys =
    (case key_bytes tags keys of None \<Rightarrow> (0, False) | Some b \<Rightarrow> (fnv1a b, True))"

text \<open>\<open>append(a, b...)\<close> on slices that may be nil.\<close>

definition nappend :: "string list option \<Rightarrow> string list option \<Rightarrow> string list option" where
  "nappend a b =
    (let bs = (case b of None \<Rightarrow> [] | Some l \<Rightarrow> l)
     in case a of
        None \<Rightarrow> if bs = [] then None else Some bs
      | Some l \<Rightarrow> Some (l @ bs))"

definition skipped :: "event_msg \<Rightarrow> bool" where
  "skipped e \<longleftrightarrow> em_tags e = None \<or> em_values e = None \<and> em_deletes e = None"

definition add_to_group :: "event_msg \<Rightarrow> event_msg \<Rightarrow> event_msg" where
  "add_to_group e g =
    g\<lparr>em_tags := Some (gset_all (tags_of e) (tags_of g)),
      em_values := Some (gset_all (values_of e) (values_of g)),
      em_deletes := (if em_deletes e \<noteq> None then nappend (em_deletes g) (em_deletes e) else em_deletes g)\<rparr>"

fun by_tags_old_loop ::
  "string list \<Rightarrow> event_msg option list \<Rightarrow> event_msg list \<times> (string \<times> event_msg) list \<Rightarrow>
   event_msg list \<times> (string \<times> event_msg) list" where
  "by_tags_old_loop ts [] st = st"
| "by_tags_old_loop ts (None # es) st = by_tags_old_loop ts es st"
| "by_tags_old_loop ts (Some e # es) (result, groups) =
    by_tags_old_loop ts es
      (if skipped e then (result, groups)
       else case key_bytes (tags_of e) ts of
         None \<Rightarrow> (result @ [e], groups)
       | Some skey \<Rightarrow>
           let group = (case map_of groups skey of
                 Some g \<Rightarrow> g
               | None \<Rightarrow> \<lparr>em_name = em_name e, em_timestamp = em_timestamp e, em_tags = Some [],
                   em_values = Some [], em_deletes = None\<rparr>)
           in (result, AList.update skey (add_to_group e group) groups))"

definition by_tags_old :: "string list \<Rightarrow> event_msg option list \<Rightarrow> event_msg option list" where
  "by_tags_old ts es =
    (if ts = [] then es
     else let (result, groups) = by_tags_old_loop ts es ([], [])
          in map Some result @ map (map_of groups) (sort (map fst groups)))"

fun by_tags_loop ::
  "string list \<Rightarrow> event_msg option list \<Rightarrow> event_msg list \<times> (64 word \<times> event_msg) list \<Rightarrow>
   event_msg list \<times> (64 word \<times> event_msg) list" where
  "by_tags_loop ts [] st = st"
| "by_tags_loop ts (None # es) st = by_tags_loop ts es st"
| "by_tags_loop ts (Some e # es) (result, groups) =
    by_tags_loop ts es
      (if skipped e then (result, groups)
       else case generate_key_and_check (tags_of e) ts of
         (skey, matched) \<Rightarrow>
           if \<not> matched then (result @ [e], groups)
           else let group = (case map_of groups skey of
                  Some g \<Rightarrow> g
                | None \<Rightarrow> \<lparr>em_name = em_name e, em_timestamp = em_timestamp e, em_tags = Some [],
                    em_values = Some [], em_deletes = Some []\<rparr>)
            in (result, AList.update skey (add_to_group e group) groups))"

definition by_tags ::
  "(64 word list \<Rightarrow> 64 word list) \<Rightarrow> string list \<Rightarrow> event_msg option list \<Rightarrow> event_msg option list" where
  "by_tags ord ts es =
    (if ts = [] then es
     else let (result, groups) = by_tags_loop ts es ([], [])
          in map Some result @ map (map_of groups) (ord (map fst groups)))"

text \<open>Grouping by name first reads the name through every pointer, so a nil event panics.\<close>

fun name_groups :: "event_msg option list \<Rightarrow> (string \<times> event_msg option list) list \<Rightarrow>
    (string \<times> event_msg option list) list option" where
  "name_groups [] groups = Some groups"
| "name_groups (None # es) groups = None"
| "name_groups (Some e # es) groups =
    name_groups es
      (AList.update (em_name e)
        ((case map_of groups (em_name e) of None \<Rightarrow> [] | Some g \<Rightarrow> g) @ [Some e]) groups)"

definition group_by_apply :: "(64 word list \<Rightarrow> 64 word list) \<Rightarrow> group_cfg \<Rightarrow> processor" where
  "group_by_apply ord p es =
    (if \<not> gb_by_name p then Some (by_tags ord (gb_tags p) es)
     else map_option
       (\<lambda>groups. concat (map (\<lambda>n. by_tags ord (gb_tags p) (case map_of groups n of None \<Rightarrow> [] | Some g \<Rightarrow> g))
          (sort (map fst groups))))
       (name_groups es []))"

section \<open>event-merge\<close>

definition merge_events :: "event_msg \<Rightarrow> event_msg \<Rightarrow> event_msg" where
  "merge_events e1 e2 =
    e1\<lparr>em_tags := Some (gset_all (tags_of e2) (tags_of e1)),
       em_values := Some (gset_all (values_of e2) (values_of e1)),
       em_deletes := nappend (em_deletes e1) (em_deletes e2),
       em_timestamp :=
         (if em_timestamp e1 <s em_timestamp e2 then em_timestamp e2 else em_timestamp e1)\<rparr>"

fun merge_always_loop :: "event_msg option list \<Rightarrow> event_msg option \<Rightarrow> event_msg option option" where
  "merge_always_loop [] e0 = Some e0"
| "merge_always_loop (None # es) e0 = merge_always_loop es e0"
| "merge_always_loop (Some e # es) e0 =
    (case e0 of None \<Rightarrow> None | Some e1 \<Rightarrow> merge_always_loop es (Some (merge_events e1 e)))"

fun merge_loop ::
  "event_msg option list \<Rightarrow> event_msg list \<Rightarrow> (64 word \<times> nat) list \<Rightarrow> event_msg list" where
  "merge_loop [] result timestamps = result"
| "merge_loop (None # es) result timestamps = merge_loop es result timestamps"
| "merge_loop (Some e # es) result timestamps =
    (case map_of timestamps (em_timestamp e) of
      Some idx \<Rightarrow> merge_loop es (result[idx := merge_events (result ! idx) e]) timestamps
    | None \<Rightarrow> merge_loop es (result @ [e]) (AList.update (em_timestamp e) (length result) timestamps))"

definition merge_apply :: "bool \<Rightarrow> processor" where
  "merge_apply always es =
    (if es = [] then Some []
     else if always then map_option (\<lambda>e0. [e0]) (merge_always_loop (tl es) (hd es))
     else Some (map Some (merge_loop es [] [])))"

section \<open>event-combine\<close>

record procseq =
  ps_condition :: "jq_code option"
  ps_proc :: processor

type_synonym slice_sort = "event_msg option list \<Rightarrow> event_msg option list option"

fun combine_split :: "rejson \<Rightarrow> jq_code option \<Rightarrow> event_msg option list \<Rightarrow>
    event_msg option list \<times> event_msg option list" where
  "combine_split rj code [] = ([], [])"
| "combine_split rj code (e # es) =
    (case combine_split rj code es of
      (incl, excl) \<Rightarrow>
        if cond_ok (check_condition rj code e) then (e # incl, excl) else (incl, e # excl))"

definition combine_step :: "rejson \<Rightarrow> slice_sort \<Rightarrow> procseq \<Rightarrow> processor" where
  "combine_step rj srt ps es =
    (case combine_split rj (ps_condition ps) es of
      (incl, excl) \<Rightarrow>
        (case ps_proc ps incl of
          None \<Rightarrow> None
        | Some incl' \<Rightarrow>
            (let es' = incl' @ excl in if length es' > 1 then srt es' else Some es')))"

fun combine_apply :: "rejson \<Rightarrow> slice_sort \<Rightarrow> procseq list \<Rightarrow> processor" where
  "combine_apply rj srt [] es = Some es"
| "combine_apply rj srt (ps # pss) es =
    (case combine_step rj srt ps es of None \<Rightarrow> None | Some es' \<Rightarrow> combine_apply rj srt pss es')"

section \<open>The hashed grouping against the one keyed by strings\<close>

lemma map_of_map_inj:
  "inj_on h (insert k (fst ` set gs)) \<Longrightarrow>
   map_of (map (\<lambda>(k, g). (h k, f g)) gs) (h k) = map_option f (map_of gs k)"
  by (induction gs) (auto simp: inj_on_def)

lemma update_map_inj:
  "inj_on h (insert k (fst ` set gs)) \<Longrightarrow>
   AList.update (h k) (f v) (map (\<lambda>(k, g). (h k, f g)) gs) = map (\<lambda>(k, g). (h k, f g)) (AList.update k v gs)"
  by (induction gs) (auto simp: inj_on_def)

text \<open>A slice of deletes counts the same whether it is nil or empty.\<close>

definition norm_deletes :: "event_msg \<Rightarrow> event_msg" where
  "norm_deletes e = e\<lparr>em_deletes := Some (deletes_of e)\<rparr>"

lemma deletes_of_nappend [simp]:
  "(case nappend a b of None \<Rightarrow> [] | Some ds \<Rightarrow> ds) =
   (case a of None \<Rightarrow> [] | Some ds \<Rightarrow> ds) @ (case b of None \<Rightarrow> [] | Some ds \<Rightarrow> ds)"
  by (auto simp: nappend_def Let_def split: option.splits)

lemma deletes_of_add_to_group: "deletes_of (add_to_group e g) = deletes_of g @ deletes_of e"
  by (auto simp: deletes_of_def add_to_group_def)

lemma norm_add_to_group: "norm_deletes (add_to_group e g) = add_to_group e (norm_deletes g)"
  by (auto simp: norm_deletes_def deletes_of_add_to_group)
    (auto simp: add_to_group_def deletes_of_def nappend_def Let_def split: option.splits)

abbreviation hash_groups :: "(string \<times> event_msg) list \<Rightarrow> (64 word \<times> event_msg) list" where
  "hash_groups \<equiv> map (\<lambda>(k, g). (fnv1a k, norm_deletes g))"

definition group_keys :: "string list \<Rightarrow> event_msg option list \<Rightarrow> string set" where
  "group_keys ts es = {k. \<exists>e. Some e \<in> set es \<and> key_bytes (tags_of e) ts = Some k}"

lemma by_tags_loop_simulates:
  assumes "inj_on fnv1a K" and "group_keys ts es \<subseteq> K"
    and "fst ` set gs \<subseteq> K" and "by_tags_old_loop ts es (r, gs) = (r', gs')"
  shows "by_tags_loop ts es (r, hash_groups gs) = (r', hash_groups gs') \<and> fst ` set gs' \<subseteq> K"
  using assms(2-)
proof (induction es arbitrary: r gs)
  case (Cons eo es)
  have sub: "group_keys ts es \<subseteq> K" using Cons.prems(1) by (auto simp: group_keys_def)
  note step = Cons.IH [OF sub]
  show ?case
  proof (cases eo)
    case None
    with Cons step show ?thesis by simp
  next
    case (Some e)
    show ?thesis
    proof (cases "skipped e \<or> key_bytes (tags_of e) ts = None")
      case True
      show ?thesis
        using step [OF Cons.prems(2), of "if skipped e then r else r @ [e]"] Cons.prems(3) Some True
        by (cases "skipped e") (simp_all add: generate_key_and_check_def)
    next
      case False
      then obtain k where k: "key_bytes (tags_of e) ts = Some k" and sk: "\<not> skipped e" by auto
      define g where "g = (case map_of gs k of Some g \<Rightarrow> g | None \<Rightarrow>
        \<lparr>em_name = em_name e, em_timestamp = em_timestamp e, em_tags = Some [], em_values = Some [],
         em_deletes = None\<rparr>)"
      have kK: "k \<in> K" using Cons.prems(1) Some k by (auto simp: group_keys_def)
      then have inj: "inj_on fnv1a (insert k (fst ` set gs))"
        using Cons.prems(2) by (intro inj_on_subset [OF assms(1)]) simp
      have grp: "(case map_of (hash_groups gs) (fnv1a k) of Some g \<Rightarrow> g | None \<Rightarrow>
          \<lparr>em_name = em_name e, em_timestamp = em_timestamp e, em_tags = Some [], em_values = Some [],
           em_deletes = Some []\<rparr>) = norm_deletes g"
        by (simp add: map_of_map_inj [OF inj] g_def norm_deletes_def deletes_of_def split: option.splits)
      have "AList.update (fnv1a k) (add_to_group e (norm_deletes g)) (hash_groups gs) =
          hash_groups (AList.update k (add_to_group e g) gs)"
        using update_map_inj [OF inj, of norm_deletes "add_to_group e g"] by (simp add: norm_add_to_group)
      moreover have "fst ` set (AList.update k (add_to_group e g) gs) \<subseteq> K"
        using Cons.prems(2) kK by (simp add: dom_update flip: dom_map_of_conv_image_fst)
      moreover have "by_tags_old_loop ts es (r, AList.update k (add_to_group e g) gs) = (r', gs')"
        using Cons.prems(3) Some k sk by (simp add: g_def Let_def)
      ultimately show ?thesis
        using step [of "AList.update k (add_to_group e g) gs" r] Some k sk
        by (simp add: generate_key_and_check_def grp Let_def)
    qed
  qed
qed simp

lemma by_tags_old_loop_distinct:
  "distinct (map fst (snd st)) \<Longrightarrow> distinct (map fst (snd (by_tags_old_loop ts es st)))"
  by (induction ts es st rule: by_tags_old_loop.induct)
    (auto simp: Let_def distinct_update split: option.splits)

lemma map_map_of_distinct: "distinct (map fst gs) \<Longrightarrow> map (map_of gs) (map fst gs) = map (\<lambda>(k, g). Some g) gs"
  by (auto intro!: map_cong)

lemma mset_groups:
  assumes "mset ks = mset (map fst gs)" and "distinct (map fst gs)"
  shows "mset (map (map_of gs) ks) = mset (map (\<lambda>(k, g). Some g) gs)"
  using assms map_map_of_distinct [OF assms(2)] by (metis mset_map)

lemma by_tags_mset:
  assumes inj: "inj_on fnv1a (group_keys ts es)" and ord: "\<And>ks. mset (ord ks) = mset ks"
  shows "image_mset (map_option norm_deletes) (mset (by_tags ord ts es)) =
    image_mset (map_option norm_deletes) (mset (by_tags_old ts es))"
proof (cases "ts = []")
  case False
  obtain r gs where old: "by_tags_old_loop ts es ([], []) = (r, gs)" by fastforce
  have sim: "by_tags_loop ts es ([], []) = (r, hash_groups gs)" "fst ` set gs \<subseteq> group_keys ts es"
    using by_tags_loop_simulates [OF inj subset_refl, of "[]" "[]" r gs] old by auto
  have dist: "distinct (map fst gs)"
    using by_tags_old_loop_distinct [of "([], [])" ts es] old by simp
  have "map fst (hash_groups gs) = map fnv1a (map fst gs)" by (simp add: case_prod_beta)
  then have hdist: "distinct (map fst (hash_groups gs))"
    using dist inj_on_subset [OF inj sim(2)] by (simp only: distinct_map) simp
  have "mset (map (map_of (hash_groups gs)) (ord (map fst (hash_groups gs)))) =
      mset (map (\<lambda>(k, g). Some g) (hash_groups gs))"
    by (rule mset_groups [OF ord hdist])
  moreover have "mset (map (map_of gs) (sort (map fst gs))) = mset (map (\<lambda>(k, g). Some g) gs)"
    by (rule mset_groups) (simp_all add: dist)
  moreover have "image_mset (map_option norm_deletes) (mset (map (\<lambda>(k, g). Some g) (hash_groups gs))) =
      image_mset (map_option norm_deletes) (mset (map (\<lambda>(k, g). Some g) gs))"
    by (auto simp: image_mset.compositionality comp_def norm_deletes_def deletes_of_def case_prod_beta
        simp flip: mset_map intro!: arg_cong [of _ _ mset])
  ultimately show ?thesis
    using False by (simp add: by_tags_def by_tags_old_def old sim(1))
qed (simp add: by_tags_def by_tags_old_def)

section \<open>Grouping loses no delete\<close>

abbreviation all_deletes :: "event_msg list \<Rightarrow> string list" where
  "all_deletes es \<equiv> concat (map deletes_of es)"

lemma mset_deletes_update:
  "distinct (map fst gs) \<Longrightarrow>
   mset (all_deletes (map snd (AList.update k g gs))) + mset (case map_of gs k of None \<Rightarrow> [] | Some g' \<Rightarrow> deletes_of g') =
   mset (all_deletes (map snd gs)) + mset (deletes_of g)"
proof (induction gs)
  case (Cons x gs)
  obtain k' g' where x: "x = (k', g')" by (cases x)
  show ?case
  proof (cases "k = k'")
    case False
    with Cons x show ?thesis by (simp add: union_ac)
  qed (simp add: x)
qed simp

lemma by_tags_loop_deletes:
  assumes "by_tags_loop ts es (r, gs) = (r', gs')" and "distinct (map fst gs)"
  shows "mset (all_deletes r') + mset (all_deletes (map snd gs')) =
    mset (all_deletes r) + mset (all_deletes (map snd gs)) +
    mset (all_deletes (filter (\<lambda>e. \<not> skipped e) (List.map_filter id es))) \<and> distinct (map fst gs')"
  using assms
proof (induction es arbitrary: r gs)
  case (Cons eo es)
  show ?case
  proof (cases eo)
    case None
    with Cons show ?thesis by (simp add: List.map_filter_def)
  next
    case (Some e)
    show ?thesis
    proof (cases "skipped e \<or> key_bytes (tags_of e) ts = None")
      case True
      with Some Cons.IH [of "if skipped e then r else r @ [e]" gs] Cons.prems show ?thesis
        by (auto simp: List.map_filter_def generate_key_and_check_def split: if_splits)
    next
      case False
      then obtain k where k: "key_bytes (tags_of e) ts = Some k" and sk: "\<not> skipped e" by auto
      define g where "g = (case map_of gs (fnv1a k) of Some g \<Rightarrow> g | None \<Rightarrow>
        \<lparr>em_name = em_name e, em_timestamp = em_timestamp e, em_tags = Some [], em_values = Some [],
         em_deletes = Some []\<rparr>)"
      have "by_tags_loop ts es (r, AList.update (fnv1a k) (add_to_group e g) gs) = (r', gs')"
        using Cons.prems(1) Some k sk by (simp add: g_def Let_def generate_key_and_check_def)
      moreover have "distinct (map fst (AList.update (fnv1a k) (add_to_group e g) gs))"
        using Cons.prems(2) by (rule distinct_update)
      moreover have "mset (all_deletes (map snd (AList.update (fnv1a k) (add_to_group e g) gs))) =
          mset (all_deletes (map snd gs)) + mset (deletes_of e)"
        using mset_deletes_update [OF Cons.prems(2), of "fnv1a k" "add_to_group e g"]
        by (cases "map_of gs (fnv1a k)")
          (simp_all add: deletes_of_add_to_group g_def union_ac, simp_all add: deletes_of_def)
      ultimately show ?thesis
        using Cons.IH [of r "AList.update (fnv1a k) (add_to_group e g) gs"] Some sk
        by (simp add: List.map_filter_def union_ac)
    qed
  qed
qed (simp add: List.map_filter_def)

section \<open>Merging by time stamp\<close>

text \<open>The reference: each event absorbs, in order, all later events of its time stamp.\<close>

function merge_ref :: "event_msg list \<Rightarrow> event_msg list" where
  "merge_ref [] = []"
| "merge_ref (e # es) =
    foldl merge_events e (filter (\<lambda>e'. em_timestamp e' = em_timestamp e) es) #
    merge_ref (filter (\<lambda>e'. em_timestamp e' \<noteq> em_timestamp e) es)"
  by pat_completeness auto
termination
  by (relation "measure length") (auto simp: less_Suc_eq_le)

lemma merge_events_same_ts:
  "em_timestamp e2 = em_timestamp e1 \<Longrightarrow> em_timestamp (merge_events e1 e2) = em_timestamp e1"
  by (simp add: merge_events_def)

lemma foldl_merge_ts:
  "\<forall>e' \<in> set es. em_timestamp e' = em_timestamp e \<Longrightarrow> em_timestamp (foldl merge_events e es) = em_timestamp e"
  by (induction es arbitrary: e) (simp_all add: merge_events_same_ts)

definition absorb :: "event_msg list \<Rightarrow> event_msg \<Rightarrow> event_msg" where
  "absorb es r = foldl merge_events r (filter (\<lambda>e. em_timestamp e = em_timestamp r) es)"

lemma absorb_Cons_other: "em_timestamp e \<noteq> em_timestamp r \<Longrightarrow> absorb (e # es) r = absorb es r"
  by (simp add: absorb_def)

lemma absorb_Cons_same:
  "em_timestamp e = em_timestamp r \<Longrightarrow> absorb (e # es) r = absorb es (merge_events r e)"
  by (simp add: absorb_def merge_events_same_ts)

text \<open>The map from time stamps to indices is the inverse of the result list.\<close>

definition ts_index :: "event_msg list \<Rightarrow> (64 word \<times> nat) list \<Rightarrow> bool" where
  "ts_index result tsm \<longleftrightarrow> distinct (map em_timestamp result) \<and>
    (\<forall>t i. map_of tsm t = Some i \<longleftrightarrow> i < length result \<and> em_timestamp (result ! i) = t)"

lemma merge_loop_eq:
  assumes "ts_index result tsm"
  shows "merge_loop es result tsm =
    map (absorb (List.map_filter id es)) result @
    merge_ref (filter (\<lambda>e. em_timestamp e \<notin> em_timestamp ` set result) (List.map_filter id es))"
  using assms
proof (induction es arbitrary: result tsm)
  case Nil
  show ?case by (simp add: List.map_filter_def absorb_def cong: map_cong)
next
  case (Cons eo es)
  show ?case
  proof (cases eo)
    case None
    with Cons show ?thesis by (simp add: List.map_filter_def)
  next
    case (Some e)
    define rest where "rest = List.map_filter id es"
    have rest: "List.map_filter id (eo # es) = e # rest"
      by (simp add: Some rest_def List.map_filter_def)
    show ?thesis
    proof (cases "map_of tsm (em_timestamp e)")
      case None
      then have new: "em_timestamp e \<notin> em_timestamp ` set result"
        using Cons.prems unfolding ts_index_def
        by (metis imageE in_set_conv_nth option.distinct(1))
      have ix: "ts_index (result @ [e]) (AList.update (em_timestamp e) (length result) tsm)"
        using Cons.prems new unfolding ts_index_def update_conv'
        by (auto simp: nth_append less_Suc_eq) (metis image_eqI nth_mem)
      have "merge_loop (eo # es) result tsm =
          map (absorb rest) (result @ [e]) @
          merge_ref (filter (\<lambda>x. em_timestamp x \<notin> em_timestamp ` set (result @ [e])) rest)"
        using Cons.IH [OF ix, folded rest_def] Some None by simp
      moreover have "map (absorb (e # rest)) result = map (absorb rest) result"
        using new by (auto simp: absorb_Cons_other image_iff)
      moreover have "filter (\<lambda>x. em_timestamp x \<notin> em_timestamp ` set (result @ [e])) rest =
          filter (\<lambda>x. em_timestamp x \<noteq> em_timestamp e)
            (filter (\<lambda>x. em_timestamp x \<notin> em_timestamp ` set result) rest)"
        by (auto intro: filter_cong)
      moreover have "absorb rest e = foldl merge_events e (filter (\<lambda>x. em_timestamp x = em_timestamp e)
            (filter (\<lambda>x. em_timestamp x \<notin> em_timestamp ` set result) rest))"
        using new by (simp add: absorb_def cong: conj_cong)
          (metis (no_types, lifting) image_iff)
      ultimately show ?thesis unfolding rest using new by simp
    next
      case (Some i)
      then have i: "i < length result" "em_timestamp (result ! i) = em_timestamp e"
        using Cons.prems by (auto simp: ts_index_def)
      define result' where "result' = result[i := merge_events (result ! i) e]"
      have ts: "map em_timestamp result' = map em_timestamp result"
        using i by (simp add: result'_def map_update merge_events_same_ts)
          (metis i(2) list_update_id map_update nth_map)
      have ix: "ts_index result' tsm"
        using Cons.prems ts unfolding ts_index_def
        by (metis length_map nth_map)
      have "merge_loop (eo # es) result tsm = merge_loop es result' tsm"
        using Some \<open>eo = Some e\<close> by (simp add: result'_def)
      moreover have "map (absorb rest) result' = map (absorb (e # rest)) result"
      proof (rule nth_equalityI)
        fix j assume "j < length (map (absorb rest) result')"
        then have j: "j < length result" by (simp add: result'_def)
        show "map (absorb rest) result' ! j = map (absorb (e # rest)) result ! j"
        proof (cases "j = i")
          case False
          then have "em_timestamp (result ! j) \<noteq> em_timestamp e"
            using Cons.prems i j by (metis (no_types, lifting) length_map nth_eq_iff_index_eq nth_map ts_index_def)
          with False j show ?thesis by (simp add: result'_def absorb_Cons_other)
        qed (use i in \<open>simp add: result'_def absorb_Cons_same\<close>)
      qed (simp add: result'_def)
      moreover have "em_timestamp ` set result' = em_timestamp ` set result"
        using ts by (metis list.set_map)
      moreover have "em_timestamp e \<in> em_timestamp ` set result"
        using i by (metis image_eqI nth_mem)
      ultimately show ?thesis unfolding rest using Cons.IH [OF ix, folded rest_def] by simp
    qed
  qed
qed

lemma merge_loop_ref: "merge_loop es [] [] = merge_ref (List.map_filter id es)"
  by (subst merge_loop_eq) (auto simp: ts_index_def)

lemma merge_ref_timestamps: "map em_timestamp (merge_ref es) = rev (remdups (rev (map em_timestamp es)))"
proof -
  have filt: "map em_timestamp (filter (\<lambda>e'. em_timestamp e' \<noteq> t) es) = filter (\<lambda>x. x \<noteq> t) (map em_timestamp es)"
    for t es by (simp add: filter_map comp_def)
  have rem: "rev (remdups (rev (x # xs))) = x # rev (remdups (rev (filter (\<lambda>y. y \<noteq> x) xs)))" for x :: "64 word" and xs
  proof -
    have "remdups (ys @ [x]) = remdups (filter (\<lambda>y. y \<noteq> x) ys) @ [x]" for ys
      by (induction ys) auto
    then show ?thesis by (simp flip: rev_filter)
  qed
  show ?thesis
    by (induction es rule: merge_ref.induct)
      (simp_all only: merge_ref.simps list.map filt rem, simp_all add: foldl_merge_ts)
qed

section \<open>Combining processors\<close>

lemma combine_split_eq:
  "combine_split rj code es =
    (filter (\<lambda>e. cond_ok (check_condition rj code e)) es, filter (\<lambda>e. \<not> cond_ok (check_condition rj code e)) es)"
  by (induction es) auto

definition ts_of :: "event_msg option \<Rightarrow> int" where
  "ts_of eo = (case eo of None \<Rightarrow> 0 | Some e \<Rightarrow> sint (em_timestamp e))"

text \<open>What \<open>sort.Slice\<close> on time stamps promises, with the panic on a nil event.\<close>

definition is_slice_sort :: "slice_sort \<Rightarrow> bool" where
  "is_slice_sort srt \<longleftrightarrow>
    (\<forall>es. None \<in> set es \<longrightarrow> length es > 1 \<longrightarrow> srt es = None) \<and>
    (\<forall>es. None \<notin> set es \<longrightarrow>
      (\<exists>es'. srt es = Some es' \<and> mset es' = mset es \<and> sorted (map ts_of es')))"

definition stable_slice_sort :: slice_sort where
  "stable_slice_sort es = (if list_ex (\<lambda>e. e = None) es \<and> length es > 1 then None else Some (sort_key ts_of es))"

lemma stable_slice_sort_ok: "is_slice_sort stable_slice_sort"
proof -
  have "list_ex (\<lambda>e. e = None) es \<longleftrightarrow> None \<in> set es" for es :: "event_msg option list"
    by (auto simp: list_ex_iff)
  then show ?thesis by (auto simp: is_slice_sort_def stable_slice_sort_def)
qed

lemma combine_step_mset:
  assumes "is_slice_sort srt" and "combine_step rj srt ps es = Some es'"
  obtains incl where "ps_proc ps (filter (\<lambda>e. cond_ok (check_condition rj (ps_condition ps) e)) es) = Some incl"
    and "mset es' = mset incl + mset (filter (\<lambda>e. \<not> cond_ok (check_condition rj (ps_condition ps) e)) es)"
    and "length es' > 1 \<longrightarrow> sorted (map ts_of es') \<and> None \<notin> set es'"
proof -
  let ?ok = "\<lambda>e. cond_ok (check_condition rj (ps_condition ps) e)"
  from assms(2) obtain incl where incl: "ps_proc ps (filter ?ok es) = Some incl"
    and out: "(let l = incl @ filter (\<lambda>e. \<not> ?ok e) es in if length l > 1 then srt l else Some l) = Some es'"
    by (auto simp: combine_step_def combine_split_eq split: option.splits)
  let ?l = "incl @ filter (\<lambda>e. \<not> ?ok e) es"
  have "mset es' = mset ?l \<and> (length es' > 1 \<longrightarrow> sorted (map ts_of es') \<and> None \<notin> set es')"
  proof (cases "length ?l > 1")
    case True
    with out have s: "srt ?l = Some es'" by (simp add: Let_def)
    then have nn: "None \<notin> set ?l" using assms(1) True unfolding is_slice_sort_def by fastforce
    then have "mset es' = mset ?l" "sorted (map ts_of es')"
      using assms(1) s unfolding is_slice_sort_def by fastforce+
    moreover have "None \<notin> set es'" using nn calculation(1) by (metis set_mset_mset)
    ultimately show ?thesis by simp
  next
    case False
    with out have "es' = ?l" by (simp add: Let_def split: if_splits)
    with False show ?thesis by simp
  qed
  with incl show ?thesis using that by simp
qed

section \<open>Properties\<close>

text \<open>C30. Grouping by the 64-bit hash of the tag values gives the same groups as grouping by the text of the
  values, the reference routine, whatever order the map of groups is visited in, as long as no two
  of the keys at hand have the same hash.\<close>

theorem group_by_refines_strings:
  assumes "inj_on fnv1a (group_keys ts es)" and "\<And>ks. mset (ord ks) = mset ks"
  shows "image_mset (map_option norm_deletes) (mset (by_tags ord ts es)) =
    image_mset (map_option norm_deletes) (mset (by_tags_old ts es))"
  by (rule by_tags_mset [OF assms])

theorem group_by_refines_strings_witness:
  "image_mset (map_option norm_deletes) (mset (by_tags rev [''a''] [None, Some (zero_event\<lparr>em_tags := Some [(''a'', ''x'')], em_values := Some []\<rparr>)])) =
   image_mset (map_option norm_deletes) (mset (by_tags_old [''a''] [None, Some (zero_event\<lparr>em_tags := Some [(''a'', ''x'')], em_values := Some []\<rparr>)]))"
  by (rule group_by_refines_strings) (auto simp: inj_on_def group_keys_def)

text \<open>Grouping loses and invents no delete: the deletes of the groups and of the events left alone are, as a
  multiset, those of the events that are not skipped, even when two keys have the same hash.\<close>

theorem group_by_keeps_deletes:
  assumes "ts \<noteq> []" and "\<And>ks. mset (ord ks) = mset ks"
  shows "mset (all_deletes (List.map_filter id (by_tags ord ts es))) =
    mset (all_deletes (filter (\<lambda>e. \<not> skipped e) (List.map_filter id es)))"
proof -
  obtain r gs where l: "by_tags_loop ts es ([], []) = (r, gs)" by fastforce
  from by_tags_loop_deletes [OF l] have d: "mset (all_deletes r) + mset (all_deletes (map snd gs)) =
      mset (all_deletes (filter (\<lambda>e. \<not> skipped e) (List.map_filter id es)))" and dist: "distinct (map fst gs)"
    by simp_all
  have somes: "List.map_filter id (map Some xs @ ys) = xs @ List.map_filter id ys" for xs :: "event_msg list" and ys
    by (induction xs) (simp_all add: List.map_filter_def)
  have snds: "List.map_filter id (map (\<lambda>(k, g). Some g) gs) = map snd gs" for gs :: "(64 word \<times> event_msg) list"
    by (induction gs) (auto simp: List.map_filter_def)
  have perm: "mset (List.map_filter id xs) = mset (List.map_filter id ys)" if "mset xs = mset ys"
    for xs ys :: "event_msg option list"
    unfolding List.map_filter_def using that by (metis mset_filter mset_map)
  let ?A = "map (map_of gs) (ord (map fst gs))"
  have h: "mset (List.map_filter id ?A) = mset (map snd gs)"
    using perm [OF mset_groups [OF assms(2) dist]] by (simp only: snds)
  have dels: "mset (all_deletes xs) = mset (all_deletes ys)" if "mset xs = mset ys" for xs ys :: "event_msg list"
  proof -
    have "mset (all_deletes zs) = sum_mset (image_mset (\<lambda>e. mset (deletes_of e)) (mset zs))" for zs :: "event_msg list"
      by (induction zs) simp_all
    with that show ?thesis by simp
  qed
  have "by_tags ord ts es = map Some r @ ?A" using assms(1) by (simp add: by_tags_def l)
  then have "List.map_filter id (by_tags ord ts es) = r @ List.map_filter id ?A" by (simp only: somes)
  then show ?thesis unfolding d [symmetric] using dels [OF h] by simp
qed

theorem group_by_keeps_deletes_witness:
  "mset (all_deletes (List.map_filter id (by_tags (\<lambda>ks. ks) [''a'']
     [Some (zero_event\<lparr>em_tags := Some [(''a'', ''x'')], em_deletes := Some [''/p'']\<rparr>)]))) = {#''/p''#}"
  using group_by_keeps_deletes [of "[''a'']" "\<lambda>ks. ks"
      "[Some (zero_event\<lparr>em_tags := Some [(''a'', ''x'')], em_deletes := Some [''/p'']\<rparr>)]"]
  by (simp add: List.map_filter_def skipped_def zero_event_def deletes_of_def)

text \<open>The key does not separate the values: events whose values of the two grouping tags differ, with the
  separators inside a value, get the same key and land in one group.\<close>

theorem group_key_collision:
  "generate_key_and_check [(''a'', x @ ''|b='' @ y), (''b'', z)] [''a'', ''b''] =
   generate_key_and_check [(''a'', x), (''b'', y @ ''|b='' @ z)] [''a'', ''b'']"
  by (simp add: generate_key_and_check_def)

text \<open>event-merge returns one event per time stamp, in the order in which the time stamps first occur; each
  is the first event of its time stamp with all later ones merged into it in order.\<close>

theorem merge_by_timestamp:
  "merge_apply False es = Some (map Some (merge_ref (List.map_filter id es))) \<and>
   map em_timestamp (merge_ref (List.map_filter id es)) =
     rev (remdups (rev (map em_timestamp (List.map_filter id es))))"
  by (cases "es = []") (simp_all add: merge_apply_def merge_loop_ref merge_ref_timestamps List.map_filter_def)

text \<open>Whatever its processors do, event-combine returns a slice of more than one event only sorted by time
  stamp and without nil pointers, and every event that no condition selects is in the result.\<close>

theorem combine_sorted_complete:
  assumes "is_slice_sort srt" and "combine_apply rj srt pss es = Some es'" and "pss \<noteq> []"
  shows "(length es' > 1 \<longrightarrow> sorted (map ts_of es') \<and> None \<notin> set es') \<and>
    (\<forall>e \<in> set es. (\<forall>ps \<in> set pss. \<not> cond_ok (check_condition rj (ps_condition ps) e)) \<longrightarrow> e \<in> set es')"
  using assms(2,3)
proof (induction pss arbitrary: es)
  case (Cons ps pss)
  from Cons.prems obtain es1 where 1: "combine_step rj srt ps es = Some es1" "combine_apply rj srt pss es1 = Some es'"
    by (auto split: option.splits)
  obtain incl where m: "mset es1 = mset incl + mset (filter (\<lambda>e. \<not> cond_ok (check_condition rj (ps_condition ps) e)) es)"
    and s: "length es1 > 1 \<longrightarrow> sorted (map ts_of es1) \<and> None \<notin> set es1"
    by (rule combine_step_mset [OF assms(1) 1(1)])
  have keep: "e \<in> set es1" if "e \<in> set es" "\<not> cond_ok (check_condition rj (ps_condition ps) e)" for e
  proof -
    have "e \<in># mset es1" unfolding m using that by simp
    then show ?thesis by simp
  qed
  show ?case
  proof (cases "pss = []")
    case True
    with 1(2) s keep show ?thesis by auto
  next
    case False
    with Cons.IH [OF 1(2)] keep show ?thesis by auto
  qed
qed simp

theorem combine_sorted_complete_witness:
  "combine_apply (\<lambda>_. Inr VNil) stable_slice_sort [\<lparr>ps_condition = Some (\<lambda>_. JQNone), ps_proc = (\<lambda>es. Some [])\<rparr>] [Some zero_event] =
     Some [Some zero_event] \<and> Some zero_event \<in> set [Some zero_event]"
proof -
  let ?ps = "\<lparr>ps_condition = Some (\<lambda>_. JQNone), ps_proc = (\<lambda>es. Some [])\<rparr> :: procseq"
  have no: "\<not> cond_ok (check_condition (\<lambda>_. Inr VNil) (ps_condition ?ps) (Some zero_event))"
    by (simp add: check_condition_def cond_ok_def condition_input_def to_map_def zero_event_def deletes_of_def)
  then have r: "combine_apply (\<lambda>_. Inr VNil) stable_slice_sort [?ps] [Some zero_event] = Some [Some zero_event]"
    by (simp add: combine_step_def)
  from combine_sorted_complete [OF stable_slice_sort_ok this] no have "Some zero_event \<in> set [Some zero_event]"
    by simp
  with r show ?thesis by simp
qed

end
