(* ===== verification/Processors.thy ===== *)
theory Processors
  imports Proc_Group
begin

text \<open>
  \<open>pkg/formatters/processors.go\<close> and the initialisation of \<open>event_combine\<close>: building processors
  from their definitions. A definition is a map with one entry, from the type to its
  configuration; the code takes the entry that the range visits first. The registry is the map
  \<open>EventProcessors\<close> from types to initialisers.
\<close>

type_synonym ('c, 'p) registry = "(string \<times> ('c option \<Rightarrow> 'p res)) list"
type_synonym 'c proc_defs = "(string \<times> (string \<times> 'c) list) list"

definition register_proc :: "string \<Rightarrow> ('c option \<Rightarrow> 'p res) \<Rightarrow> ('c, 'p) registry \<Rightarrow> ('c, 'p) registry" where
  "register_proc name initFn reg = AList.update name initFn reg"

definition first_key :: "(string \<times> 'c) list \<Rightarrow> string" where
  "first_key cfg = (case cfg of [] \<Rightarrow> [] | (k, _) # _ \<Rightarrow> k)"

definition make_processor :: "('c, 'p) registry \<Rightarrow> string \<Rightarrow> (string \<times> 'c) list \<Rightarrow> 'p res" where
  "make_processor reg name cfg =
    (let epType = first_key cfg
     in case map_of reg epType of
       None \<Rightarrow> Inl (name @ '' event processor has an unknown type='' @ epType)
     | Some initFn \<Rightarrow>
         (case initFn (map_of cfg epType) of
           Inl err \<Rightarrow> Inl (''failed initializing event processor '' @ name @ '' of type='' @ epType @ '': '' @ err)
         | Inr ep \<Rightarrow> Inr ep))"

fun make_event_processors :: "('c, 'p) registry \<Rightarrow> 'c proc_defs \<Rightarrow> string list \<Rightarrow> 'p list res" where
  "make_event_processors reg ps [] = Inr []"
| "make_event_processors reg ps (epName # names) =
    (case map_of ps epName of
      None \<Rightarrow> Inl (epName @ '' event processor not found'')
    | Some epCfg \<Rightarrow>
        (case make_processor reg epName epCfg of
          Inl err \<Rightarrow> Inl err
        | Inr ep \<Rightarrow> rbind (make_event_processors reg ps names) (\<lambda>eps. Inr (ep # eps))))"

text \<open>One entry of the combine configuration: condition and name; \<open>None\<close> is a missing entry.\<close>

definition combine_entry ::
  "jq_compiler \<Rightarrow> ('c, processor) registry \<Rightarrow> 'c proc_defs \<Rightarrow> nat \<times> (string \<times> string) option \<Rightarrow> procseq res" where
  "combine_entry jqc reg defs ip =
    (case snd ip of
      None \<Rightarrow> Inl ''missing processor definition''
    | Some (cond, name) \<Rightarrow>
        if name = [] then Inl ''invalid processor definition: missing name''
        else rbind (if cond \<noteq> [] then rbind (jqc (trim_space cond)) (\<lambda>c. Inr (Some c)) else Inr None) (\<lambda>code.
          case map_of defs name of
            None \<Rightarrow> Inl (name @ '' event processor not found'')
          | Some epCfg \<Rightarrow>
              (let epType = first_key epCfg
               in case map_of reg epType of
                 None \<Rightarrow> Inl (name @ '' event processor has an unknown type='' @ epType)
               | Some initFn \<Rightarrow>
                   (case initFn (map_of epCfg epType) of
                     Inl err \<Rightarrow> Inl (''failed initializing event processor '' @ name @ '' of type='' @ epType @ '': '' @ err)
                   | Inr ep \<Rightarrow> Inr \<lparr>ps_condition = code, ps_proc = ep\<rparr>))))"

definition combine_init ::
  "jq_compiler \<Rightarrow> ('c, processor) registry \<Rightarrow> 'c proc_defs \<Rightarrow> (string \<times> string) option list \<Rightarrow> procseq list res" where
  "combine_init jqc reg defs procs =
    (if procs = [] then Inl ''missing processors definition''
     else rmap (combine_entry jqc reg defs) (zip [0..<length procs] procs))"

section \<open>Lemmas\<close>

lemma make_event_processors_rmap:
  "make_event_processors reg ps names =
    rmap (\<lambda>n. case map_of ps n of
        None \<Rightarrow> Inl (n @ '' event processor not found'')
      | Some cfg \<Rightarrow> make_processor reg n cfg) names"
  by (induction names) (auto simp: rbind_def split: option.splits sum.splits)

lemma make_processor_Inr:
  "make_processor reg n cfg = Inr ep \<longleftrightarrow>
    (\<exists>initFn. map_of reg (first_key cfg) = Some initFn \<and> initFn (map_of cfg (first_key cfg)) = Inr ep)"
  by (auto simp: make_processor_def Let_def split: option.splits sum.splits)

lemma run_processors_append:
  "run_processors (eps @ eps') evs = Option.bind (run_processors eps evs) (run_processors eps')"
  by (induction eps arbitrary: evs) (auto split: option.splits)

section \<open>Properties\<close>

text \<open>C33. Building the processors of an output succeeds exactly when every name is defined, has a registered type
  and initialises, and then gives one processor per name, in order; otherwise the error is that of
  the first name that fails.\<close>

theorem make_event_processors_correct:
  "(make_event_processors reg ps names = Inr eps \<longleftrightarrow>
     list_all2 (\<lambda>n ep. \<exists>cfg initFn. map_of ps n = Some cfg \<and> map_of reg (first_key cfg) = Some initFn \<and>
       initFn (map_of cfg (first_key cfg)) = Inr ep) names eps) \<and>
   (make_event_processors reg ps names = Inl err \<longrightarrow>
     (\<exists>us n vs us'. names = us @ n # vs \<and> make_event_processors reg ps us = Inr us' \<and>
       (case map_of ps n of None \<Rightarrow> Inl (n @ '' event processor not found'') | Some cfg \<Rightarrow> make_processor reg n cfg) = Inl err))"
proof -
  let ?f = "\<lambda>n. case map_of ps n of None \<Rightarrow> Inl (n @ '' event processor not found'') | Some cfg \<Rightarrow> make_processor reg n cfg"
  have f: "?f n = Inr ep \<longleftrightarrow> (\<exists>cfg initFn. map_of ps n = Some cfg \<and> map_of reg (first_key cfg) = Some initFn \<and>
       initFn (map_of cfg (first_key cfg)) = Inr ep)" for n ep
    by (auto simp: make_processor_Inr split: option.splits)
  have "\<exists>us n vs us'. names = us @ n # vs \<and> rmap ?f us = Inr us' \<and> ?f n = Inl err" if "rmap ?f names = Inl err"
  proof -
    from rmap_Inl_dest [OF that] obtain us n vs where u: "names = us @ n # vs" "?f n = Inl err"
      "\<forall>u \<in> set us. \<exists>y. ?f u = Inr y" by blast
    have "\<exists>us'. rmap ?f us = Inr us'" using u(3)
      by (induction us) (auto split: sum.splits simp del: option.case_eq_if)
    with u show ?thesis by blast
  qed
  then show ?thesis unfolding make_event_processors_rmap rmap_Inr_iff [of _ names] f by blast
qed

theorem make_event_processors_correct_witness:
  "make_event_processors [(''t'', \<lambda>c. Inr (Suc 0))] [(''p'', [(''t'', ())])] [''p''] = Inr [1]"
  using make_event_processors_correct [of "[(''t'', \<lambda>c. Inr (Suc 0))]" "[(''p'', [(''t'', ())])]" "[''p'']" "[1]"]
  by (simp add: first_key_def)

end
