(* ===== verification/Proc_Filter.thy ===== *)
theory Proc_Filter
  imports Interfaces
begin

text \<open>
  The processors that drop events or parts of events: \<open>event_allow\<close>, \<open>event_drop\<close>,
  \<open>event_delete\<close> and \<open>event_keep\<close> with its path matcher (\<open>path_matcher.go\<close>). Log output is left
  out. A method call on a nil event pointer that reads a field panics.
\<close>

section \<open>event-allow and event-drop\<close>

record filter_cfg =
  fc_condition :: string
  fc_tag_names :: "string list"
  fc_value_names :: "string list"
  fc_tags :: "string list"
  fc_values :: "string list"

record filter_proc =
  fp_condition :: string
  fp_code :: "jq_code option"
  fp_tag_names :: "regexp list"
  fp_value_names :: "regexp list"
  fp_tags :: "regexp list"
  fp_values :: "regexp list"

definition allow_init :: "jq_compiler \<Rightarrow> re_compiler \<Rightarrow> filter_cfg \<Rightarrow> filter_proc res" where
  "allow_init jqc compile cfg =
    (let cond = trim_space (fc_condition cfg)
     in rbind (jqc cond) (\<lambda>code.
        rbind (rmap compile (fc_tag_names cfg)) (\<lambda>tagNames.
        rbind (rmap compile (fc_tags cfg)) (\<lambda>tags.
        rbind (rmap compile (fc_value_names cfg)) (\<lambda>valueNames.
        rbind (rmap compile (fc_values cfg)) (\<lambda>vals.
          Inr \<lparr>fp_condition = cond, fp_code = Some code, fp_tag_names = tagNames,
            fp_value_names = valueNames, fp_tags = tags, fp_values = vals\<rparr>))))))"

definition drop_init :: "jq_compiler \<Rightarrow> re_compiler \<Rightarrow> filter_cfg \<Rightarrow> filter_proc res" where
  "drop_init jqc compile cfg =
    (let cond = trim_space (fc_condition cfg)
     in rbind (jqc cond) (\<lambda>code.
        rbind (rmap compile (fc_tag_names cfg)) (\<lambda>tagNames.
        rbind (rmap compile (fc_tags cfg)) (\<lambda>tags.
        rbind (rmap compile (fc_value_names cfg)) (\<lambda>valueNames.
        rbind (rmap compile (fc_values cfg)) (\<lambda>vals.
          Inr \<lparr>fp_condition = cond, fp_code = Some code, fp_tag_names = tagNames,
            fp_value_names = valueNames, fp_tags = tags, fp_values = vals\<rparr>))))))"

text \<open>The nested loops over values, tags and patterns return at the first match.\<close>

definition event_matches :: "filter_proc \<Rightarrow> event_msg \<Rightarrow> bool" where
  "event_matches p e \<longleftrightarrow>
    list_ex (\<lambda>(k, v). matches_any k (fp_value_names p) \<or> matches_string v (fp_values p)) (values_of e) \<or>
    list_ex (\<lambda>(k, v). matches_any k (fp_tag_names p) \<or> matches_any v (fp_tags p)) (tags_of e)"

definition allow :: "rejson \<Rightarrow> filter_proc \<Rightarrow> event_msg option \<Rightarrow> bool option" where
  "allow rj p eo =
    (if fp_condition p \<noteq> [] then
       (case check_condition rj (fp_code p) eo of Inl _ \<Rightarrow> Some False | Inr ok \<Rightarrow> Some ok)
     else map_option (event_matches p) eo)"

definition drop_event :: "rejson \<Rightarrow> filter_proc \<Rightarrow> event_msg option \<Rightarrow> bool option" where
  "drop_event rj p eo =
    (if fp_condition p \<noteq> [] then
       (case check_condition rj (fp_code p) eo of Inl _ \<Rightarrow> Some True | Inr ok \<Rightarrow> Some ok)
     else map_option (event_matches p) eo)"

definition allow_apply :: "rejson \<Rightarrow> filter_proc \<Rightarrow> processor" where
  "allow_apply rj p es =
    compact (\<lambda>e. map_option (\<lambda>ok. if ok then Some e else None) (allow rj p e)) es"

definition drop_apply :: "rejson \<Rightarrow> filter_proc \<Rightarrow> processor" where
  "drop_apply rj p es =
    compact (\<lambda>e. map_option (\<lambda>d. if \<not> d then Some e else None) (drop_event rj p e)) es"

section \<open>event-delete\<close>

record delete_cfg =
  dc_tags :: "string list"
  dc_values :: "string list"
  dc_tag_names :: "string list"
  dc_value_names :: "string list"

record delete_proc =
  dp_tags :: "regexp list"
  dp_values :: "regexp list"
  dp_tag_names :: "regexp list"
  dp_value_names :: "regexp list"

definition delete_init :: "re_compiler \<Rightarrow> delete_cfg \<Rightarrow> delete_proc res" where
  "delete_init compile cfg =
    rbind (rmap compile (dc_tags cfg)) (\<lambda>tags.
    rbind (rmap compile (dc_tag_names cfg)) (\<lambda>tagNames.
    rbind (rmap compile (dc_values cfg)) (\<lambda>vals.
    rbind (rmap compile (dc_value_names cfg)) (\<lambda>valueNames.
      Inr \<lparr>dp_tags = tags, dp_values = vals, dp_tag_names = tagNames, dp_value_names = valueNames\<rparr>))))"

text \<open>
  Each matching pattern deletes the entry being visited; deleting it again changes nothing, so an
  entry goes when any pattern matches. Deleting from a nil map does nothing.
\<close>

definition delete_event :: "delete_proc \<Rightarrow> event_msg \<Rightarrow> event_msg" where
  "delete_event p e =
    e\<lparr>em_values := map_option
        (\<lambda>m. range_delete (\<lambda>k v. matches_any k (dp_value_names p) \<or> matches_string v (dp_values p)) m m)
        (em_values e),
      em_tags := map_option
        (\<lambda>m. range_delete (\<lambda>k v. matches_any k (dp_tag_names p) \<or> matches_any v (dp_tags p)) m m)
        (em_tags e)\<rparr>"

definition delete_apply :: "delete_proc \<Rightarrow> processor" where
  "delete_apply p es = Some (map (map_option (delete_event p)) es)"

section \<open>The path matcher of event-keep\<close>

datatype path_node =
  PNode (pn_literals: "(string \<times> path_node) list") (pn_wildcard: "path_node option") (pn_terminal: bool)

definition new_path_node :: path_node where
  "new_path_node = PNode [] None False"

text \<open>
  Adding one selector's segments below a node; an empty segment is an error. The source follows
  and extends the pointers from the root; the model rebuilds the nodes on the way.
\<close>

fun insert_path :: "string list \<Rightarrow> path_node \<Rightarrow> path_node res" where
  "insert_path [] (PNode ls w t) = Inr (PNode ls w True)"
| "insert_path (seg # segs) (PNode ls w t) =
    (if seg = [] then Inl ''invalid value-name-paths selector: empty path segment''
     else if seg = ''*'' then
       rbind (insert_path segs (case w of None \<Rightarrow> new_path_node | Some c \<Rightarrow> c))
         (\<lambda>c. Inr (PNode ls (Some c) t))
     else
       rbind (insert_path segs (case map_of ls seg of None \<Rightarrow> new_path_node | Some c \<Rightarrow> c))
         (\<lambda>c. Inr (PNode (gset seg c ls) w t)))"

fun insert_selectors :: "string list \<Rightarrow> path_node \<Rightarrow> path_node res" where
  "insert_selectors [] n = Inr n"
| "insert_selectors (sel # sels) n =
    (if sel = [] \<or> hd sel \<noteq> slash then Inl ''invalid value-name-paths selector: must be absolute''
     else rbind (insert_path (split_char slash (tl sel)) n) (insert_selectors sels))"

definition compile_path_matcher :: "string list \<Rightarrow> path_node option res" where
  "compile_path_matcher sels =
    (if sels = [] then Inr None else rbind (insert_selectors sels new_path_node) (\<lambda>n. Inr (Some n)))"

lemma cut_char_shorter: "cut_char c s = (seg, r, True) \<Longrightarrow> length r < length s"
  by (auto simp: cut_char_def index_char_Some split: option.splits)

text \<open>\<open>match\<close> with \<open>matchesRemaining\<close> inlined: the trailing segment must end at a terminal node.\<close>

function node_match :: "path_node \<Rightarrow> string \<Rightarrow> bool" where
  "node_match n s =
    (let (seg, remaining, more) = cut_char slash s
     in if seg = [] then False
        else if (case map_of (pn_literals n) seg of
              None \<Rightarrow> False
            | Some c \<Rightarrow> if \<not> more then pn_terminal c else node_match c remaining) then True
        else (case pn_wildcard n of
              None \<Rightarrow> False
            | Some c \<Rightarrow> if \<not> more then pn_terminal c else node_match c remaining))"
  by pat_completeness auto
termination
  by (relation "measure (\<lambda>(n, s). length s)") (auto dest!: cut_char_shorter [OF sym])

declare node_match.simps [simp del]

definition path_match :: "path_node option \<Rightarrow> string \<Rightarrow> bool" where
  "path_match m s =
    (case m of
      None \<Rightarrow> False
    | Some root \<Rightarrow> if length s < 2 \<or> hd s \<noteq> slash then False else node_match root (tl s))"

section \<open>event-keep\<close>

record keep_cfg =
  kc_tags :: "string list"
  kc_values :: "string list"
  kc_tag_names :: "string list"
  kc_value_names :: "string list"
  kc_value_name_paths :: "string list"

record keep_proc =
  kp_tags :: "regexp list"
  kp_values :: "regexp list"
  kp_tag_names :: "regexp list"
  kp_value_names :: "regexp list"
  kp_value_name_paths :: "path_node option"

definition compile_patterns :: "re_compiler \<Rightarrow> string \<Rightarrow> string list \<Rightarrow> regexp list res" where
  "compile_patterns compile field pats =
    rmap (\<lambda>p. case compile p of
        Inl err \<Rightarrow> Inl (''invalid '' @ field @ '' pattern: '' @ err)
      | Inr re \<Rightarrow> Inr re) pats"

definition keep_init :: "re_compiler \<Rightarrow> keep_cfg \<Rightarrow> keep_proc res" where
  "keep_init compile cfg =
    rbind (compile_patterns compile ''tags'' (kc_tags cfg)) (\<lambda>tags.
    rbind (compile_patterns compile ''values'' (kc_values cfg)) (\<lambda>vals.
    rbind (compile_patterns compile ''tag-names'' (kc_tag_names cfg)) (\<lambda>tagNames.
    rbind (compile_patterns compile ''value-names'' (kc_value_names cfg)) (\<lambda>valueNames.
    rbind (compile_path_matcher (kc_value_name_paths cfg)) (\<lambda>paths.
      Inr \<lparr>kp_tags = tags, kp_values = vals, kp_tag_names = tagNames,
        kp_value_names = valueNames, kp_value_name_paths = paths\<rparr>)))))"

definition keep_value :: "keep_proc \<Rightarrow> string \<Rightarrow> gval \<Rightarrow> bool" where
  "keep_value p k v \<longleftrightarrow>
    matches_any k (kp_value_names p) \<or> path_match (kp_value_name_paths p) k \<or> matches_string v (kp_values p)"

definition keep_tag :: "keep_proc \<Rightarrow> string \<Rightarrow> string \<Rightarrow> bool" where
  "keep_tag p k v \<longleftrightarrow> matches_any k (kp_tag_names p) \<or> matches_any v (kp_tags p)"

definition keeps_values :: "keep_proc \<Rightarrow> bool" where
  "keeps_values p \<longleftrightarrow> kp_value_names p \<noteq> [] \<or> kp_value_name_paths p \<noteq> None \<or> kp_values p \<noteq> []"

definition keeps_tags :: "keep_proc \<Rightarrow> bool" where
  "keeps_tags p \<longleftrightarrow> kp_tag_names p \<noteq> [] \<or> kp_tags p \<noteq> []"

definition keep_event :: "keep_proc \<Rightarrow> event_msg \<Rightarrow> event_msg" where
  "keep_event p e =
    (let e1 = (if keeps_values p
           then e\<lparr>em_values := map_option (\<lambda>m. range_delete (\<lambda>k v. \<not> keep_value p k v) m m) (em_values e)\<rparr>
           else e)
     in if keeps_tags p
        then e1\<lparr>em_tags := map_option (\<lambda>m. range_delete (\<lambda>k v. \<not> keep_tag p k v) m m) (em_tags e1)\<rparr>
        else e1)"

definition event_empty :: "event_msg \<Rightarrow> bool" where
  "event_empty e \<longleftrightarrow> values_of e = [] \<and> tags_of e = [] \<and> deletes_of e = []"

definition keep_apply :: "keep_proc \<Rightarrow> processor" where
  "keep_apply p es =
    (if \<not> keeps_values p \<and> \<not> keeps_tags p then Some es
     else compact (\<lambda>eo. Some (case eo of
         None \<Rightarrow> Some None
       | Some e \<Rightarrow> let e' = keep_event p e in if event_empty e' then None else Some (Some e'))) es)"

section \<open>Contracts\<close>

interpretation allow_sel: selecting_processor
  "\<lambda>e. map_option (\<lambda>ok. if ok then Some e else None) (allow rj p e)" "allow_apply rj p" for rj p
  by unfold_locales (auto simp: allow_apply_def split: if_splits)

interpretation drop_sel: selecting_processor
  "\<lambda>e. map_option (\<lambda>d. if \<not> d then Some e else None) (drop_event rj p e)" "drop_apply rj p" for rj p
  by unfold_locales (auto simp: drop_apply_def split: if_splits)

interpretation delete_ip: in_place_processor "\<lambda>e. Some (delete_event p e)" "delete_apply p" for p
  by (rule in_place_processorI, rule delete_apply_def) (auto simp: delete_event_def)

definition keep_step :: "keep_proc \<Rightarrow> event_msg option \<Rightarrow> event_msg option option option" where
  "keep_step p eo =
    (if \<not> keeps_values p \<and> \<not> keeps_tags p then Some (Some eo)
     else Some (case eo of
         None \<Rightarrow> Some None
       | Some e \<Rightarrow> let e' = keep_event p e in if event_empty e' then None else Some (Some e')))"

interpretation keep_flt: filtering_processor "keep_step p" "keep_apply p" for p
proof
  fix es
  show "keep_apply p es = compact (keep_step p) es"
  proof (cases "\<not> keeps_values p \<and> \<not> keeps_tags p")
    case True
    then have "compact (keep_step p) es = Some (filter (\<lambda>_. True) es)"
      by (intro compact_filter) (simp add: keep_step_def)
    with True show ?thesis by (simp add: keep_apply_def)
  next
    case False
    then have "keep_step p = (\<lambda>eo. Some (case eo of
         None \<Rightarrow> Some None
       | Some e \<Rightarrow> let e' = keep_event p e in if event_empty e' then None else Some (Some e')))"
      by (auto simp: keep_step_def)
    with False show ?thesis by (auto simp: keep_apply_def)
  qed
qed

section \<open>Correctness of the path matcher\<close>

text \<open>A selector's segments against a path's segments: a star stands for any non-empty segment.\<close>

fun segs_match :: "string list \<Rightarrow> string list \<Rightarrow> bool" where
  "segs_match [] [] = True"
| "segs_match (p # ps) (v # vs) = (v \<noteq> [] \<and> (p = ''*'' \<or> p = v) \<and> segs_match ps vs)"
| "segs_match _ _ = False"

fun node_accepts :: "path_node \<Rightarrow> string list \<Rightarrow> bool" where
  "node_accepts n [] = pn_terminal n"
| "node_accepts n (v # vs) =
    (v \<noteq> [] \<and>
     ((case map_of (pn_literals n) v of None \<Rightarrow> False | Some c \<Rightarrow> node_accepts c vs) \<or>
      (case pn_wildcard n of None \<Rightarrow> False | Some c \<Rightarrow> node_accepts c vs)))"

lemma split_char_cut:
  "split_char c s = (case cut_char c s of (w, r, fnd) \<Rightarrow> if fnd then w # split_char c r else [w])"
proof (cases "index_char c s")
  case None
  then have "c \<notin> set s" by simp
  then show ?thesis by (simp add: split_char_no_sep cut_char_no_sep)
next
  case (Some i)
  then have "s = take i s @ c # drop (Suc i) s" "c \<notin> set (take i s)"
    by (auto simp: index_char_Some id_take_nth_drop)
  then have "split_char c s = take i s # split_char c (drop (Suc i) s)"
    by (metis split_char_append)
  with Some show ?thesis by (simp add: cut_char_def)
qed

lemma node_match_accepts: "node_match n s = node_accepts n (split_char slash s)"
proof (induction s arbitrary: n rule: length_induct)
  case (1 s)
  obtain seg r fnd where c: "cut_char slash s = (seg, r, fnd)" by (metis prod_cases3)
  have IH: "node_match m r = node_accepts m (split_char slash r)" if "fnd" for m
    using "1" cut_char_shorter [of slash s seg r] c that by simp
  show ?case
    by (subst node_match.simps, subst split_char_cut) (cases fnd; simp add: c IH split: option.splits)
qed

lemma node_accepts_new [simp]: "\<not> node_accepts new_path_node vs"
  by (cases vs) (simp_all add: new_path_node_def)

lemma insert_path_accepts:
  "insert_path segs n = Inr n' \<Longrightarrow> node_accepts n' vs \<longleftrightarrow> node_accepts n vs \<or> segs_match segs vs"
proof (induction segs n arbitrary: n' vs rule: insert_path.induct)
  case (1 ls w t)
  then show ?case by (cases vs) auto
next
  case (2 seg segs ls w t)
  from "2.prems" have seg: "seg \<noteq> []" by (auto split: if_splits)
  show ?case
  proof (cases "seg = ''*''")
    case True
    with "2.prems" seg obtain c where c: "n' = PNode ls (Some c) t"
      "insert_path segs (case w of None \<Rightarrow> new_path_node | Some c \<Rightarrow> c) = Inr c"
      by (auto simp: rbind_Inr_iff)
    note IH = "2.IH"(1) [OF seg True c(2)]
    show ?thesis using True c(1) IH by (cases vs) (auto split: option.splits)
  next
    case False
    with "2.prems" seg obtain c where c: "n' = PNode (gset seg c ls) w t"
      "insert_path segs (case map_of ls seg of None \<Rightarrow> new_path_node | Some c \<Rightarrow> c) = Inr c"
      by (auto simp: rbind_Inr_iff)
    note IH = "2.IH"(2) [OF seg False c(2)]
    show ?thesis using False seg c(1) IH by (cases vs) (auto split: option.splits if_splits)
  qed
qed

lemma insert_selectors_accepts:
  "insert_selectors sels n = Inr n' \<Longrightarrow>
   node_accepts n' vs \<longleftrightarrow> node_accepts n vs \<or> (\<exists>sel \<in> set sels. segs_match (split_char slash (tl sel)) vs)"
proof (induction sels n rule: insert_selectors.induct)
  case (2 sel sels n)
  then obtain m where m: "insert_path (split_char slash (tl sel)) n = Inr m" "insert_selectors sels m = Inr n'"
    and sel: "\<not> (sel = [] \<or> hd sel \<noteq> slash)"
    by (auto simp: rbind_Inr_iff split: if_splits)
  show ?case using "2.IH" [OF sel m(2)] insert_path_accepts [OF m(1)] by auto
qed auto

lemma path_matcher_correct_aux:
  assumes "compile_path_matcher sels = Inr m"
  shows "path_match m path \<longleftrightarrow>
    2 \<le> length path \<and> hd path = slash \<and>
    (\<exists>sel \<in> set sels. segs_match (split_char slash (tl sel)) (split_char slash (tl path)))"
proof (cases "sels = []")
  case True
  with assms show ?thesis by (simp add: compile_path_matcher_def path_match_def)
next
  case False
  with assms obtain n where n: "insert_selectors sels new_path_node = Inr n" "m = Some n"
    by (auto simp: compile_path_matcher_def rbind_Inr_iff)
  show ?thesis
    using insert_selectors_accepts [OF n(1)] n(2)
    by (auto simp: path_match_def node_match_accepts)
qed

lemma rbind_ok: "(\<exists>b. rbind r (\<lambda>a. Inr (f a)) = Inr b) \<longleftrightarrow> (\<exists>a. r = Inr a)"
  by (cases r) simp_all

lemma insert_path_ok: "(\<exists>n'. insert_path segs n = Inr n') \<longleftrightarrow> [] \<notin> set segs"
proof (induction segs n rule: insert_path.induct)
  case (2 seg segs ls w t)
  consider "seg = []" | "seg = ''*''" | "seg \<noteq> []" "seg \<noteq> ''*''" by blast
  then show ?case
  proof cases
    case 2
    then show ?thesis using "2.IH"(1) by (simp add: rbind_ok)
  next
    case 3
    then show ?thesis using "2.IH"(2) by (simp add: rbind_ok)
  qed simp
qed simp

lemma insert_selectors_ok:
  "(\<exists>n'. insert_selectors sels n = Inr n') \<longleftrightarrow>
   (\<forall>sel \<in> set sels. sel \<noteq> [] \<and> hd sel = slash \<and> [] \<notin> set (split_char slash (tl sel)))"
proof (induction sels arbitrary: n)
  case (Cons sel sels)
  show ?case
  proof (cases "sel = [] \<or> hd sel \<noteq> slash")
    case False
    have "(\<exists>n'. insert_selectors (sel # sels) n = Inr n') \<longleftrightarrow>
      (\<exists>m. insert_path (split_char slash (tl sel)) n = Inr m \<and> (\<exists>n'. insert_selectors sels m = Inr n'))"
      using False by (auto simp: rbind_Inr_iff)
    also have "\<dots> \<longleftrightarrow> [] \<notin> set (split_char slash (tl sel)) \<and>
      (\<forall>sel \<in> set sels. sel \<noteq> [] \<and> hd sel = slash \<and> [] \<notin> set (split_char slash (tl sel)))"
      unfolding Cons.IH insert_path_ok [of _ n, symmetric] by simp
    finally show ?thesis using False by auto
  qed auto
qed simp

section \<open>Properties\<close>

lemma allow_no_condition: "fp_condition p = [] \<Longrightarrow> allow rj p (Some e) = Some (event_matches p e)"
  by (simp add: allow_def)

lemma drop_no_condition: "fp_condition p = [] \<Longrightarrow> drop_event rj p (Some e) = Some (event_matches p e)"
  by (simp add: drop_event_def)

text \<open>With the same patterns and no condition, event-allow and event-drop split a slice without nil
  pointers: one keeps exactly the events with a matching name or value, in order, the other
  exactly the rest.\<close>

theorem allow_drop_partition:
  assumes "fp_condition p = []"
  shows "allow_apply rj p (map Some es) = Some (map Some (filter (event_matches p) es)) \<and>
    drop_apply rj p (map Some es) = Some (map Some (filter (\<lambda>e. \<not> event_matches p e) es))"
proof -
  have "allow_apply rj p (map Some es) =
      Some (filter (\<lambda>e. map_option (\<lambda>ok. if ok then Some e else None) (allow rj p e) = Some (Some e)) (map Some es))"
    by (rule allow_sel.selecting_filter) (auto simp: allow_no_condition [OF assms])
  moreover have "drop_apply rj p (map Some es) =
      Some (filter (\<lambda>e. map_option (\<lambda>d. if \<not> d then Some e else None) (drop_event rj p e) = Some (Some e)) (map Some es))"
    by (rule drop_sel.selecting_filter) (auto simp: drop_no_condition [OF assms])
  ultimately show ?thesis
    by (simp add: filter_map comp_def allow_no_condition [OF assms] drop_no_condition [OF assms])
qed

theorem allow_drop_partition_witness:
  "allow_apply (\<lambda>_. Inr VNil)
     \<lparr>fp_condition = [], fp_code = None, fp_tag_names = [], fp_value_names = [re_of (rx_lit ''a'')], fp_tags = [], fp_values = []\<rparr>
     (map Some [zero_event\<lparr>em_values := Some [(''a'', VNil)]\<rparr>, zero_event]) =
   Some [Some (zero_event\<lparr>em_values := Some [(''a'', VNil)]\<rparr>)]"
proof -
  have "\<not> event_matches \<lparr>fp_condition = [], fp_code = None, fp_tag_names = [], fp_value_names = [re_of (rx_lit ''a'')],
      fp_tags = [], fp_values = []\<rparr> zero_event"
    by (simp add: event_matches_def zero_event_def)
  moreover have "event_matches \<lparr>fp_condition = [], fp_code = None, fp_tag_names = [], fp_value_names = [re_of (rx_lit ''a'')],
      fp_tags = [], fp_values = []\<rparr> (zero_event\<lparr>em_values := Some [(''a'', VNil)]\<rparr>)"
    by (simp add: event_matches_def zero_event_def matches_any_def match_string_def find_loc_def match_at_def re_of_def)
  ultimately show ?thesis
    using allow_drop_partition [of "\<lparr>fp_condition = [], fp_code = None, fp_tag_names = [],
      fp_value_names = [re_of (rx_lit ''a'')], fp_tags = [], fp_values = []\<rparr>" "\<lambda>_. Inr VNil"
      "[zero_event\<lparr>em_values := Some [(''a'', VNil)]\<rparr>, zero_event]"]
    by simp
qed

text \<open>event-delete removes from every event exactly the values and tags whose name or content matches a
  pattern, keeps the others in place, and touches neither nil pointers nor the rest of the event.\<close>

theorem delete_exact:
  assumes "\<forall>e. Some e \<in> set es \<longrightarrow> wf_event e"
  shows "delete_apply p es = Some (map (map_option (\<lambda>e. e\<lparr>
    em_values := map_option (filter (\<lambda>(k, v). \<not> (matches_any k (dp_value_names p) \<or> matches_string v (dp_values p)))) (em_values e),
    em_tags := map_option (filter (\<lambda>(k, v). \<not> (matches_any k (dp_tag_names p) \<or> matches_any v (dp_tags p)))) (em_tags e)\<rparr>)) es)"
proof -
  have "delete_event p e = e\<lparr>
    em_values := map_option (filter (\<lambda>(k, v). \<not> (matches_any k (dp_value_names p) \<or> matches_string v (dp_values p)))) (em_values e),
    em_tags := map_option (filter (\<lambda>(k, v). \<not> (matches_any k (dp_tag_names p) \<or> matches_any v (dp_tags p)))) (em_tags e)\<rparr>"
    if "Some e \<in> set es" for e
  proof -
    have "wf_nmap (em_tags e)" "wf_nmap (em_values e)" using assms that by (auto simp: wf_event_def)
    then show ?thesis
      by (cases "em_values e"; cases "em_tags e") (simp_all add: delete_event_def wf_nmap_def range_delete_filter)
  qed
  then show ?thesis
    unfolding delete_apply_def option.inject
    by (intro map_cong refl) (rename_tac eo, case_tac eo, simp_all)
qed

theorem delete_exact_witness:
  "delete_apply \<lparr>dp_tags = [], dp_values = [], dp_tag_names = [re_of REps], dp_value_names = []\<rparr>
     [Some (zero_event\<lparr>em_tags := Some [(''a'', ''b'')], em_values := Some [(''c'', VNil)]\<rparr>)] =
   Some [Some (zero_event\<lparr>em_tags := Some [], em_values := Some [(''c'', VNil)]\<rparr>)]"
  by (subst delete_exact)
    (simp_all add: wf_event_def wf_nmap_def wf_gmap_def zero_event_def matches_any_def match_string_def find_loc_def
      match_at_def re_of_def)

text \<open>event-keep with value patterns keeps exactly the matching values (likewise the tags) and drops an
  event exactly when neither values nor tags nor deletes are left.\<close>

theorem keep_exact:
  assumes "wf_event e"
  shows "values_of (keep_event p e) = filter (\<lambda>(k, v). keeps_values p \<longrightarrow> keep_value p k v) (values_of e) \<and>
    tags_of (keep_event p e) = filter (\<lambda>(k, v). keeps_tags p \<longrightarrow> keep_tag p k v) (tags_of e) \<and>
    em_deletes (keep_event p e) = em_deletes e \<and>
    (keeps_values p \<or> keeps_tags p \<longrightarrow>
      keep_apply p [Some e] = Some (if values_of (keep_event p e) = [] \<and> tags_of (keep_event p e) = [] \<and> deletes_of e = []
        then [] else [Some (keep_event p e)]))"
proof -
  have "wf_nmap (em_tags e)" "wf_nmap (em_values e)" using assms by (auto simp: wf_event_def)
  then have "values_of (keep_event p e) = filter (\<lambda>(k, v). keeps_values p \<longrightarrow> keep_value p k v) (values_of e)"
    "tags_of (keep_event p e) = filter (\<lambda>(k, v). keeps_tags p \<longrightarrow> keep_tag p k v) (tags_of e)"
    by (cases "em_values e"; cases "em_tags e"; simp add: keep_event_def Let_def wf_nmap_def range_delete_filter)+
  moreover have d: "em_deletes (keep_event p e) = em_deletes e" by (simp add: keep_event_def Let_def)
  moreover have "deletes_of (keep_event p e) = deletes_of e" using d by (simp add: deletes_of_def)
  ultimately show ?thesis
    by (auto simp: keep_apply_def compact_def Let_def event_empty_def)
qed

theorem keep_exact_witness:
  "keep_apply \<lparr>kp_tags = [], kp_values = [], kp_tag_names = [], kp_value_names = [re_of (rx_lit ''a'')],
     kp_value_name_paths = None\<rparr> [Some zero_event] = Some []"
  using keep_exact [of zero_event "\<lparr>kp_tags = [], kp_values = [], kp_tag_names = [], kp_value_names = [re_of (rx_lit ''a'')],
     kp_value_name_paths = None\<rparr>"]
  by (simp add: wf_event_def wf_nmap_def zero_event_def keeps_values_def deletes_of_def)

text \<open>C29. The compiled path matcher is correct: compilation succeeds exactly when every selector is absolute
  and has no empty segment, and a compiled matcher accepts exactly the absolute paths that match,
  segment by segment, one of the selectors, a star standing for any one segment.\<close>

theorem path_matcher_correct:
  "((\<exists>m. compile_path_matcher sels = Inr m) \<longleftrightarrow>
     (\<forall>sel \<in> set sels. sel \<noteq> [] \<and> hd sel = slash \<and> [] \<notin> set (split_char slash (tl sel)))) \<and>
   (compile_path_matcher sels = Inr m \<longrightarrow>
     path_match m path = (2 \<le> length path \<and> hd path = slash \<and>
       (\<exists>sel \<in> set sels. segs_match (split_char slash (tl sel)) (split_char slash (tl path)))))"
proof -
  have "(\<exists>m. compile_path_matcher sels = Inr m) \<longleftrightarrow> (\<exists>n. insert_selectors sels new_path_node = Inr n)"
    by (cases sels) (auto simp: compile_path_matcher_def rbind_Inr_iff)
  then show ?thesis using insert_selectors_ok path_matcher_correct_aux by blast
qed

theorem path_matcher_correct_witness:
  "\<exists>m. compile_path_matcher [''/a/*''] = Inr m \<and> path_match m ''/a/b''"
proof -
  obtain m where m: "compile_path_matcher [''/a/*''] = Inr m"
    using path_matcher_correct [of "[''/a/*'']"] by (auto simp: slash_def)
  moreover have "path_match m ''/a/b''"
    using path_matcher_correct [of "[''/a/*'']" m "''/a/b''"] m by (simp add: slash_def)
  ultimately show ?thesis by blast
qed

end
