(* ===== verification/Proc_Rate.thy ===== *)
theory Proc_Rate
  imports Interfaces Proc_Convert
begin

text \<open>
  The processors that count: \<open>event_rate_limit\<close> and \<open>event_trigger\<close>. Parameters of the rate
  limiter: \<open>sha\<close> is SHA-256 in hexadecimal; \<open>get\<close> and \<open>add\<close> are the operations of the LRU cache of
  the golang-lru package on its state; \<open>f2i\<close> is the conversion of a float that does not fit into an
  \<open>int64\<close>. Instants of the trigger count nanoseconds from Go's zero time.
\<close>

section \<open>event-rate-limit\<close>

definition rate_init :: "bool \<Rightarrow> int \<Rightarrow> int res" where
  "rate_init limit_positive cache_size =
    (let size = (if cache_size \<le> 0 then 1000 else cache_size)
     in if \<not> limit_positive then Inl ''provided limit must be greater than 0'' else Inr size)"

definition hash_event :: "(string \<Rightarrow> string) \<Rightarrow> event_msg \<Rightarrow> string" where
  "hash_event sha e =
    sha (concat (map (\<lambda>k. k @ ''='' @ (case map_of (tags_of e) k of Some v \<Rightarrow> v | None \<Rightarrow> []) @ [CHR 10])
      (sort (map fst (tags_of e)))))"

type_synonym 'c cache_get = "'c \<Rightarrow> string \<Rightarrow> 64 word option \<times> 'c"
type_synonym 'c cache_add = "'c \<Rightarrow> string \<Rightarrow> 64 word \<Rightarrow> 'c"

text \<open>The difference of the time stamps wraps around; the product is rounded and truncated.\<close>

definition too_soon :: "f2w \<Rightarrow> 64 word \<Rightarrow> 64 word \<Rightarrow> 64 word \<Rightarrow> bool" where
  "too_soon f2i limit ts t \<longleftrightarrow>
    t \<noteq> ts \<and> sint (f64_to_i64 f2i (f64_mul (f64_of_int (sint (t - ts))) limit)) < 1000000000"

fun rate_loop ::
  "(string \<Rightarrow> string) \<Rightarrow> f2w \<Rightarrow> 'c cache_get \<Rightarrow> 'c cache_add \<Rightarrow> 64 word \<Rightarrow> event_msg option list \<Rightarrow> 'c \<Rightarrow>
   event_msg list \<times> 'c" where
  "rate_loop sha f2i get add limit [] c = ([], c)"
| "rate_loop sha f2i get add limit (None # es) c = rate_loop sha f2i get add limit es c"
| "rate_loop sha f2i get add limit (Some e # es) c =
    (let h = hash_event sha e;
         (ts, c1) = get c h
     in if (case ts of None \<Rightarrow> False | Some t \<Rightarrow> too_soon f2i limit t (em_timestamp e))
        then rate_loop sha f2i get add limit es c1
        else (case rate_loop sha f2i get add limit es (add c1 h (em_timestamp e)) of
          (valid, c') \<Rightarrow> (e # valid, c')))"

definition rate_apply ::
  "(string \<Rightarrow> string) \<Rightarrow> f2w \<Rightarrow> 'c cache_get \<Rightarrow> 'c cache_add \<Rightarrow> 64 word \<Rightarrow> 'c \<Rightarrow>
   event_msg option list \<Rightarrow> event_msg option list \<times> 'c" where
  "rate_apply sha f2i get add limit c es =
    (case rate_loop sha f2i get add limit es c of (valid, c') \<Rightarrow> (map Some valid, c'))"

section \<open>event-trigger\<close>

record trigger_cfg =
  gc_condition :: string
  gc_min :: int
  gc_max :: int
  gc_window :: int

definition trigger_defaults :: "trigger_cfg \<Rightarrow> trigger_cfg res" where
  "trigger_defaults cfg =
    (let c1 = (if gc_condition cfg = [] then cfg\<lparr>gc_condition := ''any([true])''\<rparr> else cfg);
         c2 = (if gc_min c1 \<le> 0 then c1\<lparr>gc_min := 1\<rparr> else c1);
         c3 = (if gc_max c2 \<le> 0 then c2\<lparr>gc_max := 1\<rparr> else c2)
     in if gc_max c3 < gc_min c3 then Inl ''max-occurrences cannot be lower than min-occurrences''
        else Inr (if gc_window c3 \<le> 0 then c3\<lparr>gc_window := 60 * 10 ^ 9\<rparr> else c3))"

text \<open>Looking up each configured action and creating it; \<open>mkact\<close> is the registry of action types.\<close>

definition initialize_action :: "(string \<Rightarrow> (gval gmap \<Rightarrow> 'a res) option) \<Rightarrow> gval gmap \<Rightarrow> 'a res" where
  "initialize_action mkact cfg =
    (if cfg = [] then Inl ''missing action definition''
     else case map_of cfg ''type'' of
       None \<Rightarrow> Inl ''missing type field under action''
     | Some (VStr actType) \<Rightarrow>
         (case mkact actType of None \<Rightarrow> Inl ''unknown action type'' | Some mk \<Rightarrow> mk cfg)
     | Some _ \<Rightarrow> Inl ''unexpected action field type'')"

definition trigger_init ::
  "jq_compiler \<Rightarrow> (string \<Rightarrow> (gval gmap \<Rightarrow> 'a res) option) \<Rightarrow> (string \<times> gval gmap) list \<Rightarrow>
   trigger_cfg \<Rightarrow> string list \<Rightarrow> (trigger_cfg \<times> jq_code \<times> 'a list) res" where
  "trigger_init jqc mkact acts cfg names =
    rbind (trigger_defaults cfg) (\<lambda>c.
      let c' = c\<lparr>gc_condition := trim_space (gc_condition c)\<rparr>
      in rbind (jqc (gc_condition c')) (\<lambda>code.
         rbind (rmap (\<lambda>n. case map_of acts n of
             None \<Rightarrow> Inl ''failed to initialize action: config not found''
           | Some a \<Rightarrow> initialize_action mkact a) names) (\<lambda>as.
           Inr (c', code, as))))"

record trigger_state =
  ts_occurrences :: "int list"
  ts_last :: int

definition trigger_start :: trigger_state where
  "trigger_start = \<lparr>ts_occurrences = [], ts_last = 0\<rparr>"

definition eval_occurrences :: "trigger_cfg \<Rightarrow> int \<Rightarrow> trigger_state \<Rightarrow> bool \<times> trigger_state" where
  "eval_occurrences p now st =
    (let inWindow = filter (\<lambda>t. t + gc_window p > now) (ts_occurrences st);
         times0 = inWindow @ [now];
         times = (if int (length times0) > gc_max p
           then drop (nat (int (length times0) - gc_max p - 1)) times0 else times0);
         num = int (length times);
         st1 = st\<lparr>ts_occurrences := times\<rparr>
     in if num \<ge> gc_min p \<and> num \<le> gc_max p then (True, st1\<lparr>ts_last := now\<rparr>)
        else if num > gc_min p \<and> ts_last st + gc_window p < now then (True, st1\<lparr>ts_last := now\<rparr>)
        else (False, st1))"

text \<open>
  The actions run in order, each with the results of the ones before under their names, until one
  fails; \<open>run\<close> executes an action on the outside world.
\<close>

fun trigger_actions ::
  "('a \<Rightarrow> string) \<Rightarrow> ('a \<Rightarrow> event_msg \<Rightarrow> gval gmap \<Rightarrow> 'w \<Rightarrow> gval res \<times> 'w) \<Rightarrow>
   'a list \<Rightarrow> event_msg \<Rightarrow> gval gmap \<Rightarrow> 'w \<Rightarrow> 'w" where
  "trigger_actions nm run [] e env w = w"
| "trigger_actions nm run (a # as) e env w =
    (case run a e env w of
      (Inl _, w') \<Rightarrow> w'
    | (Inr res, w') \<Rightarrow> trigger_actions nm run as e (gset (nm a) res env) w')"

text \<open>All events of one call see the same instant. This is the synchronous mode.\<close>

fun trigger_loop ::
  "rejson \<Rightarrow> jq_code option \<Rightarrow> trigger_cfg \<Rightarrow> int \<Rightarrow> (event_msg \<Rightarrow> 'w \<Rightarrow> 'w) \<Rightarrow>
   event_msg option list \<Rightarrow> trigger_state \<times> 'w \<Rightarrow> trigger_state \<times> 'w" where
  "trigger_loop rj code p now act [] st = st"
| "trigger_loop rj code p now act (eo # es) (st, w) =
    trigger_loop rj code p now act es
      (case eo of
        None \<Rightarrow> (st, w)
      | Some e \<Rightarrow>
          (if cond_ok (check_condition rj code (Some e)) then
             (case eval_occurrences p now st of
               (fire, st') \<Rightarrow> (st', if fire then act e w else w))
           else (st, w)))"

definition trigger_apply ::
  "rejson \<Rightarrow> jq_code option \<Rightarrow> trigger_cfg \<Rightarrow> int \<Rightarrow> (event_msg \<Rightarrow> 'w \<Rightarrow> 'w) \<Rightarrow>
   trigger_state \<times> 'w \<Rightarrow> event_msg option list \<Rightarrow> event_msg option list \<times> trigger_state \<times> 'w" where
  "trigger_apply rj code p now act st es = (es, trigger_loop rj code p now act es st)"

section \<open>The rate limiter\<close>

text \<open>What an LRU cache promises: a lookup leaves the contents alone; after an addition the key has
  the new value and every other key its old value or, evicted, none.\<close>

definition is_lru :: "'c cache_get \<Rightarrow> 'c cache_add \<Rightarrow> bool" where
  "is_lru get add \<longleftrightarrow>
    (\<forall>c k k'. fst (get (snd (get c k)) k') = fst (get c k')) \<and>
    (\<forall>c k v. fst (get (add c k v) k) = Some v) \<and>
    (\<forall>c k v k'. k' \<noteq> k \<longrightarrow> fst (get (add c k v) k') = None \<or> fst (get (add c k v) k') = fst (get c k'))"

definition never_evicts :: "'c cache_get \<Rightarrow> 'c cache_add \<Rightarrow> bool" where
  "never_evicts get add \<longleftrightarrow> (\<forall>c k v k'. k' \<noteq> k \<longrightarrow> fst (get (add c k v) k') = fst (get c k'))"

definition list_get :: "(string \<times> 64 word) list cache_get" where
  "list_get c k = (map_of c k, c)"

definition list_add :: "(string \<times> 64 word) list cache_add" where
  "list_add c k v = AList.update k v c"

lemma list_cache_ok: "is_lru list_get list_add" "never_evicts list_get list_add"
  by (simp_all add: is_lru_def never_evicts_def list_get_def list_add_def)

lemma rate_loop_subset: "set (fst (rate_loop sha f2i get add limit es c)) \<subseteq> {e. Some e \<in> set es}"
proof (induction es arbitrary: c)
  case (Cons eo es)
  show ?case
  proof (cases eo)
    case None
    with Cons show ?thesis by auto
  next
    case (Some e)
    obtain ts c1 where g: "get c (hash_event sha e) = (ts, c1)" by fastforce
    obtain v c' where r: "rate_loop sha f2i get add limit es (add c1 (hash_event sha e) (em_timestamp e)) = (v, c')"
      by fastforce
    have "set v \<subseteq> {e. Some e \<in> set es}"
      using Cons.IH [of "add c1 (hash_event sha e) (em_timestamp e)"] r by simp
    with Some g r Cons.IH [of c1] show ?thesis by auto
  qed
qed simp

text \<open>Every cached time stamp is that of an event let through before.\<close>

definition cache_sound :: "(string \<Rightarrow> string) \<Rightarrow> 'c cache_get \<Rightarrow> event_msg list \<Rightarrow> 'c \<Rightarrow> bool" where
  "cache_sound sha get passed c \<longleftrightarrow>
    (\<forall>k t. fst (get c k) = Some t \<longrightarrow> (\<exists>e \<in> set passed. hash_event sha e = k \<and> em_timestamp e = t))"

lemma cache_sound_get: "is_lru get add \<Longrightarrow> cache_sound sha get passed c \<Longrightarrow> cache_sound sha get passed (snd (get c k))"
  by (simp add: is_lru_def cache_sound_def)

lemma cache_sound_add:
  "is_lru get add \<Longrightarrow> cache_sound sha get passed c \<Longrightarrow>
   cache_sound sha get (passed @ [e]) (add c (hash_event sha e) (em_timestamp e))"
proof -
  assume l: "is_lru get add" and s: "cache_sound sha get passed c"
  let ?c = "add c (hash_event sha e) (em_timestamp e)"
  have "\<exists>e' \<in> set (passed @ [e]). hash_event sha e' = k \<and> em_timestamp e' = t"
    if t: "fst (get ?c k) = Some t" for k t
  proof (cases "k = hash_event sha e")
    case True
    then have "t = em_timestamp e" using l t by (simp add: is_lru_def)
    with True show ?thesis by auto
  next
    case False
    then have "fst (get ?c k) = None \<or> fst (get ?c k) = fst (get c k)" using l by (simp add: is_lru_def)
    with t have "fst (get c k) = Some t" by auto
    with s show ?thesis by (auto simp: cache_sound_def)
  qed
  then show ?thesis by (simp add: cache_sound_def)
qed

lemma rate_loop_append:
  "rate_loop sha f2i get add limit (es @ es') c =
    (case rate_loop sha f2i get add limit es c of (v, c') \<Rightarrow>
      (case rate_loop sha f2i get add limit es' c' of (v', c'') \<Rightarrow> (v @ v', c'')))"
proof (induction es arbitrary: c)
  case (Cons eo es)
  then show ?case by (cases eo) (auto simp: Let_def split: prod.splits option.splits)
qed (simp split: prod.split)

lemma rate_loop_sound:
  assumes "is_lru get add" and "cache_sound sha get passed c"
  shows "cache_sound sha get (passed @ fst (rate_loop sha f2i get add limit es c))
    (snd (rate_loop sha f2i get add limit es c))"
  using assms(2)
proof (induction es arbitrary: passed c)
  case (Cons eo es)
  show ?case
  proof (cases eo)
    case None
    with Cons show ?thesis by simp
  next
    case (Some e)
    obtain ts c1 where g: "get c (hash_event sha e) = (ts, c1)" by fastforce
    have s1: "cache_sound sha get passed c1"
      using cache_sound_get [OF assms(1) Cons.prems, of "hash_event sha e"] g by simp
    have s2: "cache_sound sha get (passed @ [e]) (add c1 (hash_event sha e) (em_timestamp e))"
      by (rule cache_sound_add [OF assms(1) s1])
    show ?thesis
      using Cons.IH [OF s1] Cons.IH [OF s2] Some g by (auto split: prod.splits)
  qed
qed simp

text \<open>The time stamps of the events with one hash that pass are spaced by the limit.\<close>

lemma rate_loop_spaced:
  assumes "is_lru get add" and "never_evicts get add"
  shows "successively (\<lambda>s t. \<not> too_soon f2i limit s t)
    ((case fst (get c k) of None \<Rightarrow> [] | Some t \<Rightarrow> [t]) @
     map em_timestamp (filter (\<lambda>e. hash_event sha e = k) (fst (rate_loop sha f2i get add limit es c))))"
proof (induction es arbitrary: c)
  case (Cons eo es)
  show ?case
  proof (cases eo)
    case None
    with Cons show ?thesis by simp
  next
    case (Some e)
    let ?h = "hash_event sha e"
    obtain ts c1 where g: "get c ?h = (ts, c1)" by fastforce
    have c1: "fst (get c1 k) = fst (get c k)" using assms(1) g by (metis is_lru_def snd_conv)
    have add_same: "fst (get (add c1 ?h (em_timestamp e)) ?h) = Some (em_timestamp e)"
      using assms(1) by (simp add: is_lru_def)
    have add_other: "k \<noteq> ?h \<Longrightarrow> fst (get (add c1 ?h (em_timestamp e)) k) = fst (get c k)"
      using assms(2) c1 by (simp add: never_evicts_def)
    show ?thesis
    proof (cases "case ts of None \<Rightarrow> False | Some t \<Rightarrow> too_soon f2i limit t (em_timestamp e)")
      case True
      then show ?thesis using Cons.IH [of c1] Some g c1 by simp
    next
      case False
      note IH = Cons.IH [of "add c1 ?h (em_timestamp e)"]
      show ?thesis
      proof (cases "?h = k")
        case True
        then have "fst (get c k) = ts" using g by simp
        then show ?thesis using IH False Some g True add_same
          by (auto split: prod.splits option.splits)
      next
        case neq: False
        then show ?thesis using IH False Some g add_other by (auto split: prod.splits)
      qed
    qed
  qed
qed (simp split: option.split)

section \<open>The trigger\<close>

text \<open>The instants at which the trigger fires over a history of occurrences.\<close>

fun fire_times :: "trigger_cfg \<Rightarrow> int list \<Rightarrow> trigger_state \<Rightarrow> int list" where
  "fire_times p [] st = []"
| "fire_times p (now # ts) st =
    (case eval_occurrences p now st of
      (fire, st') \<Rightarrow> (if fire then [now] else []) @ fire_times p ts st')"

fun trigger_after :: "trigger_cfg \<Rightarrow> int list \<Rightarrow> trigger_state \<Rightarrow> trigger_state" where
  "trigger_after p [] st = st"
| "trigger_after p (now # ts) st = trigger_after p ts (snd (eval_occurrences p now st))"

text \<open>
  What the state knows of the history: the stored occurrences are its end, and all earlier ones
  have left the window unless the store is full.
\<close>

definition occ_inv :: "trigger_cfg \<Rightarrow> int list \<Rightarrow> int list \<Rightarrow> trigger_state \<Rightarrow> int \<Rightarrow> bool" where
  "occ_inv p hist fires st now \<longleftrightarrow>
    (\<exists>pre. hist = pre @ ts_occurrences st \<and>
      (int (length (ts_occurrences st)) \<le> gc_max p \<longrightarrow> (\<forall>x \<in> set pre. x + gc_window p \<le> now))) \<and>
    sorted hist \<and> (\<forall>x \<in> set hist. x \<le> now) \<and>
    (\<forall>x \<in> set fires. x \<le> ts_last st) \<and>
    (\<forall>P. length (filter P fires) \<le> length (filter P hist))"

definition in_window :: "trigger_cfg \<Rightarrow> int \<Rightarrow> int \<Rightarrow> bool" where
  "in_window p now t \<longleftrightarrow> now < t + gc_window p \<and> t \<le> now"

lemma filter_sorted_suffix:
  fixes xs :: "int list"
  assumes "sorted xs"
  obtains pre where "xs = pre @ filter (\<lambda>t. t + w > now) xs" "\<forall>x \<in> set pre. x + w \<le> now"
    "pre = [] \<or> filter (\<lambda>t. t + w > now) xs \<noteq> xs"
proof -
  have "xs = takeWhile (\<lambda>t. t + w \<le> now) xs @ filter (\<lambda>t. t + w > now) xs"
    using assms
  proof (induction xs)
    case (Cons x xs)
    show ?case
    proof (cases "x + w \<le> now")
      case False
      with Cons.prems have "filter (\<lambda>t. t + w > now) xs = xs"
        by (intro filter_True) force
      with False show ?thesis by simp
    qed (use Cons in simp)
  qed simp
  then show ?thesis
    using that [of "takeWhile (\<lambda>t. t + w \<le> now) xs"]
    by (metis set_takeWhileD append_self_conv2)
qed

lemma drop_trim:
  fixes xs :: "int list"
  obtains pre where "xs = pre @ (if int (length xs) > m then drop (nat (int (length xs) - m - 1)) xs else xs)"
    "int (length (if int (length xs) > m then drop (nat (int (length xs) - m - 1)) xs else xs)) \<le> m \<longrightarrow> pre = []"
proof (cases "int (length xs) > m")
  case True
  have "xs = take (nat (int (length xs) - m - 1)) xs @ drop (nat (int (length xs) - m - 1)) xs" by simp
  moreover have "\<not> int (length (drop (nat (int (length xs) - m - 1)) xs)) \<le> m" if "0 \<le> m"
    using True that by simp
  moreover have "\<not> int (length (drop (nat (int (length xs) - m - 1)) xs)) \<le> m" if "m < 0"
    using that by simp
  ultimately show ?thesis using True that by (metis linorder_not_less)
next
  case False
  then show ?thesis using that [of "[]"] by simp
qed

definition trimmed :: "trigger_cfg \<Rightarrow> int \<Rightarrow> int list \<Rightarrow> int list" where
  "trimmed p now occ =
    (let times0 = filter (\<lambda>t. t + gc_window p > now) occ @ [now]
     in if int (length times0) > gc_max p then drop (nat (int (length times0) - gc_max p - 1)) times0 else times0)"

definition fires_now :: "trigger_cfg \<Rightarrow> int \<Rightarrow> trigger_state \<Rightarrow> bool" where
  "fires_now p now st \<longleftrightarrow>
    (let num = int (length (trimmed p now (ts_occurrences st)))
     in num \<ge> gc_min p \<and> num \<le> gc_max p \<or> num > gc_min p \<and> ts_last st + gc_window p < now)"

lemma eval_occurrences_eq:
  "eval_occurrences p now st =
    (fires_now p now st,
     \<lparr>ts_occurrences = trimmed p now (ts_occurrences st), ts_last = (if fires_now p now st then now else ts_last st)\<rparr>)"
  by (auto simp: eval_occurrences_def fires_now_def trimmed_def Let_def)

text \<open>The stored occurrences stay a suffix of the history, exact while there is room.\<close>

lemma trimmed_suffix:
  assumes hist: "hist = pre @ occ" and ex: "int (length occ) \<le> gc_max p \<longrightarrow> (\<forall>x \<in> set pre. x + gc_window p \<le> t)"
    and "sorted hist" and "t \<le> now"
  obtains pre' where "hist @ [now] = pre' @ trimmed p now occ"
    "int (length (trimmed p now occ)) \<le> gc_max p \<longrightarrow> (\<forall>x \<in> set pre'. x + gc_window p \<le> now)"
proof -
  let ?in = "filter (\<lambda>t. t + gc_window p > now) occ"
  have so: "sorted occ" using assms(3) hist by (simp add: sorted_append)
  obtain out where out: "occ = out @ ?in" "\<forall>x \<in> set out. x + gc_window p \<le> now" "out = [] \<or> ?in \<noteq> occ"
    by (rule filter_sorted_suffix [OF so])
  obtain cut where cut: "?in @ [now] = cut @ trimmed p now occ"
    "int (length (trimmed p now occ)) \<le> gc_max p \<longrightarrow> cut = []"
    unfolding trimmed_def Let_def by (rule drop_trim)
  have eq: "hist @ [now] = (pre @ out @ cut) @ trimmed p now occ"
  proof -
    have "hist @ [now] = pre @ out @ ?in @ [now]" using hist out(1) by simp
    then show ?thesis unfolding cut(1) by simp
  qed
  have "\<forall>x \<in> set (pre @ out @ cut). x + gc_window p \<le> now"
    if fits: "int (length (trimmed p now occ)) \<le> gc_max p"
  proof -
    from fits cut(2) have c: "cut = []" by simp
    with cut(1) have len: "int (length ?in) + 1 \<le> gc_max p"
    proof -
      have "?in @ [now] = trimmed p now occ" using c cut(1) by simp
      then have "length (trimmed p now occ) = length ?in + 1"
        by (metis length_append_singleton Suc_eq_plus1)
      with fits show ?thesis by simp
    qed
    have "\<forall>x \<in> set pre. x + gc_window p \<le> now"
    proof (cases "int (length occ) \<le> gc_max p")
      case True
      with ex assms(4) show ?thesis by force
    next
      case False
      have "out \<noteq> []"
      proof
        assume "out = []"
        then have "?in = occ" using out(1) by simp
        with len False show False by simp
      qed
      then obtain y ys where y: "out = y # ys" by (cases out) auto
      then have "y + gc_window p \<le> now" using out(2) by simp
      moreover have "\<forall>x \<in> set pre. x \<le> y"
        using assms(3) unfolding hist by (subst (asm) out(1)) (simp add: y sorted_append)
      ultimately show ?thesis by force
    qed
    with out(2) c show ?thesis by auto
  qed
  with eq that show ?thesis by blast
qed

lemma occ_inv_step:
  assumes "occ_inv p hist fires st t" and "t \<le> now"
  shows "occ_inv p (hist @ [now]) (fires @ (if fires_now p now st then [now] else []))
    (snd (eval_occurrences p now st)) now"
proof -
  from assms(1) obtain pre where pre: "hist = pre @ ts_occurrences st"
    "int (length (ts_occurrences st)) \<le> gc_max p \<longrightarrow> (\<forall>x \<in> set pre. x + gc_window p \<le> t)"
    and s: "sorted hist" and le: "\<forall>x \<in> set hist. x \<le> t" and last: "\<forall>x \<in> set fires. x \<le> ts_last st"
    and cnt: "\<forall>P. length (filter P fires) \<le> length (filter P hist)"
    by (auto simp: occ_inv_def)
  obtain pre' where pre': "hist @ [now] = pre' @ trimmed p now (ts_occurrences st)"
    "int (length (trimmed p now (ts_occurrences st))) \<le> gc_max p \<longrightarrow> (\<forall>x \<in> set pre'. x + gc_window p \<le> now)"
    by (rule trimmed_suffix [OF pre s assms(2)])
  have bound: "x \<le> now" if "x \<in> set fires" for x
  proof -
    have "0 < length (filter ((=) x) fires)" using that by (simp add: filter_empty_conv)
    also have "\<dots> \<le> length (filter ((=) x) hist)" using cnt by blast
    finally have "x \<in> set hist" by (auto simp: filter_empty_conv)
    with le assms(2) show ?thesis by force
  qed
  let ?f = "if fires_now p now st then [now] else []"
  have le': "\<forall>x \<in> set (hist @ [now]). x \<le> now" using le assms(2) by auto
  then have s': "sorted (hist @ [now])" using s by (simp add: sorted_append)
  have last': "\<forall>x \<in> set (fires @ ?f). x \<le> (if fires_now p now st then now else ts_last st)"
    using last bound by auto
  have cnt': "\<forall>P. length (filter P (fires @ ?f)) \<le> length (filter P (hist @ [now]))"
    using cnt by (simp add: le_SucI)
  have suf: "\<exists>pre. hist @ [now] = pre @ trimmed p now (ts_occurrences st) \<and>
      (int (length (trimmed p now (ts_occurrences st))) \<le> gc_max p \<longrightarrow> (\<forall>x \<in> set pre. x + gc_window p \<le> now))"
    using pre' by blast
  show ?thesis
    unfolding occ_inv_def eval_occurrences_eq snd_conv trigger_state.simps
    by (intro conjI suf s' le' last' cnt')
qed

lemma occ_inv_after:
  assumes "occ_inv p hist fires st t" and "sorted (t # ts)"
  shows "occ_inv p (hist @ ts) (fires @ fire_times p ts st) (trigger_after p ts st) (last (t # ts))"
  using assms
proof (induction ts arbitrary: hist fires st t)
  case (Cons now ts)
  have "occ_inv p (hist @ [now]) (fires @ (if fires_now p now st then [now] else []))
      (snd (eval_occurrences p now st)) now"
    by (rule occ_inv_step [OF Cons.prems(1)]) (use Cons.prems in simp)
  from Cons.IH [OF this] Cons.prems(2) show ?case by (simp add: eval_occurrences_eq)
qed simp

text \<open>So at most \<open>gc_max\<close> firings lie in the window that ends at a firing.\<close>

lemma fire_window_bound:
  assumes inv: "occ_inv p hist fires st t" and "t \<le> now" and "0 < gc_window p" and "1 \<le> gc_max p"
    and fire: "fires_now p now st"
  shows "int (length (filter (in_window p now) (fires @ [now]))) \<le> gc_max p"
proof -
  from inv obtain pre where pre: "hist = pre @ ts_occurrences st"
    "int (length (ts_occurrences st)) \<le> gc_max p \<longrightarrow> (\<forall>x \<in> set pre. x + gc_window p \<le> t)"
    and s: "sorted hist" and last: "\<forall>x \<in> set fires. x \<le> ts_last st"
    and cnt: "\<forall>P. length (filter P fires) \<le> length (filter P hist)"
    by (auto simp: occ_inv_def)
  obtain pre' where pre': "hist @ [now] = pre' @ trimmed p now (ts_occurrences st)"
    "int (length (trimmed p now (ts_occurrences st))) \<le> gc_max p \<longrightarrow> (\<forall>x \<in> set pre'. x + gc_window p \<le> now)"
    by (rule trimmed_suffix [OF pre s assms(2)])
  show ?thesis
  proof (cases "int (length (trimmed p now (ts_occurrences st))) \<le> gc_max p")
    case True
    have "length (filter (in_window p now) (fires @ [now])) \<le> length (filter (in_window p now) (hist @ [now]))"
      using cnt by simp
    also have "\<dots> = length (filter (in_window p now) (trimmed p now (ts_occurrences st)))"
      unfolding pre'(1) using pre'(2) True by (auto simp: in_window_def filter_empty_conv)
    also have "\<dots> \<le> length (trimmed p now (ts_occurrences st))" by simp
    finally show ?thesis using True by linarith
  next
    case False
    with fire have "ts_last st + gc_window p < now" by (simp add: fires_now_def Let_def)
    then have "filter (in_window p now) fires = []"
      using last by (force simp: in_window_def filter_empty_conv)
    with assms(4) show ?thesis by simp
  qed
qed

section \<open>Properties\<close>

lemma trigger_defaults_ok:
  "trigger_defaults cfg = Inr p \<Longrightarrow> 1 \<le> gc_min p \<and> gc_min p \<le> gc_max p \<and> 0 < gc_window p"
  by (auto simp: trigger_defaults_def Let_def split: if_splits)

text \<open>The rate limiter drops no event without reason: when an event is dropped, an event with the same tags
  was let through before, at a different time stamp closer than the configured rate allows. This
  holds for every cache that behaves like an LRU cache, also when it evicts.\<close>

theorem rate_limit_drops_only_excess:
  assumes "is_lru get add" and "\<And>k. fst (get c k) = None"
    and "fst (rate_loop sha f2i get add limit (es @ [Some e]) c) = fst (rate_loop sha f2i get add limit es c)"
  shows "\<exists>e0 \<in> set (fst (rate_loop sha f2i get add limit es c)).
    hash_event sha e0 = hash_event sha e \<and> too_soon f2i limit (em_timestamp e0) (em_timestamp e)"
proof -
  obtain v c' where l: "rate_loop sha f2i get add limit es c = (v, c')" by fastforce
  have "cache_sound sha get [] c" using assms(2) by (simp add: cache_sound_def)
  from rate_loop_sound [OF assms(1) this, of f2i limit es] l have snd: "cache_sound sha get v c'" by simp
  obtain ts c1 where g: "get c' (hash_event sha e) = (ts, c1)" by fastforce
  from assms(3) l g have "case ts of None \<Rightarrow> False | Some t \<Rightarrow> too_soon f2i limit t (em_timestamp e)"
    by (auto simp: rate_loop_append split: if_splits prod.splits)
  then obtain t where "ts = Some t" "too_soon f2i limit t (em_timestamp e)" by (cases ts) auto
  with snd g l show ?thesis by (force simp: cache_sound_def)
qed

lemma sample_too_soon: "too_soon (\<lambda>w. w) 0x3FF0000000000000 0 1"
proof -
  have one: "f64_of_int 1 = 0x3FF0000000000000"
    by (simp add: f64_of_int_def encode64_def enc_exp_def enc_mant_def bitlen.simps pow2_def)
  have d: "decode64 0x3FF0000000000000 = FNum False (2 ^ 52) (- 52)"
    by (simp add: decode64_def decode_float_def)
  have p: "pow2 (- 52 + - 52) = 1" "pow2 (- (- 52 + - 52)) = 2 ^ 104" by (simp_all add: pow2_def)
  have e: "encode64 False (2 ^ 104) (2 ^ 104) = 0x3FF0000000000000"
    by (simp add: encode64_def enc_exp_def enc_mant_def bitlen.simps pow2_def)
  have m: "(2::nat) ^ 52 * 2 ^ 52 * 1 = 2 ^ 104" by simp
  have "f64_mul 0x3FF0000000000000 0x3FF0000000000000 =
      encode64 False (2 ^ 52 * 2 ^ 52 * pow2 (- 52 + - 52)) (pow2 (- (- 52 + - 52)))"
    by (simp only: f64_mul_def d prod.case fval.case simp_thms)
  also have "\<dots> = 0x3FF0000000000000" unfolding p m by (rule e)
  finally have "f64_mul 0x3FF0000000000000 0x3FF0000000000000 = 0x3FF0000000000000" .
  moreover have "f64_to_i64 (\<lambda>w. w) 0x3FF0000000000000 = 1"
    using f64_to_i64_of_int [of 1 "\<lambda>w. w"] by (simp add: one)
  ultimately show ?thesis by (simp add: too_soon_def one)
qed

theorem rate_limit_drops_only_excess_witness:
  "\<exists>e0 \<in> set (fst (rate_loop (\<lambda>s. s) (\<lambda>w. w) list_get list_add 0x3FF0000000000000 [Some zero_event] [])).
    hash_event (\<lambda>s. s) e0 = hash_event (\<lambda>s. s) (zero_event\<lparr>em_timestamp := 1\<rparr>) \<and>
    too_soon (\<lambda>w. w) 0x3FF0000000000000 (em_timestamp e0) 1"
proof -
  have "fst (rate_loop (\<lambda>s. s) (\<lambda>w. w) list_get list_add 0x3FF0000000000000
      ([Some zero_event] @ [Some (zero_event\<lparr>em_timestamp := 1\<rparr>)]) []) =
    fst (rate_loop (\<lambda>s. s) (\<lambda>w. w) list_get list_add 0x3FF0000000000000 [Some zero_event] [])"
    using sample_too_soon by (simp add: list_get_def list_add_def hash_event_def zero_event_def)
  from rate_limit_drops_only_excess [OF list_cache_ok(1) _ this] show ?thesis
    by (simp add: list_get_def)
qed

text \<open>Over any sequence of slices, as long as the cache does not evict, the events of one tag set that pass
  are spaced: each has the time stamp of the one before or is no closer to it than the rate allows.\<close>

theorem rate_limit_spacing:
  assumes "is_lru get add" and "never_evicts get add" and "\<And>k. fst (get c k) = None"
  shows "successively (\<lambda>s t. \<not> too_soon f2i limit s t)
    (map em_timestamp (filter (\<lambda>e. hash_event sha e = k) (fst (rate_loop sha f2i get add limit es c))))"
  using rate_loop_spaced [OF assms(1,2), of f2i limit c k sha es] assms(3) [of k] by simp

theorem rate_limit_spacing_witness:
  "successively (\<lambda>s t. \<not> too_soon (\<lambda>w. w) 0x3FF0000000000000 s t)
    (map em_timestamp (filter (\<lambda>e. hash_event (\<lambda>s. s) e = hash_event (\<lambda>s. s) zero_event)
      (fst (rate_loop (\<lambda>s. s) (\<lambda>w. w) list_get list_add 0x3FF0000000000000
        [Some zero_event, None, Some (zero_event\<lparr>em_timestamp := 1\<rparr>)] []))))"
  by (rule rate_limit_spacing [OF list_cache_ok]) (simp add: list_get_def)

text \<open>C31. A trigger fires at most max-occurrences times within any window: over every history of occurrences in
  order of time, at each firing no more than that many firings lie in the window that ends there.\<close>

theorem trigger_rate_bound:
  assumes "trigger_defaults cfg = Inr p" and "sorted (ts @ [now])"
    and "fst (eval_occurrences p now (trigger_after p ts trigger_start))"
  shows "int (length (filter (in_window p now) (fire_times p ts trigger_start @ [now]))) \<le> gc_max p"
proof -
  have p: "1 \<le> gc_max p" "0 < gc_window p" using trigger_defaults_ok [OF assms(1)] by auto
  define t0 where "t0 = (if ts = [] then now else hd ts)"
  have "occ_inv p [] [] trigger_start t0" by (simp add: occ_inv_def trigger_start_def)
  moreover have st: "sorted (t0 # ts)" using assms(2) by (cases ts) (auto simp: t0_def sorted_append)
  ultimately have "occ_inv p ([] @ ts) ([] @ fire_times p ts trigger_start) (trigger_after p ts trigger_start) (last (t0 # ts))"
    by (rule occ_inv_after)
  moreover have "last (t0 # ts) \<le> now"
    using assms(2) by (auto simp: t0_def sorted_append)
  ultimately show ?thesis
    using fire_window_bound [OF _ _ p(2,1)] assms(3) by (simp add: eval_occurrences_eq)
qed

definition sample_trigger :: trigger_cfg where
  "sample_trigger = \<lparr>gc_condition = ''x'', gc_min = 1, gc_max = 1, gc_window = 10\<rparr>"

theorem trigger_rate_bound_witness:
  "int (length (filter (in_window sample_trigger 25) (fire_times sample_trigger [3, 8, 14] trigger_start @ [25]))) \<le> 1"
proof -
  have "trigger_defaults sample_trigger = Inr sample_trigger"
    by (simp add: trigger_defaults_def sample_trigger_def)
  moreover have "fst (eval_occurrences sample_trigger 25 (trigger_after sample_trigger [3, 8, 14] trigger_start))"
    by (simp add: eval_occurrences_def sample_trigger_def trigger_start_def Let_def)
  ultimately have "int (length (filter (in_window sample_trigger 25) (fire_times sample_trigger [3, 8, 14] trigger_start @ [25])))
      \<le> gc_max sample_trigger"
    by (intro trigger_rate_bound) simp_all
  then show ?thesis by (simp add: sample_trigger_def)
qed

text \<open>A trigger does fire: when at least min-occurrences occurrences, the new one included, lie in the
  window and the last firing is more than a window ago, it fires and records the instant.\<close>

theorem trigger_fires:
  assumes "trigger_defaults cfg = Inr p"
    and "gc_min p \<le> int (length (filter (\<lambda>t. t + gc_window p > now) (ts_occurrences st))) + 1"
    and "ts_last st + gc_window p < now"
  shows "fst (eval_occurrences p now st) \<and> ts_last (snd (eval_occurrences p now st)) = now \<and>
    int (length (ts_occurrences (snd (eval_occurrences p now st)))) \<le> gc_max p + 1"
proof -
  have p: "1 \<le> gc_min p" "gc_min p \<le> gc_max p" using trigger_defaults_ok [OF assms(1)] by auto
  have "fires_now p now st" "int (length (trimmed p now (ts_occurrences st))) \<le> gc_max p + 1"
    using p assms(2,3) by (auto simp: fires_now_def trimmed_def Let_def)
  then show ?thesis by (simp add: eval_occurrences_eq)
qed

theorem trigger_fires_witness:
  "fst (eval_occurrences sample_trigger 25 \<lparr>ts_occurrences = [3, 20], ts_last = 3\<rparr>)"
  using trigger_fires [of sample_trigger sample_trigger 25 "\<lparr>ts_occurrences = [3, 20], ts_last = 3\<rparr>"]
  by (simp add: trigger_defaults_def sample_trigger_def)

end
