(* ===== verification/Proc_Strings.thy ===== *)
theory Proc_Strings
  imports Interfaces
begin

text \<open>
  \<open>event_strings\<close>: string transformations of tags and values. The configuration is a list of maps
  from operation names to transforms. Parameters: \<open>title\<close> is \<open>cases.Title(language.English)\<close> of
  golang.org/x/text; \<open>vord\<close> and \<open>tord\<close> are the keys the two loops over maps visit, which the
  bodies extend. A slice expression out of range panics.
\<close>

record transform =
  tr_op :: string
  tr_apply_on :: string
  tr_keep :: bool
  tr_old :: string
  tr_new :: string
  tr_prefix :: string
  tr_suffix :: string
  tr_split_on :: string
  tr_join_with :: string
  tr_ignore_first :: int
  tr_ignore_last :: int
  tr_replace :: "regexp option"

record strings_cfg =
  sc_tags :: "string list"
  sc_values :: "string list"
  sc_tag_names :: "string list"
  sc_value_names :: "string list"
  sc_transforms :: "(string \<times> transform) list list"

record strings_proc =
  st_tags :: "regexp list"
  st_values :: "regexp list"
  st_tag_keys :: "regexp list"
  st_value_keys :: "regexp list"
  st_transforms :: "transform list list"

definition init_transform :: "re_compiler \<Rightarrow> string \<times> transform \<Rightarrow> transform res" where
  "init_transform compile kt =
    (let t = (snd kt)\<lparr>tr_op := fst kt\<rparr>
     in if fst kt = ''replace'' then rbind (compile (tr_old t)) (\<lambda>re. Inr (t\<lparr>tr_replace := Some re\<rparr>))
        else Inr t)"

definition strings_init :: "re_compiler \<Rightarrow> strings_cfg \<Rightarrow> strings_proc res" where
  "strings_init compile cfg =
    rbind (rmap (rmap (init_transform compile)) (sc_transforms cfg)) (\<lambda>trs.
    rbind (rmap compile (sc_tags cfg)) (\<lambda>tags.
    rbind (rmap compile (sc_tag_names cfg)) (\<lambda>tagKeys.
    rbind (rmap compile (sc_values cfg)) (\<lambda>vals.
    rbind (rmap compile (sc_value_names cfg)) (\<lambda>valueKeys.
      Inr \<lparr>st_tags = tags, st_values = vals, st_tag_keys = tagKeys, st_value_keys = valueKeys,
        st_transforms = trs\<rparr>)))))"

section \<open>One transform\<close>

text \<open>The switch on the field to apply to, which every simple operation repeats.\<close>

definition on_field :: "string \<Rightarrow> (string \<Rightarrow> string) \<Rightarrow> string \<Rightarrow> gval \<Rightarrow> string \<times> gval" where
  "on_field apply_on f k v =
    (if apply_on = ''name'' then (f k, v)
     else if apply_on = ''value'' then (k, case as_str v of Some vs \<Rightarrow> VStr (f vs) | None \<Rightarrow> v)
     else (k, v))"

definition tr_replace_op :: "transform \<Rightarrow> string \<Rightarrow> gval \<Rightarrow> string \<times> gval" where
  "tr_replace_op t k v =
    on_field (tr_apply_on t)
      (\<lambda>s. case tr_replace t of Some re \<Rightarrow> replace_all re s (tr_new t) | None \<Rightarrow> s) k v"

definition tr_trim_prefix :: "transform \<Rightarrow> string \<Rightarrow> gval \<Rightarrow> string \<times> gval" where
  "tr_trim_prefix t k v = on_field (tr_apply_on t) (\<lambda>s. trim_prefix s (tr_prefix t)) k v"

definition tr_trim_suffix :: "transform \<Rightarrow> string \<Rightarrow> gval \<Rightarrow> string \<times> gval" where
  "tr_trim_suffix t k v = on_field (tr_apply_on t) (\<lambda>s. trim_suffix s (tr_suffix t)) k v"

definition tr_to_title :: "(string \<Rightarrow> string) \<Rightarrow> transform \<Rightarrow> string \<Rightarrow> gval \<Rightarrow> string \<times> gval" where
  "tr_to_title title t k v = on_field (tr_apply_on t) title k v"

definition tr_to_lower :: "transform \<Rightarrow> string \<Rightarrow> gval \<Rightarrow> string \<times> gval" where
  "tr_to_lower t k v = on_field (tr_apply_on t) to_lower k v"

definition tr_to_upper :: "transform \<Rightarrow> string \<Rightarrow> gval \<Rightarrow> string \<times> gval" where
  "tr_to_upper t k v = on_field (tr_apply_on t) to_upper k v"

text \<open>\<open>items[first : n - last]\<close>; \<open>None\<close> when a bound is out of range.\<close>

definition go_slice :: "'a list \<Rightarrow> int \<Rightarrow> int \<Rightarrow> 'a list option" where
  "go_slice xs lo hi =
    (if 0 \<le> lo \<and> lo \<le> hi \<and> hi \<le> int (length xs) then Some (take (nat (hi - lo)) (drop (nat lo) xs)) else None)"

definition split_items :: "transform \<Rightarrow> string \<Rightarrow> string option" where
  "split_items t s =
    (let items = split_str s (tr_split_on t);
         numItems = int (length items)
     in if numItems \<le> tr_ignore_first t \<or> numItems \<le> tr_ignore_last t \<or>
           tr_ignore_first t \<ge> numItems - tr_ignore_last t then Some []
        else map_option (join (tr_join_with t)) (go_slice items (tr_ignore_first t) (numItems - tr_ignore_last t)))"

definition tr_split :: "transform \<Rightarrow> string \<Rightarrow> gval \<Rightarrow> (string \<times> gval) option" where
  "tr_split t k v =
    (if tr_apply_on t = ''name'' then map_option (\<lambda>k'. (k', v)) (split_items t k)
     else if tr_apply_on t = ''value'' then
       (case as_str v of
         Some vs \<Rightarrow> map_option (\<lambda>v'. (k, VStr v')) (split_items t vs)
       | None \<Rightarrow> Some (k, v))
     else Some (k, v))"

definition tr_path_base :: "transform \<Rightarrow> string \<Rightarrow> gval \<Rightarrow> string \<times> gval" where
  "tr_path_base t k v = on_field (tr_apply_on t) base_name k v"

definition transform_apply :: "(string \<Rightarrow> string) \<Rightarrow> transform \<Rightarrow> string \<Rightarrow> gval \<Rightarrow> (string \<times> gval) option" where
  "transform_apply title t k v =
    (let op = tr_op t
     in if op = ''replace'' then Some (tr_replace_op t k v)
        else if op = ''trim-prefix'' then Some (tr_trim_prefix t k v)
        else if op = ''trim-suffix'' then Some (tr_trim_suffix t k v)
        else if op = ''title'' then Some (tr_to_title title t k v)
        else if op = ''to-lower'' then Some (tr_to_lower t k v)
        else if op = ''to-upper'' then Some (tr_to_upper t k v)
        else if op = ''split'' then tr_split t k v
        else if op = ''path-base'' then Some (tr_path_base t k v)
        else Some (k, v))"

section \<open>The processor\<close>

text \<open>Both functions run all transforms, each on the name and value the one before left.\<close>

fun apply_value_transformations ::
  "(string \<Rightarrow> string) \<Rightarrow> transform list \<Rightarrow> string \<Rightarrow> gval \<Rightarrow> gval gmap \<Rightarrow> gval gmap option" where
  "apply_value_transformations title [] k v m = Some m"
| "apply_value_transformations title (t # ts) k v m =
    (case transform_apply title t k v of
      None \<Rightarrow> None
    | Some (k', v') \<Rightarrow>
        apply_value_transformations title ts k' v' (gset k' v' (if tr_keep t then m else gdel k m)))"

fun apply_tag_transformations ::
  "(string \<Rightarrow> string) \<Rightarrow> transform list \<Rightarrow> string \<Rightarrow> string \<Rightarrow> string gmap \<Rightarrow> string gmap option" where
  "apply_tag_transformations title [] k v m = Some m"
| "apply_tag_transformations title (t # ts) k v m =
    (let m1 = (if tr_keep t then m else gdel k m)
     in case transform_apply title t k (VStr v) of
       None \<Rightarrow> None
     | Some (k', vi) \<Rightarrow>
         (case as_str vi of
           Some vs \<Rightarrow> apply_tag_transformations title ts k' vs (gset k' vs m1)
         | None \<Rightarrow> apply_tag_transformations title ts k' v m1))"

definition repeat_for :: "nat \<Rightarrow> ('a \<Rightarrow> 'a option) \<Rightarrow> 'a option \<Rightarrow> 'a option" where
  "repeat_for n f = ((\<lambda>m. Option.bind m f) ^^ n)"

text \<open>One application for each pattern that matches the name and each that matches the value.\<close>

definition strings_value_body ::
  "(string \<Rightarrow> string) \<Rightarrow> strings_proc \<Rightarrow> string \<Rightarrow> gval \<Rightarrow> gval gmap option \<Rightarrow> gval gmap option" where
  "strings_value_body title s k v m =
    (let f = apply_value_transformations title (concat (st_transforms s)) k v;
         m1 = repeat_for (length (filter (\<lambda>re. match_string re k) (st_value_keys s))) f m
     in case as_str v of
       None \<Rightarrow> m1
     | Some vs \<Rightarrow> repeat_for (length (filter (\<lambda>re. match_string re vs) (st_values s))) f m1)"

definition strings_tag_body ::
  "(string \<Rightarrow> string) \<Rightarrow> strings_proc \<Rightarrow> string \<Rightarrow> string \<Rightarrow> string gmap option \<Rightarrow> string gmap option" where
  "strings_tag_body title s k v m =
    (let f = apply_tag_transformations title (concat (st_transforms s)) k v;
         m1 = repeat_for (length (filter (\<lambda>re. match_string re k) (st_tag_keys s))) f m
     in repeat_for (length (filter (\<lambda>re. match_string re v) (st_tags s))) f m1)"

definition strings_event ::
  "(string \<Rightarrow> string) \<Rightarrow> gval visit_order \<Rightarrow> string visit_order \<Rightarrow> strings_proc \<Rightarrow> event_msg \<Rightarrow> event_msg option" where
  "strings_event title vord tord s e =
    (let vals = (case em_values e of
           None \<Rightarrow> Some None
         | Some m \<Rightarrow> map_option Some
             (range_visit (\<lambda>st. entries st) (strings_value_body title s) (vord m) (Some m)));
         tags = (case em_tags e of
           None \<Rightarrow> Some None
         | Some m \<Rightarrow> map_option Some
             (range_visit (\<lambda>st. entries st) (strings_tag_body title s) (tord m) (Some m)))
     in case (vals, tags) of
       (Some vs, Some ts) \<Rightarrow> Some (e\<lparr>em_values := vs, em_tags := ts\<rparr>)
     | _ \<Rightarrow> None)"

definition strings_apply ::
  "(string \<Rightarrow> string) \<Rightarrow> gval visit_order \<Rightarrow> string visit_order \<Rightarrow> strings_proc \<Rightarrow> processor" where
  "strings_apply title vord tord s es = omap (lift_event (strings_event title vord tord s)) es"

section \<open>Contracts\<close>

interpretation strings_ip: in_place_processor "strings_event title vord tord s" "strings_apply title vord tord s"
  for title vord tord s
  by (rule in_place_panicI) (auto simp: strings_apply_def strings_event_def Let_def split: option.splits)

section \<open>When nothing panics\<close>

definition safe_transform :: "transform \<Rightarrow> bool" where
  "safe_transform t \<longleftrightarrow> tr_op t = ''split'' \<longrightarrow> 0 \<le> tr_ignore_first t \<and> 0 \<le> tr_ignore_last t"

lemma split_items_safe:
  "0 \<le> tr_ignore_first t \<Longrightarrow> 0 \<le> tr_ignore_last t \<Longrightarrow> split_items t s \<noteq> None"
  by (auto simp: split_items_def go_slice_def Let_def)

lemma transform_apply_safe: "safe_transform t \<Longrightarrow> transform_apply title t k v \<noteq> None"
  using split_items_safe [of t]
  by (auto simp: transform_apply_def safe_transform_def Let_def tr_split_def split: option.splits)

lemma apply_value_safe: "list_all safe_transform ts \<Longrightarrow> apply_value_transformations title ts k v m \<noteq> None"
proof (induction ts arbitrary: k v m)
  case (Cons t ts)
  then obtain k' v' where "transform_apply title t k v = Some (k', v')"
    using transform_apply_safe [of t title k v] by auto
  with Cons show ?case by simp
qed simp

lemma apply_tag_safe: "list_all safe_transform ts \<Longrightarrow> apply_tag_transformations title ts k v m \<noteq> None"
proof (induction ts arbitrary: k v m)
  case (Cons t ts)
  then obtain k' v' where "transform_apply title t k (VStr v) = Some (k', v')"
    using transform_apply_safe [of t title k "VStr v"] by auto
  with Cons show ?case by (auto simp: Let_def split: option.splits)
qed simp

lemma repeat_for_safe: "m \<noteq> None \<Longrightarrow> (\<And>x. f x \<noteq> None) \<Longrightarrow> repeat_for n f m \<noteq> None"
  by (induction n) (auto simp: repeat_for_def bind_eq_None_conv)

lemma strings_event_safe:
  assumes "list_all safe_transform (concat (st_transforms s))"
  shows "strings_event title vord tord s e \<noteq> None"
proof -
  have v: "range_visit (\<lambda>st. entries st) (strings_value_body title s) ks (Some m) \<noteq> None" for ks m
  proof (rule range_visit_invariant [where P = "\<lambda>st. st \<noteq> None"])
    fix k w and st :: "gval gmap option" assume st: "st \<noteq> None"
    show "strings_value_body title s k w st \<noteq> None"
      unfolding strings_value_body_def Let_def
      by (split option.split, intro conjI impI allI repeat_for_safe apply_value_safe [OF assms] st)
  qed simp
  have t: "range_visit (\<lambda>st. entries st) (strings_tag_body title s) ks (Some m) \<noteq> None" for ks m
  proof (rule range_visit_invariant [where P = "\<lambda>st. st \<noteq> None"])
    fix k w and st :: "string gmap option" assume "st \<noteq> None"
    then show "strings_tag_body title s k w st \<noteq> None"
      unfolding strings_tag_body_def Let_def
      by (intro repeat_for_safe apply_tag_safe [OF assms])
  qed simp
  have "(case em_values e of None \<Rightarrow> Some None | Some m \<Rightarrow> map_option Some
      (range_visit (\<lambda>st. entries st) (strings_value_body title s) (vord m) (Some m))) \<noteq> None"
    using v by (cases "em_values e") simp_all
  moreover have "(case em_tags e of None \<Rightarrow> Some None | Some m \<Rightarrow> map_option Some
      (range_visit (\<lambda>st. entries st) (strings_tag_body title s) (tord m) (Some m))) \<noteq> None"
    using t by (cases "em_tags e") simp_all
  ultimately show ?thesis unfolding strings_event_def Let_def by auto
qed

section \<open>Properties\<close>

text \<open>event-strings does not panic when the bounds of its split transforms are not negative: it returns one
  event for each it was given, with names, time stamps and deletes unchanged and nil maps still
  nil, whatever keys its loops visit.\<close>

theorem strings_no_panic:
  assumes "list_all safe_transform (concat (st_transforms s))"
  shows "\<exists>es'. strings_apply title vord tord s es = Some es' \<and> length es' = length es \<and>
    (\<forall>i < length es. case (es ! i, es' ! i) of
        (None, None) \<Rightarrow> True
      | (Some e, Some e') \<Rightarrow> em_name e' = em_name e \<and> em_timestamp e' = em_timestamp e \<and>
          em_deletes e' = em_deletes e \<and> (em_values e' = None \<longleftrightarrow> em_values e = None) \<and>
          (em_tags e' = None \<longleftrightarrow> em_tags e = None)
      | _ \<Rightarrow> False)"
proof -
  have "strings_apply title vord tord s es \<noteq> None"
    using strings_event_safe [OF assms] by (simp only: strings_ip.in_place_panics not_ex) blast
  then obtain es' where es': "strings_apply title vord tord s es = Some es'" by auto
  have frame: "em_name e' = em_name e \<and> em_timestamp e' = em_timestamp e \<and> em_deletes e' = em_deletes e \<and>
      (em_values e' = None \<longleftrightarrow> em_values e = None) \<and> (em_tags e' = None \<longleftrightarrow> em_tags e = None)"
    if "strings_event title vord tord s e = Some e'" for e e'
    using that by (auto simp: strings_event_def Let_def split: option.splits; metis)
  have "case (es ! i, es' ! i) of
        (None, None) \<Rightarrow> True
      | (Some e, Some e') \<Rightarrow> em_name e' = em_name e \<and> em_timestamp e' = em_timestamp e \<and>
          em_deletes e' = em_deletes e \<and> (em_values e' = None \<longleftrightarrow> em_values e = None) \<and>
          (em_tags e' = None \<longleftrightarrow> em_tags e = None)
      | _ \<Rightarrow> False" if "i < length es" for i
    using strings_ip.in_place_nth [OF es' that] frame
    by (cases "es ! i"; cases "es' ! i") (auto simp: lift_event_def simp del: not_None_eq)
  with es' strings_ip.in_place_length [OF es'] show ?thesis by blast
qed

theorem strings_no_panic_witness:
  "\<exists>es'. strings_apply (\<lambda>s. s) (map fst) (map fst)
     \<lparr>st_tags = [], st_values = [], st_tag_keys = [], st_value_keys = [re_of REps],
      st_transforms = [[\<lparr>tr_op = ''split'', tr_apply_on = ''name'', tr_keep = False, tr_old = [], tr_new = [],
        tr_prefix = [], tr_suffix = [], tr_split_on = ''/'', tr_join_with = ''_'', tr_ignore_first = 1,
        tr_ignore_last = 0, tr_replace = None\<rparr>]]\<rparr>
     [Some (zero_event\<lparr>em_values := Some [(''/a/b'', VNil)]\<rparr>)] = Some es' \<and> length es' = 1"
  using strings_no_panic [of "\<lparr>st_tags = [], st_values = [], st_tag_keys = [], st_value_keys = [re_of REps],
      st_transforms = [[\<lparr>tr_op = ''split'', tr_apply_on = ''name'', tr_keep = False, tr_old = [], tr_new = [],
        tr_prefix = [], tr_suffix = [], tr_split_on = ''/'', tr_join_with = ''_'', tr_ignore_first = 1,
        tr_ignore_last = 0, tr_replace = None\<rparr>]]\<rparr>" "\<lambda>s. s" "map fst" "map fst"
      "[Some (zero_event\<lparr>em_values := Some [(''/a/b'', VNil)]\<rparr>)]"]
  by (simp add: safe_transform_def) blast

end
