(* ===== verification/Proc_Tags.thy ===== *)
theory Proc_Tags
  imports Interfaces Go_Fnv
begin

text \<open>
  The processors that add tags: \<open>event_add_tag\<close>, \<open>event_extract_tags\<close>, \<open>event_to_tag\<close>,
  \<open>event_value_tag\<close> and \<open>event_value_tag_v2\<close>. A range loop over the tags map whose body adds tags
  takes the order of its visits (\<open>ord\<close>). \<open>fmtv\<close> is \<open>fmt.Sprint\<close> on floats, slices, maps and
  messages.
\<close>

definition go_sprint :: "(gval \<Rightarrow> string) \<Rightarrow> gval \<Rightarrow> string" where
  "go_sprint fmtv v =
    (case v of
      VNil \<Rightarrow> ''<nil>''
    | VBool b \<Rightarrow> if b then ''true'' else ''false''
    | VStr s \<Rightarrow> s
    | VInt i \<Rightarrow> itoa (sint i) | VInt8 i \<Rightarrow> itoa (sint i) | VInt16 i \<Rightarrow> itoa (sint i)
    | VInt32 i \<Rightarrow> itoa (sint i) | VInt64 i \<Rightarrow> itoa (sint i)
    | VUint i \<Rightarrow> itoa (uint i) | VUint8 i \<Rightarrow> itoa (uint i) | VUint16 i \<Rightarrow> itoa (uint i)
    | VUint32 i \<Rightarrow> itoa (uint i) | VUint64 i \<Rightarrow> itoa (uint i)
    | _ \<Rightarrow> fmtv v)"

section \<open>event-add-tag\<close>

record add_tag_cfg =
  ac_condition :: string
  ac_tags :: "string list"
  ac_values :: "string list"
  ac_tag_names :: "string list"
  ac_value_names :: "string list"
  ac_deletes :: "string list"
  ac_overwrite :: bool
  ac_add :: "string gmap"

record add_tag_proc =
  at_condition :: string
  at_code :: "jq_code option"
  at_tags :: "regexp list"
  at_values :: "regexp list"
  at_tag_names :: "regexp list"
  at_value_names :: "regexp list"
  at_deletes :: "regexp list"
  at_overwrite :: bool
  at_add :: "string gmap"

definition add_tag_init :: "jq_compiler \<Rightarrow> re_compiler \<Rightarrow> add_tag_cfg \<Rightarrow> add_tag_proc res" where
  "add_tag_init jqc compile cfg =
    (let cond = (if ac_condition cfg \<noteq> [] then trim_space (ac_condition cfg) else [])
     in rbind (if ac_condition cfg \<noteq> [] then rbind (jqc cond) (\<lambda>c. Inr (Some c)) else Inr None) (\<lambda>code.
        rbind (compile_regex compile (ac_tags cfg)) (\<lambda>tags.
        rbind (compile_regex compile (ac_tag_names cfg)) (\<lambda>tagNames.
        rbind (compile_regex compile (ac_values cfg)) (\<lambda>vals.
        rbind (compile_regex compile (ac_value_names cfg)) (\<lambda>valueNames.
        rbind (compile_regex compile (ac_deletes cfg)) (\<lambda>dels.
          Inr \<lparr>at_condition = cond, at_code = code, at_tags = tags, at_values = vals,
            at_tag_names = tagNames, at_value_names = valueNames, at_deletes = dels,
            at_overwrite = ac_overwrite cfg, at_add = ac_add cfg\<rparr>)))))))"

fun add_tags_loop :: "bool \<Rightarrow> string gmap \<Rightarrow> string gmap \<Rightarrow> string gmap" where
  "add_tags_loop ow [] tags = tags"
| "add_tags_loop ow ((nk, nv) # adds) tags =
    add_tags_loop ow adds
      (if ow then gset nk nv tags
       else if map_of tags nk = None then gset nk nv tags else tags)"

definition add_tags :: "add_tag_proc \<Rightarrow> event_msg \<Rightarrow> event_msg" where
  "add_tags p e = e\<lparr>em_tags := Some (add_tags_loop (at_overwrite p) (at_add p) (tags_of e))\<rparr>"

text \<open>
  The loop over the value patterns breaks as soon as the value is a string, whether or not the
  pattern matched: only the first of them is ever tried.
\<close>

definition add_tag_value_body :: "add_tag_proc \<Rightarrow> string \<times> gval \<Rightarrow> event_msg \<Rightarrow> event_msg" where
  "add_tag_value_body p kv e =
    (let e1 = (if matches_any (fst kv) (at_value_names p) then add_tags p e else e)
     in case (at_values p, as_str (snd kv)) of
          (re # _, Some vs) \<Rightarrow> if match_string re vs then add_tags p e1 else e1
        | _ \<Rightarrow> e1)"

definition add_tag_tag_body :: "add_tag_proc \<Rightarrow> string \<Rightarrow> string \<Rightarrow> event_msg \<Rightarrow> event_msg" where
  "add_tag_tag_body p k v e =
    (let e1 = (if matches_any k (at_tag_names p) then add_tags p e else e)
     in if matches_any v (at_tags p) then add_tags p e1 else e1)"

definition add_tag_delete_body :: "add_tag_proc \<Rightarrow> string \<Rightarrow> event_msg \<Rightarrow> event_msg" where
  "add_tag_delete_body p k e = (if matches_any k (at_deletes p) then add_tags p e else e)"

definition add_tag_event :: "rejson \<Rightarrow> string visit_order \<Rightarrow> add_tag_proc \<Rightarrow> event_msg \<Rightarrow> event_msg" where
  "add_tag_event rj ord p e =
    (if at_code p \<noteq> None \<and> at_condition p \<noteq> [] then
       (if cond_ok (check_condition rj (at_code p) (Some e)) then add_tags p e else e)
     else
       (let e1 = fold (add_tag_value_body p) (values_of e) e;
            e2 = range_visit tags_of (add_tag_tag_body p) (ord (tags_of e1)) e1
        in fold (add_tag_delete_body p) (deletes_of e) e2))"

definition add_tag_apply :: "rejson \<Rightarrow> string visit_order \<Rightarrow> add_tag_proc \<Rightarrow> processor" where
  "add_tag_apply rj ord p es = Some (map (map_option (add_tag_event rj ord p)) es)"

section \<open>event-extract-tags\<close>

record extract_cfg =
  xc_tags :: "string list"
  xc_values :: "string list"
  xc_tag_names :: "string list"
  xc_value_names :: "string list"
  xc_overwrite :: bool

record extract_proc =
  xp_tags :: "regexp list"
  xp_values :: "regexp list"
  xp_tag_names :: "regexp list"
  xp_value_names :: "regexp list"
  xp_overwrite :: bool

definition extract_init :: "re_compiler \<Rightarrow> extract_cfg \<Rightarrow> extract_proc res" where
  "extract_init compile cfg =
    rbind (rmap compile (xc_tags cfg)) (\<lambda>tags.
    rbind (rmap compile (xc_tag_names cfg)) (\<lambda>tagNames.
    rbind (rmap compile (xc_values cfg)) (\<lambda>vals.
    rbind (rmap compile (xc_value_names cfg)) (\<lambda>valueNames.
      Inr \<lparr>xp_tags = tags, xp_values = vals, xp_tag_names = tagNames,
        xp_value_names = valueNames, xp_overwrite = xc_overwrite cfg\<rparr>))))"

text \<open>
  One named group and its text. Without \<open>overwrite\<close> the source looks up the text, not the name,
  among the tags.
\<close>

definition extract_one :: "bool \<Rightarrow> string \<times> string \<Rightarrow> string gmap \<Rightarrow> string gmap" where
  "extract_one ow nm tags =
    (if fst nm = [] then tags
     else if ow then gset (fst nm) (snd nm) tags
     else if map_of tags (snd nm) = None then gset (fst nm) (snd nm) tags else tags)"

definition extract_add_tags :: "bool \<Rightarrow> regexp \<Rightarrow> string \<Rightarrow> event_msg \<Rightarrow> event_msg" where
  "extract_add_tags ow re s e =
    (let matches = (case find_submatch re s of None \<Rightarrow> [] | Some ms \<Rightarrow> ms)
     in e\<lparr>em_tags := Some
          (if length matches \<noteq> length (rx_names re) then tags_of e
           else fold (extract_one ow) (tl (zip (rx_names re) matches)) (tags_of e))\<rparr>)"

definition extract_all :: "bool \<Rightarrow> regexp list \<Rightarrow> string \<Rightarrow> event_msg \<Rightarrow> event_msg" where
  "extract_all ow res s e = fold (\<lambda>re. extract_add_tags ow re s) res e"

definition extract_event :: "string visit_order \<Rightarrow> extract_proc \<Rightarrow> event_msg \<Rightarrow> event_msg" where
  "extract_event ord p e =
    (let ow = xp_overwrite p;
         e1 = fold (\<lambda>(k, v) e'.
           let e'' = extract_all ow (xp_value_names p) k e'
           in case as_str v of None \<Rightarrow> e'' | Some vs \<Rightarrow> extract_all ow (xp_values p) vs e'') (values_of e) e
     in range_visit tags_of
          (\<lambda>k v e'. extract_all ow (xp_tags p) v (extract_all ow (xp_tag_names p) k e'))
          (ord (tags_of e1)) e1)"

definition extract_apply :: "string visit_order \<Rightarrow> extract_proc \<Rightarrow> processor" where
  "extract_apply ord p es = Some (map (map_option (extract_event ord p)) es)"

section \<open>event-to-tag\<close>

record to_tag_cfg =
  tc_values :: "string list"
  tc_value_names :: "string list"
  tc_keep :: bool

record to_tag_proc =
  tp_values :: "regexp list"
  tp_value_names :: "regexp list"
  tp_keep :: bool

definition to_tag_init :: "re_compiler \<Rightarrow> to_tag_cfg \<Rightarrow> to_tag_proc res" where
  "to_tag_init compile cfg =
    rbind (rmap compile (tc_value_names cfg)) (\<lambda>valueNames.
    rbind (rmap compile (tc_values cfg)) (\<lambda>vals.
      Inr \<lparr>tp_values = vals, tp_value_names = valueNames, tp_keep = tc_keep cfg\<rparr>))"

text \<open>The entries are visited once each; an entry that matches becomes a tag and is deleted.\<close>

fun to_tag_loop ::
  "(gval \<Rightarrow> string) \<Rightarrow> to_tag_proc \<Rightarrow> gval gmap \<Rightarrow> string gmap \<times> gval gmap \<Rightarrow> string gmap \<times> gval gmap" where
  "to_tag_loop fmtv p [] st = st"
| "to_tag_loop fmtv p ((k, v) # es) (tags, vals) =
    (let st1 = (if matches_any k (tp_value_names p)
           then (gset k (go_sprint fmtv v) tags, if tp_keep p then vals else gdel k vals)
           else (tags, vals));
         st2 = (case as_str v of
             Some vs \<Rightarrow>
               if matches_any vs (tp_values p)
               then (gset k vs (fst st1), if tp_keep p then snd st1 else gdel k (snd st1))
               else st1
           | None \<Rightarrow> st1)
     in to_tag_loop fmtv p es st2)"

definition to_tag_event :: "(gval \<Rightarrow> string) \<Rightarrow> to_tag_proc \<Rightarrow> event_msg \<Rightarrow> event_msg" where
  "to_tag_event fmtv p e =
    (let (tags, vals) = to_tag_loop fmtv p (values_of e) (tags_of e, values_of e)
     in e\<lparr>em_tags := Some tags, em_values := map_option (\<lambda>_. vals) (em_values e)\<rparr>)"

definition to_tag_apply :: "(gval \<Rightarrow> string) \<Rightarrow> to_tag_proc \<Rightarrow> processor" where
  "to_tag_apply fmtv p es = Some (map (map_option (to_tag_event fmtv p)) es)"

section \<open>event-value-tag\<close>

record value_tag_proc =
  vt_tag_name :: string
  vt_value_name :: string
  vt_consume :: bool

definition value_tag_init :: "value_tag_proc \<Rightarrow> value_tag_proc" where
  "value_tag_init vt = (if vt_tag_name vt = [] then vt\<lparr>vt_tag_name := vt_value_name vt\<rparr> else vt)"

definition compare_tags :: "string gmap \<Rightarrow> string gmap \<Rightarrow> bool" where
  "compare_tags a b \<longleftrightarrow>
    \<not> length a > length b \<and> list_all (\<lambda>(k, v). map_of b k = Some v) a"

text \<open>The events with the value consumed, and the rules in the order of the events.\<close>

fun build_apply_rules ::
  "value_tag_proc \<Rightarrow> event_msg option list \<Rightarrow> (event_msg list \<times> (string gmap \<times> gval) list) option" where
  "build_apply_rules vt [] = Some ([], [])"
| "build_apply_rules vt (None # evs) = None"
| "build_apply_rules vt (Some ev # evs) =
    (case build_apply_rules vt evs of
      None \<Rightarrow> None
    | Some (evs', rules) \<Rightarrow>
        (case map_of (values_of ev) (vt_value_name vt) of
          None \<Rightarrow> Some (ev # evs', rules)
        | Some v \<Rightarrow>
            Some ((if vt_consume vt then ev\<lparr>em_values := ndel (vt_value_name vt) (em_values ev)\<rparr> else ev) # evs',
              (tags_of ev, v) # rules)))"

definition value_tag_set :: "(gval \<Rightarrow> string) \<Rightarrow> string \<Rightarrow> string gmap \<times> gval \<Rightarrow> event_msg \<Rightarrow> event_msg option" where
  "value_tag_set fmtv tag rule ev =
    (if compare_tags (fst rule) (tags_of ev)
     then map_option (\<lambda>t. ev\<lparr>em_tags := t\<rparr>) (nset tag (go_sprint fmtv (snd rule)) (em_tags ev))
     else Some ev)"

definition value_tag_apply :: "(gval \<Rightarrow> string) \<Rightarrow> value_tag_proc \<Rightarrow> processor" where
  "value_tag_apply fmtv vt evs =
    (case build_apply_rules vt evs of
      None \<Rightarrow> None
    | Some (evs', rules) \<Rightarrow>
        map_option (map Some) (ofold (\<lambda>rule. omap (value_tag_set fmtv (vt_tag_name vt) rule)) rules evs'))"

section \<open>event-value-tag-v2\<close>

record vt2_rule =
  r_tag_name :: string
  r_value_name :: string
  r_consume :: bool

type_synonym apply_rules = "(64 word \<times> (string gmap \<times> gval)) list"

record vt2_proc =
  v2_rules :: "vt2_rule list"
  v2_apply_rules :: "apply_rules list"

definition vt2_init :: "vt2_rule list \<Rightarrow> vt2_proc" where
  "vt2_init rules =
    \<lparr>v2_rules = map (\<lambda>r. if r_tag_name r = [] then r\<lparr>r_tag_name := r_value_name r\<rparr> else r) rules,
     v2_apply_rules = map (\<lambda>_. []) rules\<rparr>"

definition included_in :: "string gmap \<Rightarrow> string gmap \<Rightarrow> bool" where
  "included_in a b \<longleftrightarrow>
    \<not> length a > length b \<and> list_all (\<lambda>(k, v). map_of b k = Some v) a"

definition apply_rule_key :: "string gmap \<Rightarrow> vt2_rule \<Rightarrow> 64 word" where
  "apply_rule_key m r =
    fnv1a (r_value_name r @ ''|'' @
      concat (map (\<lambda>k. k @ ''='' @ (case map_of m k of Some v \<Rightarrow> v | None \<Rightarrow> []) @ '';'')
        (sort (map fst m))))"

text \<open>
  One event against one rule and its table of apply rules; \<open>vo\<close> is the order in which the range
  visits the table.
\<close>

definition vt2_step ::
  "(gval \<Rightarrow> string) \<Rightarrow> (apply_rules \<Rightarrow> apply_rules) \<Rightarrow> vt2_rule \<Rightarrow> event_msg \<Rightarrow> apply_rules \<Rightarrow>
   (event_msg \<times> apply_rules) option" where
  "vt2_step fmtv vo r ev ars =
    (let (ev1, ars1) =
       (case map_of (values_of ev) (r_value_name r) of
          None \<Rightarrow> (ev, ars)
        | Some v \<Rightarrow>
            (if r_consume r then ev\<lparr>em_values := ndel (r_value_name r) (em_values ev)\<rparr> else ev,
             AList.update (apply_rule_key (tags_of ev) r) (tags_of ev, v) ars))
     in map_option (\<lambda>ev2. (ev2, ars1))
       (ofold (\<lambda>ar ev'.
          if included_in (fst (snd ar)) (tags_of ev')
          then map_option (\<lambda>t. ev'\<lparr>em_tags := t\<rparr>)
            (nset (r_tag_name r) (go_sprint fmtv (snd (snd ar))) (em_tags ev'))
          else Some ev') (vo ars1) ev1))"

fun vt2_event ::
  "(gval \<Rightarrow> string) \<Rightarrow> (apply_rules \<Rightarrow> apply_rules) \<Rightarrow> vt2_rule list \<Rightarrow> apply_rules list \<Rightarrow> event_msg \<Rightarrow> (event_msg \<times> apply_rules list) option" where
  "vt2_event fmtv vo (r # rs) (ars # arss) ev =
    (case vt2_step fmtv vo r ev ars of
      None \<Rightarrow> None
    | Some (ev', ars') \<Rightarrow>
        (case vt2_event fmtv vo rs arss ev' of
          None \<Rightarrow> None
        | Some (ev'', arss') \<Rightarrow> Some (ev'', ars' # arss')))"
| "vt2_event fmtv vo _ arss ev = Some (ev, arss)"

text \<open>With no rules the loop body never touches the event, so a nil pointer is harmless.\<close>

fun vt2_apply ::
  "(gval \<Rightarrow> string) \<Rightarrow> (apply_rules \<Rightarrow> apply_rules) \<Rightarrow> event_msg option list \<Rightarrow> vt2_proc \<Rightarrow> (event_msg option list \<times> vt2_proc) option" where
  "vt2_apply fmtv vo [] vt = Some ([], vt)"
| "vt2_apply fmtv vo (eo # evs) vt =
    (case eo of
      None \<Rightarrow>
        if v2_rules vt = [] then map_option (\<lambda>(evs', vt'). (None # evs', vt')) (vt2_apply fmtv vo evs vt)
        else None
    | Some ev \<Rightarrow>
        (case vt2_event fmtv vo (v2_rules vt) (v2_apply_rules vt) ev of
          None \<Rightarrow> None
        | Some (ev', arss) \<Rightarrow>
            map_option (\<lambda>(evs', vt'). (Some ev' # evs', vt'))
              (vt2_apply fmtv vo evs (vt\<lparr>v2_apply_rules := arss\<rparr>))))"

section \<open>Contracts\<close>

lemma add_tag_tag_body_name: "em_name (add_tag_tag_body p k v e) = em_name e"
  by (simp add: add_tag_tag_body_def add_tags_def Let_def)

lemma add_tag_event_name: "em_name (add_tag_event rj ord p e) = em_name e"
proof -
  have 1: "em_name (fold (add_tag_value_body p) kvs e) = em_name e" for kvs
    by (rule fold_invariant) (auto simp: add_tag_value_body_def add_tags_def Let_def split: list.splits option.splits)
  have 2: "em_name (range_visit tags_of (add_tag_tag_body p) ks e') = em_name e'" for ks e'
    by (rule range_visit_invariant) (auto simp: add_tag_tag_body_name)
  have 3: "em_name (fold (add_tag_delete_body p) ds e') = em_name e'" for ds e'
    by (rule fold_invariant) (auto simp: add_tag_delete_body_def add_tags_def)
  show ?thesis by (simp add: add_tag_event_def Let_def 1 2 3) (simp add: add_tags_def)
qed

interpretation add_tag_ip: in_place_processor "\<lambda>e. Some (add_tag_event rj ord p e)" "add_tag_apply rj ord p"
  for rj ord p
  by (rule in_place_processorI, rule add_tag_apply_def) (auto simp: add_tag_event_name)

lemma extract_all_frame:
  "em_name (extract_all ow res s e) = em_name e" "em_values (extract_all ow res s e) = em_values e"
  "em_deletes (extract_all ow res s e) = em_deletes e" "em_timestamp (extract_all ow res s e) = em_timestamp e"
  unfolding extract_all_def
  by (induction res arbitrary: e) (simp_all add: extract_add_tags_def Let_def)

lemma extract_event_frame:
  "em_name (extract_event ord p e) = em_name e \<and> em_values (extract_event ord p e) = em_values e \<and>
   em_deletes (extract_event ord p e) = em_deletes e \<and> em_timestamp (extract_event ord p e) = em_timestamp e"
  (is "?P (extract_event ord p e)")
  unfolding extract_event_def Let_def
  by (rule range_visit_invariant, rule fold_invariant)
    (auto simp: extract_all_frame split: prod.splits option.splits)

interpretation extract_ip: in_place_processor "\<lambda>e. Some (extract_event ord p e)" "extract_apply ord p" for ord p
  by (rule in_place_processorI, rule extract_apply_def) (auto simp: extract_event_frame)

interpretation to_tag_ip: in_place_processor "\<lambda>e. Some (to_tag_event fmtv p e)" "to_tag_apply fmtv p" for fmtv p
  by (rule in_place_processorI, rule to_tag_apply_def) (auto simp: to_tag_event_def split: prod.splits)

section \<open>Adding tags is idempotent\<close>

lemma add_tags_loop_map_of:
  assumes "wf_gmap adds"
  shows "map_of (add_tags_loop ow adds tags) =
    (if ow then map_of tags ++ map_of adds else map_of adds ++ map_of tags)"
  using assms
proof (induction ow adds tags rule: add_tags_loop.induct)
  case (2 ow nk nv adds tags)
  then have "wf_gmap adds" and n: "map_of adds nk = None"
    by (auto simp: wf_gmap_def map_of_eq_None_iff)
  with 2 show ?case
    by (auto simp: fun_eq_iff map_add_def split: option.splits)
qed simp

lemma add_tags_loop_noop:
  "(\<And>k v. (k, v) \<in> set adds \<Longrightarrow> if ow then map_of tags k = Some v else map_of tags k \<noteq> None) \<Longrightarrow>
   add_tags_loop ow adds tags = tags"
proof (induction ow adds tags rule: add_tags_loop.induct)
  case (2 ow nk nv adds tags)
  have "(if ow then gset nk nv tags else if map_of tags nk = None then gset nk nv tags else tags) = tags"
    using "2.prems" [of nk nv] by auto
  moreover have "add_tags_loop ow adds tags = tags"
    using "2.IH" unfolding calculation using "2.prems" by (metis list.set_intros(2))
  ultimately show ?case by simp
qed simp

lemma add_tags_loop_idem:
  assumes "wf_gmap adds"
  shows "add_tags_loop ow adds (add_tags_loop ow adds tags) = add_tags_loop ow adds tags"
  by (rule add_tags_loop_noop)
    (use assms in \<open>auto simp: add_tags_loop_map_of map_of_Some_wf map_add_def split: option.splits\<close>)

lemma add_tags_idem: "wf_gmap (at_add p) \<Longrightarrow> add_tags p (add_tags p e) = add_tags p e"
  by (simp add: add_tags_def add_tags_loop_idem)

text \<open>What triggers the addition, read off the event as it arrives.\<close>

definition add_tag_value_hit :: "add_tag_proc \<Rightarrow> string \<times> gval \<Rightarrow> bool" where
  "add_tag_value_hit p kv \<longleftrightarrow>
    matches_any (fst kv) (at_value_names p) \<or> matches_string (snd kv) (take 1 (at_values p))"

definition add_tag_triggered :: "rejson \<Rightarrow> add_tag_proc \<Rightarrow> event_msg \<Rightarrow> bool" where
  "add_tag_triggered rj p e \<longleftrightarrow>
    (if at_code p \<noteq> None \<and> at_condition p \<noteq> [] then cond_ok (check_condition rj (at_code p) (Some e))
     else list_ex (add_tag_value_hit p) (values_of e) \<or>
       list_ex (\<lambda>(k, v). matches_any k (at_tag_names p) \<or> matches_any v (at_tags p)) (tags_of e) \<or>
       list_ex (\<lambda>k. matches_any k (at_deletes p)) (deletes_of e))"

text \<open>
  What the documentation of the processor says: any of the patterns for values triggers it. The code
  agrees when there is at most one.
\<close>

definition add_tag_documented :: "rejson \<Rightarrow> add_tag_proc \<Rightarrow> event_msg \<Rightarrow> bool" where
  "add_tag_documented rj p e \<longleftrightarrow>
    (if at_code p \<noteq> None \<and> at_condition p \<noteq> [] then cond_ok (check_condition rj (at_code p) (Some e))
     else list_ex (\<lambda>(k, v). matches_any k (at_value_names p) \<or> matches_string v (at_values p)) (values_of e) \<or>
       list_ex (\<lambda>(k, v). matches_any k (at_tag_names p) \<or> matches_any v (at_tags p)) (tags_of e) \<or>
       list_ex (\<lambda>k. matches_any k (at_deletes p)) (deletes_of e))"

lemma add_tag_documented_single:
  assumes "length (at_values p) \<le> 1"
  shows "add_tag_triggered rj p e = add_tag_documented rj p e"
proof -
  have "take 1 (at_values p) = at_values p" using assms by simp
  then have "add_tag_value_hit p = (\<lambda>(k, v). matches_any k (at_value_names p) \<or> matches_string v (at_values p))"
    by (auto simp: add_tag_value_hit_def fun_eq_iff)
  then show ?thesis by (simp add: add_tag_triggered_def add_tag_documented_def)
qed

lemma add_tag_value_body_eq:
  "wf_gmap (at_add p) \<Longrightarrow> add_tag_value_body p kv e = (if add_tag_value_hit p kv then add_tags p e else e)"
  by (cases "at_values p"; cases "as_str (snd kv)")
    (auto simp: add_tag_value_body_def add_tag_value_hit_def Let_def add_tags_idem matches_string_def matches_any_def)

lemma add_tag_tag_body_eq:
  "wf_gmap (at_add p) \<Longrightarrow> add_tag_tag_body p k v e =
    (if matches_any k (at_tag_names p) \<or> matches_any v (at_tags p) then add_tags p e else e)"
  by (simp add: add_tag_tag_body_def Let_def add_tags_idem)

lemma fold_hits:
  assumes "\<And>x e. f x e = (if hit x then g e else e)" and "\<And>e. g (g e) = g e"
  shows "fold f xs e = (if list_ex hit xs then g e else e)"
proof -
  have "fold f xs (g e) = g e" for e xs
    by (induction xs arbitrary: e) (simp_all add: assms)
  note fixed = this
  show ?thesis
  proof (induction xs)
    case (Cons x xs)
    show ?case by (cases "hit x") (simp_all add: assms(1) [of x e] fixed Cons.IH)
  qed simp
qed

lemma range_visit_hits:
  assumes body: "\<And>k v s. body k v s = (if hit k v then g s else s)" and idem: "\<And>s. g (g s) = g s"
    and wf: "wf_gmap (get s)" and cov: "set (map fst (get s)) \<subseteq> set ks"
  shows "range_visit get body ks s = (if list_ex (\<lambda>(k, v). hit k v) (get s) then g s else s)"
proof -
  have fixed: "range_visit get body ks (g s) = g s" for ks
  proof (induction ks)
    case (Cons k ks)
    have "(case map_of (get (g s)) k of None \<Rightarrow> g s | Some v \<Rightarrow> body k v (g s)) = g s"
      by (simp add: body idem split: option.splits)
    then show ?case using Cons.IH by simp
  qed simp
  have gen: "range_visit get body ks s =
      (if \<exists>k \<in> set ks. \<exists>v. map_of (get s) k = Some v \<and> hit k v then g s else s)" for ks
  proof (induction ks)
    case (Cons k ks)
    have "range_visit get body (k # ks) s =
        (case map_of (get s) k of None \<Rightarrow> range_visit get body ks s
         | Some v \<Rightarrow> if hit k v then g s else range_visit get body ks s)"
      by (simp add: body fixed split: option.splits)
    then show ?case unfolding Cons.IH by (cases "map_of (get s) k") auto
  qed simp
  have "(\<exists>k \<in> set ks. \<exists>v. map_of (get s) k = Some v \<and> hit k v) \<longleftrightarrow> list_ex (\<lambda>(k, v). hit k v) (get s)"
    using cov wf by (force simp: list_ex_iff map_of_Some_wf)
  with gen show ?thesis by simp
qed

lemma add_tag_event_eq:
  assumes "covers ord" and "wf_gmap (at_add p)" and "wf_event e"
  shows "add_tag_event rj ord p e = (if add_tag_triggered rj p e then add_tags p e else e)"
proof (cases "at_code p \<noteq> None \<and> at_condition p \<noteq> []")
  case False
  note idem = add_tags_idem [OF assms(2)]
  define e1 where "e1 = fold (add_tag_value_body p) (values_of e) e"
  have e1: "e1 = (if list_ex (add_tag_value_hit p) (values_of e) then add_tags p e else e)"
    unfolding e1_def by (rule fold_hits [OF add_tag_value_body_eq [OF assms(2)] idem])
  have wf: "wf_gmap (tags_of e1)"
  proof -
    have "wf_gmap (tags_of e)" using assms(3) by (simp add: wf_event_def wf_nmap_def)
    moreover have "wf_gmap (add_tags_loop ow adds tags)" if "wf_gmap tags" for ow adds tags
      using that by (induction ow adds tags rule: add_tags_loop.induct) auto
    ultimately show ?thesis by (auto simp: e1 add_tags_def)
  qed
  have e2: "range_visit tags_of (add_tag_tag_body p) (ord (tags_of e1)) e1 =
      (if list_ex (\<lambda>(k, v). matches_any k (at_tag_names p) \<or> matches_any v (at_tags p)) (tags_of e1)
       then add_tags p e1 else e1)"
    by (rule range_visit_hits
        [where hit = "\<lambda>k v. matches_any k (at_tag_names p) \<or> matches_any v (at_tags p)"])
      (use assms(1) wf in \<open>auto simp: covers_def add_tag_tag_body_eq [OF assms(2)] idem\<close>)
  have e3: "fold (add_tag_delete_body p) ds e' =
      (if list_ex (\<lambda>k. matches_any k (at_deletes p)) ds then add_tags p e' else e')" for ds e'
    by (rule fold_hits [OF _ idem]) (simp add: add_tag_delete_body_def)
  show ?thesis
    using False unfolding add_tag_event_def add_tag_triggered_def Let_def e1_def [symmetric] e2 e3
    by (auto simp: e1 idem)
qed (simp add: add_tag_event_def add_tag_triggered_def)

section \<open>Turning values into tags\<close>

definition to_tag_hit :: "to_tag_proc \<Rightarrow> string \<Rightarrow> gval \<Rightarrow> bool" where
  "to_tag_hit p k v \<longleftrightarrow> matches_any k (tp_value_names p) \<or> matches_string v (tp_values p)"

lemma to_tag_loop_eq:
  "to_tag_loop fmtv p es (tags, vals) =
    (gset_all (map (\<lambda>(k, v). (k, go_sprint fmtv v)) (filter (\<lambda>(k, v). to_tag_hit p k v) es)) tags,
     if tp_keep p then vals else range_delete (to_tag_hit p) es vals)"
proof (induction es arbitrary: tags vals)
  case (Cons x es)
  obtain k v where x: "x = (k, v)" by (cases x)
  have idem: "gset k w (gset k w tags) = gset k w tags" for w :: string
    by (rule gset_same) simp
  have hit: "to_tag_hit p = (\<lambda>k v. matches_any k (tp_value_names p) \<or>
      (case as_str v of None \<Rightarrow> False | Some s \<Rightarrow> matches_any s (tp_values p)))"
    by (simp add: fun_eq_iff to_tag_hit_def matches_string_def)
  show ?case
    by (cases "as_str v"; cases "matches_any k (tp_value_names p)")
      (simp_all add: x Let_def Cons.IH hit go_sprint_def idem delete_idem)
qed simp

lemma compare_tags_map_le:
  assumes "wf_gmap a" and "wf_gmap b"
  shows "compare_tags a b \<longleftrightarrow> map_of a \<subseteq>\<^sub>m map_of b"
proof
  assume "compare_tags a b"
  then show "map_of a \<subseteq>\<^sub>m map_of b"
    by (fastforce simp: compare_tags_def map_le_def list_all_iff dom_def dest: map_of_SomeD)
next
  assume le: "map_of a \<subseteq>\<^sub>m map_of b"
  then have "set (map fst a) \<subseteq> set (map fst b)"
    using map_le_implies_dom_le [OF le] by (simp add: dom_map_of_conv_image_fst)
  then have "length a \<le> length b"
    using assms by (metis List.finite_set card_mono distinct_card length_map wf_gmap_def)
  moreover have "list_all (\<lambda>(k, v). map_of b k = Some v) a"
    using le assms(1) by (auto simp: list_all_iff map_of_Some_wf map_le_def dom_def)
  ultimately show "compare_tags a b" by (simp add: compare_tags_def)
qed

section \<open>Properties\<close>

text \<open>C32. event-add-tag does not depend on the order in which Go visits the maps it changes while ranging over
  them: an event gets the configured tags, once, exactly when its condition holds or, without a
  condition, when a pattern matches the event as it arrived; otherwise it is unchanged. Of the patterns
  for values only the first is tried, against the documentation, by which any of them adds the tags:
  the two agree for every event when at most one is configured.\<close>

theorem add_tag_order_independent:
  assumes "covers ord" and "wf_gmap (at_add p)" and "\<forall>e. Some e \<in> set es \<longrightarrow> wf_event e"
  shows "add_tag_apply rj ord p es =
    Some (map (map_option (\<lambda>e. if add_tag_triggered rj p e then add_tags p e else e)) es) \<and>
    (length (at_values p) \<le> 1 \<longrightarrow> (\<forall>e. add_tag_triggered rj p e = add_tag_documented rj p e))"
proof (intro conjI impI allI)
  have "map_option (add_tag_event rj ord p) eo =
      map_option (\<lambda>e. if add_tag_triggered rj p e then add_tags p e else e) eo" if "eo \<in> set es" for eo
    using assms(3) that by (cases eo) (simp_all add: add_tag_event_eq [OF assms(1,2)])
  then show "add_tag_apply rj ord p es =
      Some (map (map_option (\<lambda>e. if add_tag_triggered rj p e then add_tags p e else e)) es)"
    by (simp add: add_tag_apply_def)
qed (rule add_tag_documented_single)

definition sample_add_tag :: add_tag_proc where
  "sample_add_tag = \<lparr>at_condition = [], at_code = None, at_tags = [], at_values = [], at_tag_names = [re_of REps],
    at_value_names = [], at_deletes = [], at_overwrite = False, at_add = [(''new'', ''1'')]\<rparr>"

theorem add_tag_order_independent_witness:
  "add_tag_apply (\<lambda>_. Inr VNil) (map fst) sample_add_tag [Some (zero_event\<lparr>em_tags := Some [(''a'', ''b'')]\<rparr>), None] =
   Some [Some (zero_event\<lparr>em_tags := Some [(''a'', ''b''), (''new'', ''1'')]\<rparr>), None]"
  by (subst add_tag_order_independent [THEN conjunct1])
    (auto simp: covers_map_fst sample_add_tag_def wf_gmap_def wf_event_def wf_nmap_def zero_event_def
      add_tag_triggered_def matches_any_def match_string_def find_loc_def match_at_def re_of_def add_tags_def)

text \<open>A second pattern for values matches every string, the first none: the tags are not added.\<close>

definition two_value_patterns :: add_tag_proc where
  "two_value_patterns = sample_add_tag\<lparr>at_tag_names := [], at_values := [re_of (RClass False []), re_of REps]\<rparr>"

definition string_event :: event_msg where
  "string_event = zero_event\<lparr>em_values := Some [(''v'', VStr ''x'')]\<rparr>"

lemma second_value_pattern_ignored:
  "add_tag_documented (\<lambda>_. Inr VNil) two_value_patterns string_event"
  "add_tag_apply (\<lambda>_. Inr VNil) (map fst) two_value_patterns [Some string_event] = Some [Some string_event]"
  by code_simp+

text \<open>event-extract-tags without overwrite does overwrite: it looks up the extracted text instead of the
  group name among the tags, so a tag of that name is replaced unless its new value happens to be
  the name of a tag.\<close>

theorem extract_overwrites:
  assumes "nm \<noteq> []" and "map_of tags nm = Some old" and "map_of tags txt = None" and "old \<noteq> txt"
  shows "map_of (extract_one False (nm, txt) tags) nm = Some txt \<and> extract_one False (nm, txt) tags \<noteq> tags"
  using assms by (auto simp: extract_one_def dest: arg_cong [of _ _ "\<lambda>m. map_of m nm"])

theorem extract_overwrites_witness:
  "map_of (extract_one False (''if'', ''eth0'') [(''if'', ''lo'')]) ''if'' = Some ''eth0''"
  using extract_overwrites [of "''if''" "[(''if'', ''lo'')]" "''lo''" "''eth0''"] by simp

text \<open>event-to-tag turns exactly the values whose name or content matches into tags that hold their
  printed form, on top of the tags the event had, and removes exactly those values unless told to
  keep them.\<close>

theorem to_tag_exact:
  assumes "wf_event e"
  shows "map_of (tags_of (to_tag_event fmtv p e)) k =
      (case map_of (values_of e) k of
        Some v \<Rightarrow> if to_tag_hit p k v then Some (go_sprint fmtv v) else map_of (tags_of e) k
      | None \<Rightarrow> map_of (tags_of e) k) \<and>
    values_of (to_tag_event fmtv p e) =
      (if tp_keep p then values_of e else filter (\<lambda>(k, v). \<not> to_tag_hit p k v) (values_of e))"
proof -
  have wf: "wf_gmap (values_of e)" using assms by (simp add: wf_event_def wf_nmap_def)
  let ?hits = "filter (\<lambda>(k, v). to_tag_hit p k v) (values_of e)"
  let ?src = "map (\<lambda>(k, v). (k, go_sprint fmtv v)) ?hits"
  have wfs: "wf_gmap ?src"
    using wf_gmap_filter [OF wf, of "\<lambda>(k, v). to_tag_hit p k v"] by (simp add: wf_gmap_def comp_def case_prod_beta)
  have "map_of ?src k = (case map_of (values_of e) k of None \<Rightarrow> None
      | Some v \<Rightarrow> if to_tag_hit p k v then Some (go_sprint fmtv v) else None)"
    using map_of_filter_keys [OF wf, of "to_tag_hit p" k] by (simp add: map_of_map split: option.splits if_splits)
  moreover have "tags_of (to_tag_event fmtv p e) = gset_all ?src (tags_of e)"
    by (simp add: to_tag_event_def to_tag_loop_eq)
  moreover have "values_of (to_tag_event fmtv p e) =
      (if tp_keep p then values_of e else filter (\<lambda>(k, v). \<not> to_tag_hit p k v) (values_of e))"
    using wf by (cases "em_values e") (simp_all add: to_tag_event_def to_tag_loop_eq range_delete_filter)
  ultimately show ?thesis
    by (auto simp: map_of_gset_all [OF wfs] map_add_def split: option.splits)
qed

theorem to_tag_exact_witness:
  "tags_of (to_tag_event (\<lambda>_. []) \<lparr>tp_values = [], tp_value_names = [re_of REps], tp_keep = False\<rparr>
     (zero_event\<lparr>em_values := Some [(''a'', VInt 3)]\<rparr>)) \<noteq> [] \<and>
   values_of (to_tag_event (\<lambda>_. []) \<lparr>tp_values = [], tp_value_names = [re_of REps], tp_keep = False\<rparr>
     (zero_event\<lparr>em_values := Some [(''a'', VInt 3)]\<rparr>)) = []"
  using to_tag_exact [of "zero_event\<lparr>em_values := Some [(''a'', VInt 3)]\<rparr>" "\<lambda>_. []"
      "\<lparr>tp_values = [], tp_value_names = [re_of REps], tp_keep = False\<rparr>" "''a''"]
  by (auto simp: wf_event_def wf_nmap_def wf_gmap_def zero_event_def to_tag_hit_def matches_any_def match_string_def
      find_loc_def match_at_def re_of_def split: if_splits)

lemma build_apply_rules_total:
  "\<exists>evs' rules. build_apply_rules vt (map Some evs) = Some (evs', rules) \<and>
    list_all2 (\<lambda>e e'. em_tags e' = em_tags e \<and> em_name e' = em_name e \<and> em_timestamp e' = em_timestamp e \<and>
      em_deletes e' = em_deletes e \<and> (\<forall>k. k \<noteq> vt_value_name vt \<longrightarrow> nget (em_values e') k = nget (em_values e) k)) evs evs'"
proof (induction evs)
  case (Cons ev evs)
  then show ?case by (cases "map_of (values_of ev) (vt_value_name vt)") (auto simp: nget_ndel)
qed simp

lemma value_tag_set_total:
  assumes "em_tags ev \<noteq> None"
  shows "\<exists>ev'. value_tag_set fmtv tag rule ev = Some ev' \<and> em_tags ev' \<noteq> None \<and> em_name ev' = em_name ev \<and>
    em_timestamp ev' = em_timestamp ev \<and> em_deletes ev' = em_deletes ev \<and> em_values ev' = em_values ev \<and>
    (\<forall>k. k \<noteq> tag \<longrightarrow> nget (em_tags ev') k = nget (em_tags ev) k)"
  using assms by (cases "em_tags ev") (simp_all add: value_tag_set_def)

definition value_tag_frame :: "string \<Rightarrow> event_msg \<Rightarrow> event_msg \<Rightarrow> bool" where
  "value_tag_frame tag e e' \<longleftrightarrow> em_tags e' \<noteq> None \<and> em_name e' = em_name e \<and> em_timestamp e' = em_timestamp e \<and>
    em_deletes e' = em_deletes e \<and> em_values e' = em_values e \<and>
    (\<forall>k. k \<noteq> tag \<longrightarrow> nget (em_tags e') k = nget (em_tags e) k)"

lemma value_tag_rules_total:
  assumes "\<forall>e \<in> set evs. em_tags e \<noteq> None"
  shows "\<exists>evs'. ofold (\<lambda>rule. omap (value_tag_set fmtv tag rule)) rules evs = Some evs' \<and>
    list_all2 (value_tag_frame tag) evs evs'"
  using assms
proof (induction rules arbitrary: evs)
  case Nil
  then show ?case by (auto simp: list_all2_conv_all_nth value_tag_frame_def)
next
  case (Cons r rules)
  have "\<exists>evs1. omap (value_tag_set fmtv tag r) evs = Some evs1 \<and> list_all2 (value_tag_frame tag) evs evs1"
    using Cons.prems
  proof (induction evs)
    case (Cons e evs)
    then show ?case using value_tag_set_total [of e fmtv tag r] by (auto simp: value_tag_frame_def)
  qed simp
  then obtain evs1 where 1: "omap (value_tag_set fmtv tag r) evs = Some evs1" "list_all2 (value_tag_frame tag) evs evs1"
    by blast
  then have "\<forall>e \<in> set evs1. em_tags e \<noteq> None"
    by (auto simp: list_all2_conv_all_nth in_set_conv_nth value_tag_frame_def)
  with Cons.IH obtain evs2 where 2: "ofold (\<lambda>rule. omap (value_tag_set fmtv tag rule)) rules evs1 = Some evs2"
    "list_all2 (value_tag_frame tag) evs1 evs2" by blast
  have "list_all2 (value_tag_frame tag) evs evs2"
    by (rule list_all2_trans [OF _ 1(2) 2(2)]) (auto simp: value_tag_frame_def)
  with 1(1) 2(1) show ?case by simp
qed

text \<open>event-value-tag never panics on events that are present and have tags: every rule it derives is applied
  to every event whose tags include the rule's, and nothing but the rule's tag and the consumed
  value changes.\<close>

theorem value_tag_frame_ok:
  assumes "\<forall>e \<in> set evs. em_tags e \<noteq> None"
  shows "\<exists>evs'. value_tag_apply fmtv vt (map Some evs) = Some (map Some evs') \<and>
    list_all2 (\<lambda>e e'. em_name e' = em_name e \<and> em_timestamp e' = em_timestamp e \<and> em_deletes e' = em_deletes e \<and>
      (\<forall>k. k \<noteq> vt_value_name vt \<longrightarrow> nget (em_values e') k = nget (em_values e) k) \<and>
      (\<forall>k. k \<noteq> vt_tag_name vt \<longrightarrow> nget (em_tags e') k = nget (em_tags e) k)) evs evs'"
proof -
  obtain evs1 rules where 1: "build_apply_rules vt (map Some evs) = Some (evs1, rules)"
    and f1: "list_all2 (\<lambda>e e'. em_tags e' = em_tags e \<and> em_name e' = em_name e \<and> em_timestamp e' = em_timestamp e \<and>
      em_deletes e' = em_deletes e \<and> (\<forall>k. k \<noteq> vt_value_name vt \<longrightarrow> nget (em_values e') k = nget (em_values e) k)) evs evs1"
    using build_apply_rules_total by blast
  have "\<forall>e \<in> set evs1. em_tags e \<noteq> None"
    using f1 assms by (induction rule: list_all2_induct) auto
  then obtain evs2 where 2: "ofold (\<lambda>rule. omap (value_tag_set fmtv (vt_tag_name vt) rule)) rules evs1 = Some evs2"
    and f2: "list_all2 (value_tag_frame (vt_tag_name vt)) evs1 evs2"
    using value_tag_rules_total by blast
  have "list_all2 (\<lambda>e e'. em_name e' = em_name e \<and> em_timestamp e' = em_timestamp e \<and> em_deletes e' = em_deletes e \<and>
      (\<forall>k. k \<noteq> vt_value_name vt \<longrightarrow> nget (em_values e') k = nget (em_values e) k) \<and>
      (\<forall>k. k \<noteq> vt_tag_name vt \<longrightarrow> nget (em_tags e') k = nget (em_tags e) k)) evs evs2"
    by (rule list_all2_trans [OF _ f1 f2]) (auto simp: value_tag_frame_def)
  with 1 2 show ?thesis by (auto simp: value_tag_apply_def)
qed

theorem value_tag_frame_ok_witness:
  "value_tag_apply (\<lambda>_. []) \<lparr>vt_tag_name = ''t'', vt_value_name = ''v'', vt_consume = True\<rparr>
     [Some (zero_event\<lparr>em_tags := Some []\<rparr>)] \<noteq> None"
  using value_tag_frame_ok [of "[zero_event\<lparr>em_tags := Some []\<rparr>]" "\<lambda>_. []"
      "\<lparr>vt_tag_name = ''t'', vt_value_name = ''v'', vt_consume = True\<rparr>"]
  by auto

end
