(* ===== verification/Proc_Time.thy ===== *)
theory Proc_Time
  imports Interfaces Proc_Convert
begin

text \<open>
  The processors that deal with time stamps: \<open>event_date_string\<close>, \<open>event_time_epoch\<close> and
  \<open>event_override_ts\<close>. An instant of Go's \<open>time.Time\<close> is its Unix second, a wrapping 64-bit
  integer, and the nanosecond within it. Parameters: \<open>fmt layout loc t\<close> is \<open>t.In(loc).Format(layout)\<close>
  with \<open>None\<close> for the local zone, \<open>parse layout s\<close> is \<open>time.Parse\<close>, \<open>load\<close> is \<open>time.LoadLocation\<close>, and
  \<open>clock n\<close> is what the n-th call of \<open>time.Now\<close> returns.
\<close>

type_synonym instant = "64 word \<times> nat"

definition time_unix :: "64 word \<Rightarrow> instant" where
  "time_unix s = (s, 0)"

definition time_unix_ns :: "64 word \<Rightarrow> instant" where
  "time_unix_ns n = (word_of_int (sint n div 10 ^ 9), nat (sint n mod 10 ^ 9))"

definition zero_time :: instant where
  "zero_time = (word_of_int (- 62135596800), 0)"

definition unix_s :: "instant \<Rightarrow> 64 word" where "unix_s t = fst t"
definition unix_milli :: "instant \<Rightarrow> 64 word" where
  "unix_milli t = fst t * 1000 + word_of_nat (snd t div 1000000)"
definition unix_micro :: "instant \<Rightarrow> 64 word" where
  "unix_micro t = fst t * 1000000 + word_of_nat (snd t div 1000)"
definition unix_nano :: "instant \<Rightarrow> 64 word" where
  "unix_nano t = fst t * 1000000000 + word_of_nat (snd t)"

definition rfc3339 :: string where "rfc3339 = ''2006-01-02T15:04:05Z07:00''"

section \<open>event-date-string\<close>

record 'loc date_proc =
  ds_tags :: "regexp list"
  ds_values :: "regexp list"
  ds_precision :: string
  ds_format :: string
  ds_location :: "'loc option"

definition date_init ::
  "re_compiler \<Rightarrow> (string \<Rightarrow> 'loc res) \<Rightarrow> string list \<Rightarrow> string list \<Rightarrow> string \<Rightarrow> string \<Rightarrow> string \<Rightarrow>
   'loc date_proc res" where
  "date_init compile load vals tags precision format location =
    rbind (rmap compile vals) (\<lambda>vres.
    rbind (rmap compile tags) (\<lambda>tres.
    rbind (if location \<noteq> [] then rbind (load location) (\<lambda>l. Inr (Some l)) else Inr None) (\<lambda>loc.
      Inr \<lparr>ds_tags = tres, ds_values = vres, ds_precision = precision, ds_format = format, ds_location = loc\<rparr>)))"

definition date_to_int :: "f2w \<Rightarrow> gval \<Rightarrow> 64 word res" where
  "date_to_int f2i v =
    (case v of
      VStr s \<Rightarrow> rbind (atoi s) (\<lambda>i. Inr (word_of_int i))
    | VInt i \<Rightarrow> Inr i
    | VUint i \<Rightarrow> Inr i
    | VF64 f \<Rightarrow> Inr (f64_to_i64 f2i f)
    | _ \<Rightarrow> Inl ''cannot convert to int'')"

definition date_time :: "string \<Rightarrow> 64 word \<Rightarrow> instant" where
  "date_time precision iv =
    (if precision \<in> {''s'', ''sec'', ''second''} then time_unix iv
     else if precision \<in> {''ms'', ''millisecond''} then time_unix_ns (iv * 1000000)
     else if precision \<in> {''us'', ''microsecond''} then time_unix_ns (iv * 1000)
     else if precision \<in> {''ns'', ''nanosecond''} then time_unix_ns iv
     else zero_time)"

text \<open>The processor stores the default layout on first use; reading it is the same each time.\<close>

definition date_layout :: "'loc date_proc \<Rightarrow> string" where
  "date_layout d = (if ds_format d = [] then rfc3339 else ds_format d)"

text \<open>A value that fails to convert is tried again with the next matching pattern.\<close>

fun date_value :: "f2w \<Rightarrow> (string \<Rightarrow> 'loc option \<Rightarrow> instant \<Rightarrow> string) \<Rightarrow> 'loc date_proc \<Rightarrow>
    regexp list \<Rightarrow> string \<Rightarrow> gval \<Rightarrow> gval" where
  "date_value f2i fmt d [] k v = v"
| "date_value f2i fmt d (re # res) k v =
    (if match_string re k then
       (case date_to_int f2i v of
         Inl _ \<Rightarrow> date_value f2i fmt d res k v
       | Inr iv \<Rightarrow> VStr (fmt (date_layout d) (ds_location d) (date_time (ds_precision d) iv)))
     else date_value f2i fmt d res k v)"

text \<open>
  A matching tag is written among the values, in the local zone; when the number does not parse,
  the value that \<open>Atoi\<close> returns with its error is used. Writing to a nil map panics.
\<close>

definition date_tag :: "(string \<Rightarrow> 'loc option \<Rightarrow> instant \<Rightarrow> string) \<Rightarrow> 'loc date_proc \<Rightarrow>
    string \<times> string \<Rightarrow> gval nmap \<Rightarrow> gval nmap option" where
  "date_tag fmt d kv vals =
    (if matches_any (fst kv) (ds_tags d) then
       nset (fst kv)
         (VStr (fmt (date_layout d) None (date_time (ds_precision d) (word_of_int (fst (parse_int (snd kv))))))) vals
     else Some vals)"

definition date_event :: "f2w \<Rightarrow> (string \<Rightarrow> 'loc option \<Rightarrow> instant \<Rightarrow> string) \<Rightarrow> 'loc date_proc \<Rightarrow>
    event_msg \<Rightarrow> event_msg option" where
  "date_event f2i fmt d e =
    (let vals = map_option (map (\<lambda>(k, v). (k, date_value f2i fmt d (ds_values d) k v))) (em_values e)
     in map_option (\<lambda>vs. e\<lparr>em_values := vs\<rparr>) (ofold (date_tag fmt d) (tags_of e) vals))"

definition date_apply :: "f2w \<Rightarrow> (string \<Rightarrow> 'loc option \<Rightarrow> instant \<Rightarrow> string) \<Rightarrow> 'loc date_proc \<Rightarrow> processor" where
  "date_apply f2i fmt d es = omap (lift_event (date_event f2i fmt d)) es"

section \<open>event-time-epoch\<close>

record epoch_proc =
  ep_values :: "regexp list"
  ep_precision :: string
  ep_format :: string

definition epoch_init :: "re_compiler \<Rightarrow> string list \<Rightarrow> string \<Rightarrow> string \<Rightarrow> epoch_proc res" where
  "epoch_init compile vals precision format =
    rbind (rmap compile vals) (\<lambda>res.
      Inr \<lparr>ep_values = res, ep_precision = precision, ep_format = (if format = [] then rfc3339 else format)\<rparr>)"

definition epoch_of :: "string \<Rightarrow> instant \<Rightarrow> 64 word" where
  "epoch_of precision t =
    (if precision \<in> {''s'', ''sec'', ''second''} then unix_s t
     else if precision \<in> {''ms'', ''millisecond''} then unix_milli t
     else if precision \<in> {''us'', ''microsecond''} then unix_micro t
     else if precision \<in> {''ns'', ''nanosecond''} then unix_nano t
     else unix_nano t)"

fun epoch_value :: "(string \<Rightarrow> string \<Rightarrow> instant res) \<Rightarrow> epoch_proc \<Rightarrow> regexp list \<Rightarrow> string \<Rightarrow> gval \<Rightarrow> gval" where
  "epoch_value parse d [] k v = v"
| "epoch_value parse d (re # res) k v =
    (if match_string re k then
       (case as_str v of
         Some s \<Rightarrow>
           (case parse (ep_format d) s of
             Inl _ \<Rightarrow> epoch_value parse d res k v
           | Inr td \<Rightarrow> VInt64 (epoch_of (ep_precision d) td))
       | None \<Rightarrow> v)
     else epoch_value parse d res k v)"

definition epoch_event :: "(string \<Rightarrow> string \<Rightarrow> instant res) \<Rightarrow> epoch_proc \<Rightarrow> event_msg \<Rightarrow> event_msg" where
  "epoch_event parse d e =
    e\<lparr>em_values := map_option (map (\<lambda>(k, v). (k, epoch_value parse d (ep_values d) k v))) (em_values e)\<rparr>"

definition epoch_apply :: "(string \<Rightarrow> string \<Rightarrow> instant res) \<Rightarrow> epoch_proc \<Rightarrow> processor" where
  "epoch_apply parse d es = Some (map (map_option (epoch_event parse d)) es)"

section \<open>event-override-ts\<close>

text \<open>Go's integer division truncates towards zero.\<close>

definition quot64 :: "64 word \<Rightarrow> int \<Rightarrow> 64 word" where
  "quot64 w d = word_of_int (if sint w < 0 then - ((- sint w) div d) else sint w div d)"

definition override_init :: "string \<Rightarrow> string" where
  "override_init precision = (if precision = [] then ''ns'' else precision)"

definition override_ts :: "string \<Rightarrow> instant \<Rightarrow> event_msg \<Rightarrow> event_msg" where
  "override_ts precision now e =
    (if precision = ''s'' then e\<lparr>em_timestamp := unix_s now\<rparr>
     else if precision = ''ms'' then e\<lparr>em_timestamp := quot64 (unix_nano now) 1000000\<rparr>
     else if precision = ''us'' then e\<lparr>em_timestamp := quot64 (unix_nano now) 1000\<rparr>
     else if precision = ''ns'' then e\<lparr>em_timestamp := unix_nano now\<rparr>
     else e)"

fun override_loop :: "(nat \<Rightarrow> instant) \<Rightarrow> string \<Rightarrow> nat \<Rightarrow> event_msg option list \<Rightarrow> event_msg option list" where
  "override_loop clock precision n [] = []"
| "override_loop clock precision n (None # es) = None # override_loop clock precision n es"
| "override_loop clock precision n (Some e # es) =
    Some (override_ts precision (clock n) e) # override_loop clock precision (Suc n) es"

definition override_apply :: "(nat \<Rightarrow> instant) \<Rightarrow> string \<Rightarrow> processor" where
  "override_apply clock precision es = Some (override_loop clock precision 0 es)"

section \<open>Contracts\<close>

interpretation date_ip: in_place_processor "date_event f2i fmt d" "date_apply f2i fmt d" for f2i fmt d
  by (rule in_place_panicI) (auto simp: date_apply_def date_event_def Let_def)

interpretation epoch_ip: in_place_processor "\<lambda>e. Some (epoch_event parse d e)" "epoch_apply parse d" for parse d
  by (rule in_place_processorI, rule epoch_apply_def) (auto simp: epoch_event_def)

section \<open>Instants and integers\<close>

lemma unix_nano_time_unix_ns: "unix_nano (time_unix_ns n) = n"
proof -
  have "unix_nano (time_unix_ns n) = word_of_int (sint n div 10 ^ 9) * word_of_int (10 ^ 9) + word_of_int (sint n mod 10 ^ 9)"
    by (simp add: unix_nano_def time_unix_ns_def of_nat_nat)
  also have "\<dots> = word_of_int (sint n div 10 ^ 9 * 10 ^ 9 + sint n mod 10 ^ 9)"
    by (simp only: of_int_add of_int_mult)
  also have "\<dots> = n" unfolding div_mult_mod_eq by simp
  finally show ?thesis .
qed

lemma epoch_of_date_time_s:
  "p \<in> {''s'', ''sec'', ''second'', ''ns'', ''nanosecond''} \<Longrightarrow> epoch_of p (date_time p iv) = iv"
  by (auto simp: epoch_of_def date_time_def unix_s_def time_unix_def unix_nano_time_unix_ns)

lemma date_event_panics:
  assumes "em_values e = None" and "(k, v) \<in> set (tags_of e)" and "matches_any k (ds_tags d)"
  shows "date_event f2i fmt d e = None"
proof -
  have "ofold (date_tag fmt d) kvs None = None" if "(k, v) \<in> set kvs" for kvs
    using that assms(3)
    by (induction kvs) (auto simp: date_tag_def split: option.splits prod.splits)
  with assms show ?thesis by (simp add: date_event_def)
qed

lemma date_value_hit:
  "date_to_int f2i v = Inr iv \<Longrightarrow> matches_any k res \<Longrightarrow>
   date_value f2i fmt d res k v = VStr (fmt (date_layout d) (ds_location d) (date_time (ds_precision d) iv))"
  by (induction res) (auto simp: matches_any_def)

lemma epoch_value_hit:
  "parse (ep_format d) s = Inr t \<Longrightarrow> matches_any k res \<Longrightarrow>
   epoch_value parse d res k (VStr s) = VInt64 (epoch_of (ep_precision d) t)"
  by (induction res) (auto simp: matches_any_def)

section \<open>Properties\<close>

text \<open>event-time-epoch undoes event-date-string: in seconds or nanoseconds, a time stamp turned into text
  and parsed back is the same integer, for every layout and zone whose text the parser reads back
  to the same instant.\<close>

theorem date_epoch_roundtrip:
  assumes "prec \<in> {''s'', ''sec'', ''second'', ''ns'', ''nanosecond''}"
    and "ds_precision d = prec" and "ep_precision d' = prec" and "ep_format d' = date_layout d"
    and "matches_any k (ds_values d)" and "matches_any k (ep_values d')"
    and "parse (date_layout d) (fmt (date_layout d) (ds_location d) (date_time prec iv)) = Inr (date_time prec iv)"
  shows "epoch_value parse d' (ep_values d') k (date_value f2i fmt d (ds_values d) k (VInt iv)) = VInt64 iv"
proof -
  have "date_value f2i fmt d (ds_values d) k (VInt iv) =
      VStr (fmt (date_layout d) (ds_location d) (date_time prec iv))"
    using date_value_hit [of f2i "VInt iv" iv k "ds_values d" fmt d] assms(2,5) by (simp add: date_to_int_def)
  moreover have "epoch_value parse d' (ep_values d') k (VStr (fmt (date_layout d) (ds_location d) (date_time prec iv))) =
      VInt64 (epoch_of prec (date_time prec iv))"
    using epoch_value_hit [of parse d' _ "date_time prec iv" k "ep_values d'"] assms(3,4,6,7) by simp
  ultimately show ?thesis by (simp add: epoch_of_date_time_s [OF assms(1)])
qed

theorem date_epoch_roundtrip_witness:
  "epoch_value (\<lambda>_ s. rbind (atoi s) (\<lambda>i. Inr (time_unix (word_of_int i))))
     \<lparr>ep_values = [re_of REps], ep_precision = ''s'', ep_format = rfc3339\<rparr> [re_of REps] ''k''
     (date_value (\<lambda>w. w) (\<lambda>_ _ t. itoa (sint (fst t)))
       \<lparr>ds_tags = [], ds_values = [re_of REps], ds_precision = ''s'', ds_format = [], ds_location = None :: unit option\<rparr>
       [re_of REps] ''k'' (VInt 77)) = VInt64 77"
  using date_epoch_roundtrip [of "''s''"
      "\<lparr>ds_tags = [], ds_values = [re_of REps], ds_precision = ''s'', ds_format = [], ds_location = None :: unit option\<rparr>"
      "\<lparr>ep_values = [re_of REps], ep_precision = ''s'', ep_format = rfc3339\<rparr>" "''k''"
      "\<lambda>_ s. rbind (atoi s) (\<lambda>i. Inr (time_unix (word_of_int i)))" "\<lambda>_ _ t. itoa (sint (fst t))" 77 "\<lambda>w. w"]
  by (simp add: date_layout_def date_time_def time_unix_def atoi_itoa matches_any_def match_string_def find_loc_def
      match_at_def re_of_def)

text \<open>event-date-string writes a matching tag into the values, so it panics on every event that has such a
  tag and no values, as a delete has.\<close>

theorem date_string_panics_on_deletes:
  assumes "em_values e = None" and "(k, v) \<in> set (tags_of e)" and "matches_any k (ds_tags d)" and "Some e \<in> set es"
  shows "date_apply f2i fmt d es = None"
  unfolding date_ip.in_place_panics using date_event_panics [OF assms(1-3)] assms(4) by blast

theorem date_string_panics_on_deletes_witness:
  "date_apply (\<lambda>w. w) (\<lambda>_ _ _. [])
     \<lparr>ds_tags = [re_of REps], ds_values = [], ds_precision = ''s'', ds_format = [], ds_location = None :: unit option\<rparr>
     [Some (zero_event\<lparr>em_tags := Some [(''t'', ''1'')], em_deletes := Some [''/a'']\<rparr>)] = None"
  by (rule date_string_panics_on_deletes
      [of "zero_event\<lparr>em_tags := Some [(''t'', ''1'')], em_deletes := Some [''/a'']\<rparr>" "''t''" "''1''"])
    (simp_all add: zero_event_def matches_any_def match_string_def find_loc_def match_at_def re_of_def)

end
