(* ===== verification/Proc_Write.thy ===== *)
theory Proc_Write
  imports Interfaces
begin

text \<open>
  \<open>event_write\<close> and \<open>event_jq\<close>. Parameters: \<open>marshal\<close> is \<open>json.Marshal\<close> or, when an indent is
  configured, \<open>json.MarshalIndent\<close>; the destination is the list of the byte strings written to it;
  a jq expression is a function from its input to the results its iterator yields.
\<close>

section \<open>event-write\<close>

record write_proc =
  wr_code :: "jq_code option"
  wr_tags :: "regexp list"
  wr_values :: "regexp list"
  wr_tag_names :: "regexp list"
  wr_value_names :: "regexp list"
  wr_sep :: string

text \<open>Opening the destination, the last step, is left to the caller.\<close>

definition write_init ::
  "jq_compiler \<Rightarrow> re_compiler \<Rightarrow> string \<Rightarrow> string \<Rightarrow> string list \<Rightarrow> string list \<Rightarrow> string list \<Rightarrow> string list \<Rightarrow>
   write_proc res" where
  "write_init jqc compile condition separator tags vals tagNames valueNames =
    rbind (jqc (trim_space condition)) (\<lambda>code.
    rbind (rmap compile tags) (\<lambda>t.
    rbind (rmap compile vals) (\<lambda>v.
    rbind (rmap compile tagNames) (\<lambda>tn.
    rbind (rmap compile valueNames) (\<lambda>vn.
      Inr \<lparr>wr_code = Some code, wr_tags = t, wr_values = v, wr_tag_names = tn, wr_value_names = vn,
        wr_sep = (if separator = [] then [CHR 10] else separator)\<rparr>)))))"

type_synonym marshal = "event_msg \<Rightarrow> string res"

definition write_out :: "marshal \<Rightarrow> write_proc \<Rightarrow> event_msg \<Rightarrow> string list \<Rightarrow> unit res \<times> string list" where
  "write_out marshal p e out =
    (case marshal e of Inl err \<Rightarrow> (Inl err, out) | Inr b \<Rightarrow> (Inr (), out @ [b @ wr_sep p]))"

text \<open>The loops over values, tags and patterns write once, at the first match, and end.\<close>

definition write_matches :: "write_proc \<Rightarrow> event_msg \<Rightarrow> bool" where
  "write_matches p e \<longleftrightarrow>
    list_ex (\<lambda>(k, v). matches_string v (wr_values p) \<or> matches_any k (wr_value_names p)) (values_of e) \<or>
    list_ex (\<lambda>(k, v). matches_any k (wr_tag_names p) \<or> matches_any v (wr_tags p)) (tags_of e)"

definition write_event :: "rejson \<Rightarrow> marshal \<Rightarrow> write_proc \<Rightarrow> event_msg option \<Rightarrow> string list \<Rightarrow> string list" where
  "write_event rj marshal p eo out =
    (case eo of
      None \<Rightarrow> out @ [[]]
    | Some e \<Rightarrow>
        (case (if cond_ok (check_condition rj (wr_code p) (Some e)) then write_out marshal p e out else (Inr (), out)) of
          (Inl _, out1) \<Rightarrow> out1
        | (Inr _, out1) \<Rightarrow> if write_matches p e then snd (write_out marshal p e out1) else out1))"

definition write_apply ::
  "rejson \<Rightarrow> marshal \<Rightarrow> write_proc \<Rightarrow> string list \<Rightarrow> event_msg option list \<Rightarrow> event_msg option list \<times> string list" where
  "write_apply rj marshal p out es = (es, fold (write_event rj marshal p) es out)"

section \<open>event-jq\<close>

type_synonym jq_expr = "gval \<Rightarrow> jq_out list"

record jq_proc =
  jp_cond :: jq_code
  jp_expr :: jq_expr

definition jq_defaults :: "string \<times> string \<Rightarrow> string \<times> string" where
  "jq_defaults ce =
    (if fst ce = [] then ''all([true])'' else fst ce, if snd ce = [] then ''.'' else snd ce)"

definition jq_init :: "jq_compiler \<Rightarrow> (string \<Rightarrow> jq_expr res) \<Rightarrow> string \<times> string \<Rightarrow> jq_proc res" where
  "jq_init jqc jqx ce =
    (let (c, x) = jq_defaults ce
     in rbind (jqc (trim_space c)) (\<lambda>cond.
        rbind (jqx (trim_space x)) (\<lambda>expr. Inr \<lparr>jp_cond = cond, jp_expr = expr\<rparr>)))"

definition evaluate_condition :: "jq_code option \<Rightarrow> gval gmap \<Rightarrow> bool res" where
  "evaluate_condition cond input =
    (case cond of
      None \<Rightarrow> Inl ''unexpected condition return type''
    | Some run \<Rightarrow>
        (case run (VMap input) of
          JQNone \<Rightarrow> Inr False
        | JQErr err \<Rightarrow> Inl err
        | JQVal (VBool b) \<Rightarrow> Inr b
        | JQVal _ \<Rightarrow> Inl ''unexpected condition return type''))"

text \<open>The results up to the end of the iterator or its first error.\<close>

fun jq_collect :: "jq_out list \<Rightarrow> gval list res" where
  "jq_collect [] = Inr []"
| "jq_collect (JQNone # rs) = Inr []"
| "jq_collect (JQErr err # rs) = Inl err"
| "jq_collect (JQVal v # rs) = rbind (jq_collect rs) (\<lambda>vs. Inr (v # vs))"

text \<open>A result is a map, one event, or a list, of which every map is an event; the rest is ignored.\<close>

definition jq_maps :: "gval \<Rightarrow> gval gmap list" where
  "jq_maps v =
    (case v of
      VList xs \<Rightarrow> List.map_filter (\<lambda>x. case x of VMap m \<Rightarrow> Some m | _ \<Rightarrow> None) xs
    | VMap m \<Rightarrow> [m]
    | _ \<Rightarrow> [])"

definition apply_expression ::
  "(64 word \<Rightarrow> 64 word) \<Rightarrow> jq_expr \<Rightarrow> gval gmap list \<Rightarrow> event_msg option list res" where
  "apply_expression f2u expr inputs =
    rbind (jq_collect (expr (VList (map VMap inputs)))) (\<lambda>res.
      rmap (\<lambda>m. event_from_map f2u (Some m)) (concat (map jq_maps res)))"

fun jq_split :: "jq_code option \<Rightarrow> event_msg option list \<Rightarrow> gval gmap list \<times> event_msg option list" where
  "jq_split cond [] = ([], [])"
| "jq_split cond (None # es) = jq_split cond es"
| "jq_split cond (Some e # es) =
    (case jq_split cond es of
      (inputs, res) \<Rightarrow>
        (let input = (case to_map (Some e) of Some m \<Rightarrow> m | None \<Rightarrow> [])
         in case evaluate_condition cond input of
           Inl _ \<Rightarrow> (inputs, res)
         | Inr ok \<Rightarrow> if ok then (input # inputs, res) else (inputs, Some e # res)))"

text \<open>When the expression fails, the events are gone.\<close>

definition jq_apply :: "(64 word \<Rightarrow> 64 word) \<Rightarrow> jq_proc \<Rightarrow> processor" where
  "jq_apply f2u p es =
    (case jq_split (Some (jp_cond p)) es of
      (inputs, res) \<Rightarrow>
        (case apply_expression f2u (jp_expr p) inputs of
          Inl _ \<Rightarrow> Some []
        | Inr evs \<Rightarrow> Some (res @ evs)))"

section \<open>Properties\<close>

text \<open>event-write passes the slice on unchanged and writes an event that marshals once for its condition and
  once more for its patterns, so an event selected by both is written twice.\<close>

theorem write_copies:
  assumes "marshal e = Inr b"
  shows "write_apply rj marshal p out [Some e] =
    ([Some e], out @ replicate ((if cond_ok (check_condition rj (wr_code p) (Some e)) then 1 else 0) +
      (if write_matches p e then 1 else 0)) (b @ wr_sep p))"
  using assms by (simp add: write_apply_def write_event_def write_out_def eval_nat_numeral)

theorem write_copies_witness:
  "write_apply (\<lambda>_. Inr VNil) (\<lambda>_. Inr ''{}'')
     \<lparr>wr_code = Some (\<lambda>_. JQVal (VBool True)), wr_tags = [], wr_values = [], wr_tag_names = [],
      wr_value_names = [re_of REps], wr_sep = ''.''\<rparr> [] [Some (zero_event\<lparr>em_values := Some [(''a'', VNil)]\<rparr>)] =
   ([Some (zero_event\<lparr>em_values := Some [(''a'', VNil)]\<rparr>)], [''{}.'', ''{}.''])"
  by (subst write_copies [of _ _ "''{}''"])
    (simp_all add: write_matches_def zero_event_def matches_any_def match_string_def find_loc_def match_at_def re_of_def
      check_condition_def condition_input_def to_map_def deletes_of_def cond_ok_def)

end
