(* ===== verification/Cluster_Placement.thy ===== *)
theory Cluster_Placement
  imports Go_Fnv "HOL-Library.Signed_Division" "HOL-Library.Product_Lexorder" "HOL-Library.Multiset"
begin

text \<open>
  Where the cluster leader puts a target: \<open>membership.go\<close> (members), \<open>rebalance.go\<close> (quotas),
  \<open>placement.go\<close> (the choice of an assignee) and the decisions of \<open>reconcileAssignments\<close> in
  \<open>cluster_manager.go\<close>. A map from identifiers to members is an association list, visited in the
  order of the list; loads and quotas are counts of targets, far from the ends of \<open>int64\<close>.
\<close>

section \<open>Members and quotas\<close>

record member =
  m_id :: string
  m_address :: string
  m_labels :: "string list"
  m_load :: int
  m_targets :: "string list"

type_synonym members = "member gmap"

text \<open>A read of a \<open>map[string]int64\<close>: zero for a missing key.\<close>

definition iget :: "int gmap \<Rightarrow> string \<Rightarrow> int" where
  "iget m k = (case map_of m k of None \<Rightarrow> 0 | Some v \<Rightarrow> v)"

lemma iget_gset [simp]: "iget (gset k v m) k' = (if k' = k then v else iget m k')"
  by (simp add: iget_def)

fun quota_loop :: "string list \<Rightarrow> int \<Rightarrow> int \<Rightarrow> int \<Rightarrow> int gmap \<Rightarrow> int gmap" where
  "quota_loop [] i base rem quota = quota"
| "quota_loop (mid # ids) i base rem quota =
    quota_loop ids (i + 1) base rem (gset mid (if i < rem then base + 1 else base) quota)"

definition calculate_members_quota :: "'m gmap \<Rightarrow> int \<Rightarrow> int nmap" where
  "calculate_members_quota members load =
    (if load = 0 then Some (map (\<lambda>(mid, _). (mid, 0)) members)
     else if members = [] then None
     else
       (let n = int (length members); base = load sdiv n; rem = load smod n
        in Some (quota_loop (sort (map fst members)) 0 base rem [])))"

section \<open>The choice of an assignee\<close>

definition fnv64 :: "string \<Rightarrow> 64 word" where
  "fnv64 s = fnv1a s"

definition tie_break :: "string \<Rightarrow> string \<Rightarrow> string \<Rightarrow> bool" where
  "tie_break targetName memberA memberB \<longleftrightarrow>
    (if memberB = [] then True
     else
       (let ha = fnv64 (targetName @ memberA); hb = fnv64 (targetName @ memberB)
        in if ha = hb then memberA < memberB else ha < hb))"

text \<open>
  The loop over the members. The outer \<open>None\<close> is the nil pointer dereference of \<open>pick.ID\<close> when
  no member was picked yet.
\<close>

fun pick_loop ::
  "string \<Rightarrow> member list \<Rightarrow> int gmap \<Rightarrow> int gmap \<Rightarrow> member option \<Rightarrow> int \<Rightarrow> member option option" where
  "pick_loop t [] quotas loads pick highest = Some pick"
| "pick_loop t (m # ms) quotas loads pick highest =
    (let s = iget quotas (m_id m) - iget loads (m_id m)
     in if s > highest then pick_loop t ms quotas loads (Some m) s
        else if s = highest then
          (case pick of
            None \<Rightarrow> None
          | Some p \<Rightarrow>
              if tie_break t (m_id m) (m_id p) then pick_loop t ms quotas loads (Some m) s
              else pick_loop t ms quotas loads pick highest)
        else pick_loop t ms quotas loads pick highest)"

text \<open>The result is the member and the updated loads; \<open>None\<close> inside when there are no members.\<close>

definition pick_assignee ::
  "string \<Rightarrow> members \<Rightarrow> int gmap \<Rightarrow> int gmap \<Rightarrow> (member option \<times> int gmap) option" where
  "pick_assignee targetName members quotas membersLoad =
    (if members = [] then Some (None, membersLoad)
     else case pick_loop targetName (map snd members) quotas membersLoad None (- (2 ^ 62)) of
       Some (Some p) \<Rightarrow> Some (Some p, gset (m_id p) (iget membersLoad (m_id p) + 1) membersLoad)
     | _ \<Rightarrow> None)"

section \<open>The decisions of a reconciliation\<close>

text \<open>
  Step 3 of \<open>reconcileAssignments\<close>: a target whose lock is held by a known member stays with it,
  every other one is given to the member with the most free quota.
\<close>

definition held_by :: "member gmap \<Rightarrow> members \<Rightarrow> string \<Rightarrow> member option" where
  "held_by current members t =
    (case map_of current t of None \<Rightarrow> None | Some h \<Rightarrow> map_of members (m_id h))"

fun reconcile_loop ::
  "string list \<Rightarrow> member gmap \<Rightarrow> members \<Rightarrow> int gmap \<Rightarrow> int gmap \<Rightarrow> member gmap \<Rightarrow>
   (member gmap \<times> int gmap) option" where
  "reconcile_loop [] current members quotas loads asg = Some (asg, loads)"
| "reconcile_loop (t # ts) current members quotas loads asg =
    (case held_by current members t of
      Some m \<Rightarrow> reconcile_loop ts current members quotas loads (gset t m asg)
    | None \<Rightarrow>
        (case pick_assignee t members quotas loads of
          None \<Rightarrow> None
        | Some (None, loads') \<Rightarrow> reconcile_loop ts current members quotas loads' asg
        | Some (Some a, loads') \<Rightarrow> reconcile_loop ts current members quotas loads' (gset t a asg)))"

section \<open>Quotas\<close>

text \<open>What \<open>membership.GetMembers\<close> promises: members under their own, non-empty identifiers.\<close>

definition wf_members :: "members \<Rightarrow> bool" where
  "wf_members ms \<longleftrightarrow> wf_gmap ms \<and> (\<forall>(mid, m) \<in> set ms. m_id m = mid \<and> mid \<noteq> [])"

lemma quota_loop_other: "mid \<notin> set ids \<Longrightarrow> iget (quota_loop ids i base rem q) mid = iget q mid"
  by (induction ids arbitrary: i q) auto

lemma quota_loop_nth:
  "distinct ids \<Longrightarrow> j < length ids \<Longrightarrow>
   iget (quota_loop ids i base rem q) (ids ! j) = (if i + int j < rem then base + 1 else base)"
proof (induction ids arbitrary: i j q)
  case (Cons mid ids)
  then show ?case by (cases j) (auto simp: quota_loop_other add.assoc)
qed simp

lemma sum_of_bool_less: "int (card {j. j < n \<and> int j < rem}) = max 0 (min (int n) rem)"
proof -
  have "{j. j < n \<and> int j < rem} = {..< nat (min (int n) rem)}" by auto
  then show ?thesis by simp
qed

lemma quota_loop_sum:
  assumes "distinct ids" and "0 \<le> rem" and "rem \<le> int (length ids)"
  shows "(\<Sum>mid\<leftarrow>ids. iget (quota_loop ids 0 base rem []) mid) = base * int (length ids) + rem"
proof -
  have "(\<Sum>mid\<leftarrow>ids. iget (quota_loop ids 0 base rem []) mid) =
      (\<Sum>j = 0..<length ids. base + of_bool (int j < rem))"
    using assms(1) by (subst sum_list_sum_nth) (intro sum.cong, auto simp: quota_loop_nth)
  also have "\<dots> = base * int (length ids) + int (card {j. j < length ids \<and> int j < rem})"
    by (simp add: sum.distrib Int_def lessThan_def atLeast0LessThan)
  finally show ?thesis using assms by (simp add: sum_of_bool_less)
qed

lemma sum_list_sort: "(\<Sum>x\<leftarrow>sort xs. f x) = (\<Sum>x\<leftarrow>xs. f x :: int)"
  by (metis mset_map mset_sort sum_mset_sum_list)

lemma sdiv_smod_nonneg: "0 \<le> (a :: int) \<Longrightarrow> 0 < b \<Longrightarrow> a sdiv b = a div b \<and> a smod b = a mod b"
  by (simp add: signed_divide_int_def signed_modulo_int_def sgn_if)

lemma quota_spec:
  assumes "wf_gmap members" and "members \<noteq> []" and "0 \<le> load"
  shows "\<exists>q. calculate_members_quota members load = Some q \<and>
    (\<Sum>mid\<leftarrow>map fst members. iget q mid) = load \<and>
    (\<forall>mid \<in> set (map fst members). iget q mid = load div int (length members) \<or>
      iget q mid = load div int (length members) + 1)"
proof (cases "load = 0")
  case True
  have "iget (map (\<lambda>(mid, _). (mid, 0)) members) mid = 0" for mid
    by (induction members) (auto simp: iget_def)
  with True show ?thesis by (simp add: calculate_members_quota_def comp_def)
next
  case False
  let ?n = "int (length members)"
  define ids where "ids = sort (map fst members)"
  have d: "distinct ids" and n: "length ids = length members"
    using assms(1) by (simp_all add: ids_def wf_gmap_def)
  define q where "q = quota_loop ids 0 (load div ?n) (load mod ?n) []"
  have pos: "0 < ?n" using assms(2) by simp
  have c: "calculate_members_quota members load = Some q"
    using False assms(2) sdiv_smod_nonneg [OF assms(3) pos]
    by (simp add: calculate_members_quota_def q_def ids_def Let_def)
  have "0 \<le> load mod ?n" "load mod ?n \<le> int (length ids)"
    using pos n by (simp_all add: less_imp_le)
  then have "(\<Sum>mid\<leftarrow>ids. iget q mid) = load"
    using quota_loop_sum [OF d] n by (simp add: q_def)
  then have s: "(\<Sum>mid\<leftarrow>map fst members. iget q mid) = load"
    unfolding ids_def by (simp only: sum_list_sort)
  have "iget q mid = load div ?n \<or> iget q mid = load div ?n + 1" if "mid \<in> set (map fst members)" for mid
  proof -
    have "mid \<in> set ids" using that by (simp add: ids_def)
    then obtain j where "j < length ids" "mid = ids ! j" by (auto simp: in_set_conv_nth)
    then show ?thesis using quota_loop_nth [OF d] by (simp add: q_def)
  qed
  with c s show ?thesis by blast
qed

section \<open>The assignee is the best member\<close>

text \<open>
  The order the loop searches a minimum of: most free quota first, then the hash of target and
  identifier, then the identifier.
\<close>

definition free_quota :: "int gmap \<Rightarrow> int gmap \<Rightarrow> member \<Rightarrow> int" where
  "free_quota quotas loads m = iget quotas (m_id m) - iget loads (m_id m)"

definition pick_key :: "string \<Rightarrow> int gmap \<Rightarrow> int gmap \<Rightarrow> member \<Rightarrow> int \<times> 64 word \<times> string" where
  "pick_key t quotas loads m = (- free_quota quotas loads m, fnv64 (t @ m_id m), m_id m)"

lemma tie_break_key:
  assumes "m_id p \<noteq> []" and "free_quota q l m = free_quota q l p"
  shows "tie_break t (m_id m) (m_id p) \<longleftrightarrow> pick_key t q l m < pick_key t q l p"
  using assms by (auto simp: tie_break_def pick_key_def Let_def)

lemma pick_loop_min:
  assumes "\<forall>m \<in> set (p # ms). m_id m \<noteq> []"
  shows "\<exists>r \<in> set (p # ms). pick_loop t ms q l (Some p) (free_quota q l p) = Some (Some r) \<and>
    (\<forall>m \<in> set (p # ms). pick_key t q l r \<le> pick_key t q l m)"
  using assms
proof (induction ms arbitrary: p)
  case (Cons m ms)
  define p' where "p' = (if pick_key t q l m < pick_key t q l p then m else p)"
  have "pick_key t q l m < pick_key t q l p" if "free_quota q l m > free_quota q l p"
    using that by (simp add: pick_key_def)
  moreover have "\<not> pick_key t q l m < pick_key t q l p" if "free_quota q l m < free_quota q l p"
    using that by (simp add: pick_key_def)
  moreover note tie_break_key [of p q l m t]
  ultimately have step: "pick_loop t (m # ms) q l (Some p) (free_quota q l p) = pick_loop t ms q l (Some p') (free_quota q l p')"
    using Cons.prems by (auto simp: Let_def p'_def free_quota_def [symmetric])
  have "\<forall>x \<in> set (p' # ms). m_id x \<noteq> []" using Cons.prems by (simp add: p'_def)
  from Cons.IH [OF this] obtain r where r: "r \<in> set (p' # ms)"
    "pick_loop t ms q l (Some p') (free_quota q l p') = Some (Some r)"
    "\<forall>x \<in> set (p' # ms). pick_key t q l r \<le> pick_key t q l x" by blast
  have "r \<in> set (p # m # ms)" using r(1) by (auto simp: p'_def split: if_splits)
  moreover have "pick_key t q l p' \<le> pick_key t q l p" "pick_key t q l p' \<le> pick_key t q l m"
    by (auto simp: p'_def)
  then have "\<forall>x \<in> set (p # m # ms). pick_key t q l r \<le> pick_key t q l x"
    using r(3) order_trans by fastforce
  ultimately show ?case using r(2) step by auto
qed simp

definition bounded_loads :: "members \<Rightarrow> int gmap \<Rightarrow> int gmap \<Rightarrow> bool" where
  "bounded_loads members q l \<longleftrightarrow> (\<forall>m \<in> set (map snd members). - (2 ^ 62) < free_quota q l m)"

lemma pick_assignee_min:
  assumes "wf_members members" and "members \<noteq> []" and "bounded_loads members q l"
  shows "\<exists>r \<in> set (map snd members). pick_assignee t members q l =
      Some (Some r, gset (m_id r) (iget l (m_id r) + 1) l) \<and>
    (\<forall>m \<in> set (map snd members). pick_key t q l r \<le> pick_key t q l m)"
proof -
  obtain p ms where ms: "map snd members = p # ms" using assms(2) by (cases members) auto
  have "pick_loop t (p # ms) q l None (- (2 ^ 62)) = pick_loop t ms q l (Some p) (free_quota q l p)"
    using assms(3) unfolding bounded_loads_def ms by (simp add: free_quota_def Let_def)
  moreover have "\<forall>m \<in> set (p # ms). m_id m \<noteq> []"
    using assms(1) unfolding ms [symmetric] by (auto simp: wf_members_def)
  from pick_loop_min [OF this] obtain r where "r \<in> set (p # ms)"
    "pick_loop t ms q l (Some p) (free_quota q l p) = Some (Some r)"
    "\<forall>m \<in> set (p # ms). pick_key t q l r \<le> pick_key t q l m" by blast
  ultimately show ?thesis
    using assms(2) unfolding pick_assignee_def ms by (intro bexI [of _ r]) simp_all
qed

lemma pick_key_inj: "pick_key t q l a = pick_key t q l b \<Longrightarrow> m_id a = m_id b"
  by (simp add: pick_key_def)

lemma wf_members_lookup: "wf_members ms \<Longrightarrow> m \<in> set (map snd ms) \<longleftrightarrow> map_of ms (m_id m) = Some m"
  by (auto simp: wf_members_def wf_gmap_def dest: map_of_SomeD) (force dest: map_of_is_SomeI)

lemma wf_members_eq:
  "wf_members ms \<Longrightarrow> a \<in> set (map snd ms) \<Longrightarrow> b \<in> set (map snd ms) \<Longrightarrow> m_id a = m_id b \<Longrightarrow> a = b"
  by (simp only: wf_members_lookup) simp

section \<open>Reconciliation\<close>

definition member_ids :: "members \<Rightarrow> string list" where
  "member_ids members = map fst members"

lemma pick_assignee_free:
  assumes "wf_members members" and "members \<noteq> []" and "bounded_loads members q l"
    and "(\<Sum>mid\<leftarrow>member_ids members. iget l mid) < (\<Sum>mid\<leftarrow>member_ids members. iget q mid)"
  shows "\<exists>r. r \<in> set (map snd members) \<and> pick_assignee t members q l =
      Some (Some r, gset (m_id r) (iget l (m_id r) + 1) l) \<and> iget l (m_id r) < iget q (m_id r)"
proof -
  obtain r where r: "r \<in> set (map snd members)"
    "pick_assignee t members q l = Some (Some r, gset (m_id r) (iget l (m_id r) + 1) l)"
    "\<forall>m \<in> set (map snd members). pick_key t q l r \<le> pick_key t q l m"
    using pick_assignee_min [OF assms(1-3)] by blast
  have "\<exists>mid \<in> set (member_ids members). iget l mid < iget q mid"
  proof (rule ccontr)
    assume "\<not> ?thesis"
    then have "(\<Sum>mid\<leftarrow>member_ids members. iget q mid) \<le> (\<Sum>mid\<leftarrow>member_ids members. iget l mid)"
      by (intro sum_list_mono) auto
    with assms(4) show False by simp
  qed
  then obtain mid m where m: "(mid, m) \<in> set members" "iget l mid < iget q mid"
    by (auto simp: member_ids_def)
  then have "m_id m = mid" using assms(1) by (auto simp: wf_members_def)
  with m have "pick_key t q l r \<le> pick_key t q l m" "0 < free_quota q l m"
    using r(3) by (force simp: free_quota_def)+
  then have "0 < free_quota q l r" by (auto simp: pick_key_def)
  with r show ?thesis by (auto simp: free_quota_def)
qed

lemma sum_gset:
  "distinct ids \<Longrightarrow> k \<in> set ids \<Longrightarrow>
   (\<Sum>mid\<leftarrow>ids. iget (gset k (iget l k + 1) l) mid) = (\<Sum>mid\<leftarrow>ids. iget l mid) + 1"
proof (induction ids)
  case (Cons x ids)
  show ?case
  proof (cases "k = x")
    case True
    with Cons.prems have "k \<notin> set ids" by simp
    then have "(\<Sum>mid\<leftarrow>ids. iget (gset k (iget l k + 1) l) mid) = (\<Sum>mid\<leftarrow>ids. iget l mid)"
      by (intro arg_cong [where f = sum_list] map_cong) auto
    with True show ?thesis by simp
  qed (use Cons in auto)
qed simp

definition assigned_to :: "member gmap \<Rightarrow> string \<Rightarrow> string \<Rightarrow> bool" where
  "assigned_to asg mid t \<longleftrightarrow> (case map_of asg t of None \<Rightarrow> False | Some m \<Rightarrow> m_id m = mid)"

definition held_count :: "member gmap \<Rightarrow> members \<Rightarrow> string list \<Rightarrow> string \<Rightarrow> int" where
  "held_count current members ts mid =
    int (length (filter (\<lambda>t. map_option m_id (held_by current members t) = Some mid) ts))"

definition unheld_count :: "member gmap \<Rightarrow> members \<Rightarrow> string list \<Rightarrow> int" where
  "unheld_count current members ts = int (length (filter (\<lambda>t. held_by current members t = None) ts))"

lemma held_count_Cons:
  "held_count current members (t # ts) mid = held_count current members ts mid +
    (if map_option m_id (held_by current members t) = Some mid then 1 else 0)"
  by (simp add: held_count_def)

lemma unheld_count_Cons:
  "unheld_count current members (t # ts) = unheld_count current members ts +
    (if held_by current members t = None then 1 else 0)"
  by (simp add: unheld_count_def)

lemma counts_Nil [simp]: "held_count current members [] mid = 0" "unheld_count current members [] = 0"
  by (simp_all add: held_count_def unheld_count_def)

lemma unheld_count_nonneg: "0 \<le> unheld_count current members ts"
  by (simp add: unheld_count_def)

lemma held_by_member:
  "wf_members members \<Longrightarrow> held_by current members t = Some m \<Longrightarrow> m \<in> set (map snd members)"
  by (auto simp: held_by_def split: option.splits dest!: map_of_SomeD) force

definition reconciled ::
  "string list \<Rightarrow> member gmap \<Rightarrow> members \<Rightarrow> int gmap \<Rightarrow> int gmap \<Rightarrow> member gmap \<Rightarrow> member gmap \<Rightarrow> int gmap \<Rightarrow> bool" where
  "reconciled ts current members q l asg asg' l' \<longleftrightarrow>
    (\<forall>mid \<in> set (member_ids members). iget l' mid \<le> iget q mid) \<and>
    (\<Sum>mid\<leftarrow>member_ids members. iget l' mid) = (\<Sum>mid\<leftarrow>member_ids members. iget l mid) + unheld_count current members ts \<and>
    (\<forall>t. t \<notin> set ts \<longrightarrow> map_of asg' t = map_of asg t) \<and>
    (\<forall>t \<in> set ts. \<exists>m \<in> set (map snd members). map_of asg' t = Some m \<and> held_by current members t \<in> {None, Some m}) \<and>
    (\<forall>mid. int (length (filter (assigned_to asg' mid) ts)) = held_count current members ts mid + (iget l' mid - iget l mid))"

lemma reconcile_loop_ok:
  assumes "wf_members members" and "members \<noteq> []" and "distinct ts"
    and "\<forall>mid \<in> set (member_ids members). iget l mid \<le> iget q mid"
    and "(\<Sum>mid\<leftarrow>member_ids members. iget l mid) + unheld_count current members ts \<le> (\<Sum>mid\<leftarrow>member_ids members. iget q mid)"
  shows "\<exists>asg' l'. reconcile_loop ts current members q l asg = Some (asg', l') \<and>
    reconciled ts current members q l asg asg' l'"
  using assms(3-5)
proof (induction ts arbitrary: l asg)
  case Nil
  then show ?case by (simp add: reconciled_def)
next
  case (Cons t ts)
  show ?case
  proof (cases "held_by current members t")
    case (Some m)
    have "(\<Sum>mid\<leftarrow>member_ids members. iget l mid) + unheld_count current members ts \<le> (\<Sum>mid\<leftarrow>member_ids members. iget q mid)"
      using Cons.prems(3) Some by (simp add: unheld_count_Cons)
    then obtain asg' l' where r1: "reconcile_loop ts current members q l (gset t m asg) = Some (asg', l')"
      and R: "reconciled ts current members q l (gset t m asg) asg' l'"
      using Cons.IH [of l "gset t m asg"] Cons.prems(1,2) by auto
    note r = r1 R [unfolded reconciled_def, THEN conjunct1] R [unfolded reconciled_def, THEN conjunct2, THEN conjunct1]
      R [unfolded reconciled_def, THEN conjunct2, THEN conjunct2, THEN conjunct1]
      R [unfolded reconciled_def, THEN conjunct2, THEN conjunct2, THEN conjunct2, THEN conjunct1]
      R [unfolded reconciled_def, THEN conjunct2, THEN conjunct2, THEN conjunct2, THEN conjunct2]
    have t: "map_of asg' t = Some m" using r(4) Cons.prems(1) by simp
    then have a: "assigned_to asg' mid t \<longleftrightarrow> m_id m = mid" for mid by (simp add: assigned_to_def)
    show ?thesis unfolding reconciled_def
    proof (intro exI conjI)
      show "reconcile_loop (t # ts) current members q l asg = Some (asg', l')" using Some r(1) by simp
      show "(\<Sum>mid\<leftarrow>member_ids members. iget l' mid) =
          (\<Sum>mid\<leftarrow>member_ids members. iget l mid) + unheld_count current members (t # ts)"
        using r(3) Some by (simp add: unheld_count_Cons)
      show "\<forall>mid. int (length (filter (assigned_to asg' mid) (t # ts))) =
          held_count current members (t # ts) mid + (iget l' mid - iget l mid)"
        using r(6) a Some by (simp add: held_count_Cons)
      show "\<forall>t' \<in> set (t # ts). \<exists>m \<in> set (map snd members). map_of asg' t' = Some m \<and>
          held_by current members t' \<in> {None, Some m}"
        using r(5) t Some held_by_member [OF assms(1) Some] by auto
    qed (use r(2,4) Cons.prems(1) in auto)
  next
    case None
    have u: "unheld_count current members (t # ts) = unheld_count current members ts + 1"
      using None by (simp add: unheld_count_Cons)
    have "bounded_loads members q l"
      unfolding bounded_loads_def free_quota_def
    proof
      fix m assume "m \<in> set (map snd members)"
      then have "m_id m \<in> set (member_ids members)"
        using assms(1) by (auto simp: member_ids_def wf_members_def) (force simp: image_iff)
      then show "- (2 ^ 62) < iget q (m_id m) - iget l (m_id m)" using Cons.prems(2) by force
    qed
    moreover have "(\<Sum>mid\<leftarrow>member_ids members. iget l mid) < (\<Sum>mid\<leftarrow>member_ids members. iget q mid)"
      using Cons.prems(3) u unheld_count_nonneg [of current members ts] by simp
    ultimately obtain a where a: "a \<in> set (map snd members)"
      "pick_assignee t members q l = Some (Some a, gset (m_id a) (iget l (m_id a) + 1) l)" "iget l (m_id a) < iget q (m_id a)"
      using pick_assignee_free [OF assms(1,2)] by blast
    define l1 where "l1 = gset (m_id a) (iget l (m_id a) + 1) l"
    have "m_id a \<in> set (member_ids members)"
      using a(1) assms(1) by (auto simp: member_ids_def wf_members_def) (force simp: image_iff)
    then have s: "(\<Sum>mid\<leftarrow>member_ids members. iget l1 mid) = (\<Sum>mid\<leftarrow>member_ids members. iget l mid) + 1"
      unfolding l1_def using assms(1) by (intro sum_gset) (simp_all add: member_ids_def wf_members_def wf_gmap_def)
    have le: "\<forall>mid \<in> set (member_ids members). iget l1 mid \<le> iget q mid"
      using Cons.prems(2) a(3) by (simp add: l1_def)
    have "(\<Sum>mid\<leftarrow>member_ids members. iget l1 mid) + unheld_count current members ts \<le> (\<Sum>mid\<leftarrow>member_ids members. iget q mid)"
      using Cons.prems(3) u s by simp
    then obtain asg' l' where r1: "reconcile_loop ts current members q l1 (gset t a asg) = Some (asg', l')"
      and R: "reconciled ts current members q l1 (gset t a asg) asg' l'"
      using Cons.IH [of l1 "gset t a asg"] Cons.prems(1,2) le by auto
    note r = r1 R [unfolded reconciled_def, THEN conjunct1] R [unfolded reconciled_def, THEN conjunct2, THEN conjunct1]
      R [unfolded reconciled_def, THEN conjunct2, THEN conjunct2, THEN conjunct1]
      R [unfolded reconciled_def, THEN conjunct2, THEN conjunct2, THEN conjunct2, THEN conjunct1]
      R [unfolded reconciled_def, THEN conjunct2, THEN conjunct2, THEN conjunct2, THEN conjunct2]
    have t: "map_of asg' t = Some a" using r(4) Cons.prems(1) by simp
    then have at: "assigned_to asg' mid t \<longleftrightarrow> m_id a = mid" for mid by (simp add: assigned_to_def)
    show ?thesis unfolding reconciled_def
    proof (intro exI conjI)
      show "reconcile_loop (t # ts) current members q l asg = Some (asg', l')"
        using None a(2) r(1) by (simp add: l1_def)
      show "(\<Sum>mid\<leftarrow>member_ids members. iget l' mid) =
          (\<Sum>mid\<leftarrow>member_ids members. iget l mid) + unheld_count current members (t # ts)"
        using r(3) s u by simp
      show "\<forall>mid. int (length (filter (assigned_to asg' mid) (t # ts))) =
          held_count current members (t # ts) mid + (iget l' mid - iget l mid)"
        using r(6) at None by (simp add: held_count_Cons l1_def)
      show "\<forall>t' \<in> set (t # ts). \<exists>m \<in> set (map snd members). map_of asg' t' = Some m \<and>
          held_by current members t' \<in> {None, Some m}"
        using r(5) t None a(1) by auto
    qed (use r(2,4) Cons.prems(1) in auto)
  qed
qed

lemma sum_list_le_eq:
  "\<forall>x \<in> set xs. f x \<le> (g x :: int) \<Longrightarrow> (\<Sum>x\<leftarrow>xs. f x) = (\<Sum>x\<leftarrow>xs. g x) \<Longrightarrow> \<forall>x \<in> set xs. f x = g x"
proof (induction xs)
  case (Cons x xs)
  have xs: "\<forall>y \<in> set xs. f y \<le> g y" and x: "f x \<le> g x" using Cons.prems(1) by auto
  then have "(\<Sum>x\<leftarrow>xs. f x) \<le> (\<Sum>x\<leftarrow>xs. g x)" by (intro sum_list_mono) blast
  then have "f x = g x" "(\<Sum>x\<leftarrow>xs. f x) = (\<Sum>x\<leftarrow>xs. g x)" using x Cons.prems(2) by simp_all
  with Cons.IH [OF xs] show ?case by auto
qed simp

lemma held_count_sum:
  assumes "wf_members members"
  shows "(\<Sum>mid\<leftarrow>member_ids members. held_count current members ts mid) + unheld_count current members ts = int (length ts)"
proof (induction ts)
  case (Cons t ts)
  have d: "distinct (member_ids members)" using assms by (simp add: member_ids_def wf_members_def wf_gmap_def)
  show ?case
  proof (cases "held_by current members t")
    case None
    with Cons.IH show ?thesis by (simp add: held_count_Cons unheld_count_Cons)
  next
    case (Some m)
    have "m_id m \<in> set (member_ids members)"
      using held_by_member [OF assms Some] assms by (auto simp: member_ids_def wf_members_def) (force simp: image_iff)
    moreover have "(\<Sum>mid\<leftarrow>ids. held_count current members (t # ts) mid) =
        (\<Sum>mid\<leftarrow>ids. held_count current members ts mid) + (if m_id m \<in> set ids then 1 else 0)" if "distinct ids" for ids
      using that Some by (induction ids) (auto simp: held_count_Cons)
    ultimately show ?thesis using Cons.IH d Some by (simp add: unheld_count_Cons)
  qed
qed simp

section \<open>Properties\<close>

text \<open>C26. The quotas of the members add up to the number of targets and differ by at most one.\<close>

theorem quota_fair:
  assumes "wf_gmap members" and "members \<noteq> []" and "0 \<le> load"
  shows "\<exists>q. calculate_members_quota members load = Some q \<and>
    (\<Sum>mid\<leftarrow>map fst members. iget q mid) = load \<and>
    (\<forall>a \<in> set (map fst members). \<forall>b \<in> set (map fst members). \<bar>iget q a - iget q b\<bar> \<le> 1)"
proof -
  obtain q where q: "calculate_members_quota members load = Some q" "(\<Sum>mid\<leftarrow>map fst members. iget q mid) = load"
    "\<forall>mid \<in> set (map fst members). iget q mid = load div int (length members) \<or>
      iget q mid = load div int (length members) + 1"
    using quota_spec [OF assms] by blast
  have "\<bar>iget q a - iget q b\<bar> \<le> 1" if "a \<in> set (map fst members)" "b \<in> set (map fst members)" for a b
    using bspec [OF q(3) that(1)] bspec [OF q(3) that(2)] by arith
  with q(1,2) show ?thesis by blast
qed

theorem quota_fair_witness:
  "\<exists>q. calculate_members_quota [(''b'', ()), (''a'', ())] 5 = Some q \<and> iget q ''a'' + iget q ''b'' = 5 \<and>
    \<bar>iget q ''a'' - iget q ''b''\<bar> \<le> 1"
  using quota_fair [of "[(''b'', ()), (''a'', ())]" 5] by (auto simp: wf_gmap_def add.commute)

text \<open>C23. The assignee of a target does not depend on the order in which Go visits the map of members, and no
  member has more free quota than it.\<close>

theorem pick_assignee_order_independent:
  assumes "wf_members members" and "wf_members members'" and "set members' = set members" and "members \<noteq> []"
    and "bounded_loads members q l"
  shows "pick_assignee t members' q l = pick_assignee t members q l \<and>
    (\<exists>r. fst (the (pick_assignee t members q l)) = Some r \<and> r \<in> set (map snd members) \<and>
      (\<forall>m \<in> set (map snd members). free_quota q l m \<le> free_quota q l r))"
proof -
  have "members' \<noteq> []" "bounded_loads members' q l" and s: "set (map snd members') = set (map snd members)"
    using assms(3-5) by (auto simp: bounded_loads_def)
  then obtain r' where r': "r' \<in> set (map snd members)"
    "pick_assignee t members' q l = Some (Some r', gset (m_id r') (iget l (m_id r') + 1) l)"
    "\<forall>m \<in> set (map snd members). pick_key t q l r' \<le> pick_key t q l m"
    using pick_assignee_min [OF assms(2)] by metis
  obtain r where r: "r \<in> set (map snd members)"
    "pick_assignee t members q l = Some (Some r, gset (m_id r) (iget l (m_id r) + 1) l)"
    "\<forall>m \<in> set (map snd members). pick_key t q l r \<le> pick_key t q l m"
    using pick_assignee_min [OF assms(1,4,5)] by blast
  have "pick_key t q l r = pick_key t q l r'" using r(1,3) r'(1,3) by (intro antisym) blast+
  then have "m_id r = m_id r'" by (rule pick_key_inj)
  then have "r = r'" by (rule wf_members_eq [OF assms(1) r(1) r'(1)])
  moreover have "free_quota q l m \<le> free_quota q l r" if "m \<in> set (map snd members)" for m
    using r(3) that by (fastforce simp: pick_key_def)
  ultimately show ?thesis using r r' by auto
qed

definition sample_member :: "string \<Rightarrow> member" where
  "sample_member mid = \<lparr>m_id = mid, m_address = [], m_labels = [], m_load = 0, m_targets = []\<rparr>"

theorem pick_assignee_order_independent_witness:
  "pick_assignee ''t'' [(''a'', sample_member ''a''), (''b'', sample_member ''b'')] [(''a'', 1), (''b'', 2)] [] =
   pick_assignee ''t'' [(''b'', sample_member ''b''), (''a'', sample_member ''a'')] [(''a'', 1), (''b'', 2)] []"
  using pick_assignee_order_independent [of "[(''b'', sample_member ''b''), (''a'', sample_member ''a'')]"
      "[(''a'', sample_member ''a''), (''b'', sample_member ''b'')]" "[(''a'', 1), (''b'', 2)]" "[]" "''t''"]
  by (auto simp: wf_members_def wf_gmap_def sample_member_def bounded_loads_def free_quota_def iget_def)

text \<open>C20. A reconciliation keeps every target with the member that holds its lock and spreads the others so that,
  in the end, every member has exactly its quota. This is under two conditions: the loads the leader has
  read are, member by member, the numbers of configured targets whose lock the member holds, and no
  member holds more than its quota, for a target is never taken away from its holder here.\<close>

theorem reconcile_reaches_quota:
  assumes "wf_members members" and "members \<noteq> []" and "distinct targets"
    and "calculate_members_quota members (int (length targets)) = Some q"
    and "\<forall>mid \<in> set (member_ids members). iget l mid = held_count current members targets mid \<and> iget l mid \<le> iget q mid"
  shows "\<exists>asg l'. reconcile_loop targets current members q l [] = Some (asg, l') \<and>
    (\<forall>t \<in> set targets. \<exists>m \<in> set (map snd members). map_of asg t = Some m \<and> held_by current members t \<in> {None, Some m}) \<and>
    (\<forall>mid \<in> set (member_ids members). int (length (filter (assigned_to asg mid) targets)) = iget q mid)"
proof -
  let ?ids = "member_ids members"
  have qs: "(\<Sum>mid\<leftarrow>?ids. iget q mid) = int (length targets)"
    using quota_spec [of members "int (length targets)"] assms(1,2,4) by (simp add: wf_members_def member_ids_def)
  have ls: "(\<Sum>mid\<leftarrow>?ids. iget l mid) = (\<Sum>mid\<leftarrow>?ids. held_count current members targets mid)"
    using assms(5) by (intro arg_cong [where f = sum_list] map_cong) auto
  then have all: "(\<Sum>mid\<leftarrow>?ids. iget l mid) + unheld_count current members targets = (\<Sum>mid\<leftarrow>?ids. iget q mid)"
    using held_count_sum [OF assms(1), of current targets] qs by simp
  have "\<exists>asg l'. reconcile_loop targets current members q l [] = Some (asg, l') \<and>
      reconciled targets current members q l [] asg l'"
  proof (rule reconcile_loop_ok [OF assms(1-3)])
    show "\<forall>mid \<in> set ?ids. iget l mid \<le> iget q mid" using assms(5) by blast
  qed (simp add: all)
  then obtain asg l' where r1: "reconcile_loop targets current members q l [] = Some (asg, l')"
    and R: "reconciled targets current members q l [] asg l'" by blast
  note r = r1 R [unfolded reconciled_def, THEN conjunct1] R [unfolded reconciled_def, THEN conjunct2, THEN conjunct1]
    R [unfolded reconciled_def, THEN conjunct2, THEN conjunct2, THEN conjunct2, THEN conjunct1]
    R [unfolded reconciled_def, THEN conjunct2, THEN conjunct2, THEN conjunct2, THEN conjunct2]
  have "\<forall>mid \<in> set ?ids. iget l' mid = iget q mid"
    using r(2,3) all by (intro sum_list_le_eq) simp_all
  with r assms(5) show ?thesis by (intro exI [of _ asg] exI [of _ l']) simp
qed

theorem reconcile_reaches_quota_witness:
  "\<exists>asg l'. reconcile_loop [''t1'', ''t2'', ''t3''] [(''t2'', sample_member ''b'')]
     [(''a'', sample_member ''a''), (''b'', sample_member ''b'')] [(''a'', 2), (''b'', 1)] [(''b'', 1)] [] = Some (asg, l') \<and>
     int (length (filter (assigned_to asg ''a'') [''t1'', ''t2'', ''t3''])) = 2"
proof -
  let ?ms = "[(''a'', sample_member ''a''), (''b'', sample_member ''b'')]"
  have s: "sort [''a'', ''b''] = [''a'', ''b'']" by (simp add: list_le_def list_less_def)
  let ?ts = "[''t1'', ''t2'', ''t3'']" and ?cur = "[(''t2'', sample_member ''b'')]"
    and ?q = "[(''a'', 2), (''b'', 1)]" and ?l = "[(''b'', 1)]"
  have c: "calculate_members_quota ?ms (int (length ?ts)) = Some ?q"
    by (simp add: calculate_members_quota_def sdiv_smod_nonneg s Let_def)
  have w: "wf_members ?ms" by (simp add: wf_members_def wf_gmap_def sample_member_def)
  have "held_by ?cur ?ms t = (if t = ''t2'' then Some (sample_member ''b'') else None)" for t
    by (simp add: held_by_def sample_member_def)
  then have h: "held_count ?cur ?ms ?ts mid = (if mid = ''b'' then 1 else 0)" for mid
    by (simp add: held_count_def sample_member_def)
  have "\<exists>asg l'. reconcile_loop ?ts ?cur ?ms ?q ?l [] = Some (asg, l') \<and>
      (\<forall>t \<in> set ?ts. \<exists>m \<in> set (map snd ?ms). map_of asg t = Some m \<and> held_by ?cur ?ms t \<in> {None, Some m}) \<and>
      (\<forall>mid \<in> set (member_ids ?ms). int (length (filter (assigned_to asg mid) ?ts)) = iget ?q mid)"
    by (rule reconcile_reaches_quota [OF w _ _ c]) (simp_all add: member_ids_def h iget_def)
  then obtain asg l' where "reconcile_loop ?ts ?cur ?ms ?q ?l [] = Some (asg, l')"
    "\<forall>mid \<in> set (member_ids ?ms). int (length (filter (assigned_to asg mid) ?ts)) = iget ?q mid" by blast
  moreover from this(2) have "int (length (filter (assigned_to asg ''a'') ?ts)) = iget ?q ''a''"
    unfolding member_ids_def by (rule bspec) simp
  ultimately show ?thesis by (intro exI conjI) (simp_all only: iget_def, simp)
qed

end
