(* ===== verification/Cluster_Rebalance.thy ===== *)
theory Cluster_Rebalance
  imports Cluster_Placement
begin

text \<open>
  The rebalancing plan of \<open>rebalance.go\<close>: members above their quota give targets to members below
  theirs. \<open>rand.Shuffle\<close> is a parameter \<open>shuf\<close>, a function of the member and its targets. The
  loop over the receivers of one donor may run forever, so it is a partial function into
  \<open>option\<close>; the theory shows that it does return when the loads are the numbers of targets.
\<close>

section \<open>The algorithm\<close>

record donor =
  dn_id :: string
  dn_surplus :: int
  dn_pool :: "string list"

type_synonym moves = "member option gmap"

text \<open>The scan of a donor's pool: the first \<open>k\<close> targets move, the others are kept.\<close>

fun scan_pool :: "member option \<Rightarrow> int \<Rightarrow> string list \<Rightarrow> int \<Rightarrow> moves \<Rightarrow> int \<times> string list \<times> moves" where
  "scan_pool dst k [] taken moves = (taken, [], moves)"
| "scan_pool dst k (t # ts) taken moves =
    (if taken < k then scan_pool dst k ts (taken + 1) (gset t dst moves)
     else (case scan_pool dst k ts taken moves of (n, pool, mv) \<Rightarrow> (n, t # pool, mv)))"

text \<open>
  Receivers are pointers that stay in the queue while their need changes: the queue holds their
  identifiers and \<open>needs\<close> what they point to. A receiver that got nothing is rotated twice.
\<close>

partial_function (option) donor_loop ::
  "members \<Rightarrow> int \<Rightarrow> string list \<Rightarrow> string list \<Rightarrow> int gmap \<Rightarrow> moves \<Rightarrow> (string list \<times> int gmap \<times> moves) option" where
  "donor_loop members surplus pool receivers needs moves =
    (if surplus > 0 \<and> receivers \<noteq> [] then
       (let r = hd receivers in
        if iget needs r = 0 then donor_loop members surplus pool (tl receivers) needs moves
        else
          (let scan = scan_pool (map_of members r) (min surplus (iget needs r)) pool 0 moves;
               taken = fst scan; pool' = fst (snd scan); moves' = snd (snd scan);
               needs' = gset r (iget needs r - taken) needs;
               rs = (if iget needs' r = 0 then tl receivers else tl receivers @ [r])
           in if taken = 0 then
                (if length (tl rs @ [r]) = 1 then Some (tl rs @ [r], needs', moves')
                 else donor_loop members (surplus - taken) pool' (tl rs @ [r]) needs' moves')
              else donor_loop members (surplus - taken) pool' rs needs' moves'))
     else Some (receivers, needs, moves))"

fun donors_loop :: "members \<Rightarrow> donor list \<Rightarrow> string list \<Rightarrow> int gmap \<Rightarrow> moves \<Rightarrow> moves option" where
  "donors_loop members [] receivers needs moves = Some moves"
| "donors_loop members (d # ds) receivers needs moves =
    (case donor_loop members (dn_surplus d) (dn_pool d) receivers needs moves of
      None \<Rightarrow> None
    | Some (receivers', needs', moves') \<Rightarrow> donors_loop members ds receivers' needs' moves')"

text \<open>Who gives and who takes, in the order of the identifiers.\<close>

fun split_members ::
  "(string \<Rightarrow> string list \<Rightarrow> string list) \<Rightarrow> int gmap \<Rightarrow> members \<Rightarrow> donor list \<times> string list \<times> int gmap" where
  "split_members shuf q [] = ([], [], [])"
| "split_members shuf q ((mid, m) # ms) =
    (case split_members shuf q ms of
      (donors, receivers, needs) \<Rightarrow>
        if m_load m > iget q mid then
          (\<lparr>dn_id = mid, dn_surplus = m_load m - iget q mid, dn_pool = shuf mid (m_targets m)\<rparr> # donors,
           receivers, needs)
        else if m_load m < iget q mid then
          (donors, mid # receivers, gset mid (iget q mid - m_load m) needs)
        else (donors, receivers, needs))"

text \<open>The outer \<open>None\<close> is a run that does not end, the inner one the nil plan.\<close>

definition rebalance :: "(string \<Rightarrow> string list \<Rightarrow> string list) \<Rightarrow> members \<Rightarrow> member option nmap option" where
  "rebalance shuf members =
    (let load = (\<Sum>m\<leftarrow>map snd members. m_load m);
         q = entries (calculate_members_quota members load)
     in if q = [] then Some None
        else
          (case split_members shuf q (sort_key fst members) of
            (donors, receivers, needs) \<Rightarrow>
              if donors = [] \<or> receivers = [] then Some None
              else map_option Some (donors_loop members donors receivers needs [])))"

section \<open>One donor\<close>

lemma scan_pool_stop: "k \<le> taken \<Longrightarrow> scan_pool dst k pool taken moves = (taken, pool, moves)"
  by (induction pool) auto

lemma scan_pool_eq:
  assumes "distinct pool" and "set pool \<inter> fst ` set moves = {}" and "taken \<le> k" and "k - taken \<le> int (length pool)"
  shows "scan_pool dst k pool taken moves =
    (k, drop (nat (k - taken)) pool, moves @ map (\<lambda>t. (t, dst)) (take (nat (k - taken)) pool))"
  using assms
proof (induction pool arbitrary: taken moves)
  case (Cons t ts)
  show ?case
  proof (cases "taken < k")
    case True
    then have n: "nat (k - taken) = Suc (nat (k - (taken + 1)))" by simp
    have "gset t dst moves = moves @ [(t, dst)]" using Cons.prems(2) by (intro gset_fresh) auto
    with True Cons.prems Cons.IH [of "moves @ [(t, dst)]" "taken + 1"] show ?thesis
      unfolding n by auto
  next
    case False
    with Cons.prems show ?thesis by (simp add: scan_pool_stop)
  qed
qed simp

text \<open>What a run over some donors does: \<open>dsts\<close> are the receivers of the targets \<open>ts\<close>.\<close>

definition served ::
  "string list \<Rightarrow> int gmap \<Rightarrow> string list \<Rightarrow> int gmap \<Rightarrow> string list \<Rightarrow> bool" where
  "served rs needs rs' needs' dsts \<longleftrightarrow>
    set dsts \<subseteq> set rs \<and> distinct rs' \<and> set rs' \<subseteq> set rs \<and> (\<forall>r \<in> set rs'. 0 < iget needs' r) \<and>
    (\<forall>r \<in> set rs - set rs'. iget needs' r = 0) \<and>
    (\<forall>r. iget needs' r = iget needs r - int (count_list dsts r)) \<and>
    (\<Sum>r\<leftarrow>rs'. iget needs' r) = (\<Sum>r\<leftarrow>rs. iget needs r) - int (length dsts)"

lemma served_refl: "distinct rs \<Longrightarrow> \<forall>r \<in> set rs. 0 < iget needs r \<Longrightarrow> served rs needs rs needs []"
  by (simp add: served_def)

lemma served_trans:
  assumes "served rs needs rs1 needs1 ds1" and "served rs1 needs1 rs2 needs2 ds2"
  shows "served rs needs rs2 needs2 (ds1 @ ds2)"
proof -
  have z: "iget needs2 r = 0" if "r \<in> set rs" "r \<notin> set rs2" for r
  proof (cases "r \<in> set rs1")
    case True
    moreover have "\<forall>r \<in> set rs1 - set rs2. iget needs2 r = 0" using assms(2) unfolding served_def by blast
    ultimately show ?thesis using that by blast
  next
    case False
    then have "iget needs1 r = 0" "count_list ds2 r = 0"
      using that assms by (auto simp: served_def count_list_0_iff)
    with assms(2) show ?thesis by (simp add: served_def)
  qed
  show ?thesis using assms z by (auto simp: served_def)
qed

lemma count_list_replicate [simp]: "count_list (replicate n x) y = (if x = y then n else 0)"
  by (induction n) auto

lemma sum_other: "r \<notin> set rs \<Longrightarrow> (\<Sum>x\<leftarrow>rs. iget (gset r v needs) x) = (\<Sum>x\<leftarrow>rs. iget needs x)"
  by (intro arg_cong [where f = sum_list] map_cong) auto

lemma served_front:
  assumes "distinct (r # rt)" and "\<forall>x \<in> set (r # rt). 0 < iget needs x" and "0 < k" and "k \<le> iget needs r"
  shows "served (r # rt) needs (if iget needs r - k = 0 then rt else rt @ [r]) (gset r (iget needs r - k) needs) (replicate (nat k) r)"
  using assms sum_other [of r rt "iget needs r - k" needs] by (auto simp: served_def)

definition sent :: "members \<Rightarrow> string list \<Rightarrow> string list \<Rightarrow> moves" where
  "sent members ts dsts = zip ts (map (map_of members) dsts)"

lemma sent_append: "length ts = length dsts \<Longrightarrow> sent members (ts @ ts') (dsts @ dsts') = sent members ts dsts @ sent members ts' dsts'"
  by (simp add: sent_def)

lemma sent_replicate: "length ts = n \<Longrightarrow> sent members ts (replicate n r) = map (\<lambda>t. (t, map_of members r)) ts"
  by (induction n arbitrary: ts) (auto simp: sent_def length_Suc_conv)

lemma fst_sent: "length ts = length dsts \<Longrightarrow> fst ` set (sent members ts dsts) = set ts"
  by (simp add: sent_def flip: set_map)

lemma donor_loop_ok:
  assumes "0 \<le> s" and "s \<le> int (length pool)" and "distinct pool" and "set pool \<inter> fst ` set moves = {}"
    and "distinct rs" and "\<forall>r \<in> set rs. 0 < iget needs r" and "s \<le> (\<Sum>r\<leftarrow>rs. iget needs r)"
  shows "\<exists>rs' needs' dsts. donor_loop members s pool rs needs moves =
      Some (rs', needs', moves @ sent members (take (nat s) pool) dsts) \<and>
    length dsts = nat s \<and> served rs needs rs' needs' dsts"
  using assms
proof (induction "nat s" arbitrary: s pool moves rs needs rule: less_induct)
  case less
  show ?case
  proof (cases "s = 0")
    case True
    then show ?thesis
      using served_refl [OF less.prems(5,6)] by (subst donor_loop.simps) (auto simp: sent_def)
  next
    case False
    with less.prems(1,7) obtain r rt where rs: "rs = r # rt" by (cases rs) auto
    define k where "k = min s (iget needs r)"
    have need: "0 < iget needs r" using less.prems(6) rs by simp
    with False less.prems(1) have k: "0 < k" "k \<le> s" "k \<le> iget needs r" "k \<le> int (length pool)"
      using less.prems(2) by (auto simp: k_def)
    define rs1 where "rs1 = (if iget needs r - k = 0 then rt else rt @ [r])"
    define needs1 where "needs1 = gset r (iget needs r - k) needs"
    define moves1 where "moves1 = moves @ map (\<lambda>t. (t, map_of members r)) (take (nat k) pool)"
    have scan: "scan_pool (map_of members r) k pool 0 moves = (k, drop (nat k) pool, moves1)"
      using scan_pool_eq [OF less.prems(3,4), of 0 k "map_of members r"] k by (simp add: moves1_def)
    have step: "donor_loop members s pool rs needs moves =
        donor_loop members (s - k) (drop (nat k) pool) rs1 needs1 moves1"
      using k need False less.prems(1)
      by (subst donor_loop.simps) (simp add: rs Let_def scan rs1_def needs1_def flip: k_def)
    have sv: "served rs needs rs1 needs1 (replicate (nat k) r)"
      unfolding rs rs1_def needs1_def using less.prems(5,6) k rs by (intro served_front) auto
    have dt: "set (drop (nat k) pool) \<inter> fst ` set moves1 = {}"
    proof -
      have "set (take (nat k) pool) \<inter> set (drop (nat k) pool) = {}"
        using less.prems(3) by (simp add: set_take_disj_set_drop_if_distinct)
      then show ?thesis using less.prems(4) set_drop_subset [of "nat k" pool] by (auto simp: moves1_def)
    qed
    have "\<exists>rs' needs' dsts. donor_loop members (s - k) (drop (nat k) pool) rs1 needs1 moves1 =
        Some (rs', needs', moves1 @ sent members (take (nat (s - k)) (drop (nat k) pool)) dsts) \<and>
        length dsts = nat (s - k) \<and> served rs1 needs1 rs' needs' dsts"
    proof (rule less.hyps [OF _ _ _ _ dt])
      show "nat (s - k) < nat s" using k by simp
      show "0 \<le> s - k" "s - k \<le> int (length (drop (nat k) pool))" "distinct (drop (nat k) pool)"
        using k less.prems(2,3) by auto
      show "distinct rs1" "\<forall>r \<in> set rs1. 0 < iget needs1 r" "s - k \<le> (\<Sum>r\<leftarrow>rs1. iget needs1 r)"
        using sv less.prems(7) k by (auto simp: served_def)
    qed
    then obtain rs' needs' dsts where r: "donor_loop members (s - k) (drop (nat k) pool) rs1 needs1 moves1 =
        Some (rs', needs', moves1 @ sent members (take (nat (s - k)) (drop (nat k) pool)) dsts)"
      "length dsts = nat (s - k)" "served rs1 needs1 rs' needs' dsts" by blast
    have n: "nat s = nat k + nat (s - k)" using k by simp
    have "moves1 @ sent members (take (nat (s - k)) (drop (nat k) pool)) dsts =
        moves @ sent members (take (nat s) pool) (replicate (nat k) r @ dsts)"
      unfolding n take_add using k by (subst sent_append) (simp_all add: moves1_def sent_replicate)
    then have "donor_loop members s pool rs needs moves =
        Some (rs', needs', moves @ sent members (take (nat s) pool) (replicate (nat k) r @ dsts))"
      using step r(1) by simp
    moreover have "length (replicate (nat k) r @ dsts) = nat s" using r(2) n by simp
    moreover have "served rs needs rs' needs' (replicate (nat k) r @ dsts)" by (rule served_trans [OF sv r(3)])
    ultimately show ?thesis by blast
  qed
qed

section \<open>All donors\<close>

definition given :: "donor list \<Rightarrow> string list" where
  "given ds = concat (map (\<lambda>d. take (nat (dn_surplus d)) (dn_pool d)) ds)"

definition wf_donors :: "donor list \<Rightarrow> bool" where
  "wf_donors ds \<longleftrightarrow> (\<forall>d \<in> set ds. 0 \<le> dn_surplus d \<and> dn_surplus d \<le> int (length (dn_pool d))) \<and>
    distinct (concat (map dn_pool ds))"

lemma set_given: "set (given ds) \<subseteq> set (concat (map dn_pool ds))"
  by (auto simp: given_def dest: in_set_takeD)

lemma length_given: "wf_donors ds \<Longrightarrow> int (length (given ds)) = (\<Sum>d\<leftarrow>ds. dn_surplus d)"
  by (induction ds) (auto simp: given_def wf_donors_def)

lemma distinct_given: "wf_donors ds \<Longrightarrow> distinct (given ds)"
proof (induction ds)
  case (Cons d ds)
  then have "wf_donors ds" "set (dn_pool d) \<inter> set (concat (map dn_pool ds)) = {}" "distinct (dn_pool d)"
    by (auto simp: wf_donors_def)
  with Cons.IH set_given [of ds] show ?case by (auto simp: given_def dest: in_set_takeD)
qed (simp add: given_def)

lemma donors_loop_ok:
  assumes "wf_donors ds" and "set (concat (map dn_pool ds)) \<inter> fst ` set moves = {}"
    and "distinct rs" and "\<forall>r \<in> set rs. 0 < iget needs r" and "(\<Sum>d\<leftarrow>ds. dn_surplus d) \<le> (\<Sum>r\<leftarrow>rs. iget needs r)"
  shows "\<exists>rs' needs' dsts. donors_loop members ds rs needs moves = Some (moves @ sent members (given ds) dsts) \<and>
    length dsts = length (given ds) \<and> served rs needs rs' needs' dsts"
  using assms
proof (induction ds arbitrary: rs needs moves)
  case Nil
  then show ?case using served_refl by (fastforce simp: given_def sent_def)
next
  case (Cons d ds)
  let ?s = "dn_surplus d"
  have wf: "wf_donors ds" "0 \<le> ?s" "?s \<le> int (length (dn_pool d))" "distinct (dn_pool d)"
    "set (dn_pool d) \<inter> set (concat (map dn_pool ds)) = {}"
    using Cons.prems(1) by (auto simp: wf_donors_def)
  then have pos: "0 \<le> (\<Sum>d\<leftarrow>ds. dn_surplus d)"
    using length_given [of ds] by simp
  have "\<exists>rs' needs' dsts. donor_loop members ?s (dn_pool d) rs needs moves =
      Some (rs', needs', moves @ sent members (take (nat ?s) (dn_pool d)) dsts) \<and>
      length dsts = nat ?s \<and> served rs needs rs' needs' dsts"
    using Cons.prems pos wf by (intro donor_loop_ok) auto
  then obtain rs1 needs1 ds1 where d1: "donor_loop members ?s (dn_pool d) rs needs moves =
      Some (rs1, needs1, moves @ sent members (take (nat ?s) (dn_pool d)) ds1)"
    "length ds1 = nat ?s" "served rs needs rs1 needs1 ds1" by blast
  let ?m1 = "moves @ sent members (take (nat ?s) (dn_pool d)) ds1"
  have l1: "length (take (nat ?s) (dn_pool d)) = length ds1" using d1(2) wf(2,3) by simp
  then have "fst ` set ?m1 = fst ` set moves \<union> set (take (nat ?s) (dn_pool d))"
    using fst_sent [OF l1] by (simp add: image_Un)
  then have "set (concat (map dn_pool ds)) \<inter> fst ` set ?m1 = {}"
    using Cons.prems(2) wf(5) by (auto dest: in_set_takeD)
  moreover have "distinct rs1" "\<forall>r \<in> set rs1. 0 < iget needs1 r"
    "(\<Sum>d\<leftarrow>ds. dn_surplus d) \<le> (\<Sum>r\<leftarrow>rs1. iget needs1 r)"
    using d1(2,3) Cons.prems(5) wf(2) by (auto simp: served_def)
  ultimately have "\<exists>rs' needs' dsts. donors_loop members ds rs1 needs1 ?m1 = Some (?m1 @ sent members (given ds) dsts) \<and>
      length dsts = length (given ds) \<and> served rs1 needs1 rs' needs' dsts"
    using wf(1) by (intro Cons.IH)
  then obtain rs2 needs2 ds2 where d2: "donors_loop members ds rs1 needs1 ?m1 = Some (?m1 @ sent members (given ds) ds2)"
    "length ds2 = length (given ds)" "served rs1 needs1 rs2 needs2 ds2" by blast
  have g: "given (d # ds) = take (nat ?s) (dn_pool d) @ given ds" by (simp add: given_def)
  have "donors_loop members (d # ds) rs needs moves = Some (moves @ sent members (given (d # ds)) (ds1 @ ds2))"
    using d1(1) d2(1) by (simp add: g sent_append [OF l1])
  moreover have "length (ds1 @ ds2) = length (given (d # ds))" using l1 d2(2) by (simp add: g)
  moreover have "served rs needs rs2 needs2 (ds1 @ ds2)" by (rule served_trans [OF d1(3) d2(3)])
  ultimately show ?case by blast
qed

section \<open>Who gives and who takes\<close>

lemma split_members_ids:
  "split_members shuf q ms = (ds, rs, needs) \<Longrightarrow>
   (\<forall>r \<in> set rs. r \<in> fst ` set ms) \<and> (\<forall>r. r \<notin> fst ` set ms \<longrightarrow> iget needs r = 0)"
  by (induction ms arbitrary: ds rs needs) (auto simp: iget_def [of "[]"] split: prod.splits if_splits)

lemma split_members_needs:
  assumes "split_members shuf q ms = (ds, rs, needs)" and "distinct (map fst ms)"
  shows "distinct rs \<and> (\<forall>r \<in> set rs. 0 < iget needs r) \<and>
    (\<forall>(mid, m) \<in> set ms. iget needs mid = max 0 (iget q mid - m_load m) \<and> (mid \<in> set rs \<longleftrightarrow> m_load m < iget q mid)) \<and>
    (\<Sum>r\<leftarrow>rs. iget needs r) - (\<Sum>d\<leftarrow>ds. dn_surplus d) = (\<Sum>(mid, m)\<leftarrow>ms. iget q mid - m_load m)"
  using assms
proof (induction ms arbitrary: ds rs needs)
  case (Cons x ms)
  obtain mid m where x: "x = (mid, m)" by (cases x)
  obtain ds1 rs1 needs1 where s: "split_members shuf q ms = (ds1, rs1, needs1)" by (cases "split_members shuf q ms") auto
  have d: "distinct (map fst ms)" "mid \<notin> fst ` set ms" using Cons.prems(2) x by auto
  note ih = Cons.IH [OF s d(1)] and ids = split_members_ids [OF s]
  have new: "mid \<notin> set rs1" "iget needs1 mid = 0" using ids d(2) by auto
  have ms: "\<forall>(k, m) \<in> set ms. k \<noteq> mid" using d(2) by force
  consider "m_load m > iget q mid" | "m_load m < iget q mid" | "m_load m = iget q mid" by linarith
  then show ?case
  proof cases
    case 1
    then have "ds = \<lparr>dn_id = mid, dn_surplus = m_load m - iget q mid, dn_pool = shuf mid (m_targets m)\<rparr> # ds1"
      "rs = rs1" "needs = needs1" using Cons.prems(1) x s by auto
    with 1 ih new x show ?thesis by auto
  next
    case 2
    then have e: "ds = ds1" "rs = mid # rs1" "needs = gset mid (iget q mid - m_load m) needs1"
      using Cons.prems(1) x s by auto
    have "(\<Sum>r\<leftarrow>rs1. iget needs r) = (\<Sum>r\<leftarrow>rs1. iget needs1 r)"
      unfolding e(3) by (rule sum_other [OF new(1)])
    with 2 ih new x ms e show ?thesis by auto
  next
    case 3
    then have "ds = ds1" "rs = rs1" "needs = needs1" using Cons.prems(1) x s by auto
    with 3 ih new x show ?thesis by auto
  qed
qed auto

lemma length_filter_take:
  assumes "mset xs' = mset xs" and "distinct xs" and "n \<le> length xs"
  shows "length (filter (\<lambda>t. t \<in> set (take n xs')) xs) = n"
proof -
  have "distinct xs'" "set xs' = set xs" "length xs' = length xs"
    using assms(2) mset_eq_imp_distinct_iff [OF assms(1)] mset_eq_setD [OF assms(1)] mset_eq_length [OF assms(1)]
    by simp_all
  then have "{t. t \<in> set (take n xs')} \<inter> set xs = set (take n xs')" "card (set (take n xs')) = n"
    using assms(3) by (auto dest: in_set_takeD simp: distinct_card)
  then show ?thesis by (simp add: distinct_length_filter [OF assms(2)])
qed

text \<open>The targets of the members, and the facts about them and the donors that the plan rests on.\<close>

definition all_targets :: "members \<Rightarrow> string list" where
  "all_targets ms = concat (map (\<lambda>(mid, m). m_targets m) ms)"

definition counted :: "members \<Rightarrow> bool" where
  "counted ms \<longleftrightarrow> (\<forall>(mid, m) \<in> set ms. m_load m = int (length (m_targets m))) \<and> distinct (all_targets ms)"

lemma split_members_donors:
  assumes "split_members shuf q ms = (ds, rs, needs)" and "counted ms" and "\<And>i xs. mset (shuf i xs) = mset xs"
    and "\<And>i. 0 \<le> iget q i"
  shows "wf_donors ds \<and> set (concat (map dn_pool ds)) \<subseteq> set (all_targets ms) \<and>
    (\<forall>(mid, m) \<in> set ms. int (length (filter (\<lambda>t. t \<in> set (given ds)) (m_targets m))) = max 0 (m_load m - iget q mid))"
  using assms(1,2)
proof (induction ms arbitrary: ds rs needs)
  case Nil
  then show ?case by (simp add: wf_donors_def)
next
  case (Cons x ms)
  obtain mid m where x: "x = (mid, m)" by (cases x)
  obtain ds1 rs1 needs1 where s: "split_members shuf q ms = (ds1, rs1, needs1)" by (cases "split_members shuf q ms") auto
  have c: "counted ms" "m_load m = int (length (m_targets m))" "distinct (m_targets m)"
    "set (m_targets m) \<inter> set (all_targets ms) = {}"
    using Cons.prems(2) x by (auto simp: counted_def all_targets_def)
  have ih: "wf_donors ds1" "set (concat (map dn_pool ds1)) \<subseteq> set (all_targets ms)"
    "\<forall>(mid, m) \<in> set ms. int (length (filter (\<lambda>t. t \<in> set (given ds1)) (m_targets m))) = max 0 (m_load m - iget q mid)"
    using Cons.IH [OF s c(1)] by auto
  have all: "all_targets (x # ms) = m_targets m @ all_targets ms" using x by (simp add: all_targets_def)
  have g1: "set (given ds1) \<subseteq> set (all_targets ms)" using set_given [of ds1] ih(2) by blast
  then have none: "filter (\<lambda>t. t \<in> set (given ds1)) (m_targets m) = []" using c(4) by (auto simp: filter_empty_conv)
  show ?case
  proof (cases "m_load m > iget q mid")
    case False
    then have "ds = ds1" using Cons.prems(1) x s by (auto split: if_splits)
    moreover have "set (all_targets ms) \<subseteq> set (all_targets (x # ms))" by (simp add: all)
    ultimately show ?thesis using False ih none by (auto simp: x)
  next
    case True
    define n where "n = nat (m_load m - iget q mid)"
    let ?pool = "shuf mid (m_targets m)"
    have ds: "ds = \<lparr>dn_id = mid, dn_surplus = m_load m - iget q mid, dn_pool = ?pool\<rparr> # ds1"
      using True Cons.prems(1) x s by auto
    have p: "distinct ?pool" "set ?pool = set (m_targets m)" "length ?pool = length (m_targets m)"
      using c(3) mset_eq_imp_distinct_iff [OF assms(3)] mset_eq_setD [OF assms(3)] mset_eq_length [OF assms(3)]
      by simp_all
    have n: "n \<le> length (m_targets m)" using assms(4) [of mid] c(2) by (simp add: n_def)
    have w: "wf_donors ds"
      using ih(1,2) p c(2,4) True assms(4) [of mid] by (auto simp: ds wf_donors_def)
    have g: "given ds = take n ?pool @ given ds1" by (simp add: ds given_def n_def)
    have "filter (\<lambda>t. t \<in> set (given ds)) (m_targets m) = filter (\<lambda>t. t \<in> set (take n ?pool)) (m_targets m)"
      using none by (auto simp: g filter_empty_conv intro!: filter_cong)
    then have h: "length (filter (\<lambda>t. t \<in> set (given ds)) (m_targets m)) = n"
      using length_filter_take [OF assms(3) c(3) n] by simp
    have "filter (\<lambda>t. t \<in> set (given ds)) (m_targets m') = filter (\<lambda>t. t \<in> set (given ds1)) (m_targets m')"
      if "(mid', m') \<in> set ms" for mid' m'
    proof (rule filter_cong [OF refl])
      fix t assume "t \<in> set (m_targets m')"
      then have "t \<in> set (all_targets ms)" using that by (auto simp: all_targets_def)
      then show "(t \<in> set (given ds)) = (t \<in> set (given ds1))"
        using c(4) p(2) by (auto simp: g dest: in_set_takeD)
    qed
    then have "\<forall>(mid, m) \<in> set ms. int (length (filter (\<lambda>t. t \<in> set (given ds)) (m_targets m))) = max 0 (m_load m - iget q mid)"
      using ih(3) by auto
    moreover have "set (concat (map dn_pool ds)) \<subseteq> set (all_targets (x # ms))"
      using ih(2) p(2) by (auto simp: ds all)
    ultimately show ?thesis using w h True by (auto simp: x n_def)
  qed
qed

lemma sum_list_mset: "mset xs = mset ys \<Longrightarrow> (\<Sum>x\<leftarrow>xs. f x) = (\<Sum>x\<leftarrow>ys. f x :: 'a::comm_monoid_add)"
  by (metis mset_map sum_mset_sum_list)

lemma counted_mset:
  assumes "mset ms = mset ms'"
  shows "counted ms \<longleftrightarrow> counted ms'"
proof -
  have "mset (all_targets ms) = mset (all_targets ms')"
    unfolding all_targets_def mset_concat map_map comp_def by (rule sum_list_mset [OF assms])
  then show ?thesis
    using mset_eq_setD [OF assms] by (auto simp: counted_def dest: mset_eq_imp_distinct_iff)
qed

lemma length_filter_sent:
  assumes "length ts = length dsts" and "\<forall>d \<in> set dsts. map_option m_id (map_of members d) = Some d"
  shows "length (filter (\<lambda>(t, dst). map_option m_id dst = Some mid) (sent members ts dsts)) = count_list dsts mid"
  using assms by (induction ts dsts rule: list_induct2) (auto simp: sent_def)

lemma count_of_all_served:
  assumes "served rs needs rs' needs' dsts" and "int (length dsts) = (\<Sum>r\<leftarrow>rs. iget needs r)"
    and "\<forall>r. r \<notin> set rs \<longrightarrow> iget needs r = 0"
  shows "int (count_list dsts r) = iget needs r"
proof (cases "r \<in> set rs")
  case True
  have "rs' = []"
  proof (rule ccontr)
    assume "rs' \<noteq> []"
    then obtain a as where r: "rs' = a # as" by (cases rs') auto
    have pos: "\<forall>r \<in> set rs'. 0 < iget needs' r"
      and z: "(\<Sum>r\<leftarrow>rs'. iget needs' r) = (\<Sum>r\<leftarrow>rs. iget needs r) - int (length dsts)"
      using assms(1) unfolding served_def by blast+
    from pos have "0 \<le> (\<Sum>r\<leftarrow>as. iget needs' r)" by (intro sum_list_nonneg) (auto simp: r)
    with pos z assms(2) show False by (simp add: r)
  qed
  with True assms(1) have "iget needs' r = 0" unfolding served_def by auto
  with assms(1) show ?thesis by (simp add: served_def)
next
  case False
  then have "r \<notin> set dsts" using assms(1) by (auto simp: served_def)
  then show ?thesis using False assms(3) by (simp add: count_list_0_iff)
qed

lemma rebalance_plan:
  assumes "wf_members members" and "members \<noteq> []" and "counted members" and "\<And>i xs. mset (shuf i xs) = mset xs"
    and "calculate_members_quota members (\<Sum>m\<leftarrow>map snd members. m_load m) = Some q"
  shows "\<exists>ds rs needs dsts plan. split_members shuf q (sort_key fst members) = (ds, rs, needs) \<and>
    rebalance shuf members = Some plan \<and> entries plan = sent members (given ds) dsts \<and>
    length (given ds) = length dsts \<and> set dsts \<subseteq> set rs \<and> wf_donors ds \<and>
    (\<forall>(mid, m) \<in> set members. int (length (filter (\<lambda>t. t \<in> set (given ds)) (m_targets m))) = max 0 (m_load m - iget q mid)) \<and>
    (\<forall>(mid, m) \<in> set members. int (count_list dsts mid) = max 0 (iget q mid - m_load m))"
proof -
  let ?load = "\<Sum>m\<leftarrow>map snd members. m_load m" and ?sm = "sort_key fst members"
  obtain ds rs needs where sp: "split_members shuf q ?sm = (ds, rs, needs)" by (cases "split_members shuf q ?sm") auto
  have wfm: "wf_gmap members" using assms(1) by (simp add: wf_members_def)
  have load: "0 \<le> ?load" using assms(3) by (intro sum_list_nonneg) (auto simp: counted_def)
  have qs: "(\<Sum>mid\<leftarrow>map fst members. iget q mid) = ?load"
    "\<forall>mid \<in> set (map fst members). iget q mid = ?load div int (length members) \<or> iget q mid = ?load div int (length members) + 1"
    using quota_spec [OF wfm assms(2) load] assms(5) by auto
  have keys: "map_of q mid = None" if "mid \<notin> set (map fst members)" for mid
  proof (cases "?load = 0")
    case True
    then have "q = map (\<lambda>(mid, _). (mid, 0)) members" using assms(5) by (simp add: calculate_members_quota_def)
    then show ?thesis using that by (force simp: map_of_eq_None_iff)
  next
    case False
    have "map_of (quota_loop ids i b r acc) mid = map_of acc mid" if "mid \<notin> set ids" for ids i b r acc
      using that by (induction ids arbitrary: i acc) auto
    with False show ?thesis using assms(2,5) that by (auto simp: calculate_members_quota_def Let_def)
  qed
  have q0: "0 \<le> iget q mid" for mid
  proof (cases "mid \<in> set (map fst members)")
    case True
    have "0 \<le> ?load div int (length members)"
      by (rule pos_imp_zdiv_nonneg_iff [THEN iffD2, OF _ load]) (use assms(2) in simp)
    with qs(2) True show ?thesis by fastforce
  qed (simp add: iget_def keys)
  have m: "mset ?sm = mset members" by simp
  have c: "counted ?sm" using counted_mset [OF m] assms(3) by simp
  have d: "distinct (map fst ?sm)"
    using wfm mset_eq_imp_distinct_iff [of "map fst ?sm" "map fst members"] m by (simp add: wf_gmap_def)
  note D = split_members_donors [OF sp c assms(4) q0] and N = split_members_needs [OF sp d] and I = split_members_ids [OF sp]
  have "(\<Sum>(mid, m)\<leftarrow>?sm. iget q mid - m_load m) = (\<Sum>(mid, m)\<leftarrow>members. iget q mid - m_load m)"
    by (rule sum_list_mset [OF m])
  also have "\<dots> = (\<Sum>mid\<leftarrow>map fst members. iget q mid) - ?load"
    by (induction members) auto
  finally have bal: "(\<Sum>r\<leftarrow>rs. iget needs r) = (\<Sum>d\<leftarrow>ds. dn_surplus d)" using N qs(1) by simp
  have wfd: "wf_donors ds" using D by blast
  have "\<exists>rs' needs' dsts. donors_loop members ds rs needs [] = Some ([] @ sent members (given ds) dsts) \<and>
      length dsts = length (given ds) \<and> served rs needs rs' needs' dsts"
    using N bal by (intro donors_loop_ok [OF wfd]) auto
  then obtain rs' needs' dsts where r: "donors_loop members ds rs needs [] = Some (sent members (given ds) dsts)"
    "length dsts = length (given ds)" "served rs needs rs' needs' dsts" by auto
  have len: "int (length dsts) = (\<Sum>r\<leftarrow>rs. iget needs r)" using r(2) length_given [OF wfd] bal by simp
  have rs0: "iget needs r = 0" if "r \<notin> set rs" for r
  proof (cases "r \<in> fst ` set ?sm")
    case True
    then obtain m where "(r, m) \<in> set ?sm" by auto
    with N that show ?thesis by force
  qed (use I in auto)
  then have cnt: "int (count_list dsts r) = iget needs r" for r
    using count_of_all_served [OF r(3) len] by blast
  define plan where "plan = (if q = [] \<or> ds = [] \<or> rs = [] then None else Some (sent members (given ds) dsts))"
  have "dsts = []" if "plan = None"
  proof -
    have "rs = []" if "q = []"
    proof (rule ccontr)
      assume "rs \<noteq> []"
      then obtain r where "r \<in> set rs" by (cases rs) auto
      moreover from this I obtain m where "(r, m) \<in> set ?sm" by auto
      ultimately have "m_load m < 0" "(r, m) \<in> set members" using N that by (auto simp: iget_def)
      then show False using assms(3) by (auto simp: counted_def)
    qed
    with that have "ds = [] \<or> rs = []" by (auto simp: plan_def split: if_splits)
    then have "length dsts = 0"
    proof
      assume "ds = []" then show ?thesis using r(2) by (simp add: given_def)
    next
      assume "rs = []" then show ?thesis using len by simp
    qed
    then show ?thesis by simp
  qed
  then have e: "entries plan = sent members (given ds) dsts"
    by (cases "plan = None") (auto simp: plan_def sent_def split: if_splits)
  have "rebalance shuf members = Some plan"
    using assms(5) sp r(1) by (auto simp: rebalance_def plan_def Let_def)
  moreover have "set dsts \<subseteq> set rs" using r(3) by (simp add: served_def)
  moreover have "\<forall>(mid, m) \<in> set members. int (length (filter (\<lambda>t. t \<in> set (given ds)) (m_targets m))) = max 0 (m_load m - iget q mid)"
    using D by simp
  moreover have "\<forall>(mid, m) \<in> set members. int (count_list dsts mid) = max 0 (iget q mid - m_load m)"
    using N cnt by auto
  ultimately show ?thesis using sp wfd e r(2) by (intro exI conjI) (assumption | simp)+
qed

lemma split_members_in:
  "split_members shuf q (sort_key fst members) = (ds, rs, needs) \<Longrightarrow> r \<in> set rs \<Longrightarrow> r \<in> fst ` set members"
  using split_members_ids [of shuf q "sort_key fst members"] by auto

text \<open>Every destination of the plan is a member, so the callers never follow a nil pointer.\<close>

lemma rebalance_dsts:
  assumes "wf_members members" and "counted members" and "\<And>i xs. mset (shuf i xs) = mset xs"
  shows "\<exists>plan. rebalance shuf members = Some plan \<and> (\<forall>(t, dst) \<in> set (entries plan). \<exists>m. dst = Some m \<and> m \<in> set (map snd members))"
proof (cases "members = []")
  case True
  then show ?thesis by (simp add: rebalance_def calculate_members_quota_def)
next
  case False
  have "0 \<le> (\<Sum>m\<leftarrow>map snd members. m_load m)" using assms(2) by (intro sum_list_nonneg) (auto simp: counted_def)
  then obtain q where q: "calculate_members_quota members (\<Sum>m\<leftarrow>map snd members. m_load m) = Some q"
    using quota_spec assms(1) False unfolding wf_members_def by blast
  obtain ds rs needs dsts plan where P: "split_members shuf q (sort_key fst members) = (ds, rs, needs)"
    "rebalance shuf members = Some plan" "entries plan = sent members (given ds) dsts" "set dsts \<subseteq> set rs"
    using rebalance_plan [of members shuf q, OF assms(1) False assms(2,3) q] by blast
  have "\<exists>m. dst = Some m \<and> m \<in> set (map snd members)" if "(t, dst) \<in> set (entries plan)" for t dst
  proof -
    have "dst \<in> set (map (map_of members) dsts)"
      using that unfolding P(3) sent_def by (rule set_zip_rightD)
    then obtain r where r: "r \<in> set dsts" "dst = map_of members r" by auto
    then have "r \<in> fst ` set members" using P(4) split_members_in [OF P(1)] by blast
    then obtain m where "map_of members r = Some m" by (cases "map_of members r") (auto simp: map_of_eq_None_iff)
    then show ?thesis using r(2) by (auto dest: map_of_SomeD intro!: image_eqI [of _ _ "(r, m)"])
  qed
  then show ?thesis using P(2) by blast
qed

section \<open>Properties\<close>

text \<open>The targets a member keeps, and the number of targets it receives.\<close>

definition kept :: "moves \<Rightarrow> member \<Rightarrow> string list" where
  "kept plan m = filter (\<lambda>t. map_of plan t = None) (m_targets m)"

definition received :: "moves \<Rightarrow> string \<Rightarrow> string list" where
  "received plan mid = map fst (filter (\<lambda>(t, dst). map_option m_id dst = Some mid) plan)"

text \<open>C1. Rebalancing ends, and it balances: when every load is the number of the member's targets, the loop over
  the receivers returns whatever the shuffles do, the plan moves each target at most once, and
  once the moves are done every member has exactly its quota.\<close>

theorem rebalance_reaches_quota:
  assumes "wf_members members" and "members \<noteq> []" and "counted members" and "\<And>i xs. mset (shuf i xs) = mset xs"
  shows "\<exists>plan q. rebalance shuf members = Some plan \<and>
    calculate_members_quota members (\<Sum>m\<leftarrow>map snd members. m_load m) = Some q \<and>
    distinct (map fst (entries plan)) \<and>
    (\<forall>(mid, m) \<in> set members. int (length (kept (entries plan) m) + length (received (entries plan) mid)) = iget q mid)"
proof -
  have "0 \<le> (\<Sum>m\<leftarrow>map snd members. m_load m)" using assms(3) by (intro sum_list_nonneg) (auto simp: counted_def)
  then obtain q where q: "calculate_members_quota members (\<Sum>m\<leftarrow>map snd members. m_load m) = Some q"
    using quota_spec assms(1,2) unfolding wf_members_def by blast
  obtain ds rs needs dsts plan where P: "split_members shuf q (sort_key fst members) = (ds, rs, needs)"
    "rebalance shuf members = Some plan" "entries plan = sent members (given ds) dsts" "length (given ds) = length dsts"
    "set dsts \<subseteq> set rs" "wf_donors ds"
    "\<forall>(mid, m) \<in> set members. int (length (filter (\<lambda>t. t \<in> set (given ds)) (m_targets m))) = max 0 (m_load m - iget q mid)"
    "\<forall>(mid, m) \<in> set members. int (count_list dsts mid) = max 0 (iget q mid - m_load m)"
    using rebalance_plan [of members shuf q, OF assms q] by blast
  have ids: "\<forall>d \<in> set dsts. map_option m_id (map_of members d) = Some d"
  proof
    fix d assume "d \<in> set dsts"
    then have "d \<in> fst ` set members" using P(5) split_members_ids [OF P(1)] by auto
    then obtain m where m: "(d, m) \<in> set members" by auto
    then have "map_of members d = Some m" "m_id m = d"
      using assms(1) by (auto simp: wf_members_def wf_gmap_def)
    then show "map_option m_id (map_of members d) = Some d" by simp
  qed
  have f: "map fst (entries plan) = given ds" using P(4) by (simp add: P(3) sent_def)
  then have mem: "map_of (entries plan) t = None \<longleftrightarrow> t \<notin> set (given ds)" for t
    by (simp add: map_of_eq_None_iff flip: set_map)
  have "int (length (kept (entries plan) m) + length (received (entries plan) mid)) = iget q mid"
    if "(mid, m) \<in> set members" for mid m
  proof -
    have "length (kept (entries plan) m) + length (filter (\<lambda>t. t \<in> set (given ds)) (m_targets m)) = length (m_targets m)"
      using sum_length_filter_compl [of "\<lambda>t. t \<in> set (given ds)" "m_targets m"] by (simp add: kept_def mem)
    moreover have "length (received (entries plan) mid) = count_list dsts mid"
      using length_filter_sent [OF P(4) ids] by (simp add: received_def P(3))
    moreover have "m_load m = int (length (m_targets m))" using assms(3) that by (auto simp: counted_def)
    ultimately show ?thesis using bspec [OF P(7) that] bspec [OF P(8) that] by simp
  qed
  then show ?thesis using P(2) q f distinct_given [OF P(6)] by auto
qed

definition sample_members :: members where
  "sample_members = [(''a'', (sample_member ''a'')\<lparr>m_load := 3, m_targets := [''x'', ''y'', ''z'']\<rparr>), (''b'', sample_member ''b'')]"

theorem rebalance_reaches_quota_witness:
  "\<exists>plan. rebalance (\<lambda>_ xs. rev xs) sample_members = Some plan \<and> length (received (entries plan) ''b'') = 1"
proof -
  have "sort [''a'', ''b''] = [''a'', ''b'']" by simp
  then have q: "calculate_members_quota sample_members (\<Sum>m\<leftarrow>map snd sample_members. m_load m) = Some [(''a'', 2), (''b'', 1)]"
    by (simp add: calculate_members_quota_def sdiv_smod_nonneg Let_def sample_members_def sample_member_def)
  have "\<exists>plan q. rebalance (\<lambda>_ xs. rev xs) sample_members = Some plan \<and>
    calculate_members_quota sample_members (\<Sum>m\<leftarrow>map snd sample_members. m_load m) = Some q \<and>
    distinct (map fst (entries plan)) \<and>
    (\<forall>(mid, m) \<in> set sample_members.
      int (length (kept (entries plan) m) + length (received (entries plan) mid)) = iget q mid)"
    by (rule rebalance_reaches_quota)
      (simp_all add: wf_members_def wf_gmap_def sample_members_def sample_member_def counted_def all_targets_def)
  then obtain plan where "rebalance (\<lambda>_ xs. rev xs) sample_members = Some plan"
    "\<forall>(mid, m) \<in> set sample_members.
      int (length (kept (entries plan) m) + length (received (entries plan) mid)) = iget [(''a'', 2), (''b'', 1)] mid"
    unfolding q by blast
  then show ?thesis by (intro exI [of _ plan]) (simp add: sample_members_def sample_member_def kept_def iget_def)
qed

end
