(* ===== verification/Cluster_Manager.thy ===== *)
theory Cluster_Manager
  imports Cluster_Rebalance
begin

text \<open>
  The operations of the cluster leader: \<open>cluster_manager.go\<close>, \<open>assigner.go\<close>, \<open>membership.go\<close>,
  \<open>utils.go\<close> and the two rebalancing commands of \<open>rebalance.go\<close>. The locker and the members' REST
  API are code outside the repository: an \<open>env\<close> holds them as functions on a world. Verifying a
  lock in the background only logs and is left out; so is logging.
\<close>

section \<open>Keys, labels and addresses\<close>

definition targets_lock_prefix :: "string \<Rightarrow> string" where
  "targets_lock_prefix clusterName = ''gnmic/'' @ clusterName @ ''/targets''"

definition target_lock_key :: "string \<Rightarrow> string \<Rightarrow> string" where
  "target_lock_key target clusterName = ''gnmic/'' @ clusterName @ ''/targets/'' @ target"

definition leader_lock_key :: "string \<Rightarrow> string" where
  "leader_lock_key clusterName = ''gnmic/'' @ clusterName @ ''/leader''"

fun scheme_of_labels :: "string list \<Rightarrow> string" where
  "scheme_of_labels [] = ''http''"
| "scheme_of_labels (lb # lbs) =
    (case cut_char CHR ''='' lb of
      (k, v, found) \<Rightarrow>
        if found \<and> k = ''__protocol'' then (if v = ''https'' then ''https'' else ''http'')
        else scheme_of_labels lbs)"

definition get_api_scheme :: "member option \<Rightarrow> string" where
  "get_api_scheme mo = (case mo of None \<Rightarrow> ''http'' | Some m \<Rightarrow> scheme_of_labels (m_labels m))"

definition get_member_address :: "member \<Rightarrow> string" where
  "get_member_address m = get_api_scheme (Some m) @ ''://'' @ m_address m"

section \<open>The world: locker and REST API\<close>

datatype http_body = AssignBody "(string \<times> string) list" | UnassignBody "string list" | NoBody

datatype http_method = POST | DELETE

text \<open>A request ends with a status code or with the error of the transport.\<close>

record 'w env =
  http :: "http_method \<Rightarrow> string \<Rightarrow> http_body \<Rightarrow> 'w \<Rightarrow> int res \<times> 'w"
  lk_list :: "string \<Rightarrow> 'w \<Rightarrow> string gmap res \<times> 'w"

definition assignments_url :: string where "assignments_url = ''/api/v1/assignments''"
definition targets_config_url :: string where "targets_config_url = ''/api/v1/config/targets''"

definition request :: "'w env \<Rightarrow> http_method \<Rightarrow> string \<Rightarrow> http_body \<Rightarrow> string \<Rightarrow> 'w \<Rightarrow> string option \<times> 'w" where
  "request e meth url body what w =
    (case http e meth url body w of
      (Inl err, w') \<Rightarrow> (Some err, w')
    | (Inr status, w') \<Rightarrow> (if status sdiv 100 \<noteq> 2 then Some what else None, w'))"

section \<open>The assigner\<close>

definition assign_one :: "'w env \<Rightarrow> string \<Rightarrow> (string \<times> string) list \<Rightarrow> 'w \<Rightarrow> string option \<times> 'w" where
  "assign_one e address asg w = request e POST address (AssignBody asg) ''assign: '' w"

fun assign :: "'w env \<Rightarrow> (string \<times> member option) list \<Rightarrow> 'w \<Rightarrow> string option \<times> 'w" where
  "assign e [] w = (None, w)"
| "assign e ((t, mo) # ts) w =
    (case mo of
      None \<Rightarrow> assign e ts w
    | Some m \<Rightarrow>
        if m_address m = [] then assign e ts w
        else (case assign_one e (get_api_scheme mo @ ''://'' @ m_address m @ assignments_url) [(t, m_id m)] w of
            (Some err, w') \<Rightarrow> (Some err, w')
          | (None, w') \<Rightarrow> assign e ts w'))"

definition unassign :: "'w env \<Rightarrow> member option \<Rightarrow> string list \<Rightarrow> 'w \<Rightarrow> string option \<times> 'w" where
  "unassign e mo ts w =
    (case mo of
      None \<Rightarrow> (Some ''member is nil or address is empty'', w)
    | Some m \<Rightarrow>
        if m_address m = [] then (Some ''member is nil or address is empty'', w)
        else request e POST (get_api_scheme mo @ ''://'' @ m_address m @ assignments_url) (UnassignBody ts) ''unassign: '' w)"

section \<open>Members and their loads\<close>

text \<open>\<open>membership.GetMembers\<close>: the registered services, by identifier.\<close>

record service =
  sv_id :: string
  sv_address :: string
  sv_tags :: "string list"

fun members_of_services :: "service list \<Rightarrow> members \<Rightarrow> members" where
  "members_of_services [] ms = ms"
| "members_of_services (s # ss) ms =
    members_of_services ss (gset (sv_id s)
      \<lparr>m_id = sv_id s, m_address = sv_address s, m_labels = sv_tags s, m_load = 0, m_targets = []\<rparr> ms)"

fun seed_members :: "members \<Rightarrow> members \<Rightarrow> members" where
  "seed_members [] res = res"
| "seed_members ((k, m) # ms) res =
    seed_members ms (gset (m_id m)
      \<lparr>m_id = m_id m, m_address = m_address m, m_labels = m_labels m, m_load = 0, m_targets = []\<rparr> res)"

fun count_locks :: "members \<Rightarrow> string gmap \<Rightarrow> members \<Rightarrow> members" where
  "count_locks members [] res = res"
| "count_locks members ((tName, memberName) # locks) res =
    count_locks members locks
      (case map_of members memberName of
        None \<Rightarrow> res
      | Some m \<Rightarrow>
          (case map_of res memberName of
            Some am \<Rightarrow> gset memberName (am\<lparr>m_load := m_load am + 1, m_targets := m_targets am @ [base_name tName]\<rparr>) res
          | None \<Rightarrow> gset memberName \<lparr>m_id = m_id m, m_address = m_address m, m_labels = m_labels m, m_load = 1,
              m_targets = [base_name tName]\<rparr> res))"

definition populate_member_load :: "'w env \<Rightarrow> string \<Rightarrow> members \<Rightarrow> 'w \<Rightarrow> members res \<times> 'w" where
  "populate_member_load e cluster members w =
    (case lk_list e (targets_lock_prefix cluster) w of
      (Inl err, w') \<Rightarrow> (Inl err, w')
    | (Inr locks, w') \<Rightarrow> (Inr (count_locks members locks (seed_members members [])), w'))"

definition get_members :: "'w env \<Rightarrow> string \<Rightarrow> members \<Rightarrow> 'w \<Rightarrow> members res \<times> 'w" where
  "get_members e cluster members w =
    (if members = [] then (Inl ''no members found'', w) else populate_member_load e cluster members w)"

fun load_loop :: "string gmap \<Rightarrow> int gmap \<Rightarrow> int gmap" where
  "load_loop [] res = res"
| "load_loop ((tName, memberName) # locks) res =
    load_loop locks (gset memberName (iget res memberName + 1) res)"

definition get_members_load :: "'w env \<Rightarrow> string \<Rightarrow> 'w \<Rightarrow> int gmap res \<times> 'w" where
  "get_members_load e cluster w =
    (case lk_list e (targets_lock_prefix cluster) w of
      (Inl err, w') \<Rightarrow> (Inl err, w')
    | (Inr locks, w') \<Rightarrow> (Inr (load_loop locks []), w'))"

fun assignments_loop :: "members \<Rightarrow> string gmap \<Rightarrow> member gmap \<Rightarrow> member gmap" where
  "assignments_loop members [] res = res"
| "assignments_loop members ((tName, memberName) # locks) res =
    assignments_loop members locks
      (case map_of members memberName of
        Some m \<Rightarrow> gset (base_name tName) m res
      | None \<Rightarrow> res)"

definition get_assignments :: "'w env \<Rightarrow> string \<Rightarrow> members \<Rightarrow> 'w \<Rightarrow> member gmap res \<times> 'w" where
  "get_assignments e cluster members w =
    (case lk_list e (targets_lock_prefix cluster) w of
      (Inl err, w') \<Rightarrow> (Inl err, w')
    | (Inr locks, w') \<Rightarrow> (Inr (assignments_loop members locks []), w'))"

fun mapping_loop :: "string gmap \<Rightarrow> (string list) gmap \<Rightarrow> (string list) gmap" where
  "mapping_loop [] rs = rs"
| "mapping_loop ((k, v) # locks) rs =
    mapping_loop locks (gset v ((case map_of rs v of None \<Rightarrow> [] | Some ls \<Rightarrow> ls) @ [base_name k]) rs)"

definition get_instance_to_targets :: "'w env \<Rightarrow> string \<Rightarrow> 'w \<Rightarrow> (string list) gmap res \<times> 'w" where
  "get_instance_to_targets e cluster w =
    (case lk_list e (targets_lock_prefix cluster) w of
      (Inl err, w') \<Rightarrow> (Inl err, w')
    | (Inr locks, w') \<Rightarrow> (Inr (map (\<lambda>(k, ls). (k, sort ls)) (mapping_loop locks [])), w'))"

definition get_leader_name :: "'w env \<Rightarrow> string \<Rightarrow> 'w \<Rightarrow> string res \<times> 'w" where
  "get_leader_name e cluster w =
    (case lk_list e (leader_lock_key cluster) w of
      (Inl err, w') \<Rightarrow> (Inl err, w')
    | (Inr locks, w') \<Rightarrow>
        (Inr (if locks = [] then [] else (case map_of locks (leader_lock_key cluster) of None \<Rightarrow> [] | Some l \<Rightarrow> l)), w'))"

definition is_leader :: "'w env \<Rightarrow> string \<Rightarrow> string \<Rightarrow> 'w \<Rightarrow> bool res \<times> 'w" where
  "is_leader e cluster self w =
    (case get_leader_name e cluster w of
      (Inl err, w') \<Rightarrow> (Inl err, w')
    | (Inr leader, w') \<Rightarrow> (Inr (leader = self), w'))"

text \<open>\<open>holder\<close> of \<open>election.go\<close>: an error of the locker counts as no holder.\<close>

definition lock_holder :: "'w env \<Rightarrow> string \<Rightarrow> 'w \<Rightarrow> string option \<times> 'w" where
  "lock_holder e key w =
    (case lk_list e key w of
      (Inl err, w') \<Rightarrow> (None, w')
    | (Inr m, w') \<Rightarrow> (map_of m key, w'))"

definition target_lock_holder :: "'w env \<Rightarrow> string \<Rightarrow> members \<Rightarrow> string \<Rightarrow> 'w \<Rightarrow> member option \<times> 'w" where
  "target_lock_holder e cluster members target w =
    (case lock_holder e (target_lock_key target cluster) w of
      (None, w') \<Rightarrow> (None, w')
    | (Some h, w') \<Rightarrow> (if h = [] then None else map_of members h, w'))"

section \<open>Least and most loaded members\<close>

fun least_loop :: "members \<Rightarrow> (string \<times> member) option \<Rightarrow> (string \<times> member) option" where
  "least_loop [] acc = acc"
| "least_loop ((k, m) # ms) acc =
    (case acc of
      None \<Rightarrow> least_loop ms (Some (k, m))
    | Some (k', l) \<Rightarrow> if m_load m < m_load l then least_loop ms (Some (k, m)) else least_loop ms acc)"

definition get_least_loaded_member :: "members \<Rightarrow> (string \<times> member) option" where
  "get_least_loaded_member ms = least_loop ms None"

fun most_loop :: "members \<Rightarrow> (string \<times> member) option \<Rightarrow> (string \<times> member) option" where
  "most_loop [] acc = acc"
| "most_loop ((k, m) # ms) acc =
    (let (k', l) = (case acc of None \<Rightarrow> (k, m) | Some a \<Rightarrow> a)
     in most_loop ms (Some (if m_load m > m_load l then (k, m) else (k', l))))"

definition get_most_loaded_member :: "members \<Rightarrow> (string \<times> member) option" where
  "get_most_loaded_member ms = most_loop ms None"

section \<open>Assigning, draining and deleting\<close>

text \<open>
  \<open>assignTarget\<close> increments the load of the member it picked through the pointer in the map, so
  the map is part of its result.
\<close>

definition assign_target :: "'w env \<Rightarrow> string \<Rightarrow> members \<Rightarrow> 'w \<Rightarrow> string option \<times> members \<times> 'w" where
  "assign_target e target members w =
    (case get_least_loaded_member members of
      None \<Rightarrow> (Some ''no least loaded member found'', members, w)
    | Some (k, m) \<Rightarrow>
        (case assign e [(target, Some m)] w of
          (Some err, w') \<Rightarrow> (Some err, members, w')
        | (None, w') \<Rightarrow> (None, gset k (m\<lparr>m_load := m_load m + 1\<rparr>) members, w')))"

definition handle_target_create ::
  "'w env \<Rightarrow> string \<Rightarrow> members \<Rightarrow> string \<Rightarrow> string list \<Rightarrow> 'w \<Rightarrow> string option \<times> 'w" where
  "handle_target_create e cluster cm target denied w =
    (case get_members e cluster cm w of
      (Inl err, w') \<Rightarrow> (Some err, w')
    | (Inr ms, w') \<Rightarrow>
        (case assign_target e target (fold gdel denied ms) w' of (err, _, w'') \<Rightarrow> (err, w'')))"

fun drain_loop :: "'w env \<Rightarrow> string list \<Rightarrow> members \<Rightarrow> 'w \<Rightarrow> members \<times> 'w" where
  "drain_loop e [] members w = (members, w)"
| "drain_loop e (t # ts) members w =
    (case assign_target e t members w of (_, members', w') \<Rightarrow> drain_loop e ts members' w')"

definition drain_member :: "'w env \<Rightarrow> string \<Rightarrow> members \<Rightarrow> string \<Rightarrow> 'w \<Rightarrow> string option \<times> 'w" where
  "drain_member e cluster cm toBeDrained w =
    (case get_members e cluster cm w of
      (Inl err, w') \<Rightarrow> (Some err, w')
    | (Inr ms, w') \<Rightarrow>
        (case map_of ms toBeDrained of
          None \<Rightarrow> (Some ''member to drain not found'', w')
        | Some m \<Rightarrow>
            if m_targets m = [] then (None, w')
            else (case unassign e (Some m) (m_targets m) w' of
                (Some err, w'') \<Rightarrow> (Some err, w'')
              | (None, w'') \<Rightarrow> (None, snd (drain_loop e (m_targets m) (gdel toBeDrained ms) w'')))))"

fun delete_target_from_members :: "'w env \<Rightarrow> string \<Rightarrow> members \<Rightarrow> 'w \<Rightarrow> string option \<times> 'w" where
  "delete_target_from_members e target [] w = (None, w)"
| "delete_target_from_members e target ((k, m) # ms) w =
    (case request e DELETE (get_member_address m @ targets_config_url @ ''/'' @ target) NoBody ''failed to delete target: '' w of
      (Some err, w') \<Rightarrow> (Some err, w')
    | (None, w') \<Rightarrow> delete_target_from_members e target ms w')"

definition handle_target_delete :: "'w env \<Rightarrow> string \<Rightarrow> members \<Rightarrow> string \<Rightarrow> 'w \<Rightarrow> string option \<times> 'w" where
  "handle_target_delete e cluster cm target w =
    (case target_lock_holder e cluster cm target w of
      (None, w') \<Rightarrow> (Some ''target is not assigned to any member'', w')
    | (Some m, w') \<Rightarrow>
        (case unassign e (Some m) [target] w' of
          (Some err, w'') \<Rightarrow> (Some err, w'')
        | (None, w'') \<Rightarrow> delete_target_from_members e target (gdel (m_id m) cm) w''))"

section \<open>Rebalancing\<close>

fun unassign_loop :: "'w env \<Rightarrow> member \<Rightarrow> member \<Rightarrow> string list \<Rightarrow> moves \<Rightarrow> 'w \<Rightarrow> moves \<times> 'w" where
  "unassign_loop e most least [] asg w = (asg, w)"
| "unassign_loop e most least (t # ts) asg w =
    (case unassign e (Some most) [t] w of
      (Some err, w') \<Rightarrow> unassign_loop e most least ts asg w'
    | (None, w') \<Rightarrow> unassign_loop e most least ts (gset t (Some least) asg) w')"

text \<open>
  \<open>RebalanceTargets\<close>; the outer \<open>None\<close> is the panic of slicing the candidates beyond their number
  (or, within the spare capacity of the slice, a slice with empty names).
\<close>

definition rebalance_targets ::
  "'w env \<Rightarrow> string \<Rightarrow> (string list \<Rightarrow> string list) \<Rightarrow> members \<Rightarrow> 'w \<Rightarrow> (string option \<times> 'w) option" where
  "rebalance_targets e cluster shuf cm w =
    (case get_members e cluster cm w of
      (Inl err, w') \<Rightarrow> Some (Some err, w')
    | (Inr ms, w') \<Rightarrow>
        if length ms < 2 then Some (Some ''no members or only one member found'', w')
        else
          (case (get_most_loaded_member ms, get_least_loaded_member ms) of
            (Some (_, most), Some (_, least)) \<Rightarrow>
              (let diff = m_load most - m_load least
               in if diff < 2 then Some (None, w')
                  else
                    (let moveCount = max (diff sdiv 2) (m_load least);
                         candidates = shuf (m_targets most)
                     in if moveCount > int (length candidates) then None
                        else (case unassign_loop e most least (take (nat moveCount) candidates) [] w' of
                          (asg, w'') \<Rightarrow> Some (assign e asg w''))))
          | _ \<Rightarrow> Some (Some ''count not determine most or least loaded member'', w')))"

fun owner_loop :: "members \<Rightarrow> string gmap \<Rightarrow> string gmap" where
  "owner_loop [] owner = owner"
| "owner_loop ((mid, m) # ms) owner = owner_loop ms (fold (\<lambda>t. gset t mid) (m_targets m) owner)"

definition push :: "string \<Rightarrow> string \<Rightarrow> (string list) gmap \<Rightarrow> (string list) gmap" where
  "push k t m = gset k ((case map_of m k of None \<Rightarrow> [] | Some ts \<Rightarrow> ts) @ [t]) m"

text \<open>The moves of the plan, by source and by destination; \<open>None\<close> is a nil destination.\<close>

fun deltas_loop ::
  "string gmap \<Rightarrow> moves \<Rightarrow> (string list) gmap \<Rightarrow> (string list) gmap \<Rightarrow> ((string list) gmap \<times> (string list) gmap) option" where
  "deltas_loop owner [] rem add = Some (rem, add)"
| "deltas_loop owner ((t, dst) # plan) rem add =
    (case map_of owner t of
      None \<Rightarrow> deltas_loop owner plan rem add
    | Some src \<Rightarrow>
        (case dst of
          None \<Rightarrow> None
        | Some d \<Rightarrow>
            if src \<noteq> m_id d then deltas_loop owner plan (push src t rem) (push (m_id d) t add)
            else deltas_loop owner plan rem add))"

fun remove_loop :: "'w env \<Rightarrow> members \<Rightarrow> (string list) gmap \<Rightarrow> 'w \<Rightarrow> 'w" where
  "remove_loop e ms [] w = w"
| "remove_loop e ms ((src, ts) # rem) w = remove_loop e ms rem (snd (unassign e (map_of ms src) ts w))"

fun add_loop :: "'w env \<Rightarrow> members \<Rightarrow> (string list) gmap \<Rightarrow> 'w \<Rightarrow> 'w" where
  "add_loop e ms [] w = w"
| "add_loop e ms ((dst, ts) # add) w =
    add_loop e ms add (snd (assign e (fold (\<lambda>t. gset t (map_of ms dst)) ts []) w))"

text \<open>
  The goroutine of \<open>RebalanceTargetsV2\<close>; an error of \<open>GetMembers\<close> is logged and the run goes on
  with a nil map. \<open>None\<close> is a run that does not end or panics.
\<close>

definition rebalance_targets_v2 ::
  "'w env \<Rightarrow> string \<Rightarrow> (string \<Rightarrow> string list \<Rightarrow> string list) \<Rightarrow> members \<Rightarrow> 'w \<Rightarrow> 'w option" where
  "rebalance_targets_v2 e cluster shuf cm w =
    (let (r, w') = get_members e cluster cm w;
         ms = (case r of Inl _ \<Rightarrow> [] | Inr ms \<Rightarrow> ms)
     in case rebalance shuf ms of
          None \<Rightarrow> None
        | Some plan \<Rightarrow>
            if entries plan = [] then Some w'
            else map_option (\<lambda>(rem, add). add_loop e ms add (remove_loop e ms rem w'))
              (deltas_loop (owner_loop ms []) (entries plan) [] []))"

section \<open>Reconciliation and the leader's events\<close>

definition reconcile_assignments ::
  "'w env \<Rightarrow> string \<Rightarrow> members \<Rightarrow> string list \<Rightarrow> members \<Rightarrow> 'w \<Rightarrow> (string option \<times> 'w) option" where
  "reconcile_assignments e cluster cm targets members w =
    (if targets = [] then Some (None, w)
     else
       (case get_assignments e cluster cm w of
         (Inl err, w1) \<Rightarrow> Some (Some err, w1)
       | (Inr current, w1) \<Rightarrow>
           (case get_members_load e cluster w1 of
             (Inl err, w2) \<Rightarrow> Some (Some err, w2)
           | (Inr loads, w2) \<Rightarrow>
               map_option (\<lambda>(asg, _). (None, snd (assign e (map (\<lambda>(t, m). (t, Some m)) asg) w2)))
                 (reconcile_loop targets current members
                   (entries (calculate_members_quota members (int (length targets)))) loads []))))"

text \<open>The cases of the \<open>select\<close> in \<open>runLeader\<close>; \<open>targets\<close> are the keys of the configuration store.\<close>

datatype leader_event =
    MembersUpdate members
  | TargetCreate string
  | TargetDelete string
  | Tick

definition leader_step ::
  "'w env \<Rightarrow> string \<Rightarrow> string list \<Rightarrow> leader_event \<Rightarrow> members \<times> 'w \<Rightarrow> (members \<times> 'w) option" where
  "leader_step e cluster targets ev st =
    (case st of (cm, w) \<Rightarrow>
      (case ev of
        MembersUpdate ms \<Rightarrow> Some (ms, w)
      | TargetCreate t \<Rightarrow> Some (cm, snd (handle_target_create e cluster cm t [] w))
      | TargetDelete t \<Rightarrow> Some (cm, snd (handle_target_delete e cluster cm t w))
      | Tick \<Rightarrow>
          if cm = [] then Some (cm, w)
          else map_option (\<lambda>r. (cm, snd r)) (reconcile_assignments e cluster cm targets cm w)))"

section \<open>The members with their loads\<close>

lemma gset_split:
  "map_of ms k = Some m \<Longrightarrow> \<exists>xs ys. ms = xs @ (k, m) # ys \<and> (\<forall>v. gset k v ms = xs @ (k, v) # ys)"
proof (induction ms)
  case (Cons x ms)
  show ?case
  proof (cases "fst x = k")
    case True
    with Cons.prems have "x = (k, m)" by (cases x) auto
    then show ?thesis by (intro exI [of _ "[]"] exI [of _ ms]) simp
  next
    case False
    then obtain xs ys where "ms = xs @ (k, m) # ys" "\<forall>v. gset k v ms = xs @ (k, v) # ys"
      using Cons by (cases x) auto
    with False show ?thesis by (intro exI [of _ "x # xs"] exI [of _ ys]) (cases x, simp)
  qed
qed simp

definition unloaded :: "member \<Rightarrow> member" where
  "unloaded m = m\<lparr>m_load := 0, m_targets := []\<rparr>"

lemma seed_members_eq:
  "wf_members ms \<Longrightarrow> fst ` set ms \<inter> fst ` set res = {} \<Longrightarrow>
   seed_members ms res = res @ map (\<lambda>(k, m). (k, unloaded m)) ms"
proof (induction ms arbitrary: res)
  case (Cons x ms)
  obtain k m where x: "x = (k, m)" by (cases x)
  have k: "m_id m = k" "k \<notin> fst ` set res" "k \<notin> fst ` set ms" using Cons.prems x by (auto simp: wf_members_def wf_gmap_def)
  have "seed_members (x # ms) res = seed_members ms (res @ [(k, unloaded m)])"
    using k by (cases m) (simp add: x gset_fresh unloaded_def)
  also have "\<dots> = (res @ [(k, unloaded m)]) @ map (\<lambda>(k, m). (k, unloaded m)) ms"
    using Cons.prems k x by (intro Cons.IH) (auto simp: wf_members_def wf_gmap_def)
  finally show ?case by (simp add: x)
qed simp

text \<open>Loads are numbers of targets, and the identifiers those of the members.\<close>

definition loads_ok :: "string list \<Rightarrow> members \<Rightarrow> bool" where
  "loads_ok ids res \<longleftrightarrow> wf_members res \<and> map fst res = ids \<and>
    (\<forall>(mid, m) \<in> set res. m_load m = int (length (m_targets m)))"

definition locked_by :: "string \<Rightarrow> string gmap \<Rightarrow> string list" where
  "locked_by mid locks = map (\<lambda>(t, h). base_name t) (filter (\<lambda>(t, h). h = mid) locks)"

lemma loads_ok_add:
  assumes "loads_ok ids res" and "map_of res k = Some am"
  shows "loads_ok ids (gset k (am\<lparr>m_load := m_load am + 1, m_targets := m_targets am @ [t]\<rparr>) res)"
proof -
  obtain xs ys where r: "res = xs @ (k, am) # ys" "\<forall>v. gset k v res = xs @ (k, v) # ys"
    using gset_split [OF assms(2)] by blast
  show ?thesis using assms(1) unfolding r(2) [rule_format] by (auto simp: loads_ok_def r(1) wf_members_def wf_gmap_def)
qed

lemma count_locks_ok:
  assumes "loads_ok ids res" and "fst ` set members = set ids"
  shows "loads_ok ids (count_locks members locks res) \<and>
    (\<forall>mid. map_option m_targets (map_of (count_locks members locks res) mid) =
      map_option (\<lambda>m. m_targets m @ locked_by mid locks) (map_of res mid))"
  using assms(1)
proof (induction locks arbitrary: res)
  case Nil
  then show ?case by (simp add: locked_by_def)
next
  case (Cons l locks)
  obtain t h where l: "l = (t, h)" by (cases l)
  show ?case
  proof (cases "map_of members h")
    case None
    then have "h \<notin> fst ` set res" using Cons.prems assms(2) by (auto simp: loads_ok_def map_of_eq_None_iff simp flip: set_map)
    then have "map_of res h = None" by (simp add: map_of_eq_None_iff)
    with None Cons show ?thesis by (auto simp: l locked_by_def)
  next
    case (Some m)
    then have "h \<in> fst ` set members" by (rule map_of_SomeD [THEN imageI, of _ _ _ fst, simplified])
    then have "h \<in> set (map fst res)" using Cons.prems assms(2) by (simp add: loads_ok_def)
    then obtain am where am: "map_of res h = Some am" by (cases "map_of res h") (auto simp: map_of_eq_None_iff)
    define res1 where "res1 = gset h (am\<lparr>m_load := m_load am + 1, m_targets := m_targets am @ [base_name t]\<rparr>) res"
    have ok: "loads_ok ids res1" unfolding res1_def by (rule loads_ok_add [OF Cons.prems am])
    have "count_locks members (l # locks) res = count_locks members locks res1" using Some am by (simp add: l res1_def)
    moreover have "map_option (\<lambda>m. m_targets m @ locked_by mid locks) (map_of res1 mid) =
        map_option (\<lambda>m. m_targets m @ locked_by mid (l # locks)) (map_of res mid)" for mid
      using am by (auto simp: res1_def locked_by_def l)
    ultimately show ?thesis using Cons.IH [OF ok] by simp
  qed
qed

lemma count_locks_contact:
  "map_option (\<lambda>m. (m_id m, m_address m, m_labels m)) (map_of res mid) = Some c \<Longrightarrow>
   map_option (\<lambda>m. (m_id m, m_address m, m_labels m)) (map_of (count_locks members locks res) mid) = Some c"
proof (induction locks arbitrary: res)
  case (Cons l locks)
  obtain t h where l: "l = (t, h)" by (cases l)
  define res1 where "res1 = (case map_of members h of None \<Rightarrow> res | Some m \<Rightarrow>
      (case map_of res h of
        Some am \<Rightarrow> gset h (am\<lparr>m_load := m_load am + 1, m_targets := m_targets am @ [base_name t]\<rparr>) res
      | None \<Rightarrow> gset h \<lparr>m_id = m_id m, m_address = m_address m, m_labels = m_labels m, m_load = 1,
          m_targets = [base_name t]\<rparr> res))"
  have "map_option (\<lambda>m. (m_id m, m_address m, m_labels m)) (map_of res1 mid) = Some c"
    using Cons.prems by (auto simp: res1_def split: option.splits)
  then show ?case using Cons.IH by (simp add: l res1_def)
qed simp

lemma distinct_locked:
  assumes "distinct (map (\<lambda>(t, h). base_name t) locks)" and "distinct ids"
  shows "distinct (concat (map (\<lambda>mid. locked_by mid locks) ids))"
  using assms(2)
proof (induction ids)
  case (Cons i ids)
  have d: "distinct (locked_by i locks)" using assms(1) by (simp add: locked_by_def distinct_map_filter)
  have "set (locked_by i locks) \<inter> set (locked_by j locks) = {}" if "j \<noteq> i" for j
  proof -
    have "inj_on (\<lambda>(t, h). base_name t) (set locks)" using assms(1) by (simp add: distinct_map)
    then show ?thesis using that by (fastforce simp: locked_by_def inj_on_def)
  qed
  then show ?case using d Cons by fastforce
qed simp

lemma get_members_ok:
  assumes "wf_members cm" and "cm \<noteq> []" and "lk_list e (targets_lock_prefix cluster) w = (Inr locks, w')"
    and "distinct (map (\<lambda>(t, h). base_name t) locks)"
  shows "\<exists>ms. get_members e cluster cm w = (Inr ms, w') \<and> wf_members ms \<and> counted ms \<and> map fst ms = map fst cm \<and>
    (\<forall>(mid, m) \<in> set ms. m_targets m = locked_by mid locks) \<and>
    (\<forall>(mid, m) \<in> set ms. \<exists>m0. map_of cm mid = Some m0 \<and> m_address m = m_address m0 \<and> m_labels m = m_labels m0)"
proof -
  define ms where "ms = count_locks cm locks (seed_members cm [])"
  have seed: "seed_members cm [] = map (\<lambda>(k, m). (k, unloaded m)) cm" using seed_members_eq [OF assms(1), of "[]"] by simp
  have "loads_ok (map fst cm) (seed_members cm [])"
    using assms(1) by (auto simp: seed loads_ok_def wf_members_def wf_gmap_def unloaded_def comp_def case_prod_beta')
  from count_locks_ok [OF this, of cm locks] have ok: "loads_ok (map fst cm) ms"
    and t: "\<forall>mid. map_option m_targets (map_of ms mid) = map_option (\<lambda>m. m_targets m @ locked_by mid locks) (map_of (seed_members cm []) mid)"
    by (simp_all add: ms_def)
  have wf: "wf_members ms" "map fst ms = map fst cm" using ok by (simp_all add: loads_ok_def)
  have targets: "m_targets m = locked_by mid locks" if "(mid, m) \<in> set ms" for mid m
  proof -
    have "map_of ms mid = Some m" using that wf(1) by (simp add: wf_members_def wf_gmap_def)
    with t obtain m0 where m0: "map_of (seed_members cm []) mid = Some m0" "m_targets m = m_targets m0 @ locked_by mid locks"
      by (cases "map_of (seed_members cm []) mid") (metis (no_types) option.simps(3,8,9), metis option.inject option.simps(9))
    have "(mid, m0) \<in> set (map (\<lambda>(k, m). (k, unloaded m)) cm)" using m0(1) unfolding seed by (rule map_of_SomeD)
    then have "m_targets m0 = []" by (auto simp: unloaded_def)
    with m0 show ?thesis by simp
  qed
  have contact: "\<exists>m0. map_of cm mid = Some m0 \<and> m_address m = m_address m0 \<and> m_labels m = m_labels m0"
    if "(mid, m) \<in> set ms" for mid m
  proof -
    have m: "map_of ms mid = Some m" using that wf(1) by (simp add: wf_members_def wf_gmap_def)
    have "mid \<in> set (map fst cm)" using that by (simp flip: wf(2)) force
    then obtain m0 where m0: "map_of cm mid = Some m0" by (cases "map_of cm mid") (auto simp: map_of_eq_None_iff)
    have "map_of (map (\<lambda>(k, m). (k, unloaded m)) cm) mid = Some (unloaded m0)"
      using m0 by (induction cm) auto
    then have "map_option (\<lambda>m. (m_id m, m_address m, m_labels m)) (map_of (seed_members cm []) mid) =
        Some (m_id m0, m_address m0, m_labels m0)" by (simp add: seed unloaded_def)
    from count_locks_contact [OF this, of cm locks] m m0 show ?thesis by (auto simp flip: ms_def)
  qed
  have "all_targets ms = concat (map (\<lambda>mid. locked_by mid locks) (map fst ms))"
    unfolding all_targets_def map_map using targets by (intro arg_cong [where f = concat] map_cong) auto
  then have "distinct (all_targets ms)"
    using distinct_locked [OF assms(4), of "map fst ms"] wf(1) by (simp add: wf_members_def wf_gmap_def)
  then have "counted ms" using ok by (auto simp: counted_def loads_ok_def)
  then show ?thesis
    using assms(2,3) wf targets contact by (intro exI [of _ ms]) (auto simp: get_members_def populate_member_load_def ms_def)
qed

section \<open>Draining in a world that answers as it likes\<close>

type_synonym request_log = "(http_method \<times> string \<times> http_body) list"

text \<open>
  A world that records the requests and answers the \<open>i\<close>-th of them with \<open>answers i\<close>: a status code
  or an error of the transport. \<open>failure answers i what\<close> is the error the client makes of the answer.
\<close>

definition recording :: "(nat \<Rightarrow> int res) \<Rightarrow> string gmap \<Rightarrow> request_log env" where
  "recording answers locks =
    \<lparr>http = (\<lambda>meth url body log. (answers (length log), log @ [(meth, url, body)])), lk_list = (\<lambda>_ log. (Inr locks, log))\<rparr>"

definition failure :: "(nat \<Rightarrow> int res) \<Rightarrow> nat \<Rightarrow> string \<Rightarrow> string option" where
  "failure answers i what =
    (case answers i of Inl err \<Rightarrow> Some err | Inr status \<Rightarrow> if status sdiv 100 \<noteq> 2 then Some what else None)"

text \<open>The members whose request was answered with success, the first request being the \<open>i\<close>-th.\<close>

fun placed :: "(nat \<Rightarrow> int res) \<Rightarrow> nat \<Rightarrow> member list \<Rightarrow> string list" where
  "placed answers i [] = []"
| "placed answers i (p # ps) =
    (if failure answers i ''assign: '' = None then [m_id p] else []) @ placed answers (Suc i) ps"

definition member_url :: "member \<Rightarrow> string" where
  "member_url m = get_api_scheme (Some m) @ ''://'' @ m_address m @ assignments_url"

definition assign_request :: "string \<Rightarrow> member \<Rightarrow> http_method \<times> string \<times> http_body" where
  "assign_request t m = (POST, member_url m, AssignBody [(t, m_id m)])"

lemma request_recording [simp]:
  "request (recording answers locks) meth url body what log = (failure answers (length log) what, log @ [(meth, url, body)])"
  by (simp add: request_def recording_def failure_def split: sum.splits)

lemma least_loop_min:
  "\<exists>k m. least_loop ms (Some (k0, m0)) = Some (k, m) \<and> (k, m) \<in> set ((k0, m0) # ms) \<and>
    (\<forall>(k', m') \<in> set ((k0, m0) # ms). m_load m \<le> m_load m')"
proof (induction ms arbitrary: k0 m0)
  case (Cons x ms)
  obtain k1 m1 where x: "x = (k1, m1)" by (cases x)
  show ?case
  proof (cases "m_load m1 < m_load m0")
    case True
    with Cons.IH [of k1 m1] show ?thesis by (force simp: x)
  next
    case False
    with Cons.IH [of k0 m0] show ?thesis by (force simp: x)
  qed
qed simp

lemma least_loaded_min:
  assumes "ms \<noteq> []"
  shows "\<exists>k m. get_least_loaded_member ms = Some (k, m) \<and> (k, m) \<in> set ms \<and> (\<forall>(k', m') \<in> set ms. m_load m \<le> m_load m')"
  using assms least_loop_min [of "tl ms" "fst (hd ms)" "snd (hd ms)"]
  by (cases ms) (auto simp: get_least_loaded_member_def)

text \<open>No member has more than \<open>d\<close> targets more than another.\<close>

definition spread_le :: "int \<Rightarrow> members \<Rightarrow> bool" where
  "spread_le d ms \<longleftrightarrow> (\<forall>x \<in> set (map snd ms). \<forall>y \<in> set (map snd ms). m_load x \<le> m_load y + d)"

definition reachable_members :: "members \<Rightarrow> bool" where
  "reachable_members ms \<longleftrightarrow> (\<forall>m \<in> set (map snd ms). m_address m \<noteq> [])"

definition drained :: "int \<Rightarrow> string list \<Rightarrow> members \<Rightarrow> member list \<Rightarrow> string list \<Rightarrow> members \<Rightarrow> bool" where
  "drained d ts ms picks ids ms' \<longleftrightarrow>
    length picks = length ts \<and> (\<forall>p \<in> set picks. \<exists>m. map_of ms (m_id p) = Some m \<and> m_address p = m_address m \<and> m_labels p = m_labels m) \<and>
    spread_le d ms' \<and> map fst ms' = map fst ms \<and>
    (\<forall>mid. map_option m_load (map_of ms' mid) = map_option (\<lambda>m. m_load m + int (count_list ids mid)) (map_of ms mid))"

text \<open>One more target for a least loaded member keeps the spread.\<close>

lemma spread_least:
  assumes "ms = xs @ (k, m) # ys" and "\<forall>(k', m') \<in> set ms. m_load m \<le> m_load m'" and "1 \<le> d" and "spread_le d ms"
  shows "spread_le d (xs @ (k, m\<lparr>m_load := m_load m + 1\<rparr>) # ys)"
  unfolding spread_le_def
proof (intro ballI)
  fix x y assume x: "x \<in> set (map snd (xs @ (k, m\<lparr>m_load := m_load m + 1\<rparr>) # ys))"
    and y: "y \<in> set (map snd (xs @ (k, m\<lparr>m_load := m_load m + 1\<rparr>) # ys))"
  have le: "m_load a \<le> m_load b + d" if "a \<in> set (map snd ms)" "b \<in> set (map snd ms)" for a b
    using that assms(4) unfolding spread_le_def by blast
  have lo: "m_load m \<le> m_load b" if "b \<in> set (map snd ms)" for b using that assms(2) by force
  have mm: "m \<in> set (map snd ms)" by (simp add: assms(1))
  have x': "m_load x = m_load m + 1 \<or> x \<in> set (map snd ms)" using x by (auto simp: assms(1))
  have y': "m_load y = m_load m + 1 \<or> y \<in> set (map snd ms)" using y by (auto simp: assms(1))
  show "m_load x \<le> m_load y + d"
  proof (cases "x \<in> set (map snd ms)")
    case True
    then show ?thesis using y' le [OF True, of y] le [OF True mm] by linarith
  next
    case False
    then have "m_load x = m_load m + 1" using x' by blast
    then show ?thesis using y' lo [of y] assms(3) by linarith
  qed
qed

text \<open>One target: the request goes to a least loaded member, and counts when it is answered with success.\<close>

lemma assign_target_recording:
  assumes "wf_members ms" and "ms \<noteq> []" and "reachable_members ms" and "1 \<le> d" and "spread_le d ms"
  shows "\<exists>p ms1. snd (assign_target (recording answers locks) t ms log) = (ms1, log @ [assign_request t p]) \<and>
    wf_members ms1 \<and> ms1 \<noteq> [] \<and> reachable_members ms1 \<and> drained d [t] ms [p] (placed answers (length log) [p]) ms1 \<and>
    (\<forall>mid. map_option (\<lambda>m. (m_address m, m_labels m)) (map_of ms1 mid) = map_option (\<lambda>m. (m_address m, m_labels m)) (map_of ms mid))"
proof -
  obtain k m where km: "get_least_loaded_member ms = Some (k, m)" "(k, m) \<in> set ms"
    "\<forall>(k', m') \<in> set ms. m_load m \<le> m_load m'" using least_loaded_min [OF assms(2)] by blast
  have m: "m_id m = k" "map_of ms k = Some m" "m_address m \<noteq> []" "distinct (map fst ms)"
    using km(2) assms(1,3) by (auto simp: wf_members_def wf_gmap_def reachable_members_def)
  define ok where "ok = (failure answers (length log) ''assign: '' = None)"
  define ms1 where "ms1 = (if ok then gset k (m\<lparr>m_load := m_load m + 1\<rparr>) ms else ms)"
  obtain xs ys where sp: "ms = xs @ (k, m) # ys" "gset k (m\<lparr>m_load := m_load m + 1\<rparr>) ms = xs @ (k, m\<lparr>m_load := m_load m + 1\<rparr>) # ys"
    using gset_split [OF m(2)] by auto
  have 1: "snd (assign_target (recording answers locks) t ms log) = (ms1, log @ [assign_request t m])"
    using m(3) by (cases "failure answers (length log) ''assign: ''")
      (simp_all add: assign_target_def km(1) assign_one_def ms1_def ok_def assign_request_def member_url_def)
  have 2: "wf_members ms1" "ms1 \<noteq> []" "reachable_members ms1" "map fst ms1 = map fst ms"
    using assms(1-3) by (auto simp: ms1_def sp(2)) (auto simp: sp(1) wf_members_def wf_gmap_def reachable_members_def)
  have 3: "spread_le d ms1" using spread_least [OF sp(1) km(3) assms(4,5)] assms(5) by (simp add: ms1_def sp(2))
  have 4: "map_option m_load (map_of ms1 mid) =
      map_option (\<lambda>x. m_load x + int (count_list (placed answers (length log) [m]) mid)) (map_of ms mid)" for mid
    using m(1,2) by (cases "mid = k"; cases "map_of ms mid") (auto simp: ms1_def ok_def)
  have 5: "map_option (\<lambda>m. (m_address m, m_labels m)) (map_of ms1 mid) = map_option (\<lambda>m. (m_address m, m_labels m)) (map_of ms mid)" for mid
    using m(2) by (auto simp: ms1_def)
  show ?thesis using 1 2 3 4 5 m(1,2) unfolding drained_def by (intro exI [of _ m] exI [of _ ms1]) simp
qed

lemma drained_step:
  assumes "drained d [t] ms [p] ids1 ms1" and "drained d ts ms1 picks ids ms'"
    and "\<forall>mid. map_option (\<lambda>m. (m_address m, m_labels m)) (map_of ms1 mid) = map_option (\<lambda>m. (m_address m, m_labels m)) (map_of ms mid)"
  shows "drained d (t # ts) ms (p # picks) (ids1 @ ids) ms'"
proof -
  have r: "length picks = length ts"
    "\<forall>p \<in> set picks. \<exists>m. map_of ms1 (m_id p) = Some m \<and> m_address p = m_address m \<and> m_labels p = m_labels m"
    "spread_le d ms'" "map fst ms' = map fst ms1"
    "map_option m_load (map_of ms' mid) = map_option (\<lambda>m. m_load m + int (count_list ids mid)) (map_of ms1 mid)" for mid
    using assms(2) unfolding drained_def by blast+
  have q: "\<exists>m. map_of ms (m_id p) = Some m \<and> m_address p = m_address m \<and> m_labels p = m_labels m" "map fst ms1 = map fst ms"
    "map_option m_load (map_of ms1 mid) = map_option (\<lambda>m. m_load m + int (count_list ids1 mid)) (map_of ms mid)" for mid
    using assms(1) unfolding drained_def by simp_all
  have "\<exists>m. map_of ms (m_id p) = Some m \<and> m_address p = m_address m \<and> m_labels p = m_labels m" if "p \<in> set picks" for p
    using bspec [OF r(2) that] spec [OF assms(3), of "m_id p"] by (cases "map_of ms (m_id p)") auto
  moreover have "map_option m_load (map_of ms' mid) =
      map_option (\<lambda>m. m_load m + int (count_list (ids1 @ ids) mid)) (map_of ms mid)" for mid
    using r(5) [of mid] q(3) [of mid] by (cases "map_of ms1 mid"; cases "map_of ms mid") auto
  ultimately show ?thesis using r(1,3,4) q(1,2) unfolding drained_def by simp
qed

lemma drain_loop_ok:
  assumes "wf_members ms" and "ms \<noteq> []" and "reachable_members ms" and "1 \<le> d" and "spread_le d ms"
  shows "\<exists>picks ms'. drain_loop (recording answers locks) ts ms log = (ms', log @ map2 assign_request ts picks) \<and>
    drained d ts ms picks (placed answers (length log) picks) ms'"
  using assms
proof (induction ts arbitrary: ms log)
  case Nil
  then show ?case by (intro exI [of _ "[]"] exI [of _ ms]) (auto simp: drained_def option.map_ident)
next
  case (Cons t ts)
  obtain p ms1 where p: "snd (assign_target (recording answers locks) t ms log) = (ms1, log @ [assign_request t p])"
    "wf_members ms1" "ms1 \<noteq> []" "reachable_members ms1" "drained d [t] ms [p] (placed answers (length log) [p]) ms1"
    "\<forall>mid. map_option (\<lambda>m. (m_address m, m_labels m)) (map_of ms1 mid) = map_option (\<lambda>m. (m_address m, m_labels m)) (map_of ms mid)"
    using assign_target_recording [OF Cons.prems, of answers locks t log] by blast
  have s1: "spread_le d ms1" using p(5) by (simp add: drained_def)
  obtain picks ms' where r: "drain_loop (recording answers locks) ts ms1 (log @ [assign_request t p]) =
      (ms', (log @ [assign_request t p]) @ map2 assign_request ts picks)"
    "drained d ts ms1 picks (placed answers (length (log @ [assign_request t p])) picks) ms'"
    using Cons.IH [OF p(2-4) Cons.prems(4) s1, of "log @ [assign_request t p]"] by blast
  have "drain_loop (recording answers locks) (t # ts) ms log = (ms', log @ map2 assign_request (t # ts) (p # picks))"
    using p(1) r(1) by (cases "assign_target (recording answers locks) t ms log") simp
  moreover have "drained d (t # ts) ms (p # picks) (placed answers (length log) (p # picks)) ms'"
    using drained_step [OF p(5) r(2) p(6)] by simp
  ultimately show ?case by blast
qed

lemma deltas_loop_total:
  "\<forall>(t, dst) \<in> set plan. dst \<noteq> None \<Longrightarrow> \<exists>r. deltas_loop owner plan rem add = Some r"
proof (induction plan arbitrary: rem add)
  case (Cons p plan)
  obtain t dst where p: "p = (t, dst)" by (cases p)
  show ?case using Cons by (auto simp: p split: option.splits)
qed simp

section \<open>Properties\<close>

text \<open>C24. The rebalancing command always ends: in any world whose locker lists locks of different targets, the
  members it reads have as loads the numbers of their targets, so its plan is found and carried
  out without following a nil pointer.\<close>

theorem rebalance_v2_returns:
  assumes "wf_members cm" and "\<And>i xs. mset (shuf i xs) = mset xs"
    and "\<And>p w. \<exists>locks w'. lk_list e p w = (Inr locks, w') \<and> distinct (map (\<lambda>(t, h). base_name t) locks)"
  shows "\<exists>w'. rebalance_targets_v2 e cluster shuf cm w = Some w'"
proof (cases "cm = []")
  case True
  then show ?thesis
    by (simp add: rebalance_targets_v2_def get_members_def rebalance_def calculate_members_quota_def)
next
  case False
  obtain locks w1 where l: "lk_list e (targets_lock_prefix cluster) w = (Inr locks, w1)"
    "distinct (map (\<lambda>(t, h). base_name t) locks)" using assms(3) by blast
  obtain ms where ms: "get_members e cluster cm w = (Inr ms, w1)" "wf_members ms" "counted ms"
    using get_members_ok [OF assms(1) False l] by blast
  obtain plan where p: "rebalance shuf ms = Some plan"
    "\<forall>(t, dst) \<in> set (entries plan). \<exists>m. dst = Some m \<and> m \<in> set (map snd ms)"
    using rebalance_dsts [of ms shuf, OF ms(2,3) assms(2)] by blast
  have "\<forall>(t, dst) \<in> set (entries plan). dst \<noteq> None" using p(2) by fastforce
  then obtain r where "deltas_loop (owner_loop ms []) (entries plan) [] [] = Some r"
    using deltas_loop_total by blast
  then show ?thesis using ms(1) p(1) by (simp add: rebalance_targets_v2_def Let_def)
qed

definition reachable_member :: "string \<Rightarrow> member" where
  "reachable_member mid = (sample_member mid)\<lparr>m_address := ''h:1''\<rparr>"

definition sample_locks :: "string gmap" where
  "sample_locks = [(''gnmic/c/targets/x'', ''a''), (''gnmic/c/targets/y'', ''a'')]"

lemma sample_base_names: "map (\<lambda>(t, h). base_name t) sample_locks = [''x'', ''y'']"
  by (simp add: sample_locks_def base_name_def trim_right_char_def slash_def)

theorem rebalance_v2_returns_witness:
  "\<exists>w'. rebalance_targets_v2 (recording (\<lambda>_. Inr 200) sample_locks) ''c'' (\<lambda>_ xs. xs)
    [(''a'', reachable_member ''a''), (''b'', reachable_member ''b'')] [] = Some w'"
  by (rule rebalance_v2_returns)
    (simp_all add: wf_members_def wf_gmap_def reachable_member_def sample_member_def recording_def sample_base_names)

text \<open>What \<open>DrainMember\<close> reads: the member with its targets, and the others with their loads.\<close>

definition drain_ready :: "int \<Rightarrow> string gmap \<Rightarrow> members \<Rightarrow> string \<Rightarrow> member \<Rightarrow> members \<Rightarrow> member \<Rightarrow> bool" where
  "drain_ready d locks cm mid m ms m1 \<longleftrightarrow>
    map_of ms mid = Some m1 \<and> m_targets m1 = locked_by mid locks \<and> m_address m1 = m_address m \<and> m_labels m1 = m_labels m \<and>
    wf_members (gdel mid ms) \<and> gdel mid ms \<noteq> [] \<and> reachable_members (gdel mid ms) \<and> spread_le d (gdel mid ms) \<and>
    map fst ms = map fst cm \<and> (\<forall>a x. map_of ms a = Some x \<longrightarrow> m_load x = int (length (locked_by a locks))) \<and>
    (\<forall>(mid, m) \<in> set ms. \<exists>m0. map_of cm mid = Some m0 \<and> m_address m = m_address m0 \<and> m_labels m = m_labels m0)"

lemma drain_reads:
  assumes "wf_members cm" and "(mid, m) \<in> set cm" and "cm \<noteq> [(mid, m)]" and "reachable_members cm"
    and "distinct (map (\<lambda>(t, h). base_name t) locks)" and "lk_list e (targets_lock_prefix cluster) w = (Inr locks, w')"
    and "\<forall>a \<in> set (map fst cm) - {mid}. \<forall>b \<in> set (map fst cm) - {mid}.
      int (length (locked_by a locks)) \<le> int (length (locked_by b locks)) + d"
  shows "\<exists>ms m1. get_members e cluster cm w = (Inr ms, w') \<and> drain_ready d locks cm mid m ms m1"
proof -
  have ne: "cm \<noteq> []" using assms(2) by auto
  obtain ms where ms: "get_members e cluster cm w = (Inr ms, w')" "wf_members ms" "counted ms"
    "map fst ms = map fst cm" "\<forall>(mid, m) \<in> set ms. m_targets m = locked_by mid locks"
    "\<forall>(mid, m) \<in> set ms. \<exists>m0. map_of cm mid = Some m0 \<and> m_address m = m_address m0 \<and> m_labels m = m_labels m0"
    using get_members_ok [OF assms(1) ne assms(6,5)] by blast
  have "mid \<in> set (map fst ms)" using assms(2) ms(4) by force
  then obtain m1 where m1: "map_of ms mid = Some m1" by (cases "map_of ms mid") (auto simp: map_of_eq_None_iff)
  have cm: "map_of cm mid = Some m" using assms(1,2) by (simp add: wf_members_def wf_gmap_def)
  have m1': "m_targets m1 = locked_by mid locks" "m_address m1 = m_address m" "m_labels m1 = m_labels m"
    using bspec [OF ms(5) map_of_SomeD [OF m1]] bspec [OF ms(6) map_of_SomeD [OF m1]] cm by auto
  let ?rest = "gdel mid ms"
  have wfr: "wf_members ?rest" "reachable_members ?rest"
    using ms(2,6) assms(4) by (fastforce simp: gdel_filter wf_members_def reachable_members_def dest: map_of_SomeD)+
  have keys: "map fst ?rest = filter (\<lambda>i. i \<noteq> mid) (map fst cm)"
    unfolding ms(4) [symmetric] by (simp add: gdel_filter filter_map comp_def case_prod_beta')
  have "\<exists>x \<in> set cm. fst x \<noteq> mid"
  proof (rule ccontr)
    assume "\<not> (\<exists>x \<in> set cm. fst x \<noteq> mid)"
    moreover have "distinct (map fst cm)" using assms(1) by (simp add: wf_members_def wf_gmap_def)
    ultimately have "length cm \<le> 1" by (cases cm rule: remdups_adj.cases) auto
    then have "cm = [(mid, m)]" using assms(2) by (cases cm) auto
    with assms(3) show False by simp
  qed
  then have "\<exists>k. k \<in> set (map fst ?rest)" unfolding keys by auto
  then have rest: "?rest \<noteq> []" by auto
  have load: "map_of ms a = Some x \<Longrightarrow> m_load x = int (length (locked_by a locks))" for a x
    using ms(3,5) by (fastforce simp: counted_def dest: map_of_SomeD)
  have "spread_le d ?rest"
    unfolding spread_le_def
  proof (intro ballI)
    fix x y assume "x \<in> set (map snd ?rest)" "y \<in> set (map snd ?rest)"
    then obtain a b where ab: "(a, x) \<in> set ms" "a \<noteq> mid" "(b, y) \<in> set ms" "b \<noteq> mid" by (auto simp: gdel_filter)
    then have "a \<in> set (map fst cm)" "b \<in> set (map fst cm)" unfolding ms(4) [symmetric] by force+
    moreover have "map_of ms a = Some x" "map_of ms b = Some y" using ab ms(2) by (simp_all add: wf_members_def wf_gmap_def)
    ultimately show "m_load x \<le> m_load y + d" using load assms(7) ab by force
  qed
  then show ?thesis using ms(1,4,6) m1 m1' wfr rest load unfolding drain_ready_def by blast
qed

text \<open>The picks are other members, at the addresses the leader knows them by.\<close>

lemma drained_picks:
  assumes "drain_ready d locks cm mid m ms m1" and "drained d ts (gdel mid ms) picks ids ms'" and "p \<in> set picks"
  shows "m_id p \<noteq> mid \<and> (\<exists>m. map_of cm (m_id p) = Some m \<and> member_url p = member_url m)"
proof -
  have contact: "\<forall>(mid, m) \<in> set ms. \<exists>m0. map_of cm mid = Some m0 \<and> m_address m = m_address m0 \<and> m_labels m = m_labels m0"
    using assms(1) by (simp add: drain_ready_def)
  obtain m3 where m3: "map_of (gdel mid ms) (m_id p) = Some m3" "m_address p = m_address m3" "m_labels p = m_labels m3"
    using assms(2,3) unfolding drained_def by blast
  then have "m_id p \<noteq> mid" "map_of ms (m_id p) = Some m3" by (auto split: if_splits)
  with m3 show ?thesis using bspec [OF contact map_of_SomeD] by (fastforce simp: member_url_def get_api_scheme_def)
qed

lemma drained_loads:
  assumes "drain_ready d locks cm mid m ms m1" and "drained d ts (gdel mid ms) picks ids ms'"
    and "a \<in> set (map fst cm) - {mid}" and "b \<in> set (map fst cm) - {mid}"
  shows "int (length (locked_by a locks) + count_list ids a) \<le> int (length (locked_by b locks) + count_list ids b) + d"
proof -
  have final: "\<exists>z. z \<in> set (map snd ms') \<and> m_load z = int (length (locked_by i locks) + count_list ids i)"
    if "i \<in> set (map fst cm) - {mid}" for i
  proof -
    have "i \<in> set (map fst ms)" using that assms(1) by (simp add: drain_ready_def)
    then obtain x where x: "map_of ms i = Some x" by (cases "map_of ms i") (auto simp: map_of_eq_None_iff)
    then have "m_load x = int (length (locked_by i locks))" using assms(1) by (simp add: drain_ready_def)
    moreover have "map_option m_load (map_of ms' i) = Some (m_load x + int (count_list ids i))"
      using x assms(2) that unfolding drained_def by simp
    ultimately obtain z where "map_of ms' i = Some z" "m_load z = int (length (locked_by i locks) + count_list ids i)" by auto
    then show ?thesis using map_of_SomeD by force
  qed
  obtain x where x: "x \<in> set (map snd ms')" "m_load x = int (length (locked_by a locks) + count_list ids a)"
    using final [OF assms(3)] by blast
  obtain y where y: "y \<in> set (map snd ms')" "m_load y = int (length (locked_by b locks) + count_list ids b)"
    using final [OF assms(4)] by blast
  have "m_load x \<le> m_load y + d" using assms(2) x(1) y(1) unfolding drained_def spread_le_def by blast
  then show ?thesis by (simp only: x(2) y(2))
qed

text \<open>C21. Whatever the members answer, draining a member first asks it, in one request, to give up all its
  targets. When that fails the error is returned and nothing else is sent. When it succeeds each target is
  sent once, to one of the remaining members, and no error is returned even if some of these requests
  fail; counting the requests that succeeded, two remaining members are never further apart in load than
  they were, or than one target (\<open>d\<close> is at least one). The leader knows the members by their identifiers
  and knows an address of each, the member has targets and is not the only one, and the locks are of
  different targets.\<close>

theorem drain_keeps_balance:
  assumes "wf_members cm" and "(mid, m) \<in> set cm" and "cm \<noteq> [(mid, m)]" and "reachable_members cm"
    and "distinct (map (\<lambda>(t, h). base_name t) locks)" and "locked_by mid locks \<noteq> []" and "1 \<le> d"
    and "\<forall>a \<in> set (map fst cm) - {mid}. \<forall>b \<in> set (map fst cm) - {mid}.
      int (length (locked_by a locks)) \<le> int (length (locked_by b locks)) + d"
  shows "\<exists>picks. drain_member (recording answers locks) cluster cm mid [] =
      (failure answers 0 ''unassign: '', (POST, member_url m, UnassignBody (locked_by mid locks)) #
        (if failure answers 0 ''unassign: '' = None then map2 assign_request (locked_by mid locks) picks else [])) \<and>
    length picks = length (locked_by mid locks) \<and>
    (\<forall>p \<in> set picks. m_id p \<noteq> mid \<and> (\<exists>m. map_of cm (m_id p) = Some m \<and> member_url p = member_url m)) \<and>
    (\<forall>a \<in> set (map fst cm) - {mid}. \<forall>b \<in> set (map fst cm) - {mid}.
      int (length (locked_by a locks) + count_list (placed answers 1 picks) a) \<le>
      int (length (locked_by b locks) + count_list (placed answers 1 picks) b) + d)"
proof -
  have lk: "lk_list (recording answers locks) (targets_lock_prefix cluster) [] = (Inr locks, [])" by (simp add: recording_def)
  obtain ms m1 where r: "get_members (recording answers locks) cluster cm [] = (Inr ms, [])" "drain_ready d locks cm mid m ms m1"
    using drain_reads [OF assms(1-5) lk assms(8)] by blast
  have addr: "m_address m \<noteq> []" using assms(2,4) by (force simp: reachable_members_def)
  have m1: "map_of ms mid = Some m1" "m_targets m1 = locked_by mid locks" "m_address m1 = m_address m" "m_labels m1 = m_labels m"
    and rest: "wf_members (gdel mid ms)" "gdel mid ms \<noteq> []" "reachable_members (gdel mid ms)" "spread_le d (gdel mid ms)"
    using r(2) unfolding drain_ready_def by blast+
  let ?u = "(POST, member_url m, UnassignBody (m_targets m1))"
  obtain picks ms' where d: "drain_loop (recording answers locks) (m_targets m1) (gdel mid ms) [?u] =
      (ms', [?u] @ map2 assign_request (m_targets m1) picks)"
    "drained d (m_targets m1) (gdel mid ms) picks (placed answers (length [?u]) picks) ms'"
    using drain_loop_ok [OF rest(1-3) assms(7) rest(4)] by blast
  have "drain_member (recording answers locks) cluster cm mid [] =
      (failure answers 0 ''unassign: '', (POST, member_url m, UnassignBody (locked_by mid locks)) #
        (if failure answers 0 ''unassign: '' = None then map2 assign_request (locked_by mid locks) picks else []))"
    using r(1) m1 assms(6) addr d(1)
    by (cases "failure answers 0 ''unassign: ''") (simp_all add: drain_member_def unassign_def member_url_def get_api_scheme_def)
  moreover have "length picks = length (locked_by mid locks)" using d(2) m1(2) by (simp add: drained_def)
  ultimately show ?thesis
    using drained_picks [OF r(2) d(2)] drained_loads [OF r(2) d(2)] by (intro exI [of _ picks]) simp
qed

theorem drain_keeps_balance_witness:
  "\<exists>picks. drain_member (recording (\<lambda>i. Inr (if i = 2 then 503 else 200)) sample_locks) ''c''
      [(''a'', reachable_member ''a''), (''b'', reachable_member ''b'')] ''a'' [] =
    (None, (POST, member_url (reachable_member ''a''), UnassignBody [''x'', ''y'']) # map2 assign_request [''x'', ''y''] picks)"
proof -
  have l: "locked_by ''a'' sample_locks = [''x'', ''y'']" "locked_by ''b'' sample_locks = []"
    using sample_base_names by (simp_all add: locked_by_def sample_locks_def)
  show ?thesis
    using drain_keeps_balance [of "[(''a'', reachable_member ''a''), (''b'', reachable_member ''b'')]" "''a''" "reachable_member ''a''"
        sample_locks 1 "\<lambda>i. Inr (if i = 2 then 503 else 200)" "''c''"] l
    by (simp add: wf_members_def wf_gmap_def reachable_member_def sample_member_def reachable_members_def sample_base_names
        failure_def signed_divide_int_def) blast
qed

text \<open>
  A request of the drain that fails is lost: the target is given up by the drained member and taken by no
  other, and the caller is not told.
\<close>

lemma drain_hides_failure:
  assumes "answers 0 = Inr 200" and "answers 1 = Inl err"
  shows "drain_member (recording answers [(''gnmic/c/targets/x'', ''a'')]) ''c''
      [(''a'', reachable_member ''a''), (''b'', reachable_member ''b'')] ''a'' [] =
    (None, [(POST, member_url (reachable_member ''a''), UnassignBody [''x'']), assign_request ''x'' (reachable_member ''b'')]) \<and>
    placed answers 1 [reachable_member ''b''] = []"
  using assms sample_base_names
  by (simp add: drain_member_def get_members_def populate_member_load_def recording_def unassign_def request_def
      assign_target_def assign_one_def get_least_loaded_member_def reachable_member_def sample_member_def
      member_url_def get_api_scheme_def assign_request_def failure_def sample_locks_def signed_divide_int_def)

end
