(* ===== verification/Cluster_Election.thy ===== *)
theory Cluster_Election
  imports Gnmi_Types
begin

text \<open>
  The election of the cluster leader: \<open>election.go\<close> and the campaign loop \<open>runCampaign\<close> of
  \<open>cluster_manager.go\<close>. A node is a record of the fields of \<open>election\<close>; the operations are cut
  where the code gives up its mutex, so that a withdrawal, the keepalive goroutine and the
  campaign loop of one node interleave. The locker is shared by all nodes: its documented
  contract is that \<open>Lock\<close> succeeds only when nobody holds the key, that \<open>Unlock\<close> gives up one's
  own lock, and that a lock may expire at any time.
\<close>

section \<open>One node\<close>

text \<open>Where \<open>runCampaign\<close> is: before a campaign, inside one, or leading until the loss is observed.\<close>

datatype phase = Idle | Campaigning | Leading

record election =
  el_phase :: phase
  el_term :: int
  el_held :: bool
  el_once :: bool \<comment> \<open>\<open>loseOnce\<close> has run\<close>
  el_ch :: "bool option" \<comment> \<open>\<open>loseCh\<close>: nil, open (\<open>False\<close>) or closed (\<open>True\<close>)\<close>
  el_cancel :: bool \<comment> \<open>\<open>cancelKeepAlive\<close> is set\<close>
  el_release :: bool \<comment> \<open>\<open>releaseFn\<close> is set\<close>
  el_keepalive :: bool \<comment> \<open>the keepalive goroutine of the session runs\<close>
  el_stale :: nat \<comment> \<open>keepalive goroutines that are cancelled and have not returned yet\<close>
  el_signals :: nat \<comment> \<open>goroutines about to call \<open>loseOnce.Do\<close>\<close>

definition new_election :: election where
  "new_election = \<lparr>el_phase = Idle, el_term = 0, el_held = False, el_once = False, el_ch = None,
    el_cancel = False, el_release = False, el_keepalive = False, el_stale = 0, el_signals = 0\<rparr>"

text \<open>The renewal period: half the configured session TTL, 5 seconds without one.\<close>

definition renew_every :: "(string \<Rightarrow> int res) \<Rightarrow> gval option \<Rightarrow> int res" where
  "renew_every parse_duration sTTL =
    (case sTTL of
      None \<Rightarrow> Inr (5 * 10 ^ 9)
    | Some v \<Rightarrow>
        (case as_str v of
          None \<Rightarrow> Inl ''session-ttl must be a string''
        | Some st \<Rightarrow>
            rbind (parse_duration st) (\<lambda>d. if d \<le> 0 then Inl ''session-ttl must be greater than 0'' else Inr (d div 2))))"

text \<open>The start of \<open>Campaign\<close>, and what it does once it has the lock.\<close>

definition campaign_reset :: "election \<Rightarrow> election" where
  "campaign_reset e = e\<lparr>el_phase := Campaigning, el_once := False, el_ch := Some False\<rparr>"

definition campaign_acquired :: "election \<Rightarrow> election" where
  "campaign_acquired e = e\<lparr>el_phase := Leading, el_release := True, el_held := True, el_term := el_term e + 1,
    el_cancel := True, el_keepalive := True\<rparr>"

text \<open>Cancelling the context of the current keepalive goroutine, if there is one.\<close>

definition cancel_keepalive :: "election \<Rightarrow> election" where
  "cancel_keepalive e =
    (if el_cancel e \<and> el_keepalive e then e\<lparr>el_keepalive := False, el_stale := el_stale e + 1\<rparr> else e)"

text \<open>
  \<open>Withdraw\<close> up to the signal: nothing when the lock is not held; otherwise it takes the release
  and cancel functions and calls them. The second component tells whether the lock is released.
\<close>

definition withdraw :: "election \<Rightarrow> election \<times> bool" where
  "withdraw e =
    (if \<not> el_held e then (e, False)
     else ((cancel_keepalive e)\<lparr>el_release := False, el_cancel := False, el_signals := el_signals e + 1\<rparr>, el_release e))"

text \<open>
  \<open>signalLoss\<close> up to the signal. The goroutine that calls it returns afterwards: the one of the
  session, or a cancelled one that was in the middle of a tick.
\<close>

definition signal_loss :: "election \<Rightarrow> election \<times> bool" where
  "signal_loss e = (e\<lparr>el_release := False, el_keepalive := False, el_signals := el_signals e + 1\<rparr>, el_release e)"

definition stale_signal_loss :: "election \<Rightarrow> election \<times> bool" where
  "stale_signal_loss e =
    ((cancel_keepalive (e\<lparr>el_stale := el_stale e - 1\<rparr>))\<lparr>el_release := False, el_signals := el_signals e + 1\<rparr>, el_release e)"

text \<open>
  A tick of \<open>keepalive\<close>, given the answers of the locker to \<open>IsLocked\<close> (\<open>None\<close> is an error) and
  \<open>List\<close>: the loss is signalled on an error, when the lock is gone, or when another node holds it.
\<close>

definition keepalive_tick :: "'n \<Rightarrow> bool option \<Rightarrow> 'n option \<Rightarrow> election \<Rightarrow> election \<times> bool" where
  "keepalive_tick self locked holder e =
    (if locked \<noteq> Some True then signal_loss e
     else case holder of
       Some h \<Rightarrow> if h \<noteq> self then signal_loss e else (e, False)
     | None \<Rightarrow> (e, False))"

text \<open>
  \<open>loseOnce.Do\<close>: closing a nil or a closed channel panics (\<open>None\<close>); \<open>Withdraw\<close> skips a nil channel
  (\<open>checked\<close>), \<open>signalLoss\<close> does not.
\<close>

definition lose_once :: "bool \<Rightarrow> election \<Rightarrow> election option" where
  "lose_once checked e =
    (let e1 = e\<lparr>el_signals := el_signals e - 1\<rparr>
     in if el_once e then Some e1
        else case el_ch e of
          None \<Rightarrow> if checked then Some (e1\<lparr>el_once := True, el_held := False\<rparr>) else None
        | Some closed \<Rightarrow>
            if closed then None else Some (e1\<lparr>el_once := True, el_held := False, el_ch := Some True\<rparr>))"

text \<open>\<open>runCampaign\<close> observes the closed channel and stops the leader duties.\<close>

definition observe_loss :: "election \<Rightarrow> election" where
  "observe_loss e = e\<lparr>el_phase := Idle\<rparr>"

section \<open>All nodes and the lock\<close>

record 'n cluster =
  nodes :: "'n \<Rightarrow> election"
  lock :: "'n option"

definition upd :: "'n \<Rightarrow> election \<Rightarrow> 'n cluster \<Rightarrow> 'n cluster" where
  "upd n e s = s\<lparr>nodes := (nodes s)(n := e)\<rparr>"

definition unlock_if :: "bool \<Rightarrow> 'n \<Rightarrow> 'n cluster \<Rightarrow> 'n cluster" where
  "unlock_if b n s = (if b \<and> lock s = Some n then s\<lparr>lock := None\<rparr> else s)"

definition initial :: "'n cluster" where
  "initial = \<lparr>nodes = (\<lambda>_. new_election), lock = None\<rparr>"

text \<open>The flag tells whether locks may expire. A failed attempt to acquire the lock changes nothing.\<close>

inductive election_step :: "bool \<Rightarrow> 'n cluster \<Rightarrow> 'n cluster \<Rightarrow> bool" for expiry :: bool where
  Reset: "el_phase (nodes s n) = Idle \<Longrightarrow> election_step expiry s (upd n (campaign_reset (nodes s n)) s)"
| Acquire: "el_phase (nodes s n) = Campaigning \<Longrightarrow> lock s = None \<Longrightarrow>
    election_step expiry s (upd n (campaign_acquired (nodes s n)) (s\<lparr>lock := Some n\<rparr>))"
| Withdraw: "withdraw (nodes s n) = (e, rel) \<Longrightarrow> election_step expiry s (unlock_if rel n (upd n e s))"
| Tick: "el_keepalive (nodes s n) \<Longrightarrow> locked \<in> {None, Some (lock s \<noteq> None)} \<Longrightarrow> holder \<in> {None, lock s} \<Longrightarrow>
    keepalive_tick n locked holder (nodes s n) = (e, rel) \<Longrightarrow> election_step expiry s (unlock_if rel n (upd n e s))"
| StaleTick: "0 < el_stale (nodes s n) \<Longrightarrow> stale_signal_loss (nodes s n) = (e, rel) \<Longrightarrow>
    election_step expiry s (unlock_if rel n (upd n e s))"
| StaleExit: "0 < el_stale (nodes s n) \<Longrightarrow>
    election_step expiry s (upd n ((nodes s n)\<lparr>el_stale := el_stale (nodes s n) - 1\<rparr>) s)"
| Signal: "0 < el_signals (nodes s n) \<Longrightarrow> lose_once checked (nodes s n) = Some e \<Longrightarrow> election_step expiry s (upd n e s)"
| Observe: "el_phase (nodes s n) = Leading \<Longrightarrow> el_ch (nodes s n) = Some True \<Longrightarrow>
    election_step expiry s (upd n (observe_loss (nodes s n)) s)"
| Expire: "expiry \<Longrightarrow> election_step expiry s (s\<lparr>lock := None\<rparr>)"

inductive reachable :: "bool \<Rightarrow> 'n cluster \<Rightarrow> bool" for expiry :: bool where
  init: "reachable expiry initial"
| step: "reachable expiry s \<Longrightarrow> election_step expiry s s' \<Longrightarrow> reachable expiry s'"

section \<open>The invariant of a node\<close>

text \<open>
  The channel is closed exactly when the once has run; signals and leading need a channel; and a
  node that leads with the channel open watches its lock or is about to signal the loss.
\<close>

definition node_inv :: "election \<Rightarrow> bool" where
  "node_inv e \<longleftrightarrow>
    (el_ch e = Some True \<longleftrightarrow> el_once e) \<and>
    (el_held e \<or> el_keepalive e \<or> 0 < el_stale e \<or> 0 < el_signals e \<or> el_phase e \<noteq> Idle \<longrightarrow> el_ch e \<noteq> None) \<and>
    (el_phase e = Leading \<and> el_ch e = Some False \<longrightarrow> el_keepalive e \<or> 0 < el_signals e) \<and>
    (el_phase e = Leading \<and> el_ch e = Some False \<and> el_signals e = 0 \<longrightarrow> el_release e)"

lemmas node_defs = campaign_reset_def campaign_acquired_def withdraw_def signal_loss_def keepalive_tick_def
  cancel_keepalive_def stale_signal_loss_def
  lose_once_def observe_loss_def

lemma node_invI:
  assumes "(el_ch e = Some True) = el_once e"
    and "el_held e \<or> el_keepalive e \<or> 0 < el_stale e \<or> 0 < el_signals e \<or> el_phase e \<noteq> Idle \<Longrightarrow> el_ch e \<noteq> None"
    and "el_phase e = Leading \<Longrightarrow> el_ch e = Some False \<Longrightarrow> el_keepalive e \<or> 0 < el_signals e"
    and "el_phase e = Leading \<Longrightarrow> el_ch e = Some False \<Longrightarrow> el_signals e = 0 \<Longrightarrow> el_release e"
  shows "node_inv e"
  unfolding node_inv_def using assms by simp

lemma node_invD:
  assumes "node_inv e"
  shows "(el_ch e = Some True) = el_once e"
    and "el_held e \<or> el_keepalive e \<or> 0 < el_stale e \<or> 0 < el_signals e \<or> el_phase e \<noteq> Idle \<Longrightarrow> el_ch e \<noteq> None"
    and "el_phase e = Leading \<Longrightarrow> el_ch e = Some False \<Longrightarrow> el_keepalive e \<or> 0 < el_signals e"
    and "el_phase e = Leading \<Longrightarrow> el_ch e = Some False \<Longrightarrow> el_signals e = 0 \<Longrightarrow> el_release e"
  using assms unfolding node_inv_def by simp_all

lemma cancel_keepalive_simps [simp]:
  "el_phase (cancel_keepalive e) = el_phase e" "el_once (cancel_keepalive e) = el_once e"
  "el_ch (cancel_keepalive e) = el_ch e" "el_held (cancel_keepalive e) = el_held e"
  "el_release (cancel_keepalive e) = el_release e" "el_signals (cancel_keepalive e) = el_signals e"
  by (simp_all add: cancel_keepalive_def)

lemma node_inv_reset: "node_inv e \<Longrightarrow> el_phase e = Idle \<Longrightarrow> node_inv (campaign_reset e)"
  by (rule node_invI) (simp_all add: campaign_reset_def)

lemma node_inv_acquired: "node_inv e \<Longrightarrow> el_phase e = Campaigning \<Longrightarrow> node_inv (campaign_acquired e)"
  by (frule node_invD(1), drule node_invD(2), simp, rule node_invI) (simp_all add: campaign_acquired_def)

lemma node_inv_withdraw:
  assumes "node_inv e" and "withdraw e = (e', rel)"
  shows "node_inv e'"
proof (cases "el_held e")
  case True
  then have "el_ch e \<noteq> None" using node_invD(2) [OF assms(1)] by simp
  with True assms(2) node_invD(1) [OF assms(1)] show ?thesis
    by (intro node_invI) (auto simp: withdraw_def)
next
  case False
  then show ?thesis using assms by (simp add: withdraw_def)
qed

lemma node_inv_loss:
  assumes "node_inv e" and "el_keepalive e" and "signal_loss e = (e', rel)"
  shows "node_inv e'"
proof -
  have "el_ch e \<noteq> None" using node_invD(2) [OF assms(1)] assms(2) by simp
  with assms(3) node_invD(1) [OF assms(1)] show ?thesis by (intro node_invI) (auto simp: signal_loss_def)
qed

lemma node_inv_tick:
  "node_inv e \<Longrightarrow> el_keepalive e \<Longrightarrow> keepalive_tick n l h e = (e', rel) \<Longrightarrow> node_inv e'"
  unfolding keepalive_tick_def by (auto split: if_splits option.splits dest: node_inv_loss)

lemma node_inv_stale:
  assumes "node_inv e" and "0 < el_stale e"
  shows "stale_signal_loss e = (e', rel) \<Longrightarrow> node_inv e'" and "node_inv (e\<lparr>el_stale := el_stale e - 1\<rparr>)"
proof -
  have ch: "el_ch e \<noteq> None" using node_invD(2) [OF assms(1)] assms(2) by simp
  show "stale_signal_loss e = (e', rel) \<Longrightarrow> node_inv e'"
    using ch node_invD(1) [OF assms(1)] by (intro node_invI) (auto simp: stale_signal_loss_def)
  show "node_inv (e\<lparr>el_stale := el_stale e - 1\<rparr>)"
    using ch node_invD(1,3,4) [OF assms(1)] by (intro node_invI) simp_all
qed

lemma node_inv_signal:
  assumes "node_inv e" and "0 < el_signals e" and "lose_once c e = Some e'"
  shows "node_inv e'"
proof -
  have ch: "el_ch e \<noteq> None" using node_invD(2) [OF assms(1)] assms(2) by simp
  show ?thesis
  proof (cases "el_once e")
    case True
    then have "el_ch e = Some True" using node_invD(1) [OF assms(1)] by simp
    with True assms(3) show ?thesis by (intro node_invI) (auto simp: lose_once_def)
  next
    case False
    then have "el_ch e = Some False" using node_invD(1) [OF assms(1)] ch by (cases "el_ch e") auto
    with False assms(3) show ?thesis by (intro node_invI) (auto simp: lose_once_def)
  qed
qed

lemma node_inv_observe: "node_inv e \<Longrightarrow> el_ch e = Some True \<Longrightarrow> node_inv (observe_loss e)"
  by (frule node_invD(1), rule node_invI) (simp_all add: observe_loss_def)

lemma node_inv_new: "node_inv new_election"
  by (simp add: node_inv_def new_election_def)

lemma nodes_upd [simp]: "nodes (upd n e s) m = (if m = n then e else nodes s m)" "lock (upd n e s) = lock s"
  by (simp_all add: upd_def)

lemma unlock_if_simps [simp]:
  "nodes (unlock_if b n s) = nodes s" "lock (unlock_if b n s) = (if b \<and> lock s = Some n then None else lock s)"
  by (simp_all add: unlock_if_def)

lemma inv_upd: "\<forall>n. node_inv (nodes s n) \<Longrightarrow> node_inv e \<Longrightarrow> \<forall>m. node_inv (nodes (upd n e s) m)"
  by simp

lemma step_node_inv:
  assumes "election_step expiry s s'" and inv: "\<forall>n. node_inv (nodes s n)"
  shows "\<forall>n. node_inv (nodes s' n)"
  using assms(1)
proof cases
  case (Reset n)
  show ?thesis unfolding Reset(1) by (rule inv_upd [OF inv node_inv_reset [OF spec [OF inv] Reset(2)]])
next
  case (Acquire n)
  have "\<forall>m. node_inv (nodes (s\<lparr>lock := Some n\<rparr>) m)" using inv by simp
  from inv_upd [OF this node_inv_acquired [OF spec [OF inv] Acquire(2)]] show ?thesis unfolding Acquire(1) .
next
  case (Withdraw n e rel)
  show ?thesis unfolding Withdraw(1) unlock_if_simps by (rule inv_upd [OF inv node_inv_withdraw [OF spec [OF inv] Withdraw(2)]])
next
  case (Tick n locked holder e rel)
  show ?thesis unfolding Tick(1) unlock_if_simps by (rule inv_upd [OF inv node_inv_tick [OF spec [OF inv] Tick(2,5)]])
next
  case (StaleTick n e rel)
  show ?thesis unfolding StaleTick(1) unlock_if_simps by (rule inv_upd [OF inv node_inv_stale(1) [OF spec [OF inv] StaleTick(2,3)]])
next
  case (StaleExit n)
  show ?thesis unfolding StaleExit(1) by (rule inv_upd [OF inv node_inv_stale(2) [OF spec [OF inv] StaleExit(2)]])
next
  case (Signal n checked e)
  show ?thesis unfolding Signal(1) by (rule inv_upd [OF inv node_inv_signal [OF spec [OF inv] Signal(2,3)]])
next
  case (Observe n)
  show ?thesis unfolding Observe(1) by (rule inv_upd [OF inv node_inv_observe [OF spec [OF inv] Observe(3)]])
next
  case Expire
  then show ?thesis using inv by simp
qed

lemma reachable_node_inv: "reachable expiry s \<Longrightarrow> node_inv (nodes s n)"
proof (induction arbitrary: n rule: reachable.induct)
  case init
  then show ?case by (simp add: initial_def node_inv_new)
next
  case (step s s')
  then show ?case using step_node_inv by blast
qed

section \<open>The invariant of the lock\<close>

definition release_keeps_lock :: "'n cluster \<Rightarrow> bool" where
  "release_keeps_lock s \<longleftrightarrow> (\<forall>n. el_release (nodes s n) \<longrightarrow> lock s = Some n)"

lemma withdraw_release: "withdraw e = (e', rel) \<Longrightarrow> el_release e' = (el_release e \<and> \<not> rel) \<and> (rel \<longrightarrow> el_release e)"
  by (auto simp: withdraw_def cancel_keepalive_def split: if_splits)

lemma stale_release: "stale_signal_loss e = (e', rel) \<Longrightarrow> el_release e' = (el_release e \<and> \<not> rel) \<and> (rel \<longrightarrow> el_release e)"
  by (auto simp: stale_signal_loss_def cancel_keepalive_def split: if_splits)

lemma tick_release: "keepalive_tick n l h e = (e', rel) \<Longrightarrow> el_release e' = (el_release e \<and> \<not> rel) \<and> (rel \<longrightarrow> el_release e)"
  by (auto simp: keepalive_tick_def signal_loss_def split: if_splits option.splits)

lemma keeps_unlock:
  assumes "release_keeps_lock s" and "el_release e = (el_release (nodes s n) \<and> \<not> rel) \<and> (rel \<longrightarrow> el_release (nodes s n))"
  shows "release_keeps_lock (unlock_if rel n (upd n e s))"
  unfolding release_keeps_lock_def
proof (intro allI impI)
  fix m assume m: "el_release (nodes (unlock_if rel n (upd n e s)) m)"
  show "lock (unlock_if rel n (upd n e s)) = Some m"
  proof (cases "m = n")
    case True
    then have "el_release (nodes s n)" "\<not> rel" using m assms(2) by auto
    then show ?thesis using assms(1) True by (simp add: release_keeps_lock_def)
  next
    case False
    then have "lock s = Some m" using m assms(1) by (simp add: release_keeps_lock_def)
    then show ?thesis using False by simp
  qed
qed

lemma step_release:
  assumes "election_step False s s'" and "release_keeps_lock s"
  shows "release_keeps_lock s'"
  using assms
proof cases
  case (Reset n)
  with assms(2) show ?thesis by (auto simp: release_keeps_lock_def campaign_reset_def)
next
  case (Acquire n)
  with assms(2) show ?thesis by (auto simp: release_keeps_lock_def campaign_acquired_def)
next
  case (Withdraw n e rel)
  show ?thesis unfolding Withdraw(1) by (rule keeps_unlock [OF assms(2) withdraw_release [OF Withdraw(2)]])
next
  case (Tick n locked holder e rel)
  show ?thesis unfolding Tick(1) by (rule keeps_unlock [OF assms(2) tick_release [OF Tick(5)]])
next
  case (StaleTick n e rel)
  show ?thesis unfolding StaleTick(1) by (rule keeps_unlock [OF assms(2) stale_release [OF StaleTick(3)]])
next
  case (StaleExit n)
  with assms(2) show ?thesis by (auto simp: release_keeps_lock_def)
next
  case (Signal n checked e)
  then have "el_release e = el_release (nodes s n)" by (auto simp: lose_once_def Let_def split: if_splits option.splits)
  with Signal assms(2) show ?thesis by (auto simp: release_keeps_lock_def)
next
  case (Observe n)
  with assms(2) show ?thesis by (auto simp: release_keeps_lock_def observe_loss_def)
qed simp

lemma reachable_release: "reachable False s \<Longrightarrow> release_keeps_lock s"
proof (induction rule: reachable.induct)
  case init
  then show ?case by (simp add: release_keeps_lock_def initial_def new_election_def)
next
  case (step s s')
  then show ?case using step_release by blast
qed

section \<open>Properties\<close>

text \<open>A node leads when its duties run, its loss channel is open and nobody is about to close it.\<close>

definition leads :: "election \<Rightarrow> bool" where
  "leads e \<longleftrightarrow> el_phase e = Leading \<and> el_ch e = Some False \<and> el_signals e = 0"

text \<open>C2. At most one node leads, under every interleaving of campaigns, withdrawals and keepalives, as long as
  the locks do not expire; and the leader holds the lock.\<close>

theorem election_single_leader:
  assumes "reachable False s" and "leads (nodes s n)"
  shows "lock s = Some n \<and> (leads (nodes s m) \<longrightarrow> m = n)"
proof -
  have "el_release (nodes s k)" if "leads (nodes s k)" for k
    using that reachable_node_inv [OF assms(1), of k] by (simp add: leads_def node_inv_def)
  then have l: "lock s = Some k" if "leads (nodes s k)" for k
    using that reachable_release [OF assms(1)] by (simp add: release_keeps_lock_def)
  show ?thesis using l [of m] l [OF assms(2)] by auto
qed

text \<open>Node 0 campaigns and acquires the lock.\<close>

definition one_leader :: "nat cluster" where
  "one_leader = upd 0 (campaign_acquired (campaign_reset new_election))
    ((upd 0 (campaign_reset new_election) initial)\<lparr>lock := Some 0\<rparr>)"

lemma one_leader_reachable: "reachable expiry one_leader"
proof -
  let ?s = "upd 0 (campaign_reset new_election) initial :: nat cluster"
  have "election_step expiry initial ?s"
    using Reset [of initial "0 :: nat"] by (simp add: initial_def new_election_def)
  then have "reachable expiry ?s" by (rule reachable.step [OF reachable.init])
  moreover have "election_step expiry ?s one_leader"
    using Acquire [of ?s 0] by (simp add: one_leader_def campaign_reset_def initial_def upd_def)
  ultimately show ?thesis by (rule reachable.step)
qed

theorem election_single_leader_witness: "lock one_leader = Some 0 \<and> \<not> leads (nodes one_leader (1 :: nat))"
  using election_single_leader [OF one_leader_reachable, of 0 1]
  by (simp add: one_leader_def leads_def campaign_acquired_def campaign_reset_def new_election_def upd_def initial_def)

text \<open>C22. The loss of the leadership is signalled without panic and is noticed: also when locks expire, no
  goroutine ever closes a closed or nil channel, and a node that leads without holding the lock
  watches it and signals the loss at the next tick of its keepalive.\<close>

theorem election_loss_noticed:
  assumes "reachable True s"
  shows "(0 < el_signals (nodes s n) \<longrightarrow> lose_once checked (nodes s n) \<noteq> None) \<and>
    (leads (nodes s n) \<and> lock s \<noteq> Some n \<longrightarrow> el_keepalive (nodes s n) \<and>
      \<not> leads (fst (keepalive_tick n (Some (lock s \<noteq> None)) (lock s) (nodes s n))))"
proof -
  have inv: "node_inv (nodes s n)" by (rule reachable_node_inv [OF assms])
  have "lose_once checked (nodes s n) \<noteq> None" if "0 < el_signals (nodes s n)"
    using inv that by (auto simp: node_inv_def lose_once_def Let_def split: option.splits)
  moreover have "\<not> leads (fst (signal_loss (nodes s n)))" by (simp add: leads_def signal_loss_def)
  ultimately show ?thesis
    using inv by (auto simp: leads_def node_inv_def keepalive_tick_def split: option.splits)
qed

theorem election_loss_noticed_witness:
  "\<not> leads (fst (keepalive_tick (0 :: nat) (Some False) None (nodes (one_leader\<lparr>lock := None\<rparr>) 0)))"
proof -
  have "reachable True (one_leader\<lparr>lock := None\<rparr>)"
    by (rule reachable.step [OF one_leader_reachable Expire]) simp
  moreover have "leads (nodes (one_leader\<lparr>lock := None\<rparr>) 0)"
    by (simp add: one_leader_def leads_def campaign_acquired_def campaign_reset_def new_election_def upd_def)
  ultimately show ?thesis
    using election_loss_noticed [of "one_leader\<lparr>lock := None\<rparr>" 0 True] by simp
qed

end
