(* ===== verification/Gnmi_Path.thy ===== *)
theory Gnmi_Path
  imports Gnmi_Types
begin

text \<open>
  The path library of \<open>pkg/api/path/path.go\<close>: parsing an XPath-like text into a gNMI path and
  printing a path. The loops of the source range over runes; the characters they look for are
  ASCII, so the model runs over the bytes of the text after the pass that replaces invalid UTF-8
  (\<open>utf8_fix\<close>, which is what converting the runes back to a string does).
\<close>

section \<open>Parsing\<close>

definition nul :: char where "nul = CHR 0x00"
definition bslash :: char where "bslash = CHR 0x5C"
definition lbrack :: char where "lbrack = CHR 0x5B"
definition rbrack :: char where "rbrack = CHR 0x5D"

definition malformed_xpath :: string where "malformed_xpath = ''malformed xpath''"
definition malformed_xpath_key :: string where "malformed_xpath_key = ''malformed xpath key''"
definition empty_elem_name :: string where "empty_elem_name = ''empty path element name''"

text \<open>\<open>escapedBracketsReplacer\<close>: a backslash before a bracket is removed.\<close>

fun unescape_brackets :: "string \<Rightarrow> string" where
  "unescape_brackets (a # b # s) =
    (if a = bslash \<and> (b = rbrack \<or> b = lbrack) then b # unescape_brackets s
     else a # unescape_brackets (b # s))"
| "unescape_brackets s = s"

text \<open>The text between two brackets: a key, the first equals sign, and a value.\<close>

definition parse_key :: "string \<Rightarrow> (string \<times> string) res" where
  "parse_key kv =
    (case index_char CHR ''='' kv of
      None \<Rightarrow> Inl malformed_xpath_key
    | Some eq \<Rightarrow>
        if take eq kv = [] \<or> drop (Suc eq) kv = [] then Inl malformed_xpath_key
        else Inr (unescape_brackets (take eq kv), unescape_brackets (drop (Suc eq) kv)))"

text \<open>
  The loop of \<open>parseXPathKeys\<close>: \<open>s\<close> is the whole text, \<open>i\<close> the index of the first of the
  characters left, \<open>start\<close> where the current key begins.
\<close>

fun parse_keys_loop ::
  "string \<Rightarrow> string \<Rightarrow> nat \<Rightarrow> bool \<Rightarrow> nat \<Rightarrow> char \<Rightarrow> string gmap \<Rightarrow> string gmap res" where
  "parse_keys_loop s [] i inKey start prev kvs =
    (if inKey then Inl malformed_xpath_key else Inr kvs)"
| "parse_keys_loop s (r # rs) i inKey start prev kvs =
    (if r = lbrack then
       (if prev = bslash then parse_keys_loop s rs (Suc i) inKey start r kvs
        else if inKey then Inl malformed_xpath_key
        else parse_keys_loop s rs (Suc i) True (Suc i) r kvs)
     else if r = rbrack then
       (if prev = bslash then parse_keys_loop s rs (Suc i) inKey start r kvs
        else if \<not> inKey then Inl malformed_xpath_key
        else rbind (parse_key (take (i - start) (drop start s))) (\<lambda>kv.
          parse_keys_loop s rs (Suc i) False start r (gset (fst kv) (snd kv) kvs)))
     else if \<not> inKey then Inl malformed_xpath_key
     else parse_keys_loop s rs (Suc i) inKey start r kvs)"

definition parse_xpath_keys :: "string \<Rightarrow> string nmap res" where
  "parse_xpath_keys s =
    (if s = [] then Inr None
     else rbind (parse_keys_loop s s 0 False 0 nul []) (\<lambda>kvs. Inr (Some kvs)))"

text \<open>The index of the first bracket without a backslash before it.\<close>

fun first_bracket :: "string \<Rightarrow> nat \<Rightarrow> char \<Rightarrow> nat option" where
  "first_bracket [] i prev = None"
| "first_bracket (r # rs) i prev =
    (if r = lbrack \<and> prev \<noteq> bslash then Some i else first_bracket rs (Suc i) r)"

definition to_path_elem :: "string \<Rightarrow> path_elem res" where
  "to_path_elem s =
    (case first_bracket s 0 nul of
      Some idx \<Rightarrow>
        if idx > 0 then
          rbind (parse_xpath_keys (drop idx s)) (\<lambda>kvs.
            if take idx s = [] then Inl empty_elem_name
            else Inr \<lparr>pe_name = take idx s, pe_key = kvs\<rparr>)
        else Inl empty_elem_name
    | None \<Rightarrow>
        if s = [] then Inl empty_elem_name else Inr \<lparr>pe_name = s, pe_key = None\<rparr>)"

text \<open>The first loop of \<open>toPathElems\<close>: it replaces the separators outside keys by NUL.\<close>

fun separate_elems :: "string \<Rightarrow> string \<Rightarrow> char \<Rightarrow> bool \<Rightarrow> string res" where
  "separate_elems [] buffer prevC inKey =
    (if inKey then Inl malformed_xpath else Inr buffer)"
| "separate_elems (r # rs) buffer prevC inKey =
    (if r = lbrack then
       (if inKey \<and> prevC \<noteq> bslash then Inl malformed_xpath
        else separate_elems rs (buffer @ [r]) r (if prevC \<noteq> bslash then True else inKey))
     else if r = rbrack then
       (if \<not> inKey \<and> prevC \<noteq> bslash then Inl malformed_xpath
        else separate_elems rs (buffer @ [r]) r (if prevC \<noteq> bslash then False else inKey))
     else if r = slash \<and> \<not> inKey then separate_elems rs (buffer @ [nul]) r inKey
     else separate_elems rs (buffer @ [r]) r inKey)"

definition to_path_elems :: "string \<Rightarrow> path_elem list res" where
  "to_path_elems p =
    (let p' = (if has_suffix p ''/'' then p else p @ ''/'') in
     rbind (separate_elems (utf8_fix p') [] nul False) (\<lambda>buffer.
       rmap to_path_elem (filter (\<lambda>s. s \<noteq> []) (split_char nul buffer))))"

definition parse_path :: "string \<Rightarrow> gpath res" where
  "parse_path p =
    (if p = [] then Inr empty_path
     else
       (let lp = length p;
            (origin, p') = (case index_char CHR '':'' p of
              None \<Rightarrow> ([], p)
            | Some idx \<Rightarrow>
                if p ! 0 \<noteq> slash \<and> slash \<notin> set (take idx p) \<and>
                  ((idx + 1 < lp \<and> p ! (idx + 1) = slash) \<or> lp = idx + 1)
                then (take idx p, drop (idx + 1) p) else ([], p))
        in rbind (to_path_elems p') (\<lambda>pes.
             Inr \<lparr>p_origin = origin, p_elem = pes, p_target = []\<rparr>)))"

definition create_prefix :: "string \<Rightarrow> string \<Rightarrow> gpath option res" where
  "create_prefix prefix target =
    (if length prefix + length target = 0 then Inr None
     else rbind (parse_path prefix) (\<lambda>p.
       Inr (Some (if target \<noteq> [] then p\<lparr>p_target := target\<rparr> else p))))"

section \<open>Printing\<close>

definition write_key :: "string \<Rightarrow> string \<Rightarrow> string" where
  "write_key k v = ''['' @ k @ ''='' @ v @ '']''"

definition key_value :: "string gmap \<Rightarrow> string \<Rightarrow> string" where
  "key_value m k = (case map_of m k of Some v \<Rightarrow> v | None \<Rightarrow> [])"

definition write_keys :: "string gmap \<Rightarrow> string" where
  "write_keys m =
    (case m of
      [] \<Rightarrow> []
    | [(k, v)] \<Rightarrow> write_key k (key_value m k)
    | _ \<Rightarrow> concat (map (\<lambda>k. write_key k (key_value m k)) (sort (map fst m))))"

definition elem_to_xpath :: "bool \<Rightarrow> path_elem \<Rightarrow> string" where
  "elem_to_xpath noKeys pe =
    pe_name pe @ (if noKeys then [] else write_keys (entries (pe_key pe)))"

definition path_to_xpath :: "gpath option \<Rightarrow> bool \<Rightarrow> string" where
  "path_to_xpath p noKeys =
    (case p of
      None \<Rightarrow> []
    | Some q \<Rightarrow>
        (if p_origin q \<noteq> [] then p_origin q @ '':/'' else []) @
        join ''/'' (map (elem_to_xpath noKeys) (p_elem q)))"

definition path_elems :: "gpath option \<Rightarrow> gpath option \<Rightarrow> path_elem list" where
  "path_elems pf p = get_elem pf @ get_elem p"

section \<open>Valid UTF-8\<close>

definition valid_utf8 :: "string \<Rightarrow> bool" where
  "valid_utf8 s \<longleftrightarrow> utf8_fix s = s"

lemma rune_len_append: "rune_len s \<noteq> 0 \<Longrightarrow> rune_len (s @ t) = rune_len s"
  by (cases s) (auto simp: Let_def split: list.splits if_splits)

lemma rune_len_le: "rune_len s \<le> length s"
  by (cases s) (auto simp: Let_def split: list.splits)

lemma valid_rune_len:
  assumes "valid_utf8 s" and "s \<noteq> []"
  shows "rune_len s \<noteq> 0"
proof
  assume z: "rune_len s = 0"
  with assms have "s = CHR 0xEF # CHR 0xBF # CHR 0xBD # utf8_fix (tl s)"
    unfolding valid_utf8_def by (subst (asm) utf8_fix.simps) simp
  moreover have "rune_len (CHR 0xEF # CHR 0xBF # CHR 0xBD # t) = 3" for t
    by (simp add: byte_def is_cont_def)
  ultimately show False using z by (metis zero_neq_numeral)
qed

lemma utf8_fix_append: "valid_utf8 s \<Longrightarrow> utf8_fix (s @ t) = s @ utf8_fix t"
proof (induction s rule: utf8_fix.induct)
  case (1 s)
  show ?case
  proof (cases "s = []")
    case False
    have n: "rune_len s \<noteq> 0" by (rule valid_rune_len [OF 1(3) False])
    have e: "utf8_fix s = take (rune_len s) s @ utf8_fix (drop (rune_len s) s)"
      by (subst utf8_fix.simps) (simp add: False n)
    have "take (rune_len s) s @ utf8_fix (drop (rune_len s) s) = s"
      using 1(3) e by (simp add: valid_utf8_def)
    then have v: "utf8_fix (drop (rune_len s) s) = drop (rune_len s) s"
      by (metis append_take_drop_id same_append_eq)
    have "utf8_fix (s @ t) = take (rune_len s) s @ utf8_fix (drop (rune_len s) s @ t)"
      by (subst utf8_fix.simps) (simp add: False n rune_len_append rune_len_le)
    also have "\<dots> = s @ utf8_fix t"
      using 1(2) [OF False n] v by (simp add: valid_utf8_def)
    finally show ?thesis .
  qed simp
qed

lemma valid_append: "valid_utf8 s \<Longrightarrow> valid_utf8 t \<Longrightarrow> valid_utf8 (s @ t)"
  by (simp add: valid_utf8_def [of "s @ t"] utf8_fix_append) (simp add: valid_utf8_def)

lemma valid_ascii: "is_ascii s \<Longrightarrow> valid_utf8 s"
  by (simp add: valid_utf8_def utf8_fix_ascii)

section \<open>Printing, then parsing\<close>

text \<open>
  The paths that survive printing: the characters that separate elements and delimit keys occur
  only where the printer puts them, and no backslash stands before a bracket.
\<close>

definition no_brackets :: "string \<Rightarrow> bool" where
  "no_brackets s \<longleftrightarrow> lbrack \<notin> set s \<and> rbrack \<notin> set s \<and> nul \<notin> set s"

definition wf_key :: "string \<times> string \<Rightarrow> bool" where
  "wf_key kv \<longleftrightarrow> fst kv \<noteq> [] \<and> snd kv \<noteq> [] \<and> no_brackets (fst kv) \<and> no_brackets (snd kv) \<and>
    CHR ''='' \<notin> set (fst kv) \<and> last (snd kv) \<noteq> bslash \<and> valid_utf8 (fst kv) \<and> valid_utf8 (snd kv)"

definition wf_elem :: "path_elem \<Rightarrow> bool" where
  "wf_elem pe \<longleftrightarrow> pe_name pe \<noteq> [] \<and> no_brackets (pe_name pe) \<and> slash \<notin> set (pe_name pe) \<and>
    last (pe_name pe) \<noteq> bslash \<and> valid_utf8 (pe_name pe) \<and>
    wf_gmap (entries (pe_key pe)) \<and> list_all wf_key (entries (pe_key pe))"

lemma char_consts [simp]:
  "nul \<noteq> bslash" "lbrack \<noteq> bslash" "rbrack \<noteq> bslash" "lbrack \<noteq> rbrack" "rbrack \<noteq> lbrack" "slash \<noteq> lbrack"
  "slash \<noteq> rbrack" "nul \<noteq> lbrack" "nul \<noteq> rbrack" "nul \<noteq> slash" "slash \<noteq> bslash" "lbrack \<noteq> slash" "rbrack \<noteq> slash"
  "CHR ''='' \<noteq> lbrack" "CHR ''='' \<noteq> rbrack" "CHR ''='' \<noteq> nul" "CHR ''='' \<noteq> bslash"
  "lbrack \<noteq> CHR ''=''" "rbrack \<noteq> CHR ''=''" "nul \<noteq> CHR ''=''"
  by (simp_all add: nul_def bslash_def lbrack_def rbrack_def slash_def)

lemma write_key_brackets: "write_key k v = lbrack # k @ CHR ''='' # v @ [rbrack]"
  by (simp add: write_key_def lbrack_def rbrack_def)

lemma separate_in_key:
  "no_brackets w \<Longrightarrow> separate_elems (w @ rest) buf prev True = separate_elems rest (buf @ w) (last (prev # w)) True"
  by (induction w arbitrary: buf prev) (auto simp: no_brackets_def)

lemma separate_name:
  "no_brackets w \<Longrightarrow> slash \<notin> set w \<Longrightarrow>
   separate_elems (w @ rest) buf prev False = separate_elems rest (buf @ w) (last (prev # w)) False"
  by (induction w arbitrary: buf prev) (auto simp: no_brackets_def)

lemma separate_key:
  assumes "wf_key (k, v)" and "prev \<noteq> bslash"
  shows "separate_elems (write_key k v @ rest) buf prev False = separate_elems rest (buf @ write_key k v) rbrack False"
proof -
  let ?w = "k @ CHR ''='' # v"
  have w: "no_brackets ?w" "last (lbrack # ?w) \<noteq> bslash"
    using assms(1) by (auto simp: wf_key_def no_brackets_def)
  have "separate_elems (write_key k v @ rest) buf prev False = separate_elems (?w @ rbrack # rest) (buf @ [lbrack]) lbrack True"
    using assms(2) by (simp add: write_key_brackets)
  also have "\<dots> = separate_elems (rbrack # rest) (buf @ lbrack # ?w) (last (lbrack # ?w)) True"
    by (subst separate_in_key [OF w(1)]) simp
  also have "\<dots> = separate_elems rest (buf @ write_key k v) rbrack False"
    using w(2) by (simp add: write_key_brackets)
  finally show ?thesis .
qed

lemma separate_keys:
  "list_all wf_key kvs \<Longrightarrow> prev \<noteq> bslash \<Longrightarrow>
   \<exists>p. p \<noteq> bslash \<and> separate_elems (concat (map (\<lambda>(k, v). write_key k v) kvs) @ rest) buf prev False =
     separate_elems rest (buf @ concat (map (\<lambda>(k, v). write_key k v) kvs)) p False"
proof (induction kvs arbitrary: buf prev)
  case (Cons kv kvs)
  obtain k v where kv: "kv = (k, v)" by (cases kv)
  with Cons.prems have "separate_elems (concat (map (\<lambda>(k, v). write_key k v) (kv # kvs)) @ rest) buf prev False =
      separate_elems (concat (map (\<lambda>(k, v). write_key k v) kvs) @ rest) (buf @ write_key k v) rbrack False"
    using separate_key [of k v prev "concat (map (\<lambda>(k, v). write_key k v) kvs) @ rest" buf] by simp
  moreover obtain p where "p \<noteq> bslash" "separate_elems (concat (map (\<lambda>(k, v). write_key k v) kvs) @ rest) (buf @ write_key k v) rbrack False =
      separate_elems rest ((buf @ write_key k v) @ concat (map (\<lambda>(k, v). write_key k v) kvs)) p False"
    using Cons.IH [of rbrack "buf @ write_key k v"] Cons.prems by auto
  ultimately show ?case using kv by auto
qed auto

text \<open>The keys as they are printed: in the order of their names.\<close>

definition sorted_keys :: "string gmap \<Rightarrow> string gmap" where
  "sorted_keys m = map (\<lambda>k. (k, key_value m k)) (sort (map fst m))"

lemma write_keys_sorted: "write_keys m = concat (map (\<lambda>(k, v). write_key k v) (sorted_keys m))"
  by (auto simp: write_keys_def sorted_keys_def comp_def split: list.splits)

lemma sorted_keys_map_of:
  assumes "wf_gmap m"
  shows "map_of (sorted_keys m) = map_of m"
proof
  fix k
  show "map_of (sorted_keys m) k = map_of m k"
    using domIff [of k "map_of m"]
    by (auto simp: sorted_keys_def map_of_map_restrict restrict_map_def key_value_def dom_map_of_conv_image_fst)
qed

lemma sorted_keys_wf [simp]: "wf_gmap m \<Longrightarrow> wf_gmap (sorted_keys m)"
  by (simp add: sorted_keys_def wf_gmap_def comp_def)

lemma sorted_keys_set: "wf_gmap m \<Longrightarrow> set (sorted_keys m) = set m"
  using map_of_Some_wf [of m] map_of_Some_wf [of "sorted_keys m"] by (auto simp: sorted_keys_map_of)

lemma sorted_keys_Nil [simp]: "sorted_keys m = [] \<longleftrightarrow> m = []"
  by (simp add: sorted_keys_def) (metis length_0_conv length_map length_sort)

lemma sorted_keys_empty [simp]: "sorted_keys [] = []"
  by simp

lemma unescape_no_brackets: "lbrack \<notin> set s \<Longrightarrow> rbrack \<notin> set s \<Longrightarrow> unescape_brackets s = s"
  by (induction s rule: unescape_brackets.induct) auto

lemma parse_key_ok: "wf_key (k, v) \<Longrightarrow> parse_key (k @ CHR ''='' # v) = Inr (k, v)"
  by (simp add: parse_key_def index_char_append wf_key_def no_brackets_def unescape_no_brackets)

lemma parse_in_key:
  "no_brackets w \<Longrightarrow>
   parse_keys_loop s (w @ rest) i True st prev kvs = parse_keys_loop s rest (i + length w) True st (last (prev # w)) kvs"
  by (induction w arbitrary: i prev) (auto simp: no_brackets_def)

lemma parse_one_key:
  assumes "wf_key (k, v)" and "prev \<noteq> bslash" and "s = pre @ write_key k v @ rest"
  shows "parse_keys_loop s (write_key k v @ rest) (length pre) False st prev kvs =
    parse_keys_loop s rest (length (pre @ write_key k v)) False (Suc (length pre)) rbrack (gset k v kvs)"
proof -
  let ?w = "k @ CHR ''='' # v" and ?i = "Suc (length pre)"
  have w: "no_brackets ?w" "last (lbrack # ?w) \<noteq> bslash"
    using assms(1) by (auto simp: wf_key_def no_brackets_def)
  have "take (?i + length ?w - ?i) (drop ?i s) = ?w"
    using assms(3) by (simp add: write_key_brackets)
  then have k: "parse_key (take (?i + length ?w - ?i) (drop ?i s)) = Inr (k, v)"
    using parse_key_ok [OF assms(1)] by simp
  have "parse_keys_loop s (write_key k v @ rest) (length pre) False st prev kvs =
      parse_keys_loop s (?w @ rbrack # rest) ?i True ?i lbrack kvs"
    using assms(2) by (simp add: write_key_brackets)
  also have "\<dots> = parse_keys_loop s (rbrack # rest) (?i + length ?w) True ?i (last (lbrack # ?w)) kvs"
    by (rule parse_in_key [OF w(1)])
  also have "\<dots> = parse_keys_loop s rest (Suc (?i + length ?w)) False ?i rbrack (gset k v kvs)"
    using w(2) k by (simp del: last.simps)
  finally show ?thesis by (simp add: write_key_brackets)
qed

lemma parse_all_keys:
  assumes "list_all wf_key ks" and "distinct (map fst (kvs @ ks))" and "prev \<noteq> bslash"
    and "s = pre @ concat (map (\<lambda>(k, v). write_key k v) ks)"
  shows "parse_keys_loop s (concat (map (\<lambda>(k, v). write_key k v) ks)) (length pre) False st prev kvs = Inr (kvs @ ks)"
  using assms
proof (induction ks arbitrary: kvs pre prev st)
  case (Cons kv ks)
  obtain k v where kv: "kv = (k, v)" by (cases kv)
  let ?r = "concat (map (\<lambda>(k, v). write_key k v) ks)"
  have "parse_keys_loop s (write_key k v @ ?r) (length pre) False st prev kvs =
      parse_keys_loop s ?r (length (pre @ write_key k v)) False (Suc (length pre)) rbrack (gset k v kvs)"
    using Cons.prems kv by (intro parse_one_key) auto
  also have "gset k v kvs = kvs @ [(k, v)]"
    using Cons.prems(2) kv by (intro gset_fresh) auto
  also have "parse_keys_loop s ?r (length (pre @ write_key k v)) False (Suc (length pre)) rbrack (kvs @ [(k, v)]) =
      Inr ((kvs @ [(k, v)]) @ ks)"
    using Cons.prems kv by (intro Cons.IH) auto
  finally show ?case using kv by simp
qed simp

definition norm_elem :: "path_elem \<Rightarrow> path_elem" where
  "norm_elem pe = pe\<lparr>pe_key := if entries (pe_key pe) = [] then None else Some (sorted_keys (entries (pe_key pe)))\<rparr>"

lemma first_bracket_append:
  "lbrack \<notin> set w \<Longrightarrow> first_bracket (w @ r) i p = first_bracket r (i + length w) (last (p # w))"
  by (induction w arbitrary: i p) auto

lemma wf_elem_keys:
  assumes "wf_elem pe"
  shows "list_all wf_key (sorted_keys (entries (pe_key pe)))" "distinct (map fst (sorted_keys (entries (pe_key pe))))"
  using assms sorted_keys_set [of "entries (pe_key pe)"] sorted_keys_wf [of "entries (pe_key pe)"]
  by (auto simp: wf_elem_def list_all_iff wf_gmap_def)

lemma to_path_elem_text:
  assumes "wf_elem pe"
  shows "to_path_elem (elem_to_xpath False pe) = Inr (norm_elem pe)"
proof -
  define ks where "ks = sorted_keys (entries (pe_key pe))"
  let ?K = "concat (map (\<lambda>(k, v). write_key k v) ks)"
  have t: "elem_to_xpath False pe = pe_name pe @ ?K"
    by (simp add: elem_to_xpath_def write_keys_sorted ks_def)
  have n: "pe_name pe \<noteq> []" "lbrack \<notin> set (pe_name pe)" "last (nul # pe_name pe) \<noteq> bslash"
    using assms by (auto simp: wf_elem_def no_brackets_def)
  show ?thesis
  proof (cases ks)
    case Nil
    then have "first_bracket (pe_name pe @ ?K) 0 nul = None"
      using n(2) first_bracket_append [of "pe_name pe" "[]"] by simp
    moreover have "entries (pe_key pe) = []" using Nil by (simp add: ks_def)
    ultimately show ?thesis using Nil n unfolding t by (cases pe) (simp add: to_path_elem_def norm_elem_def)
  next
    case (Cons kv rest)
    then obtain k v K where K: "?K = write_key k v @ K" by (cases kv) auto
    have "first_bracket (pe_name pe @ ?K) 0 nul = Some (length (pe_name pe))"
      using n unfolding K by (simp add: first_bracket_append write_key_brackets)
    moreover have "parse_keys_loop ?K ?K 0 False 0 nul [] = Inr ([] @ ks)"
      using wf_elem_keys [OF assms] parse_all_keys [of ks "[]" nul ?K "[]" 0] by (simp add: ks_def)
    moreover have "?K \<noteq> []" unfolding K by (simp add: write_key_def)
    moreover have "norm_elem pe = \<lparr>pe_name = pe_name pe, pe_key = Some ks\<rparr>"
      using Cons by (cases pe) (auto simp: norm_elem_def ks_def)
    ultimately show ?thesis
      using n unfolding t by (simp add: to_path_elem_def parse_xpath_keys_def)
  qed
qed

lemma separate_texts:
  "list_all wf_elem pes \<Longrightarrow> prev \<noteq> bslash \<Longrightarrow>
   separate_elems (concat (map (\<lambda>pe. elem_to_xpath False pe @ [slash]) pes)) buf prev False =
     Inr (buf @ concat (map (\<lambda>pe. elem_to_xpath False pe @ [nul]) pes))"
proof (induction pes arbitrary: buf prev)
  case (Cons pe pes)
  define ks where "ks = sorted_keys (entries (pe_key pe))"
  let ?K = "concat (map (\<lambda>(k, v). write_key k v) ks)"
    and ?R = "concat (map (\<lambda>pe. elem_to_xpath False pe @ [slash]) pes)"
  have t: "elem_to_xpath False pe = pe_name pe @ ?K"
    by (simp add: elem_to_xpath_def write_keys_sorted ks_def)
  have wf: "wf_elem pe" "list_all wf_elem pes" using Cons.prems by simp_all
  then have n: "no_brackets (pe_name pe)" "slash \<notin> set (pe_name pe)" "last (prev # pe_name pe) \<noteq> bslash"
    by (auto simp: wf_elem_def)
  obtain p where p: "p \<noteq> bslash" "separate_elems (?K @ slash # ?R) (buf @ pe_name pe) (last (prev # pe_name pe)) False =
      separate_elems (slash # ?R) ((buf @ pe_name pe) @ ?K) p False"
    using separate_keys [OF _ n(3), of ks "slash # ?R" "buf @ pe_name pe"] wf_elem_keys(1) [OF wf(1)] by (auto simp: ks_def)
  have "separate_elems ((pe_name pe @ ?K) @ slash # ?R) buf prev False =
      separate_elems (?K @ slash # ?R) (buf @ pe_name pe) (last (prev # pe_name pe)) False"
    using separate_name [OF n(1,2)] by simp
  also have "\<dots> = separate_elems ?R (buf @ pe_name pe @ ?K @ [nul]) slash False"
    using p(2) by simp
  also have "\<dots> = Inr ((buf @ pe_name pe @ ?K @ [nul]) @ concat (map (\<lambda>pe. elem_to_xpath False pe @ [nul]) pes))"
    by (rule Cons.IH [OF wf(2)]) simp
  finally show ?case by (simp add: t)
qed simp


lemma join_slash:
  "ts \<noteq> [] \<Longrightarrow> join [c] ts @ [c] = concat (map (\<lambda>t. t @ [c]) ts)"
  by (induction "[c]" ts rule: join.induct) auto

lemma split_terminated:
  "\<forall>t \<in> set ts. c \<notin> set t \<Longrightarrow> split_char c (concat (map (\<lambda>t. t @ [c]) ts)) = ts @ [[]]"
  by (induction ts) (auto simp: split_char_append)

lemma elem_text_chars:
  assumes "wf_elem pe"
  shows "elem_to_xpath False pe \<noteq> []" "nul \<notin> set (elem_to_xpath False pe)" "valid_utf8 (elem_to_xpath False pe)"
    "last (elem_to_xpath False pe) \<noteq> slash"
proof -
  define ks where "ks = sorted_keys (entries (pe_key pe))"
  have t: "elem_to_xpath False pe = pe_name pe @ concat (map (\<lambda>(k, v). write_key k v) ks)"
    by (simp add: elem_to_xpath_def write_keys_sorted ks_def)
  have k: "list_all wf_key ks" using wf_elem_keys(1) [OF assms] by (simp add: ks_def)
  have b: "is_ascii [lbrack]" "is_ascii [rbrack]" "is_ascii ''=''"
    by (simp_all add: is_ascii_def lbrack_def rbrack_def byte_def)
  have w: "valid_utf8 (write_key k v)" if "wf_key (k, v)" for k v
  proof -
    have "valid_utf8 ([lbrack] @ k @ ''='' @ v @ [rbrack])"
      using that b [THEN valid_ascii] by (intro valid_append) (simp_all add: wf_key_def)
    then show ?thesis by (simp add: write_key_brackets)
  qed
  have v: "valid_utf8 (concat (map (\<lambda>(k, v). write_key k v) ks))"
    using k by (induction ks) (auto intro: valid_append w valid_ascii simp: is_ascii_def)
  have n: "nul \<notin> set (concat (map (\<lambda>(k, v). write_key k v) ks))"
    using k by (induction ks) (auto simp: write_key_brackets wf_key_def no_brackets_def)
  have l: "last (concat (map (\<lambda>(k, v). write_key k v) ks)) = rbrack" if "ks \<noteq> []"
    using that by (cases ks rule: rev_cases) (auto simp: write_key_brackets)
  show "elem_to_xpath False pe \<noteq> []" "nul \<notin> set (elem_to_xpath False pe)" "valid_utf8 (elem_to_xpath False pe)"
    using assms n v by (auto simp: t wf_elem_def no_brackets_def intro: valid_append)
  show "last (elem_to_xpath False pe) \<noteq> slash"
  proof (cases "ks = []")
    case True
    then show ?thesis using assms by (simp add: t wf_elem_def) (metis last_in_set)
  next
    case False
    then have "concat (map (\<lambda>(k, v). write_key k v) ks) \<noteq> []" by (cases ks) (auto simp: write_key_def)
    with l [OF False] show ?thesis by (simp add: t)
  qed
qed

lemma valid_concat: "\<forall>t \<in> set ts. valid_utf8 t \<Longrightarrow> valid_utf8 (concat ts)"
  by (induction ts) (auto intro: valid_append valid_ascii simp: is_ascii_def)

lemma last_join: "ts \<noteq> [] \<Longrightarrow> \<forall>t \<in> set ts. t \<noteq> [] \<Longrightarrow> join sep ts \<noteq> [] \<and> last (join sep ts) = last (last ts)"
  by (induction sep ts rule: join.induct) auto

lemma has_suffix_char [simp]: "has_suffix s [c] \<longleftrightarrow> s \<noteq> [] \<and> last s = c"
  by (cases s rule: rev_cases) (auto simp: has_suffix_def)

lemma to_path_elems_text:
  assumes "list_all wf_elem pes"
  shows "to_path_elems (slash # join ''/'' (map (elem_to_xpath False) pes)) = Inr (map norm_elem pes)"
proof -
  let ?ts = "map (elem_to_xpath False) pes" and ?f = "\<lambda>c. concat (map (\<lambda>pe. elem_to_xpath False pe @ [c]) pes)"
  have sl: "''/'' = [slash]" by (simp add: slash_def)
  have p: "(if has_suffix (slash # join [slash] ?ts) [slash] then slash # join [slash] ?ts
      else (slash # join [slash] ?ts) @ [slash]) = slash # ?f slash"
  proof (cases "pes = []")
    case False
    have "\<forall>t \<in> set ?ts. t \<noteq> []" using assms elem_text_chars(1) by (auto simp: list_all_iff)
    with False have j: "join [slash] ?ts \<noteq> []" "last (join [slash] ?ts) = elem_to_xpath False (last pes)  ! (length (elem_to_xpath False (last pes)) - 1)"
      using last_join [of ?ts "[slash]"] elem_text_chars(1) assms by (auto simp: last_map last_conv_nth list_all_iff)
    have "wf_elem (last pes)" using assms False by (simp add: list_all_iff)
    then have "last (join [slash] ?ts) \<noteq> slash"
      using j(2) elem_text_chars(1,4) [of "last pes"] by (simp add: last_conv_nth)
    with False j(1) show ?thesis using join_slash [of ?ts slash] by (simp add: comp_def)
  qed simp
  have sa: "valid_utf8 [slash]" by (rule valid_ascii) (simp add: is_ascii_def slash_def byte_def)
  have "\<forall>t \<in> set (map (\<lambda>pe. elem_to_xpath False pe @ [slash]) pes). valid_utf8 t"
    using assms elem_text_chars(3) sa by (auto simp: list_all_iff intro: valid_append)
  then have "valid_utf8 ([slash] @ ?f slash)"
    by (intro valid_append valid_concat) (auto simp: slash_def is_ascii_def byte_def intro: valid_ascii)
  then have v: "utf8_fix (slash # ?f slash) = slash # ?f slash" by (simp add: valid_utf8_def)
  have s: "separate_elems (slash # ?f slash) [] nul False = Inr (nul # ?f nul)"
    using separate_texts [OF assms, of slash "[nul]"] by simp
  have "split_char nul (nul # ?f nul) = [] # ?ts @ [[]]"
    using split_terminated [of ?ts nul] assms elem_text_chars(2) by (auto simp: list_all_iff comp_def)
  then have f: "filter (\<lambda>s. s \<noteq> []) (split_char nul (nul # ?f nul)) = ?ts"
    using assms elem_text_chars(1) by (auto simp: list_all_iff intro!: filter_True)
  have "rmap to_path_elem ?ts = Inr (map norm_elem pes)"
    using assms by (induction pes) (simp_all add: to_path_elem_text)
  then show ?thesis by (simp only: to_path_elems_def sl Let_def p v s rbind_simps f)
qed

definition wf_path :: "gpath \<Rightarrow> bool" where
  "wf_path p \<longleftrightarrow> list_all wf_elem (p_elem p) \<and> CHR '':'' \<notin> set (p_origin p) \<and> slash \<notin> set (p_origin p)"

text \<open>A path without origin is printed without the leading separator; the round trip puts it back.\<close>

definition absolute_xpath :: "gpath \<Rightarrow> string" where
  "absolute_xpath p = (if p_origin p = [] then [slash] else []) @ path_to_xpath (Some p) False"

lemma parse_absolute:
  assumes "wf_path p"
  shows "parse_path (absolute_xpath p) = Inr (p\<lparr>p_elem := map norm_elem (p_elem p), p_target := []\<rparr>)"
proof (cases "p_origin p = []")
  case True
  then show ?thesis
    using assms to_path_elems_text [of "p_elem p"]
    by (cases p) (auto simp: absolute_xpath_def path_to_xpath_def parse_path_def wf_path_def split: option.splits)
next
  case False
  let ?o = "p_origin p" and ?b = "join ''/'' (map (elem_to_xpath False) (p_elem p))"
  have t: "absolute_xpath p = ?o @ CHR '':'' # slash # ?b"
    using False by (simp add: absolute_xpath_def path_to_xpath_def slash_def)
  have i: "index_char CHR '':'' (?o @ CHR '':'' # slash # ?b) = Some (length ?o)"
    using assms by (intro index_char_append) (simp add: wf_path_def)
  have "(?o @ CHR '':'' # slash # ?b) ! 0 \<noteq> slash"
    using False assms by (cases ?o) (auto simp: wf_path_def)
  moreover have "\<lparr>p_origin = p_origin p, p_elem = map norm_elem (p_elem p), p_target = []\<rparr> =
      p\<lparr>p_elem := map norm_elem (p_elem p), p_target := []\<rparr>" by (cases p) simp
  ultimately show ?thesis
    using assms to_path_elems_text [of "p_elem p"] unfolding t parse_path_def
    by (simp add: i nth_append wf_path_def Let_def)
qed

section \<open>What a parsed path looks like\<close>

definition typed_keys :: "string gmap \<Rightarrow> bool" where
  "typed_keys m \<longleftrightarrow> wf_gmap m \<and> (\<forall>kv \<in> set m. fst kv \<noteq> [] \<and> snd kv \<noteq> [] \<and> CHR ''='' \<notin> set (fst kv))"

definition typed_elem :: "path_elem \<Rightarrow> bool" where
  "typed_elem pe \<longleftrightarrow> pe_name pe \<noteq> [] \<and> nul \<notin> set (pe_name pe) \<and> pe_key pe \<noteq> Some [] \<and>
    typed_keys (entries (pe_key pe))"

lemma unescape_Nil [simp]: "unescape_brackets s = [] \<longleftrightarrow> s = []"
  by (induction s rule: unescape_brackets.induct) auto

lemma unescape_set: "set (unescape_brackets s) \<subseteq> set s"
  by (induction s rule: unescape_brackets.induct) auto

lemma parse_key_type:
  assumes "parse_key kv = Inr kv'"
  shows "fst kv' \<noteq> [] \<and> snd kv' \<noteq> [] \<and> CHR ''='' \<notin> set (fst kv')"
proof -
  obtain e where e: "index_char CHR ''='' kv = Some e" "take e kv \<noteq> []" "drop (Suc e) kv \<noteq> []"
    "kv' = (unescape_brackets (take e kv), unescape_brackets (drop (Suc e) kv))"
    using assms by (auto simp: parse_key_def split: option.splits if_splits)
  then have "CHR ''='' \<notin> set (take e kv)" by (simp add: index_char_Some)
  then have "CHR ''='' \<notin> set (unescape_brackets (take e kv))" using unescape_set by blast
  with e show ?thesis by simp
qed

lemma gset_not_Nil [simp]: "gset k v m \<noteq> []"
  by (cases m) auto

lemma typed_keys_gset:
  assumes "typed_keys m" and "k \<noteq> []" and "v \<noteq> []" and "CHR ''='' \<notin> set k"
  shows "typed_keys (gset k v m)"
  using assms set_gset [of k v m] by (auto simp: typed_keys_def)

lemma parse_keys_loop_type:
  assumes "parse_keys_loop s rs i inKey start prev kvs = Inr m" and "typed_keys kvs"
  shows "typed_keys m \<and> (inKey \<or> kvs \<noteq> [] \<longrightarrow> m \<noteq> [])"
  using assms
proof (induction s rs i inKey start prev kvs rule: parse_keys_loop.induct)
  case (2 s r rs i inKey start prev kvs)
  show ?case
  proof (cases "r = rbrack \<and> prev \<noteq> bslash \<and> inKey")
    case True
    with 2(6) obtain kv where kv: "parse_key (take (i - start) (drop start s)) = Inr kv"
      "parse_keys_loop s rs (Suc i) False start r (gset (fst kv) (snd kv) kvs) = Inr m"
      by (auto simp: rbind_Inr_iff)
    then have "typed_keys (gset (fst kv) (snd kv) kvs)"
      using parse_key_type [OF kv(1)] 2(7) by (intro typed_keys_gset) simp_all
    with 2(4) [of kv] kv True show ?thesis by auto
  next
    case False
    with 2 show ?thesis by (auto split: if_splits)
  qed
qed (simp split: if_splits)

lemma first_bracket_Some:
  "first_bracket s i p = Some j \<Longrightarrow> i \<le> j \<and> j - i < length s \<and> s ! (j - i) = lbrack"
proof (induction s arbitrary: i p)
  case (Cons r rs)
  show ?case
  proof (cases "r = lbrack \<and> p \<noteq> bslash")
    case False
    with Cons.prems have "first_bracket rs (Suc i) r = Some j" by auto
    from Cons.IH [OF this] show ?thesis by (auto simp: nth_Cons' Suc_diff_le)
  qed (use Cons.prems in auto)
qed simp

lemma parse_xpath_keys_type:
  assumes "parse_xpath_keys s = Inr m" and "s \<noteq> []" and "s ! 0 = lbrack"
  shows "m \<noteq> Some [] \<and> typed_keys (entries m)"
proof -
  obtain r where s: "s = lbrack # r" using assms by (cases s) auto
  obtain kvs where k: "parse_keys_loop s s 0 False 0 nul [] = Inr kvs" "m = Some kvs"
    using assms(1,2) by (auto simp: parse_xpath_keys_def rbind_Inr_iff)
  then have "parse_keys_loop s r (Suc 0) True (Suc 0) lbrack [] = Inr kvs" by (simp add: s)
  from parse_keys_loop_type [OF this] show ?thesis by (simp add: k(2) typed_keys_def)
qed

lemma to_path_elem_type:
  assumes "to_path_elem s = Inr pe" and "nul \<notin> set s"
  shows "typed_elem pe"
proof (cases "first_bracket s 0 nul")
  case None
  then show ?thesis
    using assms by (auto simp: to_path_elem_def typed_elem_def typed_keys_def split: if_splits)
next
  case (Some idx)
  then obtain m where m: "parse_xpath_keys (drop idx s) = Inr m" "take idx s \<noteq> []" "pe = \<lparr>pe_name = take idx s, pe_key = m\<rparr>"
    using assms(1) by (auto simp: to_path_elem_def rbind_Inr_iff split: if_splits)
  have "drop idx s \<noteq> []" "drop idx s ! 0 = lbrack" using first_bracket_Some [OF Some] by simp_all
  from parse_xpath_keys_type [OF m(1) this] m(2,3) assms(2) show ?thesis
    by (auto simp: typed_elem_def dest: in_set_takeD)
qed

lemma to_path_elems_type:
  assumes "to_path_elems p = Inr pes"
  shows "list_all typed_elem pes"
proof -
  obtain b where "rmap to_path_elem (filter (\<lambda>s. s \<noteq> []) (split_char nul b)) = Inr pes"
    using assms by (auto simp: to_path_elems_def Let_def rbind_Inr_iff)
  then have l: "list_all2 (\<lambda>s pe. to_path_elem s = Inr pe) (filter (\<lambda>s. s \<noteq> []) (split_char nul b)) pes"
    by (simp add: rmap_Inr_iff)
  show ?thesis unfolding list_all_iff
  proof
    fix pe assume "pe \<in> set pes"
    then obtain i where i: "i < length pes" "pe = pes ! i" by (auto simp: in_set_conv_nth)
    define s where "s = filter (\<lambda>s. s \<noteq> []) (split_char nul b) ! i"
    have "i < length (filter (\<lambda>s. s \<noteq> []) (split_char nul b))"
      using list_all2_lengthD [OF l] i(1) by simp
    then have "s \<in> set (filter (\<lambda>s. s \<noteq> []) (split_char nul b))" unfolding s_def by (rule nth_mem)
    moreover have "to_path_elem s = Inr pe" using list_all2_nthD2 [OF l i(1)] i(2) by (simp add: s_def)
    ultimately show "typed_elem pe" using to_path_elem_type split_char_elem [of s nul b] by simp
  qed
qed

section \<open>Properties\<close>

text \<open>C13. A printed path parses back: for every path whose names, keys and values contain no brackets, NUL or
  misplaced separators, creating a prefix from its text and its target gives the path, with the
  keys of each element in the order of their names and nil instead of empty key maps.\<close>

theorem path_roundtrip:
  assumes "wf_path p"
  shows "create_prefix (absolute_xpath p) (p_target p) =
    Inr (Some (p\<lparr>p_elem := map norm_elem (p_elem p)\<rparr>))"
proof -
  have "absolute_xpath p \<noteq> []"
    by (auto simp: absolute_xpath_def path_to_xpath_def)
  then show ?thesis
    using parse_absolute [OF assms] by (cases p) (auto simp: create_prefix_def)
qed

theorem path_roundtrip_witness:
  "create_prefix ''oc:/if[name=e=0/1]/mtu'' ''r1'' =
   Inr (Some \<lparr>p_origin = ''oc'', p_elem = [\<lparr>pe_name = ''if'', pe_key = Some [(''name'', ''e=0/1'')]\<rparr>,
     \<lparr>pe_name = ''mtu'', pe_key = None\<rparr>], p_target = ''r1''\<rparr>)"
proof -
  let ?p = "\<lparr>p_origin = ''oc'', p_elem = [\<lparr>pe_name = ''if'', pe_key = Some [(''name'', ''e=0/1'')]\<rparr>,
     \<lparr>pe_name = ''mtu'', pe_key = None\<rparr>], p_target = ''r1''\<rparr>"
  have "wf_path ?p"
    by (simp add: wf_path_def wf_elem_def wf_key_def no_brackets_def wf_gmap_def slash_def lbrack_def rbrack_def
        nul_def bslash_def valid_ascii is_ascii_def byte_def)
  then show ?thesis
    using path_roundtrip [of ?p]
    by (simp add: absolute_xpath_def path_to_xpath_def elem_to_xpath_def write_keys_def write_key_def key_value_def
        norm_elem_def sorted_keys_def)
qed

text \<open>C27. Whatever text is parsed, the elements of the result have names, their keys form a map without
  repetitions, and neither a key nor a value is empty.\<close>

theorem parse_path_typed:
  assumes "parse_path p = Inr q"
  shows "list_all typed_elem (p_elem q) \<and> p_target q = [] \<and> slash \<notin> set (p_origin q)"
  using assms to_path_elems_type
  by (auto simp: parse_path_def empty_path_def Let_def rbind_Inr_iff split: option.splits if_splits)

theorem parse_path_typed_witness:
  "\<exists>q. parse_path ''a:/b'' = Inr q \<and> list_all typed_elem (p_elem q)"
proof -
  have "\<exists>q. parse_path ''a:/b'' = Inr q"
    using parse_absolute [of "\<lparr>p_origin = ''a'', p_elem = [\<lparr>pe_name = ''b'', pe_key = None\<rparr>], p_target = []\<rparr>"]
    by (simp add: wf_path_def wf_elem_def no_brackets_def slash_def lbrack_def rbrack_def nul_def bslash_def
        valid_ascii is_ascii_def byte_def absolute_xpath_def path_to_xpath_def elem_to_xpath_def write_keys_def)
  then show ?thesis using parse_path_typed by blast
qed

text \<open>
  A path without origin whose first colon, inside a key, is followed by a slash is taken for one
  with an origin when its text has no leading separator, which is how it is printed.
\<close>

lemma origin_confusion: "parse_path ''s[url=http://x]'' = Inl malformed_xpath"
  by (simp add: parse_path_def to_path_elems_def utf8_fix_ascii is_ascii_def byte_def has_suffix_def slash_def
      lbrack_def rbrack_def nul_def bslash_def)

end
