(* ===== verification/Gnmi_Msgs.thy ===== *)
theory Gnmi_Msgs
  imports Gnmi_Path
begin

text \<open>
  The message options of \<open>pkg/api/gnmi_msgs.go\<close>: a request or a response is built by applying a
  list of options to an empty message. An option is a function on messages that fails on a message
  of the wrong type or on a value it does not know. The tables of the enumerations generated from
  \<open>gnmi.proto\<close>, the JSON encoder and the conversion of scalars of the gNMI library are the
  parameter \<open>lib\<close>. On an error the message built so far is not modelled: every caller drops it.
\<close>

section \<open>Messages\<close>

record model_data =
  md_name :: string
  md_organization :: string
  md_version :: string

record capability_request =
  cq_extension :: "extension list"

record capability_response =
  cp_models :: "model_data list"
  cp_encodings :: "int list"
  cp_version :: string

record get_request =
  gq_prefix :: "gpath option"
  gq_path :: "gpath list"
  gq_type :: int
  gq_encoding :: int
  gq_models :: "model_data list"
  gq_extension :: "extension list"

record set_request =
  sq_prefix :: "gpath option"
  sq_delete :: "gpath list"
  sq_replace :: "gupdate list"
  sq_update :: "gupdate list"
  sq_union_replace :: "gupdate list"
  sq_extension :: "extension list"

record update_result =
  ur_path :: "gpath option"
  ur_op :: int

record set_response =
  sp_prefix :: "gpath option"
  sp_response :: "update_result list"
  sp_timestamp :: "64 word"
  sp_extension :: "extension list"

record subscription =
  sb_path :: "gpath option"
  sb_mode :: int
  sb_sample_interval :: "64 word"
  sb_suppress_redundant :: bool
  sb_heartbeat_interval :: "64 word"

record subscription_list =
  sl_prefix :: "gpath option"
  sl_subscription :: "subscription list"
  sl_qos :: "32 word option"
  sl_mode :: int
  sl_allow_aggregation :: bool
  sl_models :: "model_data list"
  sl_encoding :: int
  sl_updates_only :: bool

datatype request_kind = ReqUnset | ReqSubscribe "subscription_list option" | ReqPoll

record subscribe_request =
  sr_request :: request_kind
  sr_extension :: "extension list"

record subscribe_reply =
  rp_response :: subscribe_response
  rp_extension :: "extension list"

text \<open>\<open>MNil\<close> is the nil interface, \<open>MOther\<close> any message no option knows.\<close>

datatype proto_msg =
    MNil
  | MCapabilityRequest capability_request
  | MCapabilityResponse capability_response
  | MGetRequest get_request
  | MGetResponse get_response
  | MSetRequest set_request
  | MSetResponse set_response
  | MSubscribeRequest subscribe_request
  | MSubscribeReply subscribe_reply
  | MNotification notification
  | MUpdate gupdate
  | MUpdateResult update_result
  | MSubscription subscription
  | MOther string

definition empty_list :: subscription_list where
  "empty_list = \<lparr>sl_prefix = None, sl_subscription = [], sl_qos = None, sl_mode = 0, sl_allow_aggregation = False,
    sl_models = [], sl_encoding = 0, sl_updates_only = False\<rparr>"

definition empty_subscription :: subscription where
  "empty_subscription = \<lparr>sb_path = None, sb_mode = 0, sb_sample_interval = 0, sb_suppress_redundant = False,
    sb_heartbeat_interval = 0\<rparr>"

definition empty_update :: gupdate where
  "empty_update = \<lparr>u_path = None, u_val = None\<rparr>"

definition empty_notification :: notification where
  "empty_notification = \<lparr>n_timestamp = 0, n_prefix = None, n_update = [], n_delete = [], n_atomic = False\<rparr>"

definition empty_set_request :: set_request where
  "empty_set_request = \<lparr>sq_prefix = None, sq_delete = [], sq_replace = [], sq_update = [], sq_union_replace = [],
    sq_extension = []\<rparr>"

definition empty_get_request :: get_request where
  "empty_get_request = \<lparr>gq_prefix = None, gq_path = [], gq_type = 0, gq_encoding = 0, gq_models = [], gq_extension = []\<rparr>"

section \<open>Options\<close>

text \<open>\<open>Panic\<close> is a panic: a method called on the nil interface by an option without a nil check, a nil
  pointer followed, an index out of range.\<close>

datatype msg_error = InvalidMsgType | InvalidValue string | Panic

type_synonym 'a mres = "msg_error + 'a"
type_synonym gnmi_option = "proto_msg \<Rightarrow> proto_msg mres"

datatype value_data = Data gval | Wrapped typed_value \<comment> \<open>a pointer to a \<open>oneof\<close> wrapper of \<open>TypedValue\<close>\<close>

record proto_lib =
  encoding_value :: "string \<Rightarrow> int option"
  data_type_value :: "string \<Rightarrow> int option"
  list_mode_value :: "string \<Rightarrow> int option"
  stream_mode_value :: "string \<Rightarrow> int option"
  operation_value :: "string \<Rightarrow> int option"
  json_marshal :: "gval \<Rightarrow> string res"
  json_encode :: "gval \<Rightarrow> string res" \<comment> \<open>an \<open>Encoder\<close> that does not escape HTML; ends its output with a newline\<close>
  json_valid :: "string \<Rightarrow> bool"
  parse_float32 :: "string \<Rightarrow> 32 word res"
  from_scalar :: "gval \<Rightarrow> typed_value res"

fun apply_opts :: "proto_msg \<Rightarrow> gnmi_option list \<Rightarrow> proto_msg mres" where
  "apply_opts m [] = Inr m"
| "apply_opts m (opt # opts) = rbind (opt m) (\<lambda>m'. apply_opts m' opts)"

definition invalid :: "'e res \<Rightarrow> 'e mres" where
  "invalid r = (case r of Inl e \<Rightarrow> Inl (InvalidValue e) | Inr x \<Rightarrow> Inr x)"

text \<open>The update of the subscription list, created when it is nil; other kinds of request are refused.\<close>

definition list_of :: "subscription_list option \<Rightarrow> subscription_list" where
  "list_of l = (case l of None \<Rightarrow> empty_list | Some x \<Rightarrow> x)"

definition on_list :: "(subscription_list \<Rightarrow> subscription_list mres) \<Rightarrow> subscribe_request \<Rightarrow> proto_msg mres" where
  "on_list f r =
    (case sr_request r of
      ReqSubscribe l \<Rightarrow> rbind (f (list_of l)) (\<lambda>l'. Inr (MSubscribeRequest (r\<lparr>sr_request := ReqSubscribe (Some l')\<rparr>)))
    | _ \<Rightarrow> Inl InvalidMsgType)"

subsection \<open>Capabilities\<close>

definition opt_version :: "string \<Rightarrow> gnmi_option" where
  "opt_version v m =
    (case m of
      MCapabilityResponse r \<Rightarrow> Inr (MCapabilityResponse (r\<lparr>cp_version := v\<rparr>))
    | _ \<Rightarrow> Inl InvalidMsgType)"

fun encodings_loop :: "proto_lib \<Rightarrow> string list \<Rightarrow> int list \<Rightarrow> int list mres" where
  "encodings_loop lib [] acc = Inr acc"
| "encodings_loop lib (e # es) acc =
    (case encoding_value lib (to_upper e) of
      None \<Rightarrow> Inl (InvalidValue e)
    | Some enc \<Rightarrow> encodings_loop lib es (acc @ [enc]))"

definition opt_supported_encoding :: "proto_lib \<Rightarrow> string list \<Rightarrow> gnmi_option" where
  "opt_supported_encoding lib es m =
    (case m of
      MCapabilityResponse r \<Rightarrow>
        rbind (encodings_loop lib es (cp_encodings r)) (\<lambda>encs. Inr (MCapabilityResponse (r\<lparr>cp_encodings := encs\<rparr>)))
    | _ \<Rightarrow> Inl InvalidMsgType)"

definition opt_supported_model :: "string \<Rightarrow> string \<Rightarrow> string \<Rightarrow> gnmi_option" where
  "opt_supported_model name org ver m =
    (case m of
      MCapabilityResponse r \<Rightarrow>
        Inr (MCapabilityResponse (r\<lparr>cp_models := cp_models r @ [\<lparr>md_name = name, md_organization = org, md_version = ver\<rparr>]\<rparr>))
    | _ \<Rightarrow> Inl InvalidMsgType)"

subsection \<open>Extensions\<close>

text \<open>\<open>Extension\<close> leaves the messages without extensions as they are, and does not fail on them.\<close>

definition opt_extension :: "extension \<Rightarrow> gnmi_option" where
  "opt_extension x m =
    (case m of
      MNil \<Rightarrow> Inl InvalidMsgType
    | MCapabilityRequest r \<Rightarrow> Inr (MCapabilityRequest (r\<lparr>cq_extension := cq_extension r @ [x]\<rparr>))
    | MGetRequest r \<Rightarrow> Inr (MGetRequest (r\<lparr>gq_extension := gq_extension r @ [x]\<rparr>))
    | MGetResponse r \<Rightarrow> Inr (MGetResponse (r\<lparr>gr_extension := gr_extension r @ [x]\<rparr>))
    | MSetRequest r \<Rightarrow> Inr (MSetRequest (r\<lparr>sq_extension := sq_extension r @ [x]\<rparr>))
    | MSetResponse r \<Rightarrow> Inr (MSetResponse (r\<lparr>sp_extension := sp_extension r @ [x]\<rparr>))
    | MSubscribeRequest r \<Rightarrow> Inr (MSubscribeRequest (r\<lparr>sr_extension := sr_extension r @ [x]\<rparr>))
    | MSubscribeReply r \<Rightarrow> Inr (MSubscribeReply (r\<lparr>rp_extension := rp_extension r @ [x]\<rparr>))
    | _ \<Rightarrow> Inr m)"

definition opt_commit_request :: "string \<Rightarrow> 64 word \<Rightarrow> gnmi_option" where
  "opt_commit_request cid dur m =
    (case m of MSetRequest r \<Rightarrow> opt_extension (ExtCommit cid (CommitRequest dur)) m | _ \<Rightarrow> Inl InvalidMsgType)"

definition opt_commit_confirm :: "string \<Rightarrow> gnmi_option" where
  "opt_commit_confirm cid m =
    (case m of MSetRequest r \<Rightarrow> opt_extension (ExtCommit cid CommitConfirm) m | _ \<Rightarrow> Inl InvalidMsgType)"

definition opt_commit_cancel :: "string \<Rightarrow> gnmi_option" where
  "opt_commit_cancel cid m =
    (case m of MSetRequest r \<Rightarrow> opt_extension (ExtCommit cid CommitCancel) m | _ \<Rightarrow> Inl InvalidMsgType)"

definition opt_commit_set_rollback :: "string \<Rightarrow> 64 word \<Rightarrow> gnmi_option" where
  "opt_commit_set_rollback cid dur m =
    (case m of MSetRequest r \<Rightarrow> opt_extension (ExtCommit cid (CommitSetRollback dur)) m | _ \<Rightarrow> Inl InvalidMsgType)"

definition opt_depth :: "32 word \<Rightarrow> gnmi_option" where
  "opt_depth lvl m =
    (case m of
      MGetRequest r \<Rightarrow> opt_extension (ExtDepth lvl) m
    | MSubscribeRequest r \<Rightarrow> opt_extension (ExtDepth lvl) m
    | _ \<Rightarrow> Inl InvalidMsgType)"

definition opt_history_snapshot :: "64 word \<Rightarrow> gnmi_option" where
  "opt_history_snapshot tm m =
    (case m of MSubscribeRequest r \<Rightarrow> opt_extension (ExtHistory (HistorySnapshot tm)) m | _ \<Rightarrow> Inl InvalidMsgType)"

definition opt_history_range :: "64 word \<Rightarrow> 64 word \<Rightarrow> gnmi_option" where
  "opt_history_range start stop m =
    (case m of MSubscribeRequest r \<Rightarrow> opt_extension (ExtHistory (HistoryRange start stop)) m | _ \<Rightarrow> Inl InvalidMsgType)"

subsection \<open>Prefix, target, paths\<close>

definition opt_prefix :: "string \<Rightarrow> gnmi_option" where
  "opt_prefix prefix m =
    (let p = invalid (create_prefix prefix [])
     in case m of
      MGetRequest r \<Rightarrow> rbind p (\<lambda>q. Inr (MGetRequest (r\<lparr>gq_prefix := q\<rparr>)))
    | MSetRequest r \<Rightarrow> rbind p (\<lambda>q. Inr (MSetRequest (r\<lparr>sq_prefix := q\<rparr>)))
    | MSetResponse r \<Rightarrow> rbind p (\<lambda>q. Inr (MSetResponse (r\<lparr>sp_prefix := q\<rparr>)))
    | MSubscribeRequest r \<Rightarrow> on_list (\<lambda>l. rbind p (\<lambda>q. Inr (l\<lparr>sl_prefix := q\<rparr>))) r
    | MNotification n \<Rightarrow> rbind p (\<lambda>q. Inr (MNotification (n\<lparr>n_prefix := q\<rparr>)))
    | _ \<Rightarrow> Inl InvalidMsgType)"

definition with_target :: "string \<Rightarrow> gpath option \<Rightarrow> gpath option" where
  "with_target t p = Some ((case p of None \<Rightarrow> empty_path | Some q \<Rightarrow> q)\<lparr>p_target := t\<rparr>)"

definition opt_target :: "string \<Rightarrow> gnmi_option" where
  "opt_target t m =
    (if m = MNil then Inl InvalidMsgType
     else if t = [] then Inr m
     else case m of
      MGetRequest r \<Rightarrow> Inr (MGetRequest (r\<lparr>gq_prefix := with_target t (gq_prefix r)\<rparr>))
    | MSetRequest r \<Rightarrow> Inr (MSetRequest (r\<lparr>sq_prefix := with_target t (sq_prefix r)\<rparr>))
    | MSubscribeRequest r \<Rightarrow> on_list (\<lambda>l. Inr (l\<lparr>sl_prefix := with_target t (sl_prefix l)\<rparr>)) r
    | _ \<Rightarrow> Inl InvalidMsgType)"

definition opt_path :: "string \<Rightarrow> gnmi_option" where
  "opt_path p m =
    (let gp = invalid (parse_path p)
     in case m of
      MGetRequest r \<Rightarrow> rbind gp (\<lambda>q. Inr (MGetRequest (r\<lparr>gq_path := gq_path r @ [q]\<rparr>)))
    | MUpdate u \<Rightarrow> rbind gp (\<lambda>q. Inr (MUpdate (u\<lparr>u_path := Some q\<rparr>)))
    | MUpdateResult u \<Rightarrow> rbind gp (\<lambda>q. Inr (MUpdateResult (u\<lparr>ur_path := Some q\<rparr>)))
    | MSubscription b \<Rightarrow> rbind gp (\<lambda>q. Inr (MSubscription (b\<lparr>sb_path := Some q\<rparr>)))
    | _ \<Rightarrow> Inl InvalidMsgType)"

definition opt_delete :: "string \<Rightarrow> gnmi_option" where
  "opt_delete p m =
    (let gp = invalid (parse_path p)
     in case m of
      MSetRequest r \<Rightarrow> rbind gp (\<lambda>q. Inr (MSetRequest (r\<lparr>sq_delete := sq_delete r @ [q]\<rparr>)))
    | MNotification n \<Rightarrow> rbind gp (\<lambda>q. Inr (MNotification (n\<lparr>n_delete := n_delete n @ [q]\<rparr>)))
    | _ \<Rightarrow> Inl InvalidMsgType)"

subsection \<open>Encodings, data types and models\<close>

text \<open>A poll request is accepted and left as it is.\<close>

definition opt_encoding_custom :: "int \<Rightarrow> gnmi_option" where
  "opt_encoding_custom enc m =
    (case m of
      MGetRequest r \<Rightarrow> Inr (MGetRequest (r\<lparr>gq_encoding := enc\<rparr>))
    | MSubscribeRequest r \<Rightarrow>
        (case sr_request r of ReqSubscribe _ \<Rightarrow> on_list (\<lambda>l. Inr (l\<lparr>sl_encoding := enc\<rparr>)) r | _ \<Rightarrow> Inr m)
    | _ \<Rightarrow> Inl InvalidMsgType)"

definition opt_encoding :: "proto_lib \<Rightarrow> string \<Rightarrow> gnmi_option" where
  "opt_encoding lib e m =
    (if m = MNil then Inl InvalidMsgType
     else case encoding_value lib (to_upper e) of
      None \<Rightarrow> Inl (InvalidValue e)
    | Some enc \<Rightarrow>
        (case m of
          MGetRequest r \<Rightarrow> Inr (MGetRequest (r\<lparr>gq_encoding := enc\<rparr>))
        | MSubscribeRequest r \<Rightarrow>
            (case sr_request r of ReqSubscribe _ \<Rightarrow> on_list (\<lambda>l. Inr (l\<lparr>sl_encoding := enc\<rparr>)) r | _ \<Rightarrow> Inr m)
        | _ \<Rightarrow> Inl InvalidMsgType))"

definition opt_encoding_json :: "proto_lib \<Rightarrow> gnmi_option" where "opt_encoding_json lib = opt_encoding lib ''JSON''"
definition opt_encoding_bytes :: "proto_lib \<Rightarrow> gnmi_option" where "opt_encoding_bytes lib = opt_encoding lib ''BYTES''"
definition opt_encoding_proto :: "proto_lib \<Rightarrow> gnmi_option" where "opt_encoding_proto lib = opt_encoding lib ''PROTO''"
definition opt_encoding_ascii :: "proto_lib \<Rightarrow> gnmi_option" where "opt_encoding_ascii lib = opt_encoding lib ''ASCII''"
definition opt_encoding_json_ietf :: "proto_lib \<Rightarrow> gnmi_option" where
  "opt_encoding_json_ietf lib = opt_encoding lib ''JSON_IETF''"

definition opt_data_type :: "proto_lib \<Rightarrow> string \<Rightarrow> gnmi_option" where
  "opt_data_type lib t m =
    (if m = MNil then Inl InvalidMsgType
     else if t = [] then Inr m
     else case m of
      MGetRequest r \<Rightarrow>
        (case data_type_value lib (to_upper t) of
          None \<Rightarrow> Inl (InvalidValue t)
        | Some dt \<Rightarrow> Inr (MGetRequest (r\<lparr>gq_type := dt\<rparr>)))
    | _ \<Rightarrow> Inl InvalidMsgType)"

definition opt_data_type_all :: "proto_lib \<Rightarrow> gnmi_option" where "opt_data_type_all lib = opt_data_type lib ''ALL''"
definition opt_data_type_config :: "proto_lib \<Rightarrow> gnmi_option" where "opt_data_type_config lib = opt_data_type lib ''CONFIG''"
definition opt_data_type_state :: "proto_lib \<Rightarrow> gnmi_option" where "opt_data_type_state lib = opt_data_type lib ''STATE''"
definition opt_data_type_operational :: "proto_lib \<Rightarrow> gnmi_option" where
  "opt_data_type_operational lib = opt_data_type lib ''OPERATIONAL''"

definition opt_use_model :: "string \<Rightarrow> string \<Rightarrow> string \<Rightarrow> gnmi_option" where
  "opt_use_model name org ver m =
    (let md = \<lparr>md_name = name, md_organization = org, md_version = ver\<rparr>
     in case m of
      MGetRequest r \<Rightarrow> Inr (MGetRequest (r\<lparr>gq_models := gq_models r @ [md]\<rparr>))
    | MSubscribeRequest r \<Rightarrow>
        (case sr_request r of ReqSubscribe _ \<Rightarrow> on_list (\<lambda>l. Inr (l\<lparr>sl_models := sl_models l @ [md]\<rparr>)) r | _ \<Rightarrow> Inr m)
    | _ \<Rightarrow> Inl InvalidMsgType)"

subsection \<open>Updates and values\<close>

text \<open>The update that nested options build.\<close>

definition build_update :: "gnmi_option list \<Rightarrow> gupdate mres" where
  "build_update opts =
    rbind (apply_opts (MUpdate empty_update) opts)
      (\<lambda>m. case m of MUpdate u \<Rightarrow> Inr u | _ \<Rightarrow> Inl InvalidMsgType)"

definition opt_update :: "gnmi_option list \<Rightarrow> gnmi_option" where
  "opt_update opts m =
    (case m of
      MSetRequest r \<Rightarrow> rbind (build_update opts) (\<lambda>u. Inr (MSetRequest (r\<lparr>sq_update := sq_update r @ [u]\<rparr>)))
    | MNotification n \<Rightarrow> rbind (build_update opts) (\<lambda>u. Inr (MNotification (n\<lparr>n_update := n_update n @ [u]\<rparr>)))
    | _ \<Rightarrow> Inl InvalidMsgType)"

definition opt_replace :: "gnmi_option list \<Rightarrow> gnmi_option" where
  "opt_replace opts m =
    (case m of
      MSetRequest r \<Rightarrow> rbind (build_update opts) (\<lambda>u. Inr (MSetRequest (r\<lparr>sq_replace := sq_replace r @ [u]\<rparr>)))
    | _ \<Rightarrow> Inl InvalidMsgType)"

definition opt_union_replace :: "gnmi_option list \<Rightarrow> gnmi_option" where
  "opt_union_replace opts m =
    (case m of
      MSetRequest r \<Rightarrow>
        rbind (build_update opts) (\<lambda>u. Inr (MSetRequest (r\<lparr>sq_union_replace := sq_union_replace r @ [u]\<rparr>)))
    | _ \<Rightarrow> Inl InvalidMsgType)"

definition json_space :: "char \<Rightarrow> bool" where
  "json_space c \<longleftrightarrow> c \<in> {CHR '' '', CHR 0x0D, CHR 0x0A, CHR 0x09}"

text \<open>\<open>bytes.Trim\<close> with the four white space characters of JSON.\<close>

definition trim_json :: "string \<Rightarrow> string" where
  "trim_json s = rev (dropWhile json_space (rev (dropWhile json_space s)))"

definition parse_bool :: "string \<Rightarrow> bool res" where
  "parse_bool s =
    (if s \<in> {''1'', ''t'', ''T'', ''TRUE'', ''true'', ''True''} then Inr True
     else if s \<in> {''0'', ''f'', ''F'', ''FALSE'', ''false'', ''False''} then Inr False
     else Inl ''invalid syntax'')"

definition string_value :: "proto_lib \<Rightarrow> string \<Rightarrow> string \<Rightarrow> typed_value mres" where
  "string_value lib s encoding =
    (let enc = to_lower encoding;
         json = (if json_valid lib s then Inr s else json_encode lib (VStr s))
     in if enc = [] \<or> enc = ''json'' then rbind (invalid json) (\<lambda>b. Inr (TVJson (trim_json b)))
        else if enc = ''json_ietf'' then rbind (invalid json) (\<lambda>b. Inr (TVJsonIetf (trim_json b)))
        else if enc = ''ascii'' then Inr (TVAscii s)
        else if enc = ''bool'' then rbind (invalid (parse_bool s)) (\<lambda>b. Inr (TVBool b))
        else if enc = ''bytes'' then Inr (TVBytes s)
        else if enc = ''decimal'' then Inl (InvalidValue ''decimal type not implemented'')
        else if enc = ''float'' then rbind (invalid (parse_float32 lib s)) (\<lambda>f. Inr (TVFloat f))
        else if enc = ''int'' then
          (case parse_int s of (k, None) \<Rightarrow> Inr (TVInt (word_of_int k)) | (_, Some e) \<Rightarrow> Inl (InvalidValue s))
        else if enc = ''uint'' then
          (case parse_uint s of (k, None) \<Rightarrow> Inr (TVUint (word_of_int k)) | (_, Some e) \<Rightarrow> Inl (InvalidValue s))
        else if enc = ''string'' then Inr (TVString s)
        else Inl (InvalidValue encoding))"

definition value_of_data :: "proto_lib \<Rightarrow> value_data \<Rightarrow> string \<Rightarrow> typed_value mres" where
  "value_of_data lib d encoding =
    (let enc = to_lower encoding;
         scalar = (\<lambda>v. invalid (from_scalar lib v));
         list = (\<lambda>v. if enc = [] \<or> enc = ''json'' then rbind (invalid (json_marshal lib v)) (\<lambda>b. Inr (TVJson (trim_json b)))
                     else if enc = ''json_ietf'' then rbind (invalid (json_marshal lib v)) (\<lambda>b. Inr (TVJsonIetf (trim_json b)))
                     else scalar v);
         map = (\<lambda>v. if enc = [] \<or> enc = ''json'' then rbind (invalid (json_encode lib v)) (\<lambda>b. Inr (TVJson (trim_json b)))
                     else if enc = ''json_ietf'' then rbind (invalid (json_encode lib v)) (\<lambda>b. Inr (TVJsonIetf (trim_json b)))
                     else Inl (InvalidValue encoding))
     in case d of
      Wrapped tv \<Rightarrow> Inr tv
    | Data v \<Rightarrow>
        (case v of
          VList _ \<Rightarrow> list v
        | VStrList _ \<Rightarrow> list v
        | VTypedNil KList \<Rightarrow> list v
        | VTypedNil KStrList \<Rightarrow> list v
        | VMap _ \<Rightarrow> map v
        | VTypedNil KMap \<Rightarrow> map v
        | VStr s \<Rightarrow> string_value lib s encoding
        | VProto tv \<Rightarrow> Inr tv
        | _ \<Rightarrow> scalar v))"

definition opt_value :: "proto_lib \<Rightarrow> value_data \<Rightarrow> string \<Rightarrow> gnmi_option" where
  "opt_value lib d encoding m =
    (case m of
      MUpdate u \<Rightarrow> rbind (value_of_data lib d encoding) (\<lambda>v. Inr (MUpdate (u\<lparr>u_val := Some v\<rparr>)))
    | _ \<Rightarrow> Inl InvalidMsgType)"

subsection \<open>Subscriptions\<close>

definition opt_list_mode :: "proto_lib \<Rightarrow> string \<Rightarrow> gnmi_option" where
  "opt_list_mode lib mode m =
    (case m of
      MSubscribeRequest r \<Rightarrow>
        on_list (\<lambda>l. case list_mode_value lib (to_upper mode) of
            None \<Rightarrow> Inl (InvalidValue mode)
          | Some g \<Rightarrow> Inr (l\<lparr>sl_mode := g\<rparr>)) r
    | _ \<Rightarrow> Inl InvalidMsgType)"

definition opt_list_mode_stream :: "proto_lib \<Rightarrow> gnmi_option" where "opt_list_mode_stream lib = opt_list_mode lib ''STREAM''"
definition opt_list_mode_once :: "proto_lib \<Rightarrow> gnmi_option" where "opt_list_mode_once lib = opt_list_mode lib ''ONCE''"
definition opt_list_mode_poll :: "proto_lib \<Rightarrow> gnmi_option" where "opt_list_mode_poll lib = opt_list_mode lib ''POLL''"

text \<open>The options below are the ones without a nil check.\<close>

definition on_request :: "(subscription_list \<Rightarrow> subscription_list mres) \<Rightarrow> gnmi_option" where
  "on_request f m =
    (case m of
      MNil \<Rightarrow> Inl Panic
    | MSubscribeRequest r \<Rightarrow> on_list f r
    | _ \<Rightarrow> Inl InvalidMsgType)"

definition opt_qos :: "32 word \<Rightarrow> gnmi_option" where
  "opt_qos q = on_request (\<lambda>l. Inr (l\<lparr>sl_qos := Some q\<rparr>))"

definition opt_allow_aggregation :: "bool \<Rightarrow> gnmi_option" where
  "opt_allow_aggregation b = on_request (\<lambda>l. Inr (l\<lparr>sl_allow_aggregation := b\<rparr>))"

definition opt_updates_only :: "bool \<Rightarrow> gnmi_option" where
  "opt_updates_only b = on_request (\<lambda>l. Inr (l\<lparr>sl_updates_only := b\<rparr>))"

definition build_subscription :: "gnmi_option list \<Rightarrow> subscription mres" where
  "build_subscription opts =
    rbind (apply_opts (MSubscription empty_subscription) opts)
      (\<lambda>m. case m of MSubscription b \<Rightarrow> Inr b | _ \<Rightarrow> Inl InvalidMsgType)"

definition opt_subscription :: "gnmi_option list \<Rightarrow> gnmi_option" where
  "opt_subscription opts =
    on_request (\<lambda>l. rbind (build_subscription opts) (\<lambda>b. Inr (l\<lparr>sl_subscription := sl_subscription l @ [b]\<rparr>)))"

definition dash_char :: "char \<Rightarrow> char" where
  "dash_char c = (if c = CHR ''-'' then CHR ''_'' else c)"

definition dash_to_underscore :: "string \<Rightarrow> string" where
  "dash_to_underscore = map dash_char"

definition opt_stream_mode :: "proto_lib \<Rightarrow> string \<Rightarrow> gnmi_option" where
  "opt_stream_mode lib mode m =
    (case m of
      MSubscription b \<Rightarrow>
        (case stream_mode_value lib (to_upper (dash_to_underscore mode)) of
          None \<Rightarrow> Inl (InvalidValue mode)
        | Some g \<Rightarrow> Inr (MSubscription (b\<lparr>sb_mode := g\<rparr>)))
    | _ \<Rightarrow> Inl InvalidMsgType)"

definition opt_mode_target_defined :: "proto_lib \<Rightarrow> gnmi_option" where
  "opt_mode_target_defined lib = opt_stream_mode lib ''TARGET_DEFINED''"
definition opt_mode_on_change :: "proto_lib \<Rightarrow> gnmi_option" where "opt_mode_on_change lib = opt_stream_mode lib ''ON_CHANGE''"
definition opt_mode_sample :: "proto_lib \<Rightarrow> gnmi_option" where "opt_mode_sample lib = opt_stream_mode lib ''SAMPLE''"

text \<open>Durations are signed 64-bit nanoseconds; the conversion to \<open>uint64\<close> keeps the bits.\<close>

definition opt_sample_interval :: "64 word \<Rightarrow> gnmi_option" where
  "opt_sample_interval d m =
    (case m of MSubscription b \<Rightarrow> Inr (MSubscription (b\<lparr>sb_sample_interval := d\<rparr>)) | _ \<Rightarrow> Inl InvalidMsgType)"

definition opt_heartbeat_interval :: "64 word \<Rightarrow> gnmi_option" where
  "opt_heartbeat_interval d m =
    (case m of MSubscription b \<Rightarrow> Inr (MSubscription (b\<lparr>sb_heartbeat_interval := d\<rparr>)) | _ \<Rightarrow> Inl InvalidMsgType)"

definition opt_suppress_redundant :: "bool \<Rightarrow> gnmi_option" where
  "opt_suppress_redundant s m =
    (case m of MSubscription b \<Rightarrow> Inr (MSubscription (b\<lparr>sb_suppress_redundant := s\<rparr>)) | _ \<Rightarrow> Inl InvalidMsgType)"

subsection \<open>Notifications and results\<close>

definition build_notification :: "gnmi_option list \<Rightarrow> notification mres" where
  "build_notification opts =
    rbind (apply_opts (MNotification empty_notification) opts)
      (\<lambda>m. case m of MNotification n \<Rightarrow> Inr n | _ \<Rightarrow> Inl InvalidMsgType)"

definition opt_notification :: "gnmi_option list \<Rightarrow> gnmi_option" where
  "opt_notification opts m =
    (case m of
      MGetResponse r \<Rightarrow>
        rbind (build_notification opts) (\<lambda>n. Inr (MGetResponse (r\<lparr>gr_notification := gr_notification r @ [n]\<rparr>)))
    | MSubscribeReply r \<Rightarrow>
        (case rp_response r of
          SRUpdate _ \<Rightarrow> rbind (build_notification opts) (\<lambda>n. Inr (MSubscribeReply (r\<lparr>rp_response := SRUpdate n\<rparr>)))
        | _ \<Rightarrow> Inr m)
    | _ \<Rightarrow> Inl InvalidMsgType)"

definition opt_timestamp :: "64 word \<Rightarrow> gnmi_option" where
  "opt_timestamp t m =
    (case m of
      MNotification n \<Rightarrow> Inr (MNotification (n\<lparr>n_timestamp := t\<rparr>))
    | MSetResponse r \<Rightarrow> Inr (MSetResponse (r\<lparr>sp_timestamp := t\<rparr>))
    | _ \<Rightarrow> Inl InvalidMsgType)"

definition opt_timestamp_now :: "64 word \<Rightarrow> gnmi_option" where
  "opt_timestamp_now now = opt_timestamp now"

definition opt_atomic :: "bool \<Rightarrow> gnmi_option" where
  "opt_atomic b m =
    (case m of
      MNil \<Rightarrow> Inl Panic
    | MNotification n \<Rightarrow> Inr (MNotification (n\<lparr>n_atomic := b\<rparr>))
    | _ \<Rightarrow> Inl InvalidMsgType)"

definition build_update_result :: "gnmi_option list \<Rightarrow> update_result mres" where
  "build_update_result opts =
    rbind (apply_opts (MUpdateResult \<lparr>ur_path = None, ur_op = 0\<rparr>) opts)
      (\<lambda>m. case m of MUpdateResult u \<Rightarrow> Inr u | _ \<Rightarrow> Inl InvalidMsgType)"

definition opt_update_result :: "gnmi_option list \<Rightarrow> gnmi_option" where
  "opt_update_result opts m =
    (case m of
      MNil \<Rightarrow> Inl Panic
    | MSetResponse r \<Rightarrow>
        rbind (build_update_result opts) (\<lambda>u. Inr (MSetResponse (r\<lparr>sp_response := sp_response r @ [u]\<rparr>)))
    | _ \<Rightarrow> Inl InvalidMsgType)"

definition opt_operation :: "proto_lib \<Rightarrow> string \<Rightarrow> gnmi_option" where
  "opt_operation lib oper m =
    (case m of
      MUpdateResult u \<Rightarrow>
        (case operation_value lib (to_upper oper) of
          None \<Rightarrow> Inl (InvalidValue oper)
        | Some g \<Rightarrow> Inr (MUpdateResult (u\<lparr>ur_op := g\<rparr>)))
    | _ \<Rightarrow> Inl InvalidMsgType)"

definition opt_operation_invalid :: "proto_lib \<Rightarrow> gnmi_option" where "opt_operation_invalid lib = opt_operation lib ''INVALID''"
definition opt_operation_delete :: "proto_lib \<Rightarrow> gnmi_option" where "opt_operation_delete lib = opt_operation lib ''DELETE''"
definition opt_operation_replace :: "proto_lib \<Rightarrow> gnmi_option" where "opt_operation_replace lib = opt_operation lib ''REPLACE''"
definition opt_operation_update :: "proto_lib \<Rightarrow> gnmi_option" where "opt_operation_update lib = opt_operation lib ''UPDATE''"

section \<open>New messages\<close>

definition new_capabilities_request :: "gnmi_option list \<Rightarrow> proto_msg mres" where
  "new_capabilities_request opts = apply_opts (MCapabilityRequest \<lparr>cq_extension = []\<rparr>) opts"

definition new_capabilities_response :: "gnmi_option list \<Rightarrow> proto_msg mres" where
  "new_capabilities_response opts =
    rbind (apply_opts (MCapabilityResponse \<lparr>cp_models = [], cp_encodings = [], cp_version = []\<rparr>) opts)
      (\<lambda>m. case m of
          MCapabilityResponse r \<Rightarrow> Inr (MCapabilityResponse (if cp_version r = [] then r\<lparr>cp_version := ''0.7.0''\<rparr> else r))
        | _ \<Rightarrow> Inr m)"

definition new_get_request :: "gnmi_option list \<Rightarrow> proto_msg mres" where
  "new_get_request opts = apply_opts (MGetRequest empty_get_request) opts"

definition new_get_response :: "gnmi_option list \<Rightarrow> proto_msg mres" where
  "new_get_response opts = apply_opts (MGetResponse \<lparr>gr_notification = [], gr_extension = []\<rparr>) opts"

definition new_set_request :: "gnmi_option list \<Rightarrow> proto_msg mres" where
  "new_set_request opts = apply_opts (MSetRequest empty_set_request) opts"

definition new_set_response :: "gnmi_option list \<Rightarrow> proto_msg mres" where
  "new_set_response opts =
    apply_opts (MSetResponse \<lparr>sp_prefix = None, sp_response = [], sp_timestamp = 0, sp_extension = []\<rparr>) opts"

definition new_subscribe_request :: "gnmi_option list \<Rightarrow> proto_msg mres" where
  "new_subscribe_request opts =
    apply_opts (MSubscribeRequest \<lparr>sr_request = ReqSubscribe (Some empty_list), sr_extension = []\<rparr>) opts"

definition new_poll_request :: "gnmi_option list \<Rightarrow> proto_msg mres" where
  "new_poll_request opts = apply_opts (MSubscribeRequest \<lparr>sr_request = ReqPoll, sr_extension = []\<rparr>) opts"

definition new_subscribe_response :: "gnmi_option list \<Rightarrow> proto_msg mres" where
  "new_subscribe_response opts =
    apply_opts (MSubscribeReply \<lparr>rp_response = SRUpdate empty_notification, rp_extension = []\<rparr>) opts"

definition new_sync_response :: "gnmi_option list \<Rightarrow> proto_msg mres" where
  "new_sync_response opts = apply_opts (MSubscribeReply \<lparr>rp_response = SRSync True, rp_extension = []\<rparr>) opts"

section \<open>Options and the kind of a message\<close>

text \<open>The options of the package; the nested ones are built from options again.\<close>

inductive_set options :: "proto_lib \<Rightarrow> gnmi_option set" for lib :: proto_lib where
  "opt_version v \<in> options lib"
| "opt_supported_encoding lib es \<in> options lib"
| "opt_supported_model a b c \<in> options lib"
| "opt_extension x \<in> options lib"
| "opt_commit_request i d \<in> options lib"
| "opt_commit_confirm i \<in> options lib"
| "opt_commit_cancel i \<in> options lib"
| "opt_commit_set_rollback i d \<in> options lib"
| "opt_depth n \<in> options lib"
| "opt_history_snapshot t \<in> options lib"
| "opt_history_range t u \<in> options lib"
| "opt_prefix p \<in> options lib"
| "opt_target p \<in> options lib"
| "opt_path p \<in> options lib"
| "opt_delete p \<in> options lib"
| "opt_encoding_custom n' \<in> options lib"
| "opt_encoding lib p \<in> options lib"
| "opt_data_type lib p \<in> options lib"
| "opt_use_model a b c \<in> options lib"
| "(\<And>f. f \<in> set opts \<Longrightarrow> f \<in> options lib) \<Longrightarrow> opt_update opts \<in> options lib"
| "(\<And>f. f \<in> set opts \<Longrightarrow> f \<in> options lib) \<Longrightarrow> opt_replace opts \<in> options lib"
| "(\<And>f. f \<in> set opts \<Longrightarrow> f \<in> options lib) \<Longrightarrow> opt_union_replace opts \<in> options lib"
| "opt_value lib vd p \<in> options lib"
| "opt_list_mode lib p \<in> options lib"
| "opt_qos n \<in> options lib"
| "opt_allow_aggregation b' \<in> options lib"
| "opt_updates_only b' \<in> options lib"
| "(\<And>f. f \<in> set opts \<Longrightarrow> f \<in> options lib) \<Longrightarrow> opt_subscription opts \<in> options lib"
| "opt_stream_mode lib p \<in> options lib"
| "opt_sample_interval d \<in> options lib"
| "opt_heartbeat_interval d \<in> options lib"
| "opt_suppress_redundant b' \<in> options lib"
| "(\<And>f. f \<in> set opts \<Longrightarrow> f \<in> options lib) \<Longrightarrow> opt_notification opts \<in> options lib"
| "opt_timestamp t \<in> options lib"
| "opt_atomic b' \<in> options lib"
| "(\<And>f. f \<in> set opts \<Longrightarrow> f \<in> options lib) \<Longrightarrow> opt_update_result opts \<in> options lib"
| "opt_operation lib p \<in> options lib"

fun kind_of :: "proto_msg \<Rightarrow> nat" where
  "kind_of MNil = 0"
| "kind_of (MCapabilityRequest r) = 1"
| "kind_of (MCapabilityResponse r) = 2"
| "kind_of (MGetRequest r) = 3"
| "kind_of (MGetResponse r) = 4"
| "kind_of (MSetRequest r) = 5"
| "kind_of (MSetResponse r) = 6"
| "kind_of (MSubscribeRequest r) = 7"
| "kind_of (MSubscribeReply r) = 8"
| "kind_of (MNotification n) = 9"
| "kind_of (MUpdate u) = 10"
| "kind_of (MUpdateResult u) = 11"
| "kind_of (MSubscription b) = 12"
| "kind_of (MOther s) = 13"

definition keeps_kind :: "gnmi_option \<Rightarrow> bool" where
  "keeps_kind f \<longleftrightarrow> (\<forall>m m'. f m = Inr m' \<longrightarrow> kind_of m' = kind_of m)"

lemma keeps_kindI: "(\<And>m m'. f m = Inr m' \<Longrightarrow> kind_of m' = kind_of m) \<Longrightarrow> keeps_kind f"
  by (simp add: keeps_kind_def)

lemma on_list_kind: "on_list f r = Inr m' \<Longrightarrow> kind_of m' = 7"
  by (auto simp: on_list_def rbind_Inr_iff split: request_kind.splits)

lemma apply_keeps_kind:
  "\<forall>f \<in> set opts. keeps_kind f \<Longrightarrow> apply_opts m opts = Inr m' \<Longrightarrow> kind_of m' = kind_of m"
  by (induction opts arbitrary: m) (auto simp: rbind_Inr_iff keeps_kind_def)

lemma option_keeps_kind: "f \<in> options lib \<Longrightarrow> keeps_kind f"
proof (induction rule: options.induct)
qed (rule keeps_kindI, (case_tac m; auto simp: opt_version_def opt_supported_encoding_def opt_supported_model_def
      opt_extension_def opt_commit_request_def opt_commit_confirm_def opt_commit_cancel_def opt_commit_set_rollback_def
      opt_depth_def opt_history_snapshot_def opt_history_range_def opt_prefix_def opt_target_def opt_path_def
      opt_delete_def opt_encoding_custom_def opt_encoding_def opt_data_type_def opt_use_model_def opt_update_def
      opt_replace_def opt_union_replace_def opt_value_def opt_list_mode_def opt_qos_def opt_allow_aggregation_def
      opt_updates_only_def opt_subscription_def opt_stream_mode_def opt_sample_interval_def
      opt_heartbeat_interval_def opt_suppress_redundant_def opt_notification_def opt_timestamp_def opt_atomic_def
      opt_update_result_def opt_operation_def on_request_def rbind_Inr_iff Let_def on_list_kind
      split: if_splits option.splits request_kind.splits subscribe_response.splits))+

section \<open>Lists of options\<close>

lemma apply_opts_append: "apply_opts m (xs @ ys) = rbind (apply_opts m xs) (\<lambda>m'. apply_opts m' ys)"
  by (induction xs arbitrary: m) (auto simp: rbind_def split: sum.splits)

lemma apply_opts_each: "apply_opts m fs = Inr m' \<Longrightarrow> f \<in> set fs \<Longrightarrow> \<exists>a b. f a = Inr b"
  by (induction fs arbitrary: m) (auto simp: rbind_Inr_iff)

lemma opt_path_accepts: "opt_path p a = Inr b \<Longrightarrow> \<exists>q. parse_path p = Inr q"
  by (auto simp: opt_path_def invalid_def rbind_Inr_iff Let_def split: proto_msg.splits sum.splits)

lemma invalid_not_panic [simp]: "invalid r \<noteq> Inl Panic"
  by (simp add: invalid_def split: sum.split)

lemma rbind_not_panic: "r \<noteq> Inl Panic \<Longrightarrow> (\<And>x. r = Inr x \<Longrightarrow> f x \<noteq> Inl Panic) \<Longrightarrow> rbind r f \<noteq> Inl Panic"
  by (cases r) auto

text \<open>Options that never panic on messages of a kind they keep.\<close>

definition safe_on :: "(proto_msg \<Rightarrow> bool) \<Rightarrow> gnmi_option \<Rightarrow> bool" where
  "safe_on P f \<longleftrightarrow> (\<forall>m. P m \<longrightarrow> f m \<noteq> Inl Panic \<and> (\<forall>m'. f m = Inr m' \<longrightarrow> P m'))"

lemma safe_apply: "\<forall>f \<in> set fs. safe_on P f \<Longrightarrow> P m \<Longrightarrow> apply_opts m fs \<noteq> Inl Panic"
proof (induction fs arbitrary: m)
  case (Cons f fs)
  have f: "safe_on P f" and fs: "\<forall>f \<in> set fs. safe_on P f" using Cons.prems(1) by simp_all
  show ?case
    unfolding apply_opts.simps
  proof (rule rbind_not_panic)
    show "f m \<noteq> Inl Panic" using f Cons.prems(2) by (simp add: safe_on_def)
    show "apply_opts m' fs \<noteq> Inl Panic" if "f m = Inr m'" for m'
      using that f Cons.prems(2) by (intro Cons.IH [OF fs]) (simp add: safe_on_def)
  qed
qed simp

section \<open>Concrete runs\<close>

text \<open>The enumerations of the gNMI specification, for concrete runs.\<close>

definition spec_lib :: proto_lib where
  "spec_lib = \<lparr>
    encoding_value = map_of [(''JSON'', 0), (''BYTES'', 1), (''PROTO'', 2), (''ASCII'', 3), (''JSON_IETF'', 4)],
    data_type_value = map_of [(''ALL'', 0), (''CONFIG'', 1), (''STATE'', 2), (''OPERATIONAL'', 3)],
    list_mode_value = map_of [(''STREAM'', 0), (''ONCE'', 1), (''POLL'', 2)],
    stream_mode_value = map_of [(''TARGET_DEFINED'', 0), (''ON_CHANGE'', 1), (''SAMPLE'', 2)],
    operation_value = map_of [(''INVALID'', 0), (''DELETE'', 1), (''REPLACE'', 2), (''UPDATE'', 3)],
    json_marshal = (\<lambda>v. Inl ''not modelled''),
    json_encode = (\<lambda>v. Inl ''not modelled''),
    json_valid = (\<lambda>s. False),
    parse_float32 = (\<lambda>s. Inl ''not modelled''),
    from_scalar = (\<lambda>v. Inl ''not modelled'')\<rparr>"

definition path_a :: gpath where
  "path_a = \<lparr>p_origin = [], p_elem = [\<lparr>pe_name = ''a'', pe_key = None\<rparr>], p_target = []\<rparr>"

lemma parse_path_a: "parse_path ''a'' = Inr path_a"
  by (simp add: parse_path_def to_path_elems_def to_path_elem_def utf8_fix_ascii is_ascii_def byte_def has_suffix_def slash_def
      lbrack_def rbrack_def nul_def bslash_def path_a_def)

end
