(* ===== verification/Gnmi_Set.thy ===== *)
theory Gnmi_Set
  imports Gnmi_Msgs Event
begin

text \<open>
  The Get and Set requests of the command line: \<open>CreateGetRequest\<close>, \<open>CreateSetRequest\<close>,
  \<open>CreateSetRequestFromFile\<close>, \<open>ValidateSetInput\<close> and the cleaning of list flags, from
  \<open>pkg/config/config.go\<close> and \<open>pkg/config/set.go\<close>. Parameters: reading a file, the expansion of
  paths by the operating system, the templates and the extensions decoded from protobuf files.
\<close>

section \<open>List flags\<close>

definition bracketed :: "string \<Rightarrow> bool" where
  "bracketed s \<longleftrightarrow> has_prefix s ''['' \<and> has_suffix s '']''"

text \<open>A one-byte string is not both prefix and suffix, so the slice is in range.\<close>

function strip_brackets :: "string \<Rightarrow> string" where
  "strip_brackets s = (if bracketed s then strip_brackets (butlast (tl s)) else s)"
  by pat_completeness auto
termination
proof (relation "measure length", goal_cases)
  case (2 s)
  then have "s \<noteq> []" by (auto simp: bracketed_def has_prefix_def)
  then show ?case by (cases s) auto
qed simp

declare strip_brackets.simps [simp del]

fun sanitize_array :: "string list \<Rightarrow> string list" where
  "sanitize_array [] = []"
| "sanitize_array (x # xs) = (if x = ''[]'' then sanitize_array xs else strip_brackets x # sanitize_array xs)"

fun parse_address_field :: "string list \<Rightarrow> string list" where
  "parse_address_field [] = []"
| "parse_address_field (x # xs) =
    (if x = ''[]'' then parse_address_field xs else split_char CHR '','' (strip_brackets x) @ parse_address_field xs)"

definition trim_quotes :: "string \<Rightarrow> string" where
  "trim_quotes s =
    (if 2 \<le> length s \<and> hd s = CHR 0x22 \<and> last s = CHR 0x22 then butlast (tl s) else s)"

text \<open>\<open>strings.SplitN(s, sep, n)\<close> for a positive \<open>n\<close>.\<close>

fun explode_n :: "nat \<Rightarrow> string \<Rightarrow> string list" where
  "explode_n 0 s = []"
| "explode_n (Suc n) s =
    (if s = [] then [] else if n = 0 then [s]
     else (let w = max 1 (rune_len s) in take w s # explode_n n (drop w s)))"

fun split_upto :: "nat \<Rightarrow> string \<Rightarrow> string \<Rightarrow> string list" where
  "split_upto 0 sep s = []"
| "split_upto (Suc n) sep s =
    (if n = 0 then [s]
     else (case index_sub sep s of
        None \<Rightarrow> [s]
      | Some i \<Rightarrow> take i s # split_upto n sep (drop (i + length sep) s)))"

definition split_n :: "nat \<Rightarrow> string \<Rightarrow> string \<Rightarrow> string list" where
  "split_n n sep s = (if sep = [] then explode_n n s else split_upto n sep s)"

section \<open>The flags of the set command\<close>

text \<open>The flags of one of the operations update, replace and union-replace.\<close>

record op_flags =
  of_inline :: "string list"
  of_path :: "string list"
  of_value :: "string list"
  of_file :: "string list"
  of_cli :: "string list"
  of_cli_file :: string

record set_flags =
  sf_prefix :: string
  sf_target :: string
  sf_delete :: "string list"
  sf_delimiter :: string
  sf_update :: op_flags
  sf_replace :: op_flags
  sf_union :: op_flags \<comment> \<open>has no CLI flags\<close>
  sf_no_trim :: bool
  sf_encoding :: string
  sf_request_file :: "string list"
  sf_proto_file :: "string list"
  sf_request_vars :: string
  sf_commit_id :: string
  sf_commit_request :: bool
  sf_commit_confirm :: bool
  sf_commit_cancel :: bool
  sf_rollback :: "64 word"

section \<open>Validation\<close>




definition file_and_value :: "op_flags \<Rightarrow> bool" where
  "file_and_value f \<longleftrightarrow> of_file f \<noteq> [] \<and> of_value f \<noteq> []"

definition unpaired :: "op_flags \<Rightarrow> bool" where
  "unpaired f \<longleftrightarrow> length (of_path f) \<noteq> length (of_value f) \<and> length (of_path f) \<noteq> length (of_file f)"

definition check_flags :: "set_flags \<Rightarrow> string option" where
  "check_flags c =
    (if sf_delete c = [] \<and> of_inline (sf_update c) = [] \<and> of_inline (sf_replace c) = [] \<and> of_inline (sf_union c) = [] \<and>
        of_path (sf_update c) = [] \<and> of_path (sf_replace c) = [] \<and> of_path (sf_union c) = [] \<and>
        sf_request_file c = [] \<and> of_cli (sf_replace c) = [] \<and> of_cli (sf_update c) = [] \<and>
        of_cli_file (sf_replace c) = [] \<and> of_cli_file (sf_update c) = [] \<and> sf_proto_file c = [] \<and> sf_commit_id c = []
     then Some ''no paths or request file provided''
     else if file_and_value (sf_update c) then Some ''set update from file and value''
     else if file_and_value (sf_replace c) then Some ''set replace from file and value''
     else if file_and_value (sf_union c) then Some ''set union-replace from file and value''
     else if unpaired (sf_update c) then Some ''missing update value/file or path''
     else if unpaired (sf_replace c) then Some ''missing replace value/file or path''
     else if unpaired (sf_union c) then Some ''missing union-replace value/file or path''
     else None)"


section \<open>Set requests from flags\<close>

type_synonym update_op = "gnmi_option list \<Rightarrow> gnmi_option"

text \<open>An inline operation is a path, an encoding and a value, separated by the delimiter.\<close>

fun inline_opts :: "proto_lib \<Rightarrow> update_op \<Rightarrow> string \<Rightarrow> string list \<Rightarrow> gnmi_option list mres" where
  "inline_opts lib oper delim [] = Inr []"
| "inline_opts lib oper delim (u # us) =
    (case split_n 3 delim u of
      p # e # v # _ \<Rightarrow>
        rbind (inline_opts lib oper delim us)
          (\<lambda>opts. Inr (oper [opt_path (trim_space p), opt_value lib (Data (VStr v)) e] # opts))
    | _ \<Rightarrow> Inl (InvalidValue ''invalid inline format''))"

text \<open>The \<open>i\<close>-th path takes the \<open>i\<close>-th value or the content of the \<open>i\<close>-th file.\<close>

fun path_opts ::
  "proto_lib \<Rightarrow> (string \<Rightarrow> string res) \<Rightarrow> update_op \<Rightarrow> bool \<Rightarrow> string \<Rightarrow> bool \<Rightarrow> string list \<Rightarrow> string list \<Rightarrow> nat \<Rightarrow>
   string list \<Rightarrow> gnmi_option list mres" where
  "path_opts lib rd oper no_trim enc use_files files vals i [] = Inr []"
| "path_opts lib rd oper no_trim enc use_files files vals i (p # ps) =
    rbind
      (if use_files then
        (if i < length files
         then rbind (invalid (rd (files ! i))) (\<lambda>d. Inr (if no_trim then d else trim_json d))
         else Inl Panic)
       else if i < length vals then Inr (vals ! i) else Inl Panic)
      (\<lambda>v. rbind (path_opts lib rd oper no_trim enc use_files files vals (Suc i) ps)
        (\<lambda>opts. Inr (oper [opt_path (trim_space p), opt_value lib (Data (VStr v)) enc] # opts)))"

definition use_files :: "op_flags \<Rightarrow> bool" where
  "use_files f \<longleftrightarrow> of_file f \<noteq> [] \<and> of_value f = []"

definition flag_path_opts ::
  "proto_lib \<Rightarrow> (string \<Rightarrow> string res) \<Rightarrow> update_op \<Rightarrow> set_flags \<Rightarrow> op_flags \<Rightarrow> gnmi_option list mres" where
  "flag_path_opts lib rd oper c f =
    path_opts lib rd oper (sf_no_trim c) (sf_encoding c) (use_files f) (of_file f) (of_value f) 0 (of_path f)"

definition cli_opt :: "proto_lib \<Rightarrow> update_op \<Rightarrow> string \<Rightarrow> gnmi_option" where
  "cli_opt lib oper text = oper [opt_path ''cli:/'', opt_value lib (Data (VStr text)) ''ascii'']"

definition newline :: string where "newline = [CHR 0x0A]"

definition cli_opts :: "proto_lib \<Rightarrow> update_op \<Rightarrow> op_flags \<Rightarrow> gnmi_option list" where
  "cli_opts lib oper f = (if of_cli f = [] then [] else [cli_opt lib oper (join newline (of_cli f))])"

definition cli_file_opts :: "proto_lib \<Rightarrow> (string \<Rightarrow> string res) \<Rightarrow> update_op \<Rightarrow> op_flags \<Rightarrow> gnmi_option list mres" where
  "cli_file_opts lib rd oper f =
    (if of_cli_file f = [] then Inr [] else rbind (invalid (rd (of_cli_file f))) (\<lambda>d. Inr [cli_opt lib oper d]))"

definition commit_opts :: "set_flags \<Rightarrow> gnmi_option list" where
  "commit_opts c =
    (if sf_commit_id c = [] then []
     else if sf_commit_request c then [opt_commit_request (sf_commit_id c) (sf_rollback c)]
     else if sf_commit_confirm c then [opt_commit_confirm (sf_commit_id c)]
     else if sf_commit_cancel c then [opt_commit_cancel (sf_commit_id c)]
     else [opt_commit_set_rollback (sf_commit_id c) (sf_rollback c)])"

definition set_request_opts ::
  "proto_lib \<Rightarrow> (string \<Rightarrow> string res) \<Rightarrow> gnmi_option list mres \<Rightarrow> set_flags \<Rightarrow> gnmi_option list mres" where
  "set_request_opts lib rd exts c =
    rbind (inline_opts lib opt_update (sf_delimiter c) (of_inline (sf_update c))) (\<lambda>iu.
    rbind (inline_opts lib opt_replace (sf_delimiter c) (of_inline (sf_replace c))) (\<lambda>ir.
    rbind (inline_opts lib opt_union_replace (sf_delimiter c) (of_inline (sf_union c))) (\<lambda>iun.
    rbind (flag_path_opts lib rd opt_update c (sf_update c)) (\<lambda>pu.
    rbind (flag_path_opts lib rd opt_replace c (sf_replace c)) (\<lambda>pr.
    rbind (flag_path_opts lib rd opt_union_replace c (sf_union c)) (\<lambda>pun.
    rbind (cli_file_opts lib rd opt_update (sf_update c)) (\<lambda>cu.
    rbind (cli_file_opts lib rd opt_replace (sf_replace c)) (\<lambda>cr.
    rbind exts (\<lambda>xs.
      Inr ([opt_prefix (sf_prefix c), opt_target (sf_target c)] @ map (\<lambda>p. opt_delete (trim_space p)) (sf_delete c) @
        iu @ ir @ iun @ pu @ pr @ pun @ cli_opts lib opt_update (sf_update c) @ cli_opts lib opt_replace (sf_replace c) @
        cu @ cr @ commit_opts c @ xs))))))))))"

text \<open>The one request that is made from the flags, when no file gives the requests.\<close>

definition request_of_flags ::
  "proto_lib \<Rightarrow> (string \<Rightarrow> string res) \<Rightarrow> gnmi_option list mres \<Rightarrow> set_flags \<Rightarrow> proto_msg mres" where
  "request_of_flags lib rd exts c = rbind (set_request_opts lib rd exts c) new_set_request"

section \<open>Get requests\<close>

record get_flags =
  gf_encoding :: string
  gf_type :: string
  gf_prefix :: string
  gf_target :: string
  gf_path :: "string list"
  gf_depth :: "32 word"

text \<open>The encoding of the target, if it has one, wins over the global one.\<close>

definition create_get_request ::
  "proto_lib \<Rightarrow> gnmi_option list mres \<Rightarrow> get_flags \<Rightarrow> string option \<Rightarrow> proto_msg mres" where
  "create_get_request lib exts c tc_encoding =
    rbind exts (\<lambda>xs.
      new_get_request
        ([opt_encoding lib (case tc_encoding of None \<Rightarrow> gf_encoding c | Some e \<Rightarrow> e), opt_data_type lib (gf_type c),
          opt_prefix (gf_prefix c), opt_target (gf_target c)] @
         map (\<lambda>p. opt_path (trim_space p)) (gf_path c) @
         (if 0 < gf_depth c then [opt_depth (gf_depth c)] else []) @ xs))"

text \<open>\<open>CreateDiffGetRequest\<close> and \<open>CreateGASGetRequest\<close> take neither a target configuration nor extensions.\<close>

definition create_diff_get_request :: "proto_lib \<Rightarrow> get_flags \<Rightarrow> proto_msg mres" where
  "create_diff_get_request lib c =
    new_get_request
      ([opt_encoding lib (gf_encoding c), opt_data_type lib (gf_type c), opt_prefix (gf_prefix c), opt_target (gf_target c)] @
       map (\<lambda>p. opt_path (trim_space p)) (gf_path c))"

definition create_gas_get_request :: "proto_lib \<Rightarrow> get_flags \<Rightarrow> string \<Rightarrow> proto_msg mres" where
  "create_gas_get_request lib c p =
    new_get_request
      [opt_encoding lib (gf_encoding c), opt_data_type lib (gf_type c), opt_prefix (gf_prefix c), opt_target (gf_target c),
       opt_path (trim_space p)]"

section \<open>Get-and-set and request files\<close>

text \<open>\<open>path_tpl\<close> and \<open>value_tpl\<close> run a jq template on the input; an empty template gives an empty text.\<close>

definition exec_template :: "(string \<Rightarrow> 'i \<Rightarrow> gval res) \<Rightarrow> string \<Rightarrow> 'i \<Rightarrow> string res" where
  "exec_template jq tpl input =
    (if tpl = [] then Inr []
     else rbind (jq tpl input) (\<lambda>v. case v of VStr s \<Rightarrow> Inr s | _ \<Rightarrow> Inl ''unexpected jq result type''))"

record gas_flags =
  ga_prefix :: string
  ga_target :: string
  ga_delete :: string
  ga_update :: string
  ga_replace :: string
  ga_value :: string
  ga_encoding :: string

definition create_gas_set_request :: "proto_lib \<Rightarrow> (string \<Rightarrow> 'i \<Rightarrow> gval res) \<Rightarrow> gas_flags \<Rightarrow> 'i \<Rightarrow> proto_msg mres" where
  "create_gas_set_request lib jq c input =
    rbind (invalid (exec_template jq (ga_delete c) input)) (\<lambda>del.
    rbind (invalid (exec_template jq (ga_update c) input)) (\<lambda>upd.
    rbind (invalid (exec_template jq (ga_replace c) input)) (\<lambda>rep.
    rbind (invalid (exec_template jq (ga_value c) input)) (\<lambda>val0.
      let val = Data (VStr (trim_quotes val0))
      in new_set_request
        ([opt_prefix (ga_prefix c), opt_target (ga_target c)] @
         (if del = [] then [] else [opt_delete del]) @
         (if upd \<noteq> [] then [opt_update [opt_path upd, opt_value lib val (ga_encoding c)]]
          else if rep \<noteq> [] then [opt_replace [opt_path rep, opt_value lib val (ga_encoding c)]]
          else []))))))"

record update_item =
  ui_path :: string
  ui_value :: gval
  ui_encoding :: string

text \<open>The items are pointers, which are nil for a null of the file.\<close>

record set_request_file =
  rf_updates :: "update_item option list"
  rf_replaces :: "update_item option list"
  rf_union_replaces :: "update_item option list"
  rf_deletes :: "string list"
  rf_commit_id :: string
  rf_commit_action :: string

text \<open>
  One item of a decoded request file. The text of a CLI item is taken as it is; it is recognised
  by its prefix in an update and by its whole path in the other lists (\<open>is_cli\<close>). The path of a nil
  item is a nil dereference.
\<close>

definition file_item_opt ::
  "proto_lib \<Rightarrow> (gval \<Rightarrow> gval) \<Rightarrow> string \<Rightarrow> update_op \<Rightarrow> (string \<Rightarrow> bool) \<Rightarrow> update_item option \<Rightarrow> gnmi_option mres" where
  "file_item_opt lib conv genc oper is_cli uo =
    (case uo of None \<Rightarrow> Inl Panic | Some u \<Rightarrow> let p = (if ui_path u = [] then ''/'' else ui_path u);
         enc = (if ui_encoding u = [] then genc else ui_encoding u)
     in rbind
      (if is_cli p
       then (case ui_value u of VStr s \<Rightarrow> Inr s | _ \<Rightarrow> Inl (InvalidValue ''value is not a string''))
       else invalid (json_marshal lib (conv (ui_value u))))
      (\<lambda>b. Inr (oper [opt_path (trim_space p), opt_value lib (Data (VStr (trim_space b))) enc])))"

definition file_commit_opts :: "set_flags \<Rightarrow> set_request_file \<Rightarrow> gnmi_option list mres" where
  "file_commit_opts c f =
    (if rf_commit_id f = [] then Inr []
     else if rf_commit_action f = ''request'' then Inr [opt_commit_request (sf_commit_id c) (sf_rollback c)]
     else if rf_commit_action f = ''cancel'' then Inr [opt_commit_cancel (sf_commit_id c)]
     else if rf_commit_action f = ''confirm'' then Inr [opt_commit_confirm (sf_commit_id c)]
     else if rf_commit_action f = ''set-rollback-duration'' then Inr [opt_commit_set_rollback (sf_commit_id c) (sf_rollback c)]
     else Inl (InvalidValue ''unknown commit action''))"

definition request_of_file :: "proto_lib \<Rightarrow> (gval \<Rightarrow> gval) \<Rightarrow> set_flags \<Rightarrow> set_request_file \<Rightarrow> proto_msg mres" where
  "request_of_file lib conv c f =
    rbind (rmap (file_item_opt lib conv (sf_encoding c) opt_update (\<lambda>p. has_prefix p ''cli:/'')) (rf_updates f)) (\<lambda>us.
    rbind (rmap (file_item_opt lib conv (sf_encoding c) opt_replace (\<lambda>p. p = ''cli:/'')) (rf_replaces f)) (\<lambda>rs.
    rbind (rmap (file_item_opt lib conv (sf_encoding c) opt_union_replace (\<lambda>p. p = ''cli:/'')) (rf_union_replaces f)) (\<lambda>ns.
    rbind (file_commit_opts c f) (\<lambda>cs.
      new_set_request (us @ rs @ ns @ map (\<lambda>p. opt_delete (trim_space p)) (rf_deletes f) @ cs)))))"

text \<open>One request per template; \<open>render\<close> executes a template for the target and decodes its result.\<close>

definition create_set_requests_from_file ::
  "proto_lib \<Rightarrow> (gval \<Rightarrow> gval) \<Rightarrow> set_flags \<Rightarrow> ('t \<Rightarrow> string \<Rightarrow> set_request_file res) \<Rightarrow> 't list \<Rightarrow> string \<Rightarrow> proto_msg list mres" where
  "create_set_requests_from_file lib conv c render tpls target =
    (if tpls = [] then Inl (InvalidValue ''missing set request template'')
     else rmap (\<lambda>t. rbind (invalid (render t target)) (request_of_file lib conv c)) tpls)"

text \<open>\<open>text_proto\<close> decodes the text format of protobuf.\<close>

definition create_set_requests_from_proto_file ::
  "(string \<Rightarrow> string res) \<Rightarrow> (string \<Rightarrow> set_request res) \<Rightarrow> string list \<Rightarrow> proto_msg list mres" where
  "create_set_requests_from_proto_file os_read text_proto files =
    rmap (\<lambda>n. rbind (invalid (os_read n)) (\<lambda>b. rbind (invalid (text_proto b)) (\<lambda>r. Inr (MSetRequest r)))) files"

text \<open>What is needed of files: how they are read and decoded, and the templates read before.\<close>

record 't set_files =
  st_read :: "string \<Rightarrow> string res"
  st_proto :: "string \<Rightarrow> set_request res"
  st_convert :: "gval \<Rightarrow> gval"
  st_render :: "'t \<Rightarrow> string \<Rightarrow> set_request_file res"
  st_templates :: "'t list"

text \<open>Prototext files come first, then templates, then the flags.\<close>

definition create_set_request ::
  "proto_lib \<Rightarrow> (string \<Rightarrow> string res) \<Rightarrow> gnmi_option list mres \<Rightarrow> 't set_files \<Rightarrow> string \<Rightarrow> set_flags \<Rightarrow> proto_msg list mres" where
  "create_set_request lib rd exts fs target c =
    (if sf_proto_file c \<noteq> [] then create_set_requests_from_proto_file (st_read fs) (st_proto fs) (sf_proto_file c)
     else if sf_request_file c \<noteq> [] then
       create_set_requests_from_file lib (st_convert fs) c (st_render fs) (st_templates fs) target
     else rbind (request_of_flags lib rd exts c) (\<lambda>r. Inr [r]))"

section \<open>Specification of a request from flags\<close>

text \<open>An operation is a path, an encoding and a value.\<close>

type_synonym set_item = "string \<times> string \<times> string"

definition item_opt :: "proto_lib \<Rightarrow> update_op \<Rightarrow> set_item \<Rightarrow> gnmi_option" where
  "item_opt lib oper it = (case it of (p, e, v) \<Rightarrow> oper [opt_path p, opt_value lib (Data (VStr v)) e])"

definition inline_item :: "string \<Rightarrow> string \<Rightarrow> set_item" where
  "inline_item delim u = (case split_n 3 delim u of p # e # v # _ \<Rightarrow> (trim_space p, e, v) | _ \<Rightarrow> ([], [], []))"

definition path_values :: "(string \<Rightarrow> string) \<Rightarrow> bool \<Rightarrow> op_flags \<Rightarrow> string list" where
  "path_values content no_trim f =
    (if use_files f then map (\<lambda>n. if no_trim then content n else trim_json (content n)) (of_file f) else of_value f)"

definition inline_items :: "set_flags \<Rightarrow> op_flags \<Rightarrow> set_item list" where
  "inline_items c f = map (inline_item (sf_delimiter c)) (of_inline f)"

definition path_items :: "(string \<Rightarrow> string) \<Rightarrow> set_flags \<Rightarrow> op_flags \<Rightarrow> set_item list" where
  "path_items content c f =
    map2 (\<lambda>p v. (trim_space p, sf_encoding c, v)) (of_path f) (path_values content (sf_no_trim c) f)"

definition cli_text_items :: "op_flags \<Rightarrow> set_item list" where
  "cli_text_items f = (if of_cli f = [] then [] else [(''cli:/'', ''ascii'', join newline (of_cli f))])"

definition cli_file_items :: "(string \<Rightarrow> string) \<Rightarrow> op_flags \<Rightarrow> set_item list" where
  "cli_file_items content f = (if of_cli_file f = [] then [] else [(''cli:/'', ''ascii'', content (of_cli_file f))])"

definition flag_items :: "(string \<Rightarrow> string) \<Rightarrow> set_flags \<Rightarrow> op_flags \<Rightarrow> set_item list" where
  "flag_items content c f = inline_items c f @ path_items content c f @ cli_text_items f @ cli_file_items content f"

definition item_spec :: "(string \<Rightarrow> gpath) \<Rightarrow> (string \<Rightarrow> string \<Rightarrow> typed_value) \<Rightarrow> set_item \<Rightarrow> gupdate" where
  "item_spec gp tv it = (case it of (p, e, v) \<Rightarrow> \<lparr>u_path = Some (gp p), u_val = Some (tv e v)\<rparr>)"

definition commit_spec :: "set_flags \<Rightarrow> extension list" where
  "commit_spec c =
    (if sf_commit_id c = [] then []
     else [ExtCommit (sf_commit_id c)
      (if sf_commit_request c then CommitRequest (sf_rollback c)
       else if sf_commit_confirm c then CommitConfirm
       else if sf_commit_cancel c then CommitCancel
       else CommitSetRollback (sf_rollback c))])"

definition set_request_spec ::
  "(string \<Rightarrow> gpath) \<Rightarrow> (string \<Rightarrow> string \<Rightarrow> typed_value) \<Rightarrow> (string \<Rightarrow> string) \<Rightarrow> gpath option \<Rightarrow> extension list \<Rightarrow>
   set_flags \<Rightarrow> set_request" where
  "set_request_spec gp tv content pf xs c =
    \<lparr>sq_prefix = (if sf_target c = [] then pf else with_target (sf_target c) pf),
     sq_delete = map (\<lambda>p. gp (trim_space p)) (sf_delete c),
     sq_replace = map (item_spec gp tv) (flag_items content c (sf_replace c)),
     sq_update = map (item_spec gp tv) (flag_items content c (sf_update c)),
     sq_union_replace = map (item_spec gp tv) (inline_items c (sf_union c) @ path_items content c (sf_union c)),
     sq_extension = commit_spec c @ xs\<rparr>"

section \<open>The options made from flags\<close>

lemma inline_opts_items:
  "\<forall>u \<in> set us. length (split_n 3 delim u) = 3 \<Longrightarrow>
    inline_opts lib oper delim us = Inr (map (item_opt lib oper) (map (inline_item delim) us))"
proof (induction us)
  case (Cons u us)
  then obtain p e v where "split_n 3 delim u = [p, e, v]" by (auto simp: length_Suc_conv numeral_3_eq_3)
  with Cons show ?case by (simp add: inline_item_def item_opt_def)
qed simp

definition paired :: "op_flags \<Rightarrow> bool" where
  "paired f \<longleftrightarrow> of_path f = [] \<or> length (of_path f) = length (if use_files f then of_file f else of_value f)"

lemma paired_if: "\<not> unpaired f \<Longrightarrow> \<not> file_and_value f \<Longrightarrow> paired f"
  by (auto simp: paired_def unpaired_def file_and_value_def use_files_def)

lemma checked_paired:
  assumes "check_flags c = None"
  shows "paired (sf_update c)" "paired (sf_replace c)" "paired (sf_union c)"
proof -
  have "(if P then Some e else x) = None \<longleftrightarrow> \<not> P \<and> x = None" for P and e :: string and x by simp
  with assms have "\<not> unpaired (sf_update c) \<and> \<not> unpaired (sf_replace c) \<and> \<not> unpaired (sf_union c) \<and>
      \<not> file_and_value (sf_update c) \<and> \<not> file_and_value (sf_replace c) \<and> \<not> file_and_value (sf_union c)"
    by (simp only: check_flags_def simp_thms)
  then show "paired (sf_update c)" "paired (sf_replace c)" "paired (sf_union c)" by (simp_all add: paired_if)
qed

lemma path_opts_items:
  assumes "\<forall>n \<in> set files. rd n = Inr (content n)"
    and "ps = [] \<or> i + length ps = length (if uf then files else vals)"
  shows "path_opts lib rd oper no_trim enc uf files vals i ps =
    Inr (map (item_opt lib oper) (map2 (\<lambda>p v. (trim_space p, enc, v)) ps
      (drop i (if uf then map (\<lambda>n. if no_trim then content n else trim_json (content n)) files else vals))))"
  using assms(2)
proof (induction ps arbitrary: i)
  case (Cons p ps)
  then have l: "i < length (if uf then files else vals)" and IH: "ps = [] \<or> Suc i + length ps = length (if uf then files else vals)"
    by auto
  have d: "drop i zs = zs ! i # drop (Suc i) zs" if "i < length zs" for zs :: "string list"
    using that by (simp add: Cons_nth_drop_Suc)
  show ?case
    using Cons.IH [OF IH] l assms(1) by (cases uf) (auto simp: d invalid_def item_opt_def)
qed simp

lemma flag_path_opts_items:
  assumes "paired f" and "\<forall>n \<in> set (of_file f). rd n = Inr (content n)"
  shows "flag_path_opts lib rd oper c f = Inr (map (item_opt lib oper) (path_items content c f))"
  using assms path_opts_items [of "of_file f" rd content "of_path f" 0 "use_files f" "of_value f"]
  by (auto simp: flag_path_opts_def paired_def path_values_def path_items_def split: if_splits)

lemma cli_opts_items: "cli_opts lib oper f = map (item_opt lib oper) (cli_text_items f)"
  by (simp add: cli_opts_def cli_text_items_def cli_opt_def item_opt_def)

lemma cli_file_opts_items:
  "(of_cli_file f \<noteq> [] \<longrightarrow> rd (of_cli_file f) = Inr (content (of_cli_file f))) \<Longrightarrow>
    cli_file_opts lib rd oper f = Inr (map (item_opt lib oper) (cli_file_items content f))"
  by (auto simp: cli_file_opts_def cli_file_items_def cli_opt_def item_opt_def invalid_def)

section \<open>Applying them\<close>

definition good_item :: "proto_lib \<Rightarrow> (string \<Rightarrow> gpath) \<Rightarrow> (string \<Rightarrow> string \<Rightarrow> typed_value) \<Rightarrow> set_item \<Rightarrow> bool" where
  "good_item lib gp tv it \<longleftrightarrow>
    (case it of (p, e, v) \<Rightarrow> parse_path p = Inr (gp p) \<and> value_of_data lib (Data (VStr v)) e = Inr (tv e v))"

lemma build_item:
  "good_item lib gp tv (p, e, v) \<Longrightarrow>
    build_update [opt_path p, opt_value lib (Data (VStr v)) e] = Inr (item_spec gp tv (p, e, v))"
  by (simp add: good_item_def build_update_def opt_path_def opt_value_def invalid_def empty_update_def item_spec_def)

lemma apply_update_items:
  "\<forall>it \<in> set its. good_item lib gp tv it \<Longrightarrow> apply_opts (MSetRequest r) (map (item_opt lib opt_update) its) =
    Inr (MSetRequest (r\<lparr>sq_update := sq_update r @ map (item_spec gp tv) its\<rparr>))"
  by (induction its arbitrary: r) (auto simp: item_opt_def opt_update_def build_item)

lemma apply_replace_items:
  "\<forall>it \<in> set its. good_item lib gp tv it \<Longrightarrow> apply_opts (MSetRequest r) (map (item_opt lib opt_replace) its) =
    Inr (MSetRequest (r\<lparr>sq_replace := sq_replace r @ map (item_spec gp tv) its\<rparr>))"
  by (induction its arbitrary: r) (auto simp: item_opt_def opt_replace_def build_item)

lemma apply_union_items:
  "\<forall>it \<in> set its. good_item lib gp tv it \<Longrightarrow> apply_opts (MSetRequest r) (map (item_opt lib opt_union_replace) its) =
    Inr (MSetRequest (r\<lparr>sq_union_replace := sq_union_replace r @ map (item_spec gp tv) its\<rparr>))"
  by (induction its arbitrary: r) (auto simp: item_opt_def opt_union_replace_def build_item)

lemma apply_deletes:
  "\<forall>p \<in> set ps. parse_path (trim_space p) = Inr (gp (trim_space p)) \<Longrightarrow>
    apply_opts (MSetRequest r) (map (\<lambda>p. opt_delete (trim_space p)) ps) =
    Inr (MSetRequest (r\<lparr>sq_delete := sq_delete r @ map (\<lambda>p. gp (trim_space p)) ps\<rparr>))"
  by (induction ps arbitrary: r) (auto simp: opt_delete_def invalid_def)

lemma apply_extensions:
  "apply_opts (MSetRequest r) (map opt_extension xs) = Inr (MSetRequest (r\<lparr>sq_extension := sq_extension r @ xs\<rparr>))"
  by (induction xs arbitrary: r) (auto simp: opt_extension_def)

lemma commit_opts_extensions: "apply_opts (MSetRequest r) (commit_opts c) = apply_opts (MSetRequest r) (map opt_extension (commit_spec c))"
  by (simp add: commit_opts_def commit_spec_def opt_commit_request_def opt_commit_confirm_def opt_commit_cancel_def
      opt_commit_set_rollback_def)

section \<open>Properties\<close>

text \<open>The hypotheses on one operation's flags: inline items have three parts, files can be read.\<close>

definition readable :: "(string \<Rightarrow> string res) \<Rightarrow> (string \<Rightarrow> string) \<Rightarrow> string \<Rightarrow> op_flags \<Rightarrow> bool" where
  "readable rd content delim f \<longleftrightarrow>
    (\<forall>u \<in> set (of_inline f). length (split_n 3 delim u) = 3) \<and>
    (\<forall>n \<in> set (of_file f). rd n = Inr (content n)) \<and>
    (of_cli_file f \<noteq> [] \<longrightarrow> rd (of_cli_file f) = Inr (content (of_cli_file f)))"

lemma op_opts:
  assumes "paired f" and "readable rd content (sf_delimiter c) f"
  shows "inline_opts lib oper (sf_delimiter c) (of_inline f) = Inr (map (item_opt lib oper) (inline_items c f))"
    and "flag_path_opts lib rd oper c f = Inr (map (item_opt lib oper) (path_items content c f))"
    and "cli_file_opts lib rd oper f = Inr (map (item_opt lib oper) (cli_file_items content f))"
  using assms flag_path_opts_items cli_file_opts_items
  by (simp_all add: readable_def inline_opts_items inline_items_def del: map_map)

text \<open>C7. Flags that pass the validation, name no file of whole requests, and whose paths parse, whose values the
  encoder takes and whose files can be read become exactly the one request they describe: the deletes in order; for each operation the inline items, then the paths with
  their values or their files, trimmed unless the flags forbid it, then the CLI texts and the CLI
  file; prefix with target, and the commit extension before the additional ones.\<close>

theorem set_request_correct:
  assumes checked: "check_flags c = None" and files: "sf_proto_file c = []" "sf_request_file c = []" and exts: "exts = Inr (map opt_extension xs)"
    and "create_prefix (sf_prefix c) [] = Inr pf"
    and r: "readable rd content (sf_delimiter c) (sf_update c)" "readable rd content (sf_delimiter c) (sf_replace c)"
      "readable rd content (sf_delimiter c) (sf_union c)"
    and del: "\<forall>p \<in> set (sf_delete c). parse_path (trim_space p) = Inr (gp (trim_space p))"
    and items: "\<forall>it \<in> set (flag_items content c (sf_update c)) \<union> set (flag_items content c (sf_replace c)) \<union>
      set (flag_items content c (sf_union c)). good_item lib gp tv it"
  shows "create_set_request lib rd exts fs target c = Inr [MSetRequest (set_request_spec gp tv content pf xs c)]"
proof -
  note p = checked_paired [OF checked]
  let ?it = "\<lambda>oper. map (item_opt lib oper)"
  let ?u = "sf_update c" and ?r = "sf_replace c" and ?n = "sf_union c"
  have opts: "set_request_opts lib rd exts c =
      Inr ([opt_prefix (sf_prefix c), opt_target (sf_target c)] @ map (\<lambda>p. opt_delete (trim_space p)) (sf_delete c) @
        ?it opt_update (inline_items c ?u) @ ?it opt_replace (inline_items c ?r) @ ?it opt_union_replace (inline_items c ?n) @
        ?it opt_update (path_items content c ?u) @ ?it opt_replace (path_items content c ?r) @
        ?it opt_union_replace (path_items content c ?n) @
        ?it opt_update (cli_text_items ?u) @ ?it opt_replace (cli_text_items ?r) @
        ?it opt_update (cli_file_items content ?u) @ ?it opt_replace (cli_file_items content ?r) @
        commit_opts c @ map opt_extension xs)"
    unfolding set_request_opts_def op_opts [OF p(1) r(1)] op_opts [OF p(2) r(2)] op_opts [OF p(3) r(3)] exts cli_opts_items
    by simp
  have first: "apply_opts (MSetRequest empty_set_request) [opt_prefix (sf_prefix c), opt_target (sf_target c)] =
      Inr (MSetRequest (empty_set_request\<lparr>sq_prefix := if sf_target c = [] then pf else with_target (sf_target c) pf\<rparr>))"
    using assms(5) by (simp add: opt_prefix_def opt_target_def invalid_def)
  have g: "\<forall>it \<in> set (inline_items c f). good_item lib gp tv it" "\<forall>it \<in> set (path_items content c f). good_item lib gp tv it"
      "\<forall>it \<in> set (cli_text_items f). good_item lib gp tv it" "\<forall>it \<in> set (cli_file_items content f). good_item lib gp tv it"
    if "f \<in> {?u, ?r, ?n}" for f
    using that items by (auto simp: flag_items_def)
  have gu: "?u \<in> {?u, ?r, ?n}" and gr: "?r \<in> {?u, ?r, ?n}" and gn: "?n \<in> {?u, ?r, ?n}" by simp_all
  have "request_of_flags lib rd exts c = Inr (MSetRequest (set_request_spec gp tv content pf xs c))"
    unfolding request_of_flags_def opts rbind_simps new_set_request_def apply_opts_append first apply_deletes [where gp = gp, OF del]
      apply_update_items [OF g(1) [OF gu]] apply_update_items [OF g(2) [OF gu]] apply_update_items [OF g(3) [OF gu]]
      apply_update_items [OF g(4) [OF gu]] apply_replace_items [OF g(1) [OF gr]] apply_replace_items [OF g(2) [OF gr]]
      apply_replace_items [OF g(3) [OF gr]] apply_replace_items [OF g(4) [OF gr]] apply_union_items [OF g(1) [OF gn]]
      apply_union_items [OF g(2) [OF gn]] commit_opts_extensions apply_extensions
    by (simp add: set_request_spec_def flag_items_def empty_set_request_def)
  then show ?thesis by (simp add: create_set_request_def files)
qed

definition no_ops :: op_flags where
  "no_ops = \<lparr>of_inline = [], of_path = [], of_value = [], of_file = [], of_cli = [], of_cli_file = []\<rparr>"

definition sample_flags :: set_flags where
  "sample_flags = \<lparr>sf_prefix = [], sf_target = ''r1'', sf_delete = [''a''], sf_delimiter = '':::'',
    sf_update = no_ops\<lparr>of_inline := [''a:::string:::5'']\<rparr>, sf_replace = no_ops, sf_union = no_ops, sf_no_trim = False,
    sf_encoding = ''json'', sf_request_file = [], sf_proto_file = [], sf_request_vars = [], sf_commit_id = ''c1'',
    sf_commit_request = False, sf_commit_confirm = True, sf_commit_cancel = False, sf_rollback = 0\<rparr>"

lemma sample_split: "split_n 3 '':::'' ''a:::string:::5'' = [''a'', ''string'', ''5'']"
  by code_simp

lemma trim_a: "trim_space ''a'' = ''a''"
  by code_simp

lemma value_text: "value_of_data spec_lib (Data (VStr ''5'')) ''string'' = Inr (TVString ''5'')"
proof -
  have "to_lower ''string'' = ''string''" by code_simp
  then show ?thesis by (simp add: value_of_data_def string_value_def)
qed

text \<open>A template that is a decoded file itself.\<close>

definition sample_files :: "set_request_file list \<Rightarrow> set_request_file set_files" where
  "sample_files fs = \<lparr>st_read = Inl, st_proto = Inl, st_convert = (\<lambda>v. v), st_render = (\<lambda>f _. Inr f), st_templates = fs\<rparr>"

theorem set_request_correct_witness:
  "create_set_request spec_lib Inr (Inr []) (sample_files []) ''r1'' sample_flags =
    Inr [MSetRequest (set_request_spec (\<lambda>_. path_a) (\<lambda>_ _. TVString ''5'') id None [] sample_flags)]"
proof -
  have "sf_proto_file sample_flags = []" "sf_request_file sample_flags = []" by (simp_all add: sample_flags_def)
  moreover have "check_flags sample_flags = None"
    by (simp add: check_flags_def sample_flags_def no_ops_def file_and_value_def unpaired_def)
  moreover have "create_prefix (sf_prefix sample_flags) [] = Inr None" by (simp add: sample_flags_def create_prefix_def)
  moreover have "readable Inr id (sf_delimiter sample_flags) f"
    if "f \<in> {sf_update sample_flags, sf_replace sample_flags, sf_union sample_flags}" for f
    using that sample_split by (auto simp: sample_flags_def readable_def no_ops_def)
  moreover have "\<forall>p \<in> set (sf_delete sample_flags). parse_path (trim_space p) = Inr path_a"
    using parse_path_a trim_a by (simp add: sample_flags_def)
  moreover have "\<forall>it \<in> set (flag_items id sample_flags (sf_update sample_flags)) \<union>
      set (flag_items id sample_flags (sf_replace sample_flags)) \<union> set (flag_items id sample_flags (sf_union sample_flags)).
      good_item spec_lib (\<lambda>_. path_a) (\<lambda>_ _. TVString ''5'') it"
    using parse_path_a trim_a value_text sample_split
    by (auto simp: sample_flags_def flag_items_def inline_items_def path_items_def cli_text_items_def cli_file_items_def
        no_ops_def inline_item_def good_item_def)
  ultimately show ?thesis
    using set_request_correct [where c = sample_flags and exts = "Inr []" and xs = "[]" and pf = None and rd = Inr and content = id and
      gp = "\<lambda>_. path_a" and lib = spec_lib and tv = "\<lambda>_ _. TVString ''5''"] by simp
qed

section \<open>No index out of range\<close>






















text \<open>A null in a list of items is a nil pointer, which is dereferenced.\<close>

definition null_file :: set_request_file where
  "null_file = \<lparr>rf_updates = [None], rf_replaces = [], rf_union_replaces = [], rf_deletes = [], rf_commit_id = [], rf_commit_action = []\<rparr>"

lemma null_item_panics:
  "create_set_request spec_lib Inr (Inr []) (sample_files [null_file]) ''r1'' (sample_flags\<lparr>sf_request_file := [''f'']\<rparr>) = Inl Panic"
  by (simp add: create_set_request_def sample_flags_def create_set_requests_from_file_def sample_files_def invalid_def
      request_of_file_def null_file_def file_item_opt_def)


text \<open>Cleaning list flags is idempotent and leaves no bracketed item behind.\<close>

lemma strip_brackets_clean: "\<not> bracketed (strip_brackets s)"
proof (induction s rule: strip_brackets.induct)
  case (1 s)
  then show ?case by (cases "bracketed s") (simp_all add: strip_brackets.simps [of s])
qed

lemma strip_brackets_id: "\<not> bracketed s \<Longrightarrow> strip_brackets s = s"
  by (simp add: strip_brackets.simps)

lemma sanitize_array_clean: "s \<in> set (sanitize_array ls) \<Longrightarrow> \<not> bracketed s"
  by (induction ls) (auto simp: strip_brackets_clean split: if_splits)

lemma sanitize_array_id: "\<forall>s \<in> set ls. \<not> bracketed s \<Longrightarrow> sanitize_array ls = ls"
  by (induction ls) (auto simp: strip_brackets_id bracketed_def has_prefix_def has_suffix_def)

lemma sanitize_array_idem: "sanitize_array (sanitize_array ls) = sanitize_array ls"
  using sanitize_array_clean by (intro sanitize_array_id) blast

section \<open>Values read back\<close>

lemma lower_consts:
  "to_lower ''int'' = ''int''" "to_lower ''uint'' = ''uint''" "to_lower ''string'' = ''string''"
  "to_lower ''ascii'' = ''ascii''" "to_lower ''bytes'' = ''bytes''" "to_lower ''bool'' = ''bool''"
  by code_simp+

definition reads_back :: "proto_lib \<Rightarrow> (string \<Rightarrow> gval res) \<Rightarrow> string \<Rightarrow> string \<Rightarrow> gval \<Rightarrow> bool" where
  "reads_back lib unm s enc v \<longleftrightarrow>
    (\<exists>tv. value_of_data lib (Data (VStr s)) enc = Inr tv \<and> get_value unm (Some tv) = Inr v)"

text \<open>A scalar given as a text in its encoding is the scalar the event pipeline reads back from the update:
  every 64-bit integer, signed or unsigned, both truth values, and every text and byte string.\<close>

theorem value_read_back:
  "reads_back lib unm (itoa (sint i)) ''int'' (VInt64 i) \<and>
   reads_back lib unm (dec (unat u)) ''uint'' (VUint64 u) \<and>
   reads_back lib unm (if b then ''true'' else ''false'') ''bool'' (VBool b) \<and>
   reads_back lib unm s ''string'' (VStr s) \<and> reads_back lib unm s ''ascii'' (VStr s) \<and>
   reads_back lib unm s ''bytes'' (VBytes s)"
proof -
  have "- (2 ^ 63) \<le> sint i" "sint i < 2 ^ 63"
    using sint_ge [of i] sint_lt [of i] by simp_all
  then have "parse_int (itoa (sint i)) = (sint i, None)" by (rule parse_int_itoa)
  then have "reads_back lib unm (itoa (sint i)) ''int'' (VInt64 i)"
    by (simp add: reads_back_def value_of_data_def string_value_def Let_def lower_consts get_value_def del: to_lower.simps)
  moreover have "unat u < 2 ^ LENGTH(64)" by (rule unsigned_less)
  then have "parse_uint (dec (unat u)) = (uint u, None)" by (simp add: parse_uint_def parse_nat_dec)
  then have "reads_back lib unm (dec (unat u)) ''uint'' (VUint64 u)"
    by (simp add: reads_back_def value_of_data_def string_value_def Let_def lower_consts get_value_def del: to_lower.simps)
  ultimately show ?thesis
    by (simp add: reads_back_def value_of_data_def string_value_def Let_def lower_consts get_value_def invalid_def parse_bool_def
        del: to_lower.simps)
qed

end
