(* ===== verification/Gnmi_Subscribe.thy ===== *)
theory Gnmi_Subscribe
  imports Gnmi_Msgs
begin

text \<open>
  Subscription configurations and the requests made from them: \<open>pkg/utils/gnmi.go\<close>. The
  configuration type is recursive in Go, but only two levels are ever looked at: a subscription
  and its stream subscriptions, of which the code checks that they hold no further ones. The
  record is therefore parametric in the type of the nested configurations.
\<close>

section \<open>Configurations\<close>

text \<open>Times in nanoseconds of the epoch; \<open>None\<close> is the zero time.\<close>

record history_config =
  hc_snapshot :: "64 word option"
  hc_start :: "64 word option"
  hc_end :: "64 word option"

record 'c sub_config =
  sc_name :: string
  sc_models :: "string list option"
  sc_prefix :: string
  sc_target :: string
  sc_set_target :: bool
  sc_paths :: "string list"
  sc_mode :: string
  sc_stream_mode :: string
  sc_encoding :: "string option"
  sc_qos :: "32 word option"
  sc_sample_interval :: "64 word option"
  sc_heartbeat_interval :: "64 word option"
  sc_suppress_redundant :: bool
  sc_updates_only :: bool
  sc_history :: "history_config option"
  sc_streams :: "'c list option"
  sc_outputs :: "string list"
  sc_depth :: "32 word"

text \<open>The fields of a target's configuration that a subscription request needs.\<close>

record target_info =
  ti_name :: string
  ti_encoding :: "string option"

definition streams_of :: "'c sub_config \<Rightarrow> 'c list" where
  "streams_of sc = (case sc_streams sc of None \<Rightarrow> [] | Some ss \<Rightarrow> ss)"

definition models_of :: "'c sub_config \<Rightarrow> string list" where
  "models_of sc = (case sc_models sc of None \<Rightarrow> [] | Some ms \<Rightarrow> ms)"

section \<open>Validation and defaults\<close>

definition known_stream_mode :: "string \<Rightarrow> bool" where
  "known_stream_mode m \<longleftrightarrow> to_upper (dash_to_underscore m) \<in> {[], ''TARGET_DEFINED'', ''SAMPLE'', ''ON_CHANGE''}"

definition known_encoding :: "string \<Rightarrow> bool" where
  "known_encoding e \<longleftrightarrow>
    to_upper (dash_to_underscore e) \<in> {[], ''JSON'', ''BYTES'', ''PROTO'', ''ASCII'', ''JSON_IETF''} \<or>
    (case atoi e of Inl _ \<Rightarrow> False | Inr _ \<Rightarrow> True)"

text \<open>The checks of one stream subscription, in their order; \<open>None\<close> is no error.\<close>

definition validate_stream :: "'c sub_config \<Rightarrow> string option" where
  "validate_stream s =
    (if sc_mode s \<noteq> [] then Some ''mode attribute cannot be set''
     else if sc_prefix s \<noteq> [] then Some ''prefix attribute cannot be set''
     else if sc_target s \<noteq> [] then Some ''target attribute cannot be set''
     else if sc_set_target s then Some ''set-target attribute cannot be set''
     else if sc_encoding s \<noteq> None then Some ''encoding attribute cannot be set''
     else if sc_history s \<noteq> None then Some ''history attribute cannot be set''
     else if sc_models s \<noteq> None then Some ''models attribute cannot be set''
     else if sc_updates_only s then Some ''updates-only attribute cannot be set''
     else if sc_streams s \<noteq> None then Some ''subscriptions attribute cannot be set''
     else if sc_qos s \<noteq> None then Some ''qos attribute cannot be set''
     else if sc_paths s = [] then Some ''missing path(s) in stream subscription''
     else if \<not> known_stream_mode (sc_stream_mode s) then Some ''unknown subscription stream mode''
     else None)"

fun validate_streams :: "'c sub_config list \<Rightarrow> string option" where
  "validate_streams [] = None"
| "validate_streams (s # ss) = (case validate_stream s of Some err \<Rightarrow> Some err | None \<Rightarrow> validate_streams ss)"

definition validate_subscription :: "'c sub_config sub_config \<Rightarrow> string option" where
  "validate_subscription sc =
    (let streams = streams_of sc; up = to_upper (sc_mode sc)
     in if sc_prefix sc = [] \<and> sc_paths sc = [] \<and> streams = [] then Some ''missing path(s) in subscription''
        else if sc_paths sc \<noteq> [] \<and> streams \<noteq> [] then Some ''cannot set paths and stream-subscriptions at the same time''
        else if up \<notin> {[], ''ONCE'', ''POLL'', ''STREAM''} then Some ''unknown subscription mode''
        else if up \<in> {''ONCE'', ''POLL''} \<and> streams \<noteq> [] then Some ''cannot set stream-subscriptions and mode''
        else if (case sc_encoding sc of None \<Rightarrow> False | Some e \<Rightarrow> \<not> known_encoding e) then Some ''unknown encoding type''
        else if up \<in> {''ONCE'', ''POLL''} then None
        else if streams = []
        then (if known_stream_mode (sc_stream_mode sc) then None else Some ''unknown stream-mode type'')
        else validate_streams streams)"

definition default_stream_mode :: "'c sub_config \<Rightarrow> 'c sub_config" where
  "default_stream_mode s = (if sc_stream_mode s = [] then s\<lparr>sc_stream_mode := ''TARGET_DEFINED''\<rparr> else s)"

definition set_subscription_defaults :: "'c sub_config sub_config \<Rightarrow> 'c sub_config sub_config" where
  "set_subscription_defaults sc =
    (let sc1 = (if sc_mode sc = [] then sc\<lparr>sc_mode := ''STREAM''\<rparr> else sc);
         sc2 = (if sc_encoding sc1 = Some [] then sc1\<lparr>sc_encoding := Some ''JSON''\<rparr> else sc1)
     in if to_upper (sc_mode sc2) \<noteq> ''STREAM'' then sc2
        else if streams_of sc2 = [] then default_stream_mode sc2
        else sc2\<lparr>sc_streams := map_option (map default_stream_mode) (sc_streams sc2)\<rparr>)"

section \<open>The options of a request\<close>

definition lookup0 :: "(string \<Rightarrow> int option) \<Rightarrow> string \<Rightarrow> int" where
  "lookup0 t k = (case t k of None \<Rightarrow> 0 | Some v \<Rightarrow> v)"

definition stream_mode_of :: "proto_lib \<Rightarrow> string \<Rightarrow> int" where
  "stream_mode_of lib m = lookup0 (stream_mode_value lib) (dash_to_underscore (to_upper m))"

definition heartbeat_opt :: "'c sub_config \<Rightarrow> gnmi_option list" where
  "heartbeat_opt sc = (case sc_heartbeat_interval sc of None \<Rightarrow> [] | Some d \<Rightarrow> [opt_heartbeat_interval d])"

definition sample_opt :: "'c sub_config \<Rightarrow> gnmi_option list" where
  "sample_opt sc = (case sc_sample_interval sc of None \<Rightarrow> [] | Some d \<Rightarrow> [opt_sample_interval d])"

definition suppressed_heartbeat_opt :: "'c sub_config \<Rightarrow> gnmi_option list" where
  "suppressed_heartbeat_opt sc = (if sc_suppress_redundant sc then heartbeat_opt sc else [])"

text \<open>The constants of the generated enumerations are entries of their tables.\<close>

definition on_change :: "proto_lib \<Rightarrow> int" where "on_change lib = lookup0 (stream_mode_value lib) ''ON_CHANGE''"
definition target_defined :: "proto_lib \<Rightarrow> int" where
  "target_defined lib = lookup0 (stream_mode_value lib) ''TARGET_DEFINED''"
definition sample_mode :: "proto_lib \<Rightarrow> int" where "sample_mode lib = lookup0 (stream_mode_value lib) ''SAMPLE''"
definition list_stream :: "proto_lib \<Rightarrow> int" where "list_stream lib = lookup0 (list_mode_value lib) ''STREAM''"

definition stream_mode_opts :: "proto_lib \<Rightarrow> 'c sub_config \<Rightarrow> gnmi_option list mres" where
  "stream_mode_opts lib sc =
    (let md = stream_mode_of lib (sc_stream_mode sc); mode_opt = [opt_stream_mode lib (sc_stream_mode sc)]
     in if md = on_change lib then Inr (heartbeat_opt sc @ mode_opt)
        else if md = target_defined lib then
          Inr (heartbeat_opt sc @ sample_opt sc @ [opt_suppress_redundant (sc_suppress_redundant sc)] @
            suppressed_heartbeat_opt sc @ mode_opt)
        else if md = sample_mode lib then
          Inr (sample_opt sc @ [opt_suppress_redundant (sc_suppress_redundant sc)] @ suppressed_heartbeat_opt sc @ mode_opt)
        else Inl (InvalidValue ''unknown stream subscription mode''))"

definition path_subscription :: "proto_lib \<Rightarrow> 'c sub_config \<Rightarrow> string \<Rightarrow> gnmi_option mres" where
  "path_subscription lib sc p =
    rbind (if lookup0 (list_mode_value lib) (to_upper (sc_mode sc)) = list_stream lib then stream_mode_opts lib sc else Inr [])
      (\<lambda>opts. Inr (opt_subscription (opts @ [opt_path p])))"

text \<open>\<open>streamSubscriptionOpts\<close>: target-defined is treated like sampling there.\<close>

definition nested_mode_opts :: "proto_lib \<Rightarrow> 'c sub_config \<Rightarrow> gnmi_option list mres" where
  "nested_mode_opts lib sc =
    (let md = stream_mode_of lib (sc_stream_mode sc); mode_opt = [opt_stream_mode lib (sc_stream_mode sc)]
     in if md = on_change lib then Inr (heartbeat_opt sc @ mode_opt)
        else if md = sample_mode lib \<or> md = target_defined lib then
          Inr (sample_opt sc @ [opt_suppress_redundant (sc_suppress_redundant sc)] @ suppressed_heartbeat_opt sc @ mode_opt)
        else Inl (InvalidValue ''unknown stream subscription mode''))"

definition stream_subscription_opts :: "proto_lib \<Rightarrow> 'c sub_config \<Rightarrow> gnmi_option list mres" where
  "stream_subscription_opts lib sc =
    rmap (\<lambda>p. rbind (nested_mode_opts lib sc) (\<lambda>opts. Inr (opt_subscription (opts @ [opt_path p])))) (sc_paths sc)"

definition history_opts :: "'c sub_config \<Rightarrow> gnmi_option list" where
  "history_opts sc =
    (case sc_history sc of
      None \<Rightarrow> []
    | Some h \<Rightarrow>
        (case hc_snapshot h of None \<Rightarrow> [] | Some t \<Rightarrow> [opt_history_snapshot t]) @
        (case (hc_start h, hc_end h) of (Some a, Some b) \<Rightarrow> [opt_history_range a b] | _ \<Rightarrow> []))"

definition qos_opts :: "'c sub_config \<Rightarrow> gnmi_option list" where
  "qos_opts sc = (case sc_qos sc of None \<Rightarrow> [] | Some q \<Rightarrow> [opt_qos q])"

definition depth_opts :: "'c sub_config \<Rightarrow> gnmi_option list" where
  "depth_opts sc = (if 0 < sc_depth sc then [opt_depth (sc_depth sc)] else [])"

definition encoding_of :: "'c sub_config \<Rightarrow> target_info option \<Rightarrow> string \<Rightarrow> string" where
  "encoding_of sc tc def =
    (case sc_encoding sc of
      Some e \<Rightarrow> e
    | None \<Rightarrow> (case tc of None \<Rightarrow> def | Some t \<Rightarrow> (case ti_encoding t of Some e \<Rightarrow> e | None \<Rightarrow> def)))"

text \<open>\<open>Panic\<close>: the target is named after a target configuration that is nil.\<close>

definition target_opts :: "'c sub_config \<Rightarrow> target_info option \<Rightarrow> gnmi_option list mres" where
  "target_opts sc tc =
    (if sc_target sc \<noteq> [] then Inr [opt_target (sc_target sc)]
     else if sc_set_target sc then (case tc of None \<Rightarrow> Inl Panic | Some t \<Rightarrow> Inr [opt_target (ti_name t)])
     else Inr [])"

definition subscription_opts ::
  "proto_lib \<Rightarrow> 'c sub_config sub_config \<Rightarrow> target_info option \<Rightarrow> string \<Rightarrow> gnmi_option list mres" where
  "subscription_opts lib sc tc def =
    rbind (target_opts sc tc) (\<lambda>target.
    rbind (rmap (stream_subscription_opts lib) (streams_of sc)) (\<lambda>streams.
    rbind (rmap (path_subscription lib sc) (sc_paths sc)) (\<lambda>paths.
      Inr ([opt_prefix (sc_prefix sc), opt_list_mode lib (sc_mode sc), opt_updates_only (sc_updates_only sc),
          opt_encoding lib (encoding_of sc tc def)] @
        history_opts sc @
        qos_opts sc @
        map (\<lambda>md. opt_use_model md [] []) (models_of sc) @
        target @ concat streams @ paths @ depth_opts sc))))"

text \<open>The configuration is updated in place: the result has it with its defaults.\<close>

definition create_subscribe_request ::
  "proto_lib \<Rightarrow> 'c sub_config sub_config \<Rightarrow> target_info option \<Rightarrow> string \<Rightarrow> proto_msg mres \<times> 'c sub_config sub_config" where
  "create_subscribe_request lib cfg tc def =
    (case validate_subscription cfg of
      Some err \<Rightarrow> (Inl (InvalidValue err), cfg)
    | None \<Rightarrow>
        (let sc = set_subscription_defaults cfg
         in (rbind (subscription_opts lib sc tc def) new_subscribe_request, sc)))"

section \<open>Specification of the request\<close>

text \<open>The documented enumerations: the names are known and have different numbers.\<close>

definition std_enums :: "proto_lib \<Rightarrow> bool" where
  "std_enums lib \<longleftrightarrow>
    (\<exists>a b c. list_mode_value lib ''STREAM'' = Some a \<and> list_mode_value lib ''ONCE'' = Some b \<and>
      list_mode_value lib ''POLL'' = Some c \<and> distinct [a, b, c]) \<and>
    (\<exists>a b c. stream_mode_value lib ''TARGET_DEFINED'' = Some a \<and> stream_mode_value lib ''ON_CHANGE'' = Some b \<and>
      stream_mode_value lib ''SAMPLE'' = Some c \<and> distinct [a, b, c])"

definition or_zero :: "'a::zero option \<Rightarrow> 'a" where
  "or_zero x = (case x of None \<Rightarrow> 0 | Some d \<Rightarrow> d)"

text \<open>
  What a subscription to a path asks for: a heartbeat on change, intervals and suppression when
  the target or the client samples. Nested subscriptions leave out the heartbeat of a
  target-defined one unless redundant updates are suppressed.
\<close>

definition stream_spec :: "proto_lib \<Rightarrow> bool \<Rightarrow> 'c sub_config \<Rightarrow> gpath \<Rightarrow> subscription" where
  "stream_spec lib nested sc q =
    (let md = stream_mode_of lib (sc_stream_mode sc); sampled = (md \<noteq> on_change lib)
     in \<lparr>sb_path = Some q, sb_mode = md,
       sb_sample_interval = (if sampled then or_zero (sc_sample_interval sc) else 0),
       sb_suppress_redundant = (sampled \<and> sc_suppress_redundant sc),
       sb_heartbeat_interval =
        (if \<not> sampled \<or> sc_suppress_redundant sc \<or> (md = target_defined lib \<and> \<not> nested)
         then or_zero (sc_heartbeat_interval sc) else 0)\<rparr>)"

definition path_spec :: "proto_lib \<Rightarrow> 'c sub_config \<Rightarrow> gpath \<Rightarrow> subscription" where
  "path_spec lib sc q =
    (if to_upper (sc_mode sc) = ''STREAM'' then stream_spec lib False sc q else empty_subscription\<lparr>sb_path := Some q\<rparr>)"

definition history_spec :: "'c sub_config \<Rightarrow> extension list" where
  "history_spec sc =
    (case sc_history sc of
      None \<Rightarrow> []
    | Some h \<Rightarrow>
        (case hc_snapshot h of None \<Rightarrow> [] | Some t \<Rightarrow> [ExtHistory (HistorySnapshot t)]) @
        (case (hc_start h, hc_end h) of (Some a, Some b) \<Rightarrow> [ExtHistory (HistoryRange a b)] | _ \<Rightarrow> []))"

definition target_name :: "'c sub_config \<Rightarrow> target_info option \<Rightarrow> string" where
  "target_name sc tc =
    (if sc_target sc \<noteq> [] then sc_target sc
     else if sc_set_target sc then (case tc of None \<Rightarrow> [] | Some t \<Rightarrow> ti_name t) else [])"

definition request_spec ::
  "proto_lib \<Rightarrow> 'c sub_config sub_config \<Rightarrow> target_info option \<Rightarrow> (string \<Rightarrow> gpath) \<Rightarrow> gpath option \<Rightarrow> int \<Rightarrow> subscribe_request" where
  "request_spec lib sc tc gp pf enc =
    \<lparr>sr_request = ReqSubscribe (Some
      \<lparr>sl_prefix = (if target_name sc tc = [] then pf else with_target (target_name sc tc) pf),
       sl_subscription = concat (map (\<lambda>s. map (\<lambda>p. stream_spec lib True s (gp p)) (sc_paths s)) (streams_of sc)) @
         map (\<lambda>p. path_spec lib sc (gp p)) (sc_paths sc),
       sl_qos = sc_qos sc,
       sl_mode = lookup0 (list_mode_value lib) (to_upper (sc_mode sc)),
       sl_allow_aggregation = False,
       sl_models = map (\<lambda>md. \<lparr>md_name = md, md_organization = [], md_version = []\<rparr>) (models_of sc),
       sl_encoding = enc,
       sl_updates_only = sc_updates_only sc\<rparr>),
     sr_extension = history_spec sc @ (if 0 < sc_depth sc then [ExtDepth (sc_depth sc)] else [])\<rparr>"

definition all_paths :: "'c sub_config sub_config \<Rightarrow> string list" where
  "all_paths sc = concat (map sc_paths (streams_of sc)) @ sc_paths sc"

section \<open>Applying the options\<close>

abbreviation request_of :: "subscription_list \<Rightarrow> extension list \<Rightarrow> proto_msg" where
  "request_of l xs \<equiv> MSubscribeRequest \<lparr>sr_request = ReqSubscribe (Some l), sr_extension = xs\<rparr>"

lemma on_list_request: "on_list f \<lparr>sr_request = ReqSubscribe (Some l), sr_extension = xs\<rparr> =
    rbind (f l) (\<lambda>l'. Inr (request_of l' xs))"
  by (simp add: on_list_def list_of_def)

lemma on_request_request: "on_request f (request_of l xs) = rbind (f l) (\<lambda>l'. Inr (request_of l' xs))"
  by (simp add: on_request_def on_list_request)

lemma apply_history: "apply_opts (request_of l xs) (history_opts sc) = Inr (request_of l (xs @ history_spec sc))"
  by (auto simp: history_opts_def history_spec_def opt_history_snapshot_def opt_history_range_def opt_extension_def
      split: option.splits)

lemma apply_qos:
  "apply_opts (request_of l xs) (qos_opts sc) =
    Inr (request_of (l\<lparr>sl_qos := if sc_qos sc = None then sl_qos l else sc_qos sc\<rparr>) xs)"
  by (auto simp: qos_opts_def opt_qos_def on_request_request split: option.split)

lemma apply_depth:
  "apply_opts (request_of l xs) (depth_opts sc) =
    Inr (request_of l (xs @ (if 0 < sc_depth sc then [ExtDepth (sc_depth sc)] else [])))"
  by (simp add: depth_opts_def opt_depth_def opt_extension_def)

lemma apply_models:
  "apply_opts (request_of l xs) (map (\<lambda>md. opt_use_model md [] []) ms) =
    Inr (request_of (l\<lparr>sl_models := sl_models l @ map (\<lambda>md. \<lparr>md_name = md, md_organization = [], md_version = []\<rparr>) ms\<rparr>) xs)"
  by (induction ms arbitrary: l) (simp_all add: opt_use_model_def on_list_request)

lemma apply_target:
  assumes "sc_target sc = [] \<and> sc_set_target sc \<longrightarrow> tc \<noteq> None"
  shows "\<exists>opts. target_opts sc tc = Inr opts \<and>
    apply_opts (request_of l xs) opts =
      Inr (request_of (l\<lparr>sl_prefix := if target_name sc tc = [] then sl_prefix l else with_target (target_name sc tc) (sl_prefix l)\<rparr>) xs)"
  using assms by (auto simp: target_opts_def target_name_def opt_target_def on_list_request split: option.splits)

definition subscribes :: "gnmi_option \<Rightarrow> subscription \<Rightarrow> bool" where
  "subscribes f b \<longleftrightarrow> (\<exists>opts. f = opt_subscription opts \<and> build_subscription opts = Inr b)"

lemma apply_subscriptions:
  "list_all2 subscribes fs bs \<Longrightarrow>
    apply_opts (request_of l xs) fs = Inr (request_of (l\<lparr>sl_subscription := sl_subscription l @ bs\<rparr>) xs)"
proof (induction fs bs arbitrary: l rule: list_all2_induct)
  case (Cons f fs b bs)
  then show ?case by (auto simp: subscribes_def opt_subscription_def on_request_request)
qed simp

lemmas interval_defs = heartbeat_opt_def sample_opt_def suppressed_heartbeat_opt_def opt_heartbeat_interval_def
  opt_sample_interval_def opt_suppress_redundant_def empty_subscription_def or_zero_def

lemma upper_dash_char: "upper_char (dash_char c) = dash_char (upper_char c)"
proof (cases "97 \<le> byte c \<and> byte c \<le> 122")
  case True
  then have "c \<noteq> CHR ''-''" by (auto simp: byte_def)
  moreover have "upper_char c \<noteq> CHR ''-''"
  proof
    assume "upper_char c = CHR ''-''"
    then have "byte (char_of (byte c - 32) :: char) = byte CHR ''-''" using True by (simp add: upper_char_def)
    moreover have "byte c - 32 < 256" using True by linarith
    ultimately have "byte c - 32 = 45" by (simp add: byte_char_of byte_def)
    then show False using True by linarith
  qed
  ultimately show ?thesis by (simp add: dash_char_def)
next
  case False
  then have "upper_char c = c" unfolding upper_char_def by (rule if_not_P)
  moreover have "upper_char CHR ''_'' = CHR ''_''" by (simp add: upper_char_def byte_def)
  ultimately show ?thesis by (simp add: dash_char_def)
qed

lemma dash_char_simps [simp]:
  "dash_char c = CHR 0xC4 \<longleftrightarrow> c = CHR 0xC4" "dash_char c = CHR 0xC5 \<longleftrightarrow> c = CHR 0xC5"
  "dash_char c = CHR 0xB1 \<longleftrightarrow> c = CHR 0xB1" "dash_char c = CHR 0xBF \<longleftrightarrow> c = CHR 0xBF"
  "dash_char CHR ''I'' = CHR ''I''" "dash_char CHR ''S'' = CHR ''S''"
  by (simp_all add: dash_char_def)

lemma to_upper2:
  "to_upper [a] = [upper_char a]"
  "to_upper (a # b # t) =
    (if a = CHR 0xC4 \<and> b = CHR 0xB1 then CHR ''I'' # to_upper t
     else if a = CHR 0xC5 \<and> b = CHR 0xBF then CHR ''S'' # to_upper t
     else upper_char a # to_upper (b # t))"
  by simp_all

lemma upper_dash: "to_upper (dash_to_underscore m) = dash_to_underscore (to_upper m)"
proof (induction m rule: to_upper.induct)
  case (2 a s)
  show ?case
  proof (cases s)
    case Nil
    then show ?thesis by (simp add: dash_to_underscore_def upper_dash_char)
  next
    case (Cons b t)
    have t: "to_upper (dash_to_underscore t) = dash_to_underscore (to_upper t)"
      if "a = CHR 0xC4 \<and> b = CHR 0xB1 \<or> a = CHR 0xC5 \<and> b = CHR 0xBF"
      using 2(1,2) [OF Cons] that by auto
    have "to_upper (dash_to_underscore (b # t)) = dash_to_underscore (to_upper (b # t))"
      if "\<not> (a = CHR 0xC4 \<and> b = CHR 0xB1)" "\<not> (a = CHR 0xC5 \<and> b = CHR 0xBF)"
      using 2(3) [OF Cons] that Cons by auto
    then show ?thesis
      unfolding Cons using t
      by (simp add: dash_to_underscore_def to_upper2 upper_dash_char del: to_upper.simps)
  qed
qed (simp add: dash_to_underscore_def)

text \<open>A known, defaulted stream mode is one of the three entries of its table.\<close>

definition mode_set :: "'c sub_config \<Rightarrow> bool" where
  "mode_set sc \<longleftrightarrow> to_upper (dash_to_underscore (sc_stream_mode sc)) \<in> {''TARGET_DEFINED'', ''SAMPLE'', ''ON_CHANGE''}"

lemma mode_set_table:
  assumes "std_enums lib" and "mode_set sc"
  shows "stream_mode_value lib (to_upper (dash_to_underscore (sc_stream_mode sc))) = Some (stream_mode_of lib (sc_stream_mode sc))"
    and "stream_mode_of lib (sc_stream_mode sc) \<in> {on_change lib, target_defined lib, sample_mode lib}"
    and "distinct [on_change lib, target_defined lib, sample_mode lib]"
  using assms
  by (auto simp: std_enums_def mode_set_def stream_mode_of_def upper_dash lookup0_def on_change_def target_defined_def
      sample_mode_def)

lemma build_nested:
  assumes "std_enums lib" and "mode_set sc" and "parse_path p = Inr q"
  shows "\<exists>opts. nested_mode_opts lib sc = Inr opts \<and> build_subscription (opts @ [opt_path p]) = Inr (stream_spec lib True sc q)"
proof -
  note m = mode_set_table [OF assms(1,2)]
  consider "stream_mode_of lib (sc_stream_mode sc) = on_change lib"
    | "stream_mode_of lib (sc_stream_mode sc) = target_defined lib" "stream_mode_of lib (sc_stream_mode sc) \<noteq> on_change lib"
    | "stream_mode_of lib (sc_stream_mode sc) = sample_mode lib" "stream_mode_of lib (sc_stream_mode sc) \<noteq> on_change lib"
        "stream_mode_of lib (sc_stream_mode sc) \<noteq> target_defined lib"
    using m(2,3) by auto
  then show ?thesis
    using m(1,3) assms(3)
    by cases (simp_all add: nested_mode_opts_def build_subscription_def apply_opts_append interval_defs opt_stream_mode_def
        opt_path_def invalid_def stream_spec_def Let_def split: option.split)
qed

lemma build_top:
  assumes "std_enums lib" and "mode_set sc" and "parse_path p = Inr q"
  shows "\<exists>opts. stream_mode_opts lib sc = Inr opts \<and> build_subscription (opts @ [opt_path p]) = Inr (stream_spec lib False sc q)"
proof -
  note m = mode_set_table [OF assms(1,2)]
  consider "stream_mode_of lib (sc_stream_mode sc) = on_change lib"
    | "stream_mode_of lib (sc_stream_mode sc) = target_defined lib" "stream_mode_of lib (sc_stream_mode sc) \<noteq> on_change lib"
    | "stream_mode_of lib (sc_stream_mode sc) = sample_mode lib" "stream_mode_of lib (sc_stream_mode sc) \<noteq> on_change lib"
        "stream_mode_of lib (sc_stream_mode sc) \<noteq> target_defined lib"
    using m(2,3) by auto
  then show ?thesis
    using m(1,3) assms(3)
    by cases (simp_all add: stream_mode_opts_def build_subscription_def apply_opts_append interval_defs opt_stream_mode_def
        opt_path_def invalid_def stream_spec_def Let_def split: option.split)
qed

lemma path_subscription_ok:
  assumes "std_enums lib" and "to_upper (sc_mode sc) \<in> {''STREAM'', ''ONCE'', ''POLL''}"
    and "to_upper (sc_mode sc) = ''STREAM'' \<longrightarrow> mode_set sc" and "parse_path p = Inr q"
  shows "\<exists>f. path_subscription lib sc p = Inr f \<and> subscribes f (path_spec lib sc q)"
proof (cases "to_upper (sc_mode sc) = ''STREAM''")
  case True
  then obtain opts where "stream_mode_opts lib sc = Inr opts"
    "build_subscription (opts @ [opt_path p]) = Inr (stream_spec lib False sc q)"
    using build_top assms by blast
  with True show ?thesis by (auto simp: path_subscription_def list_stream_def subscribes_def path_spec_def)
next
  case False
  then have "lookup0 (list_mode_value lib) (to_upper (sc_mode sc)) \<noteq> list_stream lib"
    using assms(1,2) by (auto simp: std_enums_def lookup0_def list_stream_def)
  with False assms(4) show ?thesis
    by (auto simp: path_subscription_def subscribes_def path_spec_def build_subscription_def opt_path_def invalid_def)
qed

lemma rmap_total: "\<forall>x \<in> set xs. \<exists>y. f x = Inr y \<and> P x y \<Longrightarrow> \<exists>ys. rmap f xs = Inr ys \<and> list_all2 P xs ys"
proof (induction xs)
  case (Cons x xs)
  then show ?case by fastforce
qed simp

lemma list_all2_map_right: "list_all2 (\<lambda>x f. subscribes f (g x)) xs fs \<Longrightarrow> list_all2 subscribes fs (map g xs)"
  by (induction rule: list_all2_induct) auto

lemma paths_ok:
  assumes "std_enums lib" and "to_upper (sc_mode sc) \<in> {''STREAM'', ''ONCE'', ''POLL''}"
    and "to_upper (sc_mode sc) = ''STREAM'' \<and> sc_paths sc \<noteq> [] \<longrightarrow> mode_set sc"
    and "\<forall>p \<in> set (sc_paths sc). parse_path p = Inr (gp p)"
  shows "\<exists>fs. rmap (path_subscription lib sc) (sc_paths sc) = Inr fs \<and>
    list_all2 subscribes fs (map (\<lambda>p. path_spec lib sc (gp p)) (sc_paths sc))"
proof -
  have "\<forall>p \<in> set (sc_paths sc). \<exists>f. path_subscription lib sc p = Inr f \<and> subscribes f (path_spec lib sc (gp p))"
  proof
    fix p assume p: "p \<in> set (sc_paths sc)"
    then have "to_upper (sc_mode sc) = ''STREAM'' \<longrightarrow> mode_set sc" using assms(3) by auto
    from path_subscription_ok [OF assms(1,2) this] p assms(4)
    show "\<exists>f. path_subscription lib sc p = Inr f \<and> subscribes f (path_spec lib sc (gp p))" by blast
  qed
  from rmap_total [OF this] show ?thesis by (auto dest: list_all2_map_right)
qed

lemma nested_ok:
  assumes "std_enums lib" and "mode_set s" and "\<forall>p \<in> set (sc_paths s). parse_path p = Inr (gp p)"
  shows "\<exists>fs. stream_subscription_opts lib s = Inr fs \<and>
    list_all2 subscribes fs (map (\<lambda>p. stream_spec lib True s (gp p)) (sc_paths s))"
proof -
  have "\<forall>p \<in> set (sc_paths s). \<exists>f. rbind (nested_mode_opts lib s) (\<lambda>opts. Inr (opt_subscription (opts @ [opt_path p]))) = Inr f \<and>
      subscribes f (stream_spec lib True s (gp p))"
  proof
    fix p assume "p \<in> set (sc_paths s)"
    then obtain opts where "nested_mode_opts lib s = Inr opts"
      "build_subscription (opts @ [opt_path p]) = Inr (stream_spec lib True s (gp p))"
      using build_nested [OF assms(1,2)] assms(3) by blast
    then show "\<exists>f. rbind (nested_mode_opts lib s) (\<lambda>opts. Inr (opt_subscription (opts @ [opt_path p]))) = Inr f \<and>
      subscribes f (stream_spec lib True s (gp p))"
      by (auto simp: subscribes_def)
  qed
  from rmap_total [OF this] show ?thesis by (auto simp: stream_subscription_opts_def dest: list_all2_map_right)
qed

lemma all_nested_ok:
  assumes "std_enums lib" and "\<forall>s \<in> set ss. mode_set s \<and> (\<forall>p \<in> set (sc_paths s). parse_path p = Inr (gp p))"
  shows "\<exists>fss. rmap (stream_subscription_opts lib) ss = Inr fss \<and>
    list_all2 subscribes (concat fss) (concat (map (\<lambda>s. map (\<lambda>p. stream_spec lib True s (gp p)) (sc_paths s)) ss))"
  using assms(2)
proof (induction ss)
  case (Cons s ss)
  then obtain fs fss where "stream_subscription_opts lib s = Inr fs"
    "list_all2 subscribes fs (map (\<lambda>p. stream_spec lib True s (gp p)) (sc_paths s))"
    "rmap (stream_subscription_opts lib) ss = Inr fss"
    "list_all2 subscribes (concat fss) (concat (map (\<lambda>s. map (\<lambda>p. stream_spec lib True s (gp p)) (sc_paths s)) ss))"
    using nested_ok [OF assms(1), of s gp] by auto
  then show ?case by (auto intro: list_all2_appendI)
qed simp

section \<open>Defaults\<close>

lemma default_stream_mode_simps [simp]:
  "sc_paths (default_stream_mode s) = sc_paths s" "sc_streams (default_stream_mode s) = sc_streams s"
  "sc_mode (default_stream_mode s) = sc_mode s" "sc_prefix (default_stream_mode s) = sc_prefix s"
  "sc_encoding (default_stream_mode s) = sc_encoding s" "sc_target (default_stream_mode s) = sc_target s"
  "sc_set_target (default_stream_mode s) = sc_set_target s"
  by (simp_all add: default_stream_mode_def)

lemma defaults_simps [simp]:
  "sc_paths (set_subscription_defaults c) = sc_paths c" "sc_prefix (set_subscription_defaults c) = sc_prefix c"
  "sc_target (set_subscription_defaults c) = sc_target c" "sc_set_target (set_subscription_defaults c) = sc_set_target c"
  by (simp_all add: set_subscription_defaults_def Let_def)

lemma validated_mode:
  "validate_subscription c = None \<Longrightarrow> to_upper (sc_mode c) \<in> {[], ''ONCE'', ''POLL'', ''STREAM''}"
  by (auto simp: validate_subscription_def Let_def split: if_splits)

lemma to_upper_Nil [simp]: "to_upper m = [] \<longleftrightarrow> m = []"
  by (induction m rule: to_upper.induct) (auto split: list.split)

lemma defaults_mode:
  assumes "validate_subscription c = None"
  shows "to_upper (sc_mode (set_subscription_defaults c)) \<in> {''STREAM'', ''ONCE'', ''POLL''}"
  using validated_mode [OF assms]
  by (auto simp: set_subscription_defaults_def Let_def upper_char_def byte_def)

lemma defaults_upper:
  "to_upper (sc_mode (set_subscription_defaults c)) = (if sc_mode c = [] then ''STREAM'' else to_upper (sc_mode c))"
  by (simp add: set_subscription_defaults_def Let_def upper_char_def byte_def)

lemma upper_target_defined: "to_upper (dash_to_underscore ''TARGET_DEFINED'') = ''TARGET_DEFINED''"
  by (simp add: dash_to_underscore_def dash_char_def upper_char_def byte_def)

lemma known_defaulted: "known_stream_mode (sc_stream_mode s) \<Longrightarrow> mode_set (default_stream_mode s)"
proof (cases "sc_stream_mode s = []")
  case True
  then show ?thesis by (simp add: mode_set_def default_stream_mode_def upper_target_defined)
next
  case False
  then have "to_upper (dash_to_underscore (sc_stream_mode s)) \<noteq> []" by (simp add: dash_to_underscore_def)
  moreover assume "known_stream_mode (sc_stream_mode s)"
  ultimately show ?thesis using False by (simp add: mode_set_def default_stream_mode_def known_stream_mode_def)
qed

lemma validate_streams_all:
  "validate_streams ss = None \<Longrightarrow> s \<in> set ss \<Longrightarrow> known_stream_mode (sc_stream_mode s) \<and> sc_paths s \<noteq> [] \<and> sc_mode s = []"
proof (induction ss)
  case (Cons x ss)
  then show ?case by (cases "validate_stream x") (auto simp: validate_stream_def split: if_splits)
qed simp

lemma defaults_streams:
  assumes "validate_subscription c = None"
  shows "(to_upper (sc_mode (set_subscription_defaults c)) = ''STREAM'' \<and> sc_paths c \<noteq> [] \<longrightarrow> mode_set (set_subscription_defaults c)) \<and>
    (\<forall>s \<in> set (streams_of (set_subscription_defaults c)). mode_set s \<and> (\<exists>s' \<in> set (streams_of c). sc_paths s = sc_paths s'))"
proof (cases "streams_of c = []")
  case True
  then have k: "known_stream_mode (sc_stream_mode c)" if "to_upper (sc_mode c) \<notin> {''ONCE'', ''POLL''}"
    using assms that by (auto simp: validate_subscription_def Let_def split: if_splits)
  have "streams_of (set_subscription_defaults c) = []"
    using True by (auto simp: set_subscription_defaults_def streams_of_def default_stream_mode_def Let_def split: option.splits)
  moreover have "mode_set (set_subscription_defaults c)" if "to_upper (sc_mode (set_subscription_defaults c)) = ''STREAM''"
  proof -
    have "to_upper (sc_mode c) \<notin> {''ONCE'', ''POLL''}" using that by (auto simp: defaults_upper split: if_splits)
    from known_defaulted [OF k [OF this]] True that show ?thesis
      by (auto simp: set_subscription_defaults_def streams_of_def default_stream_mode_def Let_def mode_set_def
          split: option.splits if_splits)
  qed
  ultimately show ?thesis by simp
next
  case False
  then have m: "to_upper (sc_mode c) \<notin> {''ONCE'', ''POLL''}" and p: "sc_paths c = []" and v: "validate_streams (streams_of c) = None"
    using assms by (auto simp: validate_subscription_def Let_def split: if_splits)
  have "to_upper (sc_mode (set_subscription_defaults c)) = ''STREAM''"
    using m defaults_mode [OF assms] by (auto simp: defaults_upper split: if_splits)
  then have "streams_of (set_subscription_defaults c) = map default_stream_mode (streams_of c)"
    using False by (auto simp: set_subscription_defaults_def streams_of_def Let_def split: option.splits if_splits)
  then show ?thesis using p validate_streams_all [OF v] known_defaulted by auto
qed

section \<open>Properties\<close>

text \<open>C6. A validated configuration becomes exactly the request it describes: prefix with target, one
  subscription per path, of the stream subscriptions first, in order, with the mode, intervals and
  suppression that apply to it, models, quality of service, encoding and extensions; provided the
  encoding is known, the paths parse, and there is a target to take the name of.\<close>

theorem subscribe_request_correct:
  assumes "std_enums lib" and v: "validate_subscription cfg = None"
    and "create_prefix (sc_prefix cfg) [] = Inr pf"
    and "encoding_value lib (to_upper (encoding_of (set_subscription_defaults cfg) tc def)) = Some enc"
    and "sc_target cfg = [] \<and> sc_set_target cfg \<longrightarrow> tc \<noteq> None"
    and paths: "\<forall>p \<in> set (all_paths cfg). parse_path p = Inr (gp p)"
  shows "create_subscribe_request lib cfg tc def =
    (Inr (MSubscribeRequest (request_spec lib (set_subscription_defaults cfg) tc gp pf enc)), set_subscription_defaults cfg)"
proof -
  let ?c = "set_subscription_defaults cfg"
  note ds = defaults_streams [OF v]
  obtain fs where fs: "rmap (path_subscription lib ?c) (sc_paths ?c) = Inr fs"
    "list_all2 subscribes fs (map (\<lambda>p. path_spec lib ?c (gp p)) (sc_paths ?c))"
    using paths_ok [OF assms(1) defaults_mode [OF v], of gp] ds paths by (auto simp: all_paths_def)
  have "\<forall>s \<in> set (streams_of ?c). mode_set s \<and> (\<forall>p \<in> set (sc_paths s). parse_path p = Inr (gp p))"
    using ds paths by (fastforce simp: all_paths_def)
  then obtain fss where fss: "rmap (stream_subscription_opts lib) (streams_of ?c) = Inr fss"
    "list_all2 subscribes (concat fss) (concat (map (\<lambda>s. map (\<lambda>p. stream_spec lib True s (gp p)) (sc_paths s)) (streams_of ?c)))"
    using all_nested_ok [OF assms(1)] by blast
  have md: "list_mode_value lib (to_upper (sc_mode ?c)) = Some (lookup0 (list_mode_value lib) (to_upper (sc_mode ?c)))"
    using defaults_mode [OF v] assms(1) by (auto simp: std_enums_def lookup0_def)
  have ta: "\<exists>opts. target_opts ?c tc = Inr opts \<and> apply_opts (request_of l xs) opts =
      Inr (request_of (l\<lparr>sl_prefix := if target_name ?c tc = [] then sl_prefix l else with_target (target_name ?c tc) (sl_prefix l)\<rparr>) xs)"
    for l xs
    using assms(5) by (intro apply_target) simp
  then obtain topts where topts: "target_opts ?c tc = Inr topts" by blast
  with ta have ta: "apply_opts (request_of l xs) topts =
      Inr (request_of (l\<lparr>sl_prefix := if target_name ?c tc = [] then sl_prefix l else with_target (target_name ?c tc) (sl_prefix l)\<rparr>) xs)"
    for l xs
    by simp
  let ?l1 = "empty_list\<lparr>sl_prefix := pf, sl_mode := lookup0 (list_mode_value lib) (to_upper (sc_mode ?c)),
    sl_updates_only := sc_updates_only ?c, sl_encoding := enc\<rparr>"
  have first: "apply_opts (request_of empty_list []) [opt_prefix (sc_prefix ?c), opt_list_mode lib (sc_mode ?c),
      opt_updates_only (sc_updates_only ?c), opt_encoding lib (encoding_of ?c tc def)] = Inr (request_of ?l1 [])"
    using assms(3,4) md
    by (simp add: opt_prefix_def opt_list_mode_def opt_updates_only_def opt_encoding_def on_list_request on_request_request
        invalid_def)
  have opts: "subscription_opts lib ?c tc def = Inr ([opt_prefix (sc_prefix ?c), opt_list_mode lib (sc_mode ?c),
      opt_updates_only (sc_updates_only ?c), opt_encoding lib (encoding_of ?c tc def)] @ history_opts ?c @
      qos_opts ?c @ map (\<lambda>md. opt_use_model md [] []) (models_of ?c) @ topts @ concat fss @ fs @ depth_opts ?c)"
    using fs(1) fss(1) topts by (simp add: subscription_opts_def qos_opts_def depth_opts_def)
  have "rbind (subscription_opts lib ?c tc def) new_subscribe_request =
      Inr (MSubscribeRequest (request_spec lib ?c tc gp pf enc))"
    unfolding opts rbind_simps new_subscribe_request_def apply_opts_append first apply_history apply_qos apply_models ta
      apply_subscriptions [OF fs(2)] apply_subscriptions [OF fss(2)] apply_depth
    by (simp add: request_spec_def empty_list_def)
  then show ?thesis using v by (simp add: create_subscribe_request_def Let_def)
qed

lemma spec_lib_std: "std_enums spec_lib"
  by (simp add: std_enums_def spec_lib_def)

definition sample_sub :: "unit sub_config sub_config" where
  "sample_sub = \<lparr>sc_name = ''s'', sc_models = None, sc_prefix = [], sc_target = ''r1'', sc_set_target = False, sc_paths = [''a''],
    sc_mode = [], sc_stream_mode = ''on-change'', sc_encoding = None, sc_qos = None, sc_sample_interval = None,
    sc_heartbeat_interval = Some 60, sc_suppress_redundant = False, sc_updates_only = False, sc_history = None,
    sc_streams = None, sc_outputs = [], sc_depth = 0\<rparr>"

lemma upper_consts: "to_upper ''json'' = ''JSON''" "to_upper (dash_to_underscore ''on-change'') = ''ON_CHANGE''"
  by code_simp+

theorem subscribe_request_correct_witness:
  "fst (create_subscribe_request spec_lib sample_sub None ''json'') =
    Inr (MSubscribeRequest (request_spec spec_lib (set_subscription_defaults sample_sub) None (\<lambda>_. path_a) None 0))"
proof -
  have "validate_subscription sample_sub = None"
    using upper_consts(2) by (simp add: sample_sub_def validate_subscription_def streams_of_def known_stream_mode_def)
  moreover have "create_prefix (sc_prefix sample_sub) [] = Inr None" by (simp add: sample_sub_def create_prefix_def)
  moreover have "encoding_value spec_lib (to_upper (encoding_of (set_subscription_defaults sample_sub) None ''json'')) = Some 0"
    using upper_consts(1)
    by (simp add: sample_sub_def set_subscription_defaults_def encoding_of_def spec_lib_def default_stream_mode_def Let_def)
  moreover have "\<forall>p \<in> set (all_paths sample_sub). parse_path p = Inr path_a"
    using parse_path_a by (simp add: all_paths_def sample_sub_def streams_of_def)
  ultimately show ?thesis
    using subscribe_request_correct [OF spec_lib_std, of sample_sub None None "''json''" 0 "\<lambda>_. path_a"]
    by (simp add: sample_sub_def)
qed

section \<open>What is accepted\<close>

lemma opt_prefix_accepts: "opt_prefix p a = Inr b \<Longrightarrow> \<exists>pf. create_prefix p [] = Inr pf"
  by (cases a) (auto simp: opt_prefix_def invalid_def on_list_def rbind_Inr_iff Let_def
      split: sum.splits request_kind.splits)

lemma build_subscription_accepts:
  "build_subscription fs = Inr b \<Longrightarrow> \<exists>m. apply_opts (MSubscription empty_subscription) fs = Inr m"
  by (cases "apply_opts (MSubscription empty_subscription) fs") (simp_all add: build_subscription_def)

lemma opt_subscription_accepts: "opt_subscription fs a = Inr b \<Longrightarrow> \<exists>c. build_subscription fs = Inr c"
  by (auto simp: opt_subscription_def on_request_def on_list_def rbind_Inr_iff split: proto_msg.splits request_kind.splits)

lemma subscription_accepts: "opt_subscription (fs @ [opt_path p]) a = Inr b \<Longrightarrow> \<exists>q. parse_path p = Inr q"
proof -
  assume "opt_subscription (fs @ [opt_path p]) a = Inr b"
  then obtain m where "apply_opts (MSubscription empty_subscription) (fs @ [opt_path p]) = Inr m"
    by (auto dest!: opt_subscription_accepts build_subscription_accepts)
  from apply_opts_each [OF this, of "opt_path p"] obtain x y where "opt_path p x = Inr y" by auto
  then show ?thesis by (rule opt_path_accepts)
qed

lemma rmap_each: "rmap f xs = Inr ys \<Longrightarrow> x \<in> set xs \<Longrightarrow> \<exists>y \<in> set ys. f x = Inr y"
  by (auto simp: rmap_Inr_iff list_all2_conv_all_nth in_set_conv_nth)

lemma path_accepts:
  assumes "path_subscription lib sc p = Inr f" and "f a = Inr b"
  shows "\<exists>q. parse_path p = Inr q"
  using assms by (auto simp: path_subscription_def rbind_Inr_iff dest: subscription_accepts)

lemma nested_accepts:
  assumes "stream_subscription_opts lib s = Inr fs" and "\<forall>f \<in> set fs. \<exists>a b. f a = Inr b" and "p \<in> set (sc_paths s)"
  shows "\<exists>q. parse_path p = Inr q"
proof -
  obtain f where "f \<in> set fs" "rbind (nested_mode_opts lib s) (\<lambda>fs. Inr (opt_subscription (fs @ [opt_path p]))) = Inr f"
    using rmap_each [OF assms(1) [unfolded stream_subscription_opts_def] assms(3)] by blast
  with assms(2) show ?thesis by (fastforce simp: rbind_Inr_iff dest: subscription_accepts)
qed

text \<open>C25. Nothing else is accepted: a request is created only when the configuration is valid, its prefix and
  all its paths parse, its encoding is one of the protocol's, and there is a target to take the
  name of.\<close>

theorem subscribe_request_accepts:
  assumes "fst (create_subscribe_request lib cfg tc def) = Inr r"
  shows "validate_subscription cfg = None \<and> (\<exists>pf. create_prefix (sc_prefix cfg) [] = Inr pf) \<and>
    (\<exists>enc. encoding_value lib (to_upper (encoding_of (set_subscription_defaults cfg) tc def)) = Some enc) \<and>
    (sc_target cfg = [] \<and> sc_set_target cfg \<longrightarrow> tc \<noteq> None) \<and>
    (\<forall>s \<in> set (streams_of (set_subscription_defaults cfg)). \<forall>p \<in> set (sc_paths s). \<exists>q. parse_path p = Inr q) \<and>
    (\<forall>p \<in> set (sc_paths cfg). \<exists>q. parse_path p = Inr q)"
proof -
  let ?c = "set_subscription_defaults cfg"
  have v: "validate_subscription cfg = None"
    using assms by (auto simp: create_subscribe_request_def split: option.splits)
  then obtain opts where o: "subscription_opts lib ?c tc def = Inr opts" and r: "new_subscribe_request opts = Inr r"
    using assms by (auto simp: create_subscribe_request_def Let_def rbind_Inr_iff)
  obtain topts fss fs where t: "target_opts ?c tc = Inr topts"
    and fss: "rmap (stream_subscription_opts lib) (streams_of ?c) = Inr fss"
    and fs: "rmap (path_subscription lib ?c) (sc_paths ?c) = Inr fs"
    and eq: "opts = [opt_prefix (sc_prefix ?c), opt_list_mode lib (sc_mode ?c), opt_updates_only (sc_updates_only ?c),
        opt_encoding lib (encoding_of ?c tc def)] @ history_opts ?c @ qos_opts ?c @
        map (\<lambda>md. opt_use_model md [] []) (models_of ?c) @ topts @ concat fss @ fs @ depth_opts ?c"
    using o by (auto simp: subscription_opts_def rbind_Inr_iff)
  have opts: "set ([opt_prefix (sc_prefix ?c), opt_encoding lib (encoding_of ?c tc def)] @ concat fss @ fs) \<subseteq> set opts"
    unfolding eq by auto
  have each: "\<exists>a b. f a = Inr b" if "f \<in> set ([opt_prefix (sc_prefix ?c), opt_encoding lib (encoding_of ?c tc def)] @ concat fss @ fs)" for f
    using apply_opts_each [OF r [unfolded new_subscribe_request_def]] that opts by blast
  have "\<exists>pf. create_prefix (sc_prefix cfg) [] = Inr pf"
    using each [of "opt_prefix (sc_prefix ?c)"] opt_prefix_accepts by fastforce
  moreover have "\<exists>enc. encoding_value lib (to_upper (encoding_of ?c tc def)) = Some enc"
    using each [of "opt_encoding lib (encoding_of ?c tc def)"]
    by (auto simp: opt_encoding_def split: if_splits option.splits)
  moreover have "sc_target cfg = [] \<and> sc_set_target cfg \<longrightarrow> tc \<noteq> None"
    using t by (cases tc) (auto simp: target_opts_def)
  moreover have "\<exists>q. parse_path p = Inr q" if "p \<in> set (sc_paths cfg)" for p
    using rmap_each [OF fs, of p] that each path_accepts by fastforce
  moreover have "\<exists>q. parse_path p = Inr q" if s: "s \<in> set (streams_of ?c)" and p: "p \<in> set (sc_paths s)" for s p
  proof -
    obtain gs where gs: "gs \<in> set fss" "stream_subscription_opts lib s = Inr gs" using rmap_each [OF fss s] by blast
    then have "\<forall>f \<in> set gs. \<exists>a b. f a = Inr b" using each by auto
    from nested_accepts [OF gs(2) this p] show ?thesis .
  qed
  ultimately show ?thesis using v by blast
qed

theorem subscribe_request_accepts_witness:
  "validate_subscription sample_sub = None \<and> (\<exists>q. parse_path ''a'' = Inr q)"
  using subscribe_request_accepts [OF subscribe_request_correct_witness] by (simp add: sample_sub_def)

text \<open>
  The validator replaces dashes in encodings and lets numbers pass; the option that the encoding
  ends up in does neither. Such a configuration is valid and no request can be made from it.
\<close>

lemma encoding_gap:
  "known_encoding ''json-ietf''" "encoding_value spec_lib (to_upper ''json-ietf'') = None"
proof -
  have "to_upper (dash_to_underscore ''json-ietf'') = ''JSON_IETF''" "to_upper ''json-ietf'' = ''JSON-IETF''"
    by code_simp+
  then show "known_encoding ''json-ietf''" "encoding_value spec_lib (to_upper ''json-ietf'') = None"
    by (simp_all add: known_encoding_def spec_lib_def)
qed

end
