(* ===== verification/Target_Subscribe.thy ===== *)
theory Target_Subscribe
  imports Gnmi_Types
begin

text \<open>
  The subscriptions of one target: \<open>pkg/api/target/subscribe.go\<close> and the connection of
  \<open>target.go\<close>. Every call of \<open>SubscribeChan\<close> starts a goroutine, here a \<open>reader\<close>, that attempts
  the subscription again and again; the target keeps the cancel function of the attempt that
  registered last under a subscription's name. The steps of the goroutines and of their callers
  are cut where the code takes the mutex of the target, and interleave freely. What gRPC answers
  is part of a step: a call on a closed connection or with a cancelled context fails with the
  code \<open>Canceled\<close>, and the device may send that code as well.
\<close>

section \<open>State\<close>

datatype sub_kind = STREAM | ONCE | POLL

text \<open>
  Where the goroutine of \<open>SubscribeChan\<close> is: before an attempt (the retry delay), creating the
  client (on a connection that was open, or closed before the call), with a client that is not registered, in the handler, after the handler with what
  \<open>attemptSubscription\<close> returns (whether to retry) but before its deferred calls, returned.
\<close>

datatype rphase = Waiting | Creating bool | Created | Streaming | Unwinding bool | Done

record reader =
  rd_name :: string
  rd_kind :: sub_kind
  rd_phase :: rphase
  rd_parent :: bool \<comment> \<open>the context of \<open>SubscribeChan\<close> is cancelled\<close>
  rd_attempt :: nat
  rd_cancelled :: bool \<comment> \<open>the context of the attempt is cancelled\<close>
  rd_conn :: nat \<comment> \<open>the connection of the client of the attempt\<close>

text \<open>The cancel function of an attempt is the reader with the number of its attempt.\<close>

record tsub =
  ts_readers :: "reader list"
  ts_cancel :: "(nat \<times> nat) gmap" \<comment> \<open>\<open>subscribeCancelFn\<close>\<close>
  ts_clients :: "(nat \<times> nat) gmap" \<comment> \<open>\<open>SubscribeClients\<close>\<close>
  ts_configs :: "sub_kind gmap" \<comment> \<open>\<open>Subscriptions\<close>\<close>
  ts_conn :: "nat option" \<comment> \<open>\<open>conn\<close> and \<open>Client\<close>\<close>
  ts_closed :: "nat list" \<comment> \<open>connections that are closed\<close>
  ts_conns :: nat
  ts_panicked :: bool

definition new_tsub :: tsub where
  "new_tsub = \<lparr>ts_readers = [], ts_cancel = [], ts_clients = [], ts_configs = [], ts_conn = None, ts_closed = [],
    ts_conns = 0, ts_panicked = False\<rparr>"

definition set_reader :: "nat \<Rightarrow> reader \<Rightarrow> tsub \<Rightarrow> tsub" where
  "set_reader i r s = s\<lparr>ts_readers := (ts_readers s)[i := r]\<rparr>"

section \<open>Operations under the mutex\<close>

fun cancel_attempt :: "(nat \<times> nat) option \<Rightarrow> tsub \<Rightarrow> tsub" where
  "cancel_attempt None s = s"
| "cancel_attempt (Some (i, k)) s =
    (if i < length (ts_readers s) \<and> rd_attempt (ts_readers s ! i) = k
     then set_reader i ((ts_readers s ! i)\<lparr>rd_cancelled := True\<rparr>) s else s)"

text \<open>The attempt of reader \<open>i\<close> registers its client and cancels the attempt that registered before.\<close>

definition register :: "nat \<Rightarrow> tsub \<Rightarrow> tsub" where
  "register i s =
    (let n = rd_name (ts_readers s ! i);
         s1 = cancel_attempt (map_of (ts_cancel s) n) s;
         r = ts_readers s1 ! i
     in (set_reader i (r\<lparr>rd_phase := Streaming\<rparr>) s1)\<lparr>
          ts_cancel := gset n (i, rd_attempt r) (ts_cancel s1),
          ts_clients := gset n (i, rd_attempt r) (ts_clients s1)\<rparr>)"

definition stop_subscription :: "string \<Rightarrow> tsub \<Rightarrow> tsub" where
  "stop_subscription n s =
    (let s1 = cancel_attempt (map_of (ts_cancel s) n) s
     in s1\<lparr>ts_cancel := gdel n (ts_cancel s1), ts_clients := gdel n (ts_clients s1)\<rparr>)"

definition set_subscription_config :: "string \<Rightarrow> sub_kind \<Rightarrow> tsub \<Rightarrow> tsub" where
  "set_subscription_config n c s = s\<lparr>ts_configs := gset n c (ts_configs s)\<rparr>"

definition delete_subscription_config :: "string \<Rightarrow> tsub \<Rightarrow> tsub" where
  "delete_subscription_config n s = s\<lparr>ts_configs := gdel n (ts_configs s)\<rparr>"

definition delete_subscription :: "string \<Rightarrow> tsub \<Rightarrow> tsub" where
  "delete_subscription n s = delete_subscription_config n (stop_subscription n s)"

text \<open>\<open>StopSubscriptions\<close> cancels every attempt but leaves the entries to the goroutines.\<close>

definition stop_subscriptions :: "tsub \<Rightarrow> tsub" where
  "stop_subscriptions s = fold (\<lambda>(n, c). cancel_attempt (Some c)) (ts_cancel s) s"

definition close_target :: "tsub \<Rightarrow> tsub" where
  "close_target s =
    (let s1 = stop_subscriptions s
     in case ts_conn s1 of None \<Rightarrow> s1 | Some c \<Rightarrow> s1\<lparr>ts_closed := c # ts_closed s1\<rparr>)"

text \<open>\<open>CreateGNMIClient\<close>, when a connection is made: an old connection is forgotten, not closed.\<close>

definition connect :: "tsub \<Rightarrow> tsub" where
  "connect s = s\<lparr>ts_conn := Some (ts_conns s), ts_conns := ts_conns s + 1\<rparr>"

definition subscribe_client_states :: "tsub \<Rightarrow> bool gmap option" where
  "subscribe_client_states s =
    (if ts_configs s = [] then None
     else Some (map (\<lambda>(n, c). (n, map_of (ts_clients s) n \<noteq> None)) (ts_configs s)))"

section \<open>The goroutine of a subscription\<close>

text \<open>Why a call fails with the code \<open>Canceled\<close>.\<close>

datatype origin = ByContext | ByConnection | ByPeer

text \<open>What ends the receive loop of a handler.\<close>

datatype received = RNil | RCanceled origin | REof | RError | RSync

definition is_open :: "reader \<Rightarrow> tsub \<Rightarrow> bool" where
  "is_open r s \<longleftrightarrow> rd_conn r \<notin> set (ts_closed s)"

fun may_cancel :: "origin \<Rightarrow> reader \<Rightarrow> tsub \<Rightarrow> bool" where
  "may_cancel ByContext r s = (rd_parent r \<or> rd_cancelled r)"
| "may_cancel ByConnection r s = (\<not> is_open r s)"
| "may_cancel ByPeer r s = True"

fun may_receive :: "received \<Rightarrow> reader \<Rightarrow> tsub \<Rightarrow> bool" where
  "may_receive RNil r s = (rd_parent r \<or> rd_cancelled r)"
| "may_receive (RCanceled cause) r s = may_cancel cause r s"
| "may_receive RSync r s = (rd_kind r = ONCE)"
| "may_receive REof r s = True"
| "may_receive RError r s = True"

text \<open>
  \<open>handleSTREAMMode\<close>, \<open>handleONCEMode\<close>, \<open>handlePOLLMode\<close>: whether the attempt is to be repeated.
\<close>

fun handle_mode :: "sub_kind \<Rightarrow> received \<Rightarrow> bool" where
  "handle_mode k RNil = False"
| "handle_mode k (RCanceled cause) = False"
| "handle_mode k RSync = False"
| "handle_mode k REof = (k \<noteq> ONCE)"
| "handle_mode k RError = True"

text \<open>
  The deferred calls of \<open>attemptSubscription\<close>, and back in the loop of \<open>SubscribeChan\<close>: they stop
  the subscription of that name, whoever has registered it.
\<close>

definition unwind :: "nat \<Rightarrow> bool \<Rightarrow> tsub \<Rightarrow> tsub" where
  "unwind i retry s =
    (let s1 = stop_subscription (rd_name (ts_readers s ! i)) s; r = ts_readers s1 ! i
     in set_reader i (r\<lparr>rd_phase := (if retry then Waiting else Done), rd_cancelled := True\<rparr>) s1)"

text \<open>The steps: of callers (a caller cancels the context it gave to a reader), and of readers.\<close>

datatype label =
    Start string sub_kind
  | Set_Config string sub_kind
  | Delete_Config string
  | Stop_Sub string
  | Delete_Sub string
  | Cancel nat
  | Stop_All
  | Close
  | Connect
  | Attempt nat
  | Client_Ok nat
  | Client_Err nat "origin option"
  | Register nat
  | Send_Err nat
  | Handled nat received
  | Unwind nat

definition new_reader :: "string \<Rightarrow> sub_kind \<Rightarrow> reader" where
  "new_reader n k = \<lparr>rd_name = n, rd_kind = k, rd_phase = Waiting, rd_parent = False, rd_attempt = 0,
    rd_cancelled = False, rd_conn = 0\<rparr>"

text \<open>The top of the loop: after the delay the context is looked at, then the client is used.\<close>

definition attempt :: "nat \<Rightarrow> reader \<Rightarrow> tsub \<Rightarrow> tsub" where
  "attempt i r s =
    (if rd_parent r then set_reader i (r\<lparr>rd_phase := Done\<rparr>) s
     else case ts_conn s of
       None \<Rightarrow> s\<lparr>ts_panicked := True\<rparr>
     | Some c \<Rightarrow>
         set_reader i (r\<lparr>rd_phase := Creating (c \<notin> set (ts_closed s)), rd_attempt := rd_attempt r + 1, rd_cancelled := False, rd_conn := c\<rparr>) s)"

text \<open>
  A step that cannot happen in a state gives \<open>None\<close>. A call that begins on a closed connection
  fails with the code \<open>Canceled\<close>.
\<close>

fun reader_step :: "label \<Rightarrow> nat \<Rightarrow> reader \<Rightarrow> tsub \<Rightarrow> tsub option" where
  "reader_step (Attempt _) i r s = (if rd_phase r = Waiting then Some (attempt i r s) else None)"
| "reader_step (Client_Ok _) i r s =
    (if rd_phase r = Creating True \<and> is_open r s then Some (set_reader i (r\<lparr>rd_phase := Created\<rparr>) s) else None)"
| "reader_step (Client_Err _ err) i r s =
    (case rd_phase r of
      Creating opened \<Rightarrow>
        (case err of
          None \<Rightarrow> if opened then Some (set_reader i (r\<lparr>rd_phase := Waiting, rd_cancelled := True\<rparr>) s) else None
        | Some cause \<Rightarrow>
            if may_cancel cause r s then Some (set_reader i (r\<lparr>rd_phase := Done, rd_cancelled := True\<rparr>) s) else None)
    | _ \<Rightarrow> None)"
| "reader_step (Register _) i r s = (if rd_phase r = Created then Some (register i s) else None)"
| "reader_step (Send_Err _) i r s =
    (if rd_phase r = Streaming then Some (set_reader i (r\<lparr>rd_phase := Unwinding True\<rparr>) s) else None)"
| "reader_step (Handled _ x) i r s =
    (if rd_phase r = Streaming \<and> may_receive x r s
     then Some (set_reader i (r\<lparr>rd_phase := Unwinding (handle_mode (rd_kind r) x)\<rparr>) s) else None)"
| "reader_step (Unwind _) i r s = (case rd_phase r of Unwinding retry \<Rightarrow> Some (unwind i retry s) | _ \<Rightarrow> None)"
| "reader_step _ i r s = None"

fun reader_of :: "label \<Rightarrow> nat option" where
  "reader_of (Attempt i) = Some i"
| "reader_of (Client_Ok i) = Some i"
| "reader_of (Client_Err i e) = Some i"
| "reader_of (Register i) = Some i"
| "reader_of (Send_Err i) = Some i"
| "reader_of (Handled i x) = Some i"
| "reader_of (Unwind i) = Some i"
| "reader_of _ = None"

fun caller_step :: "label \<Rightarrow> tsub \<Rightarrow> tsub option" where
  "caller_step (Start n k) s =
    Some (s\<lparr>ts_readers := ts_readers s @ [new_reader n k]\<rparr>)"
| "caller_step (Set_Config n k) s = Some (set_subscription_config n k s)"
| "caller_step (Delete_Config n) s = Some (delete_subscription_config n s)"
| "caller_step (Stop_Sub n) s = Some (stop_subscription n s)"
| "caller_step (Delete_Sub n) s = Some (delete_subscription n s)"
| "caller_step (Cancel i) s =
    (if i < length (ts_readers s) then Some (set_reader i ((ts_readers s ! i)\<lparr>rd_parent := True\<rparr>) s) else None)"
| "caller_step Stop_All s = Some (stop_subscriptions s)"
| "caller_step Close s = Some (close_target s)"
| "caller_step Connect s = Some (connect s)"
| "caller_step _ s = None"

definition step :: "label \<Rightarrow> tsub \<Rightarrow> tsub option" where
  "step l s =
    (if ts_panicked s then None
     else case reader_of l of
       None \<Rightarrow> caller_step l s
     | Some i \<Rightarrow> if i < length (ts_readers s) then reader_step l i (ts_readers s ! i) s else None)"

fun run :: "tsub \<Rightarrow> label list \<Rightarrow> tsub option" where
  "run s [] = Some s"
| "run s (l # ls) = (case step l s of None \<Rightarrow> None | Some s' \<Rightarrow> run s' ls)"

section \<open>Invariant\<close>

definition registered :: "reader \<Rightarrow> bool" where
  "registered r \<longleftrightarrow> rd_phase r = Streaming \<or> (\<exists>b. rd_phase r = Unwinding b)"

definition idle :: "reader \<Rightarrow> bool" where
  "idle r \<longleftrightarrow> rd_phase r = Waiting \<or> rd_phase r = Done"

text \<open>
  An entry belongs to the current attempt of a reader of that name, and an attempt that has
  registered and is not cancelled owns the entry of its name.
\<close>

definition entry_ok :: "tsub \<Rightarrow> bool" where
  "entry_ok s \<longleftrightarrow> (\<forall>n i k. map_of (ts_cancel s) n = Some (i, k) \<longrightarrow>
    i < length (ts_readers s) \<and> rd_name (ts_readers s ! i) = n \<and> rd_attempt (ts_readers s ! i) = k \<and>
    registered (ts_readers s ! i))"

definition owner_ok :: "tsub \<Rightarrow> bool" where
  "owner_ok s \<longleftrightarrow> (\<forall>i < length (ts_readers s). registered (ts_readers s ! i) \<and> \<not> rd_cancelled (ts_readers s ! i) \<longrightarrow>
    map_of (ts_cancel s) (rd_name (ts_readers s ! i)) = Some (i, rd_attempt (ts_readers s ! i)))"

definition conns_ok :: "tsub \<Rightarrow> bool" where
  "conns_ok s \<longleftrightarrow> (\<forall>c \<in> set (ts_closed s). c < ts_conns s) \<and> (\<forall>c. ts_conn s = Some c \<longrightarrow> c < ts_conns s) \<and>
    (\<forall>i < length (ts_readers s). idle (ts_readers s ! i) \<or> rd_conn (ts_readers s ! i) < ts_conns s)"

definition sub_inv :: "tsub \<Rightarrow> bool" where
  "sub_inv s \<longleftrightarrow> wf_gmap (ts_cancel s) \<and> ts_clients s = ts_cancel s \<and> entry_ok s \<and> owner_ok s \<and> conns_ok s"

lemma entry_okD:
  "entry_ok s \<Longrightarrow> map_of (ts_cancel s) n = Some (i, k) \<Longrightarrow>
    i < length (ts_readers s) \<and> rd_name (ts_readers s ! i) = n \<and> rd_attempt (ts_readers s ! i) = k \<and> registered (ts_readers s ! i)"
  unfolding entry_ok_def by blast

lemma owner_okD:
  "owner_ok s \<Longrightarrow> i < length (ts_readers s) \<Longrightarrow> registered (ts_readers s ! i) \<Longrightarrow> \<not> rd_cancelled (ts_readers s ! i) \<Longrightarrow>
    map_of (ts_cancel s) (rd_name (ts_readers s ! i)) = Some (i, rd_attempt (ts_readers s ! i))"
  unfolding owner_ok_def by blast

lemma set_reader_sel [simp]:
  "length (ts_readers (set_reader i r s)) = length (ts_readers s)"
  "ts_cancel (set_reader i r s) = ts_cancel s" "ts_clients (set_reader i r s) = ts_clients s"
  "ts_configs (set_reader i r s) = ts_configs s" "ts_conn (set_reader i r s) = ts_conn s"
  "ts_closed (set_reader i r s) = ts_closed s" "ts_conns (set_reader i r s) = ts_conns s"
  "ts_panicked (set_reader i r s) = ts_panicked s"
  by (simp_all add: set_reader_def)

lemma set_reader_nth [simp]:
  "j < length (ts_readers s) \<Longrightarrow> ts_readers (set_reader i r s) ! j = (if j = i then r else ts_readers s ! j)"
  by (simp add: set_reader_def nth_list_update)

lemma cancel_sel [simp]:
  "length (ts_readers (cancel_attempt c s)) = length (ts_readers s)"
  "ts_cancel (cancel_attempt c s) = ts_cancel s" "ts_clients (cancel_attempt c s) = ts_clients s"
  "ts_configs (cancel_attempt c s) = ts_configs s" "ts_conn (cancel_attempt c s) = ts_conn s"
  "ts_closed (cancel_attempt c s) = ts_closed s" "ts_conns (cancel_attempt c s) = ts_conns s"
  "ts_panicked (cancel_attempt c s) = ts_panicked s"
  by (cases "(c, s)" rule: cancel_attempt.cases; simp)+

lemma cancel_nth [simp]:
  "j < length (ts_readers s) \<Longrightarrow>
    ts_readers (cancel_attempt c s) ! j =
      (if c = Some (j, rd_attempt (ts_readers s ! j)) then (ts_readers s ! j)\<lparr>rd_cancelled := True\<rparr> else ts_readers s ! j)"
  by (cases "(c, s)" rule: cancel_attempt.cases) auto

declare cancel_attempt.simps [simp del]

lemma inv_cancel: "sub_inv s \<Longrightarrow> sub_inv (cancel_attempt c s)"
  unfolding sub_inv_def
  by (auto simp: entry_ok_def owner_ok_def conns_ok_def registered_def idle_def)

lemma inv_set_reader:
  assumes "sub_inv s" and "i < length (ts_readers s)" and "rd_name r = rd_name (ts_readers s ! i)"
    and "registered (ts_readers s ! i) \<Longrightarrow> map_of (ts_cancel s) (rd_name (ts_readers s ! i)) \<noteq> None \<Longrightarrow>
      rd_attempt r = rd_attempt (ts_readers s ! i) \<and> registered r"
    and "registered r \<Longrightarrow> \<not> rd_cancelled r \<Longrightarrow>
      registered (ts_readers s ! i) \<and> \<not> rd_cancelled (ts_readers s ! i) \<and> rd_attempt r = rd_attempt (ts_readers s ! i)"
    and "idle r \<or> rd_conn r < ts_conns s"
  shows "sub_inv (set_reader i r s)"
proof -
  have e: "entry_ok s" and ow: "owner_ok s" and c: "conns_ok s" using assms(1) by (simp_all add: sub_inv_def)
  have "entry_ok (set_reader i r s)"
    unfolding entry_ok_def using entry_okD [OF e] assms(3,4) by auto
  moreover have "owner_ok (set_reader i r s)"
    unfolding owner_ok_def using owner_okD [OF ow] assms(2,3,5) by auto
  moreover have "conns_ok (set_reader i r s)"
    using c assms(6) by (auto simp: conns_ok_def)
  ultimately show ?thesis using assms(1) by (simp add: sub_inv_def)
qed

lemma stop_sel [simp]:
  "length (ts_readers (stop_subscription n s)) = length (ts_readers s)"
  "ts_cancel (stop_subscription n s) = gdel n (ts_cancel s)" "ts_clients (stop_subscription n s) = gdel n (ts_clients s)"
  "ts_configs (stop_subscription n s) = ts_configs s" "ts_conn (stop_subscription n s) = ts_conn s"
  "ts_closed (stop_subscription n s) = ts_closed s" "ts_conns (stop_subscription n s) = ts_conns s"
  "ts_panicked (stop_subscription n s) = ts_panicked s"
  by (simp_all add: stop_subscription_def Let_def)

lemma stop_nth [simp]:
  "j < length (ts_readers s) \<Longrightarrow>
    ts_readers (stop_subscription n s) ! j =
      (if map_of (ts_cancel s) n = Some (j, rd_attempt (ts_readers s ! j))
       then (ts_readers s ! j)\<lparr>rd_cancelled := True\<rparr> else ts_readers s ! j)"
  by (simp add: stop_subscription_def Let_def)

lemma inv_stop: 
  assumes "sub_inv s"
  shows "sub_inv (stop_subscription n s)"
proof -
  have e: "entry_ok s" and ow: "owner_ok s" and c: "conns_ok s" using assms by (simp_all add: sub_inv_def)
  have "entry_ok (stop_subscription n s)"
    unfolding entry_ok_def using entry_okD [OF e] by (auto simp: registered_def)
  moreover have "owner_ok (stop_subscription n s)"
    unfolding owner_ok_def using owner_okD [OF ow] by (auto simp: registered_def split: if_splits)
  moreover have "conns_ok (stop_subscription n s)"
    using c by (auto simp: conns_ok_def idle_def)
  ultimately show ?thesis using assms by (simp add: sub_inv_def)
qed

lemma inv_unwind:
  assumes "sub_inv s" and "i < length (ts_readers s)" and "rd_phase (ts_readers s ! i) = Unwinding b"
  shows "sub_inv (unwind i b s)"
  unfolding unwind_def Let_def
  using assms by (intro inv_set_reader inv_stop) (auto simp: registered_def idle_def split: if_splits)

lemma inv_register:
  assumes "sub_inv s" and "i < length (ts_readers s)" and "rd_phase (ts_readers s ! i) = Created"
  shows "sub_inv (register i s)"
proof -
  have e: "entry_ok s" and ow: "owner_ok s" and c: "conns_ok s" using assms(1) by (simp_all add: sub_inv_def)
  have no: "map_of (ts_cancel s) m \<noteq> Some (i, k)" for m k
    using entry_okD [OF e, of m i k] assms(3) by (auto simp: registered_def)
  have "entry_ok (register i s)"
    unfolding entry_ok_def register_def Let_def
    using entry_okD [OF e] assms(2) no by (auto simp: registered_def split: if_splits)
  moreover have "owner_ok (register i s)"
  proof -
    have "map_of (ts_cancel s) (rd_name (ts_readers s ! i)) = Some (j, rd_attempt (ts_readers s ! j))"
      if "j < length (ts_readers s)" "registered (ts_readers s ! j)" "\<not> rd_cancelled (ts_readers s ! j)"
        "rd_name (ts_readers s ! j) = rd_name (ts_readers s ! i)" for j
      using owner_okD [OF ow that(1-3)] that(4) by simp
    then show ?thesis
      unfolding owner_ok_def register_def Let_def
      using owner_okD [OF ow] assms(2) no by (auto simp: registered_def)
  qed
  moreover have "conns_ok (register i s)"
    using c assms(2,3) no by (auto simp: conns_ok_def register_def Let_def idle_def)
  ultimately show ?thesis using assms(1) by (simp add: sub_inv_def register_def Let_def)
qed

text \<open>Cancelling some attempts keeps everything else.\<close>

definition cancels :: "tsub \<Rightarrow> tsub \<Rightarrow> bool" where
  "cancels s s' \<longleftrightarrow> length (ts_readers s') = length (ts_readers s) \<and>
    (\<forall>j < length (ts_readers s). ts_readers s' ! j \<in> {ts_readers s ! j, (ts_readers s ! j)\<lparr>rd_cancelled := True\<rparr>}) \<and>
    ts_cancel s' = ts_cancel s \<and> ts_clients s' = ts_clients s \<and> ts_configs s' = ts_configs s \<and> ts_conn s' = ts_conn s \<and>
    ts_closed s' = ts_closed s \<and> ts_conns s' = ts_conns s \<and> ts_panicked s' = ts_panicked s"

lemma cancels_refl: "cancels s s" by (simp add: cancels_def)

lemma cancels_nth:
  "cancels s s' \<Longrightarrow> j < length (ts_readers s) \<Longrightarrow>
    ts_readers s' ! j = ts_readers s ! j \<or> ts_readers s' ! j = (ts_readers s ! j)\<lparr>rd_cancelled := True\<rparr>"
  by (simp add: cancels_def)

lemma cancels_trans:
  assumes "cancels s s1" and "cancels s1 s2"
  shows "cancels s s2"
proof -
  have "ts_readers s2 ! j \<in> {ts_readers s ! j, (ts_readers s ! j)\<lparr>rd_cancelled := True\<rparr>}" if "j < length (ts_readers s)" for j
  proof -
    have "j < length (ts_readers s1)" using assms(1) that by (simp add: cancels_def)
    from cancels_nth [OF assms(1) that] cancels_nth [OF assms(2) this] show ?thesis by (elim disjE) auto
  qed
  then show ?thesis using assms by (simp add: cancels_def)
qed

lemma cancels_attempt: "cancels s (cancel_attempt c s)"
  by (simp add: cancels_def)

lemma fold_cancels: "cancels s (fold (\<lambda>(n, c). cancel_attempt (Some c)) es s)"
proof (induction es arbitrary: s)
  case (Cons e es)
  show ?case
    using cancels_trans [OF cancels_attempt Cons.IH] by (cases e) simp
qed (simp add: cancels_refl)

lemma stop_all_cancels: "cancels s (stop_subscriptions s)"
  unfolding stop_subscriptions_def by (rule fold_cancels)

lemma inv_cancels:
  assumes "sub_inv s" and "cancels s s'"
  shows "sub_inv s'"
proof -
  have same: "rd_name (ts_readers s' ! j) = rd_name (ts_readers s ! j)" "rd_attempt (ts_readers s' ! j) = rd_attempt (ts_readers s ! j)"
    "rd_phase (ts_readers s' ! j) = rd_phase (ts_readers s ! j)" "rd_conn (ts_readers s' ! j) = rd_conn (ts_readers s ! j)"
    "\<not> rd_cancelled (ts_readers s' ! j) \<Longrightarrow> \<not> rd_cancelled (ts_readers s ! j)"
    if "j < length (ts_readers s)" for j
    using assms(2) that by (auto simp: cancels_def)
  show ?thesis
    using assms same
    by (auto simp: sub_inv_def cancels_def entry_ok_def owner_ok_def conns_ok_def registered_def idle_def)
qed

lemma inv_close: "sub_inv s \<Longrightarrow> sub_inv (close_target s)"
  using inv_cancels [OF _ stop_all_cancels, of s] stop_all_cancels [of s]
  by (auto simp: close_target_def Let_def sub_inv_def entry_ok_def owner_ok_def conns_ok_def cancels_def split: option.splits)

lemma inv_connect: "sub_inv s \<Longrightarrow> sub_inv (connect s)"
  by (auto simp: connect_def sub_inv_def entry_ok_def owner_ok_def conns_ok_def less_Suc_eq)

lemma inv_start: "sub_inv s \<Longrightarrow> sub_inv (s\<lparr>ts_readers := ts_readers s @ [new_reader n k]\<rparr>)"
  by (auto simp: sub_inv_def entry_ok_def owner_ok_def conns_ok_def registered_def idle_def new_reader_def nth_append less_Suc_eq)

lemma inv_configs: "sub_inv s \<Longrightarrow> sub_inv (s\<lparr>ts_configs := c\<rparr>)"
  by (simp add: sub_inv_def entry_ok_def owner_ok_def conns_ok_def)

lemma reader_conn: "sub_inv s \<Longrightarrow> i < length (ts_readers s) \<Longrightarrow> idle (ts_readers s ! i) \<or> rd_conn (ts_readers s ! i) < ts_conns s"
  unfolding sub_inv_def conns_ok_def by blast

lemma caller_step_inv:
  assumes "caller_step l s = Some s'" and "sub_inv s"
  shows "sub_inv s'"
proof (cases l)
  case (Cancel i)
  with assms have "s' = set_reader i ((ts_readers s ! i)\<lparr>rd_parent := True\<rparr>) s" "i < length (ts_readers s)"
    by (auto split: if_splits)
  then show ?thesis
    using reader_conn [OF assms(2), of i] assms(2) by (auto intro!: inv_set_reader simp: registered_def idle_def)
qed (use assms in \<open>auto simp: set_subscription_config_def delete_subscription_config_def delete_subscription_def
    intro: inv_start inv_configs inv_stop inv_close inv_connect inv_cancels [OF _ stop_all_cancels]\<close>)

lemma attempt_inv:
  assumes "sub_inv s" and "i < length (ts_readers s)" and "rd_phase (ts_readers s ! i) = Waiting"
  shows "sub_inv (attempt i (ts_readers s ! i) s)"
proof -
  have "sub_inv (s\<lparr>ts_panicked := True\<rparr>)"
    using assms(1) by (simp add: sub_inv_def entry_ok_def owner_ok_def conns_ok_def)
  moreover have "c < ts_conns s" if "ts_conn s = Some c" for c
    using assms(1) that by (simp add: sub_inv_def conns_ok_def)
  ultimately show ?thesis
    using assms by (auto simp: attempt_def registered_def idle_def split: option.splits intro!: inv_set_reader)
qed

lemma inv_unregistered:
  assumes "sub_inv s" and "i < length (ts_readers s)" and "rd_name r = rd_name (ts_readers s ! i)"
    and "\<not> registered (ts_readers s ! i)" and "\<not> registered r" and "idle r \<or> rd_conn r < ts_conns s"
  shows "sub_inv (set_reader i r s)"
  by (rule inv_set_reader [OF assms(1-3) _ _ assms(6)]) (use assms(4,5) in auto)

lemma inv_handled:
  assumes "sub_inv s" and "i < length (ts_readers s)" and "rd_phase (ts_readers s ! i) = Streaming"
  shows "sub_inv (set_reader i ((ts_readers s ! i)\<lparr>rd_phase := Unwinding b\<rparr>) s)"
  using reader_conn [OF assms(1,2)] assms(3)
  by (intro inv_set_reader [OF assms(1,2)]) (auto simp: registered_def idle_def)

lemma reader_step_inv:
  assumes "reader_step l i (ts_readers s ! i) s = Some s'" and "i < length (ts_readers s)" and "sub_inv s"
  shows "sub_inv s'"
proof (cases l)
  case (Attempt j)
  with assms show ?thesis by (auto intro: attempt_inv split: if_splits)
next
  case (Client_Ok j)
  then have "rd_phase (ts_readers s ! i) = Creating True" "s' = set_reader i ((ts_readers s ! i)\<lparr>rd_phase := Created\<rparr>) s"
    using assms(1) by (auto split: if_splits)
  with reader_conn [OF assms(3,2)] inv_unregistered [OF assms(3,2)] show ?thesis by (simp add: registered_def idle_def)
next
  case (Client_Err j err)
  with assms(1) obtain opened where "rd_phase (ts_readers s ! i) = Creating opened" by (auto split: rphase.splits)
  with assms(1) Client_Err inv_unregistered [OF assms(3,2)] show ?thesis
    by (auto simp: registered_def idle_def split: option.splits if_splits)
next
  case (Register j)
  with assms show ?thesis by (auto intro: inv_register split: if_splits)
next
  case (Send_Err j)
  with assms show ?thesis by (auto intro: inv_handled split: if_splits)
next
  case (Handled j x)
  with assms show ?thesis by (auto intro: inv_handled split: if_splits)
next
  case (Unwind j)
  with assms show ?thesis by (auto intro: inv_unwind split: rphase.splits)
qed (use assms in auto)

lemma step_inv: "step l s = Some s' \<Longrightarrow> sub_inv s \<Longrightarrow> sub_inv s'"
  by (auto simp: step_def intro: caller_step_inv reader_step_inv split: if_splits option.splits)

lemma run_inv: "run s ls = Some s' \<Longrightarrow> sub_inv s \<Longrightarrow> sub_inv s'"
  by (induction ls arbitrary: s) (auto split: option.splits intro: step_inv)

lemma new_tsub_inv: "sub_inv new_tsub"
  by (simp add: new_tsub_def sub_inv_def entry_ok_def owner_ok_def conns_ok_def wf_gmap_def)

section \<open>One attempt for a subscription\<close>

text \<open>C3. However the goroutines and their callers interleave, at most one attempt of a subscription receives from
  the device without being cancelled, and its client and cancel function are those the target keeps.\<close>

theorem one_attempt_per_subscription:
  assumes "run new_tsub ls = Some s"
    and "i < length (ts_readers s)" and "rd_phase (ts_readers s ! i) = Streaming" and "\<not> rd_cancelled (ts_readers s ! i)"
    and "j < length (ts_readers s)" and "rd_phase (ts_readers s ! j) = Streaming" and "\<not> rd_cancelled (ts_readers s ! j)"
    and "rd_name (ts_readers s ! i) = rd_name (ts_readers s ! j)"
  shows "i = j \<and> map_of (ts_clients s) (rd_name (ts_readers s ! i)) = Some (i, rd_attempt (ts_readers s ! i))"
proof -
  have inv: "sub_inv s" by (rule run_inv [OF assms(1) new_tsub_inv])
  then have ow: "owner_ok s" by (simp add: sub_inv_def)
  have own: "map_of (ts_cancel s) (rd_name (ts_readers s ! i)) = Some (i, rd_attempt (ts_readers s ! i))"
    by (rule owner_okD [OF ow assms(2) _ assms(4)]) (simp add: registered_def assms(3))
  have "map_of (ts_cancel s) (rd_name (ts_readers s ! j)) = Some (j, rd_attempt (ts_readers s ! j))"
    by (rule owner_okD [OF ow assms(5) _ assms(7)]) (simp add: registered_def assms(6))
  then have "Some (i, rd_attempt (ts_readers s ! i)) = Some (j, rd_attempt (ts_readers s ! j))"
    by (rule trans [OF own [unfolded assms(8), symmetric]])
  then have "i = j" by blast
  moreover have "ts_clients s = ts_cancel s" using inv by (simp add: sub_inv_def)
  ultimately show ?thesis using own by (intro conjI) (assumption, simp only:)
qed

text \<open>A subscription is started a second time while the first goroutine still runs.\<close>

definition two_starts :: "label list" where
  "two_starts = [Connect, Start ''if'' STREAM, Attempt 0, Client_Ok 0, Register 0,
    Start ''if'' STREAM, Attempt 1, Client_Ok 1, Register 1]"

lemma run_two_starts:
  "case run new_tsub two_starts of None \<Rightarrow> False
    | Some s \<Rightarrow> length (ts_readers s) = 2 \<and> rd_phase (ts_readers s ! 1) = Streaming \<and> \<not> rd_cancelled (ts_readers s ! 1) \<and>
        rd_name (ts_readers s ! 1) = ''if'' \<and> rd_cancelled (ts_readers s ! 0)"
  by code_simp

theorem one_attempt_per_subscription_witness:
  "\<exists>s. run new_tsub two_starts = Some s \<and> map_of (ts_clients s) ''if'' = Some (1, rd_attempt (ts_readers s ! 1))"
proof -
  obtain s where s: "run new_tsub two_starts = Some s" "length (ts_readers s) = 2" "rd_name (ts_readers s ! 1) = ''if''"
    "rd_phase (ts_readers s ! 1) = Streaming" "\<not> rd_cancelled (ts_readers s ! 1)"
    using run_two_starts by (auto split: option.splits)
  with one_attempt_per_subscription [of two_starts s 1 1] show ?thesis by auto
qed

section \<open>Closing a target\<close>

text \<open>How many steps a reader can still take once its connection is closed.\<close>

fun rank :: "rphase \<Rightarrow> nat" where
  "rank Done = 0"
| "rank (Creating opened) = (if opened then 3 else 1)"
| "rank Waiting = 2"
| "rank (Unwinding b) = 3"
| "rank Streaming = 4"
| "rank Created = 5"

definition work :: "tsub \<Rightarrow> nat" where
  "work s = (\<Sum>r\<leftarrow>ts_readers s. rank (rd_phase r))"

definition all_closed :: "tsub \<Rightarrow> bool" where
  "all_closed s \<longleftrightarrow> (\<exists>c. ts_conn s = Some c \<and> c \<in> set (ts_closed s)) \<and> \<not> ts_panicked s \<and>
    (\<forall>i < length (ts_readers s). idle (ts_readers s ! i) \<or> \<not> is_open (ts_readers s ! i) s)"

lemma work_less:
  assumes "length (ts_readers s') = length (ts_readers s)" and "i < length (ts_readers s)"
    and "\<forall>j < length (ts_readers s). j \<noteq> i \<longrightarrow> rd_phase (ts_readers s' ! j) = rd_phase (ts_readers s ! j)"
    and "rank (rd_phase (ts_readers s' ! i)) < rank (rd_phase (ts_readers s ! i))"
  shows "work s' < work s"
proof -
  have w: "work t = (\<Sum>j < length (ts_readers t). rank (rd_phase (ts_readers t ! j)))" for t
    by (simp add: work_def sum_list_sum_nth atLeast0LessThan)
  show ?thesis
    unfolding w assms(1)
    by (rule sum_strict_mono_ex1) (use assms in \<open>force+\<close>)
qed

text \<open>The steps of the readers on closed connections.\<close>

lemma closed_set:
  assumes "all_closed s" and "i < length (ts_readers s)" and "idle r \<or> \<not> is_open r s"
    and "rank (rd_phase r) < rank (rd_phase (ts_readers s ! i))"
  shows "all_closed (set_reader i r s) \<and> work (set_reader i r s) < work s"
proof
  show "all_closed (set_reader i r s)" using assms(1,3) by (auto simp: all_closed_def is_open_def)
  show "work (set_reader i r s) < work s" by (rule work_less) (use assms(2,4) in auto)
qed

lemma closed_stop: "all_closed s \<Longrightarrow> all_closed (stop_subscription n s) \<and> work (stop_subscription n s) = work s"
proof -
  assume c: "all_closed s"
  have "map (rank \<circ> rd_phase) (ts_readers (stop_subscription n s)) = map (rank \<circ> rd_phase) (ts_readers s)"
    by (rule nth_equalityI) auto
  then show ?thesis using c by (auto simp: work_def comp_def all_closed_def idle_def is_open_def)
qed

lemma closed_register:
  assumes "all_closed s" and "i < length (ts_readers s)" and "rd_phase (ts_readers s ! i) = Created"
  shows "all_closed (register i s) \<and> work (register i s) < work s"
proof
  show "all_closed (register i s)"
    using assms by (auto simp: all_closed_def register_def Let_def is_open_def idle_def)
  show "work (register i s) < work s"
    by (rule work_less [where i = i]) (use assms in \<open>auto simp: register_def Let_def\<close>)
qed

lemma closed_unwind:
  assumes "all_closed s" and "i < length (ts_readers s)" and "rd_phase (ts_readers s ! i) = Unwinding b"
  shows "all_closed (unwind i b s) \<and> work (unwind i b s) < work s"
proof -
  let ?n = "rd_name (ts_readers s ! i)"
  let ?r = "(ts_readers (stop_subscription ?n s) ! i)\<lparr>rd_phase := (if b then Waiting else Done), rd_cancelled := True\<rparr>"
  have "all_closed (set_reader i ?r (stop_subscription ?n s)) \<and> work (set_reader i ?r (stop_subscription ?n s)) < work (stop_subscription ?n s)"
    by (rule closed_set) (use assms closed_stop in \<open>auto simp: idle_def\<close>)
  then show ?thesis using closed_stop [OF assms(1), of ?n] by (simp add: unwind_def Let_def)
qed

lemma closed_attempt:
  assumes "all_closed s" and "i < length (ts_readers s)" and "rd_phase (ts_readers s ! i) = Waiting"
  shows "all_closed (attempt i (ts_readers s ! i) s) \<and> work (attempt i (ts_readers s ! i) s) < work s"
proof -
  from assms(1) obtain c where c: "ts_conn s = Some c" "c \<in> set (ts_closed s)" unfolding all_closed_def by blast
  show ?thesis
    using assms(3) c closed_set [OF assms(1,2)] by (simp add: attempt_def idle_def is_open_def)
qed

lemma closed_step:
  assumes "all_closed s" and "step l s = Some s'" and "reader_of l = Some i"
  shows "all_closed s' \<and> work s' < work s"
proof -
  have i: "i < length (ts_readers s)" and st: "reader_step l i (ts_readers s ! i) s = Some s'"
    using assms(2,3) by (auto simp: step_def split: if_splits)
  have idle: "idle (ts_readers s ! i) \<or> \<not> is_open (ts_readers s ! i) s"
    using assms(1) i by (simp add: all_closed_def)
  show ?thesis
  proof (cases l)
    case (Attempt j)
    with st closed_attempt [OF assms(1) i] show ?thesis by (auto split: if_splits)
  next
    case (Client_Ok j)
    with st idle show ?thesis by (auto simp: idle_def split: if_splits)
  next
    case (Client_Err j err)
    with st obtain opened where "rd_phase (ts_readers s ! i) = Creating opened" by (auto split: rphase.splits)
    with st Client_Err closed_set [OF assms(1) i] show ?thesis
      by (auto simp: idle_def split: option.splits if_splits)
  next
    case (Register j)
    with st closed_register [OF assms(1) i] show ?thesis by (auto split: if_splits)
  next
    case (Send_Err j)
    with st idle show ?thesis
      by (auto simp: idle_def is_open_def split: if_splits intro!: closed_set [OF assms(1) i])
  next
    case (Handled j x)
    with st idle show ?thesis
      by (auto simp: idle_def is_open_def split: if_splits intro!: closed_set [OF assms(1) i])
  next
    case (Unwind j)
    with st closed_unwind [OF assms(1) i] show ?thesis by (auto split: rphase.splits)
  qed (use assms(3) in auto)
qed

lemma closed_same:
  assumes "all_closed s" and "map rd_phase (ts_readers s') = map rd_phase (ts_readers s)"
    and "map rd_conn (ts_readers s') = map rd_conn (ts_readers s)" and "ts_conn s' = ts_conn s"
    and "set (ts_closed s) \<subseteq> set (ts_closed s')" and "ts_panicked s' = ts_panicked s"
  shows "all_closed s' \<and> work s' = work s"
proof -
  have len: "length (ts_readers s') = length (ts_readers s)" using assms(2) by (metis length_map)
  have "rd_phase (ts_readers s' ! i) = rd_phase (ts_readers s ! i)" "rd_conn (ts_readers s' ! i) = rd_conn (ts_readers s ! i)"
    if "i < length (ts_readers s)" for i
    using that len assms(2,3) by (metis nth_map)+
  then have "all_closed s'" using assms(1,4-6) len by (auto simp: all_closed_def idle_def is_open_def)
  moreover have "work s' = work s"
    using assms(2) by (simp add: work_def flip: comp_def [of rank rd_phase] map_map)
  ultimately show ?thesis ..
qed

lemma cancels_closed:
  assumes "all_closed s" and "cancels s s'"
  shows "all_closed s' \<and> work s' = work s"
proof (rule closed_same [OF assms(1)])
  have "rd_phase (ts_readers s' ! j) = rd_phase (ts_readers s ! j) \<and> rd_conn (ts_readers s' ! j) = rd_conn (ts_readers s ! j)"
    if "j < length (ts_readers s)" for j
    using that assms(2) by (auto simp: cancels_def)
  then show "map rd_phase (ts_readers s') = map rd_phase (ts_readers s)" "map rd_conn (ts_readers s') = map rd_conn (ts_readers s)"
    using assms(2) by (auto simp: cancels_def intro!: nth_equalityI)
qed (use assms(2) in \<open>simp_all add: cancels_def\<close>)

text \<open>Callers may do anything but connect the target again and start a subscription.\<close>

fun reopens :: "label \<Rightarrow> bool" where
  "reopens Connect = True"
| "reopens (Start n k) = True"
| "reopens _ = False"

lemma closed_caller:
  assumes "all_closed s" and "step l s = Some s'" and "reader_of l = None" and "\<not> reopens l"
  shows "all_closed s' \<and> work s' = work s"
proof -
  have st: "caller_step l s = Some s'" using assms(2,3) by (auto simp: step_def split: if_splits)
  have config: "all_closed (t\<lparr>ts_configs := x\<rparr>) \<and> work (t\<lparr>ts_configs := x\<rparr>) = work t" if "all_closed t" for t x
    by (rule closed_same [OF that]) simp_all
  show ?thesis
  proof (cases l)
    case (Set_Config n k)
    then show ?thesis using st config [OF assms(1)] by (auto simp: set_subscription_config_def)
  next
    case (Delete_Config n)
    then show ?thesis using st config [OF assms(1)] by (auto simp: delete_subscription_config_def)
  next
    case (Stop_Sub n)
    then show ?thesis using st closed_stop [OF assms(1)] by auto
  next
    case (Delete_Sub n)
    have "all_closed (stop_subscription n s)" "work (stop_subscription n s) = work s" using closed_stop [OF assms(1)] by auto
    then show ?thesis using st Delete_Sub config by (auto simp: delete_subscription_def delete_subscription_config_def)
  next
    case (Cancel i)
    then have s': "s' = set_reader i ((ts_readers s ! i)\<lparr>rd_parent := True\<rparr>) s" "i < length (ts_readers s)"
      using st by (auto split: if_splits)
    show ?thesis
      by (rule closed_same [OF assms(1)]) (auto simp: s' intro!: nth_equalityI)
  next
    case Stop_All
    then show ?thesis using st cancels_closed [OF assms(1) stop_all_cancels] by auto
  next
    case Close
    have c: "all_closed (stop_subscriptions s)" "work (stop_subscriptions s) = work s"
      using cancels_closed [OF assms(1) stop_all_cancels] by auto
    have "all_closed (t\<lparr>ts_closed := x # ts_closed t\<rparr>) \<and> work (t\<lparr>ts_closed := x # ts_closed t\<rparr>) = work t" if "all_closed t" for t x
      by (rule closed_same [OF that]) auto
    then show ?thesis using st Close c by (auto simp: close_target_def Let_def split: option.splits)
  qed (use assms(3,4) in auto)
qed

definition own_steps :: "label list \<Rightarrow> nat" where
  "own_steps ls = length (filter (\<lambda>l. reader_of l \<noteq> None) ls)"

lemma closed_run:
  assumes "all_closed s" and "run s ls = Some s'" and "\<forall>l \<in> set ls. \<not> reopens l"
  shows "all_closed s' \<and> own_steps ls + work s' \<le> work s"
  using assms
proof (induction ls arbitrary: s)
  case Nil
  then show ?case by (simp add: own_steps_def)
next
  case (Cons l ls)
  then obtain t where t: "step l s = Some t" "run t ls = Some s'" by (auto split: option.splits)
  show ?case
  proof (cases "reader_of l")
    case None
    have "\<not> reopens l" using Cons.prems(3) by simp
    from closed_caller [OF Cons.prems(1) t(1) None this] have "all_closed t" "work t = work s" by auto
    with Cons.IH [OF _ t(2)] Cons.prems(3) None show ?thesis by (auto simp: own_steps_def)
  next
    case (Some i)
    from closed_step [OF Cons.prems(1) t(1) Some] have "all_closed t" "work t < work s" by auto
    with Cons.IH [OF _ t(2)] Cons.prems(3) Some show ?thesis by (auto simp: own_steps_def)
  qed
qed

text \<open>
  Steps that need nothing of the device: those of the goroutine itself, and the failure of a call on
  a closed connection.
\<close>

definition forced :: "nat \<Rightarrow> label list" where
  "forced i = [Attempt i, Client_Err i (Some ByConnection), Register i, Handled i (RCanceled ByConnection), Unwind i]"

lemma closed_progress:
  assumes "all_closed s" and "i < length (ts_readers s)" and "rd_phase (ts_readers s ! i) \<noteq> Done"
  shows "\<exists>l \<in> set (forced i). step l s \<noteq> None"
proof (cases "rd_phase (ts_readers s ! i)")
  case Waiting
  with assms have "step (Attempt i) s \<noteq> None" by (simp add: step_def all_closed_def)
  then show ?thesis by (simp add: forced_def)
next
  case (Creating opened)
  then have "\<not> is_open (ts_readers s ! i) s" using assms(1,2) by (auto simp: all_closed_def idle_def)
  with Creating assms have "step (Client_Err i (Some ByConnection)) s \<noteq> None" by (simp add: step_def all_closed_def)
  then show ?thesis by (simp add: forced_def)
next
  case Created
  with assms have "step (Register i) s \<noteq> None" by (simp add: step_def all_closed_def)
  then show ?thesis by (simp add: forced_def)
next
  case Streaming
  then have "\<not> is_open (ts_readers s ! i) s" using assms(1,2) by (auto simp: all_closed_def idle_def)
  with Streaming assms have "step (Handled i (RCanceled ByConnection)) s \<noteq> None" by (simp add: step_def all_closed_def)
  then show ?thesis by (simp add: forced_def)
next
  case (Unwinding b)
  with assms have "step (Unwind i) s \<noteq> None" by (simp add: step_def all_closed_def)
  then show ?thesis by (simp add: forced_def)
qed (use assms(3) in simp)

text \<open>Connections are closed before they are replaced.\<close>

definition no_leak :: "tsub \<Rightarrow> bool" where
  "no_leak s \<longleftrightarrow> ts_conn s \<noteq> None \<and> (\<forall>c < ts_conns s. c \<in> set (ts_closed s) \<or> ts_conn s = Some c)"

lemma rank_le: "rank p \<le> 5" by (cases p) auto

lemma sum_rank_le: "(\<Sum>r\<leftarrow>rs. rank (rd_phase r)) \<le> 5 * length rs"
proof (induction rs)
  case (Cons r rs)
  with rank_le [of "rd_phase r"] show ?case by simp
qed simp

lemma close_all_closed:
  assumes "sub_inv s" and "no_leak s" and "\<not> ts_panicked s"
  shows "all_closed (close_target s) \<and> length (ts_readers (close_target s)) = length (ts_readers s)"
proof -
  from assms(2) obtain c where c: "ts_conn s = Some c" by (auto simp: no_leak_def)
  have inv: "sub_inv (stop_subscriptions s)" by (rule inv_cancels [OF assms(1) stop_all_cancels])
  have cs: "cancels s (stop_subscriptions s)" by (rule stop_all_cancels)
  have "idle (ts_readers (stop_subscriptions s) ! i) \<or> rd_conn (ts_readers (stop_subscriptions s) ! i) < ts_conns s"
    if "i < length (ts_readers s)" for i
    using reader_conn [OF inv, of i] that cs by (simp add: cancels_def)
  then show ?thesis
    using c assms(2,3) cs by (auto simp: close_target_def Let_def all_closed_def no_leak_def cancels_def is_open_def)
qed

text \<open>C11. Closing a target ends its subscriptions, as long as it is not connected again and no subscription
  is started afterwards, none of its connections was replaced without being closed, and nothing has panicked: whatever the
  goroutines were doing and whatever the callers stop, cancel or close besides, the goroutines take at
  most five steps each, and each that has not returned has a step to take that needs nothing of the
  device, so that all have returned when no such step is left.\<close>

theorem close_ends_subscriptions:
  assumes "run new_tsub ls0 = Some s0" and "no_leak s0" and "\<not> ts_panicked s0"
    and "run (close_target s0) ls = Some s" and "\<forall>l \<in> set ls. \<not> reopens l"
  shows "own_steps ls \<le> 5 * length (ts_readers s0) \<and>
    (\<forall>i < length (ts_readers s). rd_phase (ts_readers s ! i) = Done \<or> (\<exists>l \<in> set (forced i). step l s \<noteq> None))"
proof -
  have "sub_inv s0" by (rule run_inv [OF assms(1) new_tsub_inv])
  from close_all_closed [OF this assms(2,3)]
  have c: "all_closed (close_target s0)" "length (ts_readers (close_target s0)) = length (ts_readers s0)" by auto
  from closed_run [OF c(1) assms(4,5)] have r: "all_closed s" "own_steps ls + work s \<le> work (close_target s0)" by auto
  have "work (close_target s0) \<le> 5 * length (ts_readers s0)"
    using sum_rank_le [of "ts_readers (close_target s0)"] c(2) by (simp add: work_def)
  with r closed_progress [OF r(1)] show ?thesis by auto
qed

definition closing :: "label list" where
  "closing = [Handled 1 RError, Stop_Sub ''if'', Unwind 1, Handled 0 RNil]"

lemma run_closing:
  "case run new_tsub two_starts of None \<Rightarrow> False
    | Some s0 \<Rightarrow> ts_conn s0 = Some 0 \<and> ts_conns s0 = 1 \<and> \<not> ts_panicked s0 \<and> length (ts_readers s0) = 2 \<and>
        (case run (close_target s0) closing of None \<Rightarrow> False | Some s \<Rightarrow> length (ts_readers s) = 2)"
  by code_simp

theorem close_ends_subscriptions_witness:
  "\<exists>s0 s. run new_tsub two_starts = Some s0 \<and> run (close_target s0) closing = Some s \<and>
    own_steps closing \<le> 5 * length (ts_readers s0) \<and>
    (rd_phase (ts_readers s ! 1) = Done \<or> (\<exists>l \<in> set (forced 1). step l s \<noteq> None))"
proof -
  obtain s0 s where s: "run new_tsub two_starts = Some s0" "run (close_target s0) closing = Some s"
    "ts_conn s0 = Some 0" "ts_conns s0 = 1" "\<not> ts_panicked s0" "length (ts_readers s) = 2"
    using run_closing by (auto split: option.splits)
  then have "no_leak s0" by (simp add: no_leak_def)
  moreover have "\<forall>l \<in> set closing. \<not> reopens l" by (simp add: closing_def)
  ultimately show ?thesis
    using close_ends_subscriptions [OF s(1) _ s(5,2)] s(6) s(1,2)
    by (intro exI [of _ s0] exI [of _ s]) simp
qed

section \<open>A subscription that is left alone\<close>

text \<open>
  Labels that end the subscription \<open>n\<close> read by reader \<open>i\<close>: somebody stops it or starts it again,
  closes the target, cancels its context, or the device itself answers with the code \<open>Canceled\<close>.
\<close>

fun disturbs :: "string \<Rightarrow> nat \<Rightarrow> label \<Rightarrow> bool" where
  "disturbs n i (Start m k) = (m = n)"
| "disturbs n i (Stop_Sub m) = (m = n)"
| "disturbs n i (Delete_Sub m) = (m = n)"
| "disturbs n i (Cancel j) = (j = i)"
| "disturbs n i Stop_All = True"
| "disturbs n i Close = True"
| "disturbs n i (Client_Err j (Some ByPeer)) = (j = i)"
| "disturbs n i (Handled j (RCanceled ByPeer)) = (j = i)"
| "disturbs n i _ = False"

definition live_reader :: "reader \<Rightarrow> tsub \<Rightarrow> bool" where
  "live_reader r s \<longleftrightarrow> rd_kind r \<noteq> ONCE \<and> \<not> rd_parent r \<and> rd_phase r \<notin> {Done, Unwinding False, Creating False} \<and>
    (rd_phase r \<noteq> Waiting \<longrightarrow> \<not> rd_cancelled r \<and> is_open r s)"

definition alive :: "string \<Rightarrow> nat \<Rightarrow> tsub \<Rightarrow> bool" where
  "alive n i s \<longleftrightarrow> i < length (ts_readers s) \<and> rd_name (ts_readers s ! i) = n \<and> live_reader (ts_readers s ! i) s \<and>
    (\<exists>c. ts_conn s = Some c \<and> c \<notin> set (ts_closed s)) \<and>
    (\<forall>j < length (ts_readers s). j \<noteq> i \<and> rd_name (ts_readers s ! j) = n \<longrightarrow> rd_phase (ts_readers s ! j) = Done)"

lemma alive_set:
  assumes "alive n i s" and "j < length (ts_readers s)" and "rd_name r = rd_name (ts_readers s ! j)"
    and "j = i \<Longrightarrow> live_reader r s"
    and "j \<noteq> i \<Longrightarrow> rd_phase (ts_readers s ! j) = Done \<Longrightarrow> rd_phase r = Done"
  shows "alive n i (set_reader j r s)"
  using assms by (auto simp: alive_def live_reader_def is_open_def)

lemma live_frame: "ts_closed s' = ts_closed s \<Longrightarrow> live_reader r s' = live_reader r s"
  by (simp add: live_reader_def is_open_def)

lemma other_entry:
  assumes "sub_inv s" and "i < length (ts_readers s)" and "m \<noteq> rd_name (ts_readers s ! i)"
  shows "map_of (ts_cancel s) m \<noteq> Some (i, k)"
  using assms entry_okD [of s m i k] by (auto simp: sub_inv_def)

lemma alive_stop_other:
  assumes "alive n i s" and "sub_inv s" and "m \<noteq> n"
  shows "alive n i (stop_subscription m s)"
proof -
  have "map_of (ts_cancel s) m \<noteq> Some (i, k)" for k
    using assms by (intro other_entry) (auto simp: alive_def)
  then show ?thesis using assms(1) by (auto simp: alive_def live_frame [of "stop_subscription m s" s])
qed

lemma alive_register:
  assumes "alive n i s" and "sub_inv s" and "j < length (ts_readers s)" and "rd_phase (ts_readers s ! j) = Created"
  shows "alive n i (register j s)"
proof -
  have no: "map_of (ts_cancel s) (rd_name (ts_readers s ! j)) \<noteq> Some (i, k)" for k
  proof (cases "j = i")
    case True
    then show ?thesis using entry_okD [of s "rd_name (ts_readers s ! j)" i k] assms(2,4) by (auto simp: sub_inv_def registered_def)
  next
    case False
    then have "rd_name (ts_readers s ! j) \<noteq> n" using assms(1,3,4) by (auto simp: alive_def)
    with assms show ?thesis by (intro other_entry) (auto simp: alive_def)
  qed
  have fr: "live_reader r (register j s) = live_reader r s" for r
    by (rule live_frame) (simp add: register_def Let_def)
  show ?thesis
    using assms(1,3,4) no unfolding alive_def fr by (auto simp: register_def Let_def live_reader_def is_open_def)
qed

lemma alive_unwind:
  assumes "alive n i s" and "sub_inv s" and "j < length (ts_readers s)" and "rd_phase (ts_readers s ! j) = Unwinding b"
  shows "alive n i (unwind j b s)"
proof (cases "j = i")
  case True
  with assms(1,4) have "b" by (cases b) (auto simp: alive_def live_reader_def)
  have fr: "live_reader r (unwind j b s) = live_reader r s" for r
    by (rule live_frame) (simp add: unwind_def Let_def)
  show ?thesis
    using assms(1) True \<open>b\<close> unfolding alive_def fr by (auto simp: unwind_def Let_def live_reader_def)
next
  case False
  then have m: "rd_name (ts_readers s ! j) \<noteq> n" using assms(1,3,4) by (auto simp: alive_def)
  have "alive n i (stop_subscription (rd_name (ts_readers s ! j)) s)" by (rule alive_stop_other [OF assms(1,2) m])
  then show ?thesis
    unfolding unwind_def Let_def using assms(3,4) False by (intro alive_set) (auto split: if_splits)
qed

lemma alive_attempt:
  assumes "alive n i s" and "j < length (ts_readers s)" and "rd_phase (ts_readers s ! j) = Waiting"
  shows "alive n i (attempt j (ts_readers s ! j) s)"
proof -
  obtain c where c: "ts_conn s = Some c" "c \<notin> set (ts_closed s)" using assms(1) by (auto simp: alive_def)
  have lv: "live_reader (ts_readers s ! i) s" using assms(1) by (simp add: alive_def)
  show ?thesis
  proof (cases "rd_parent (ts_readers s ! j)")
    case True
    with lv have "j \<noteq> i" by (auto simp: live_reader_def)
    with True assms show ?thesis by (simp add: attempt_def) (intro alive_set; simp)
  next
    case False
    with assms c lv show ?thesis
      by (simp add: attempt_def) (intro alive_set; auto simp: live_reader_def is_open_def)
  qed
qed

lemma alive_configs: "alive n i (s\<lparr>ts_configs := c\<rparr>) = alive n i s"
  by (simp add: alive_def live_reader_def is_open_def)

lemma alive_caller_step:
  assumes "alive n i s" and "sub_inv s" and "caller_step l s = Some s'" and "\<not> disturbs n i l"
  shows "alive n i s'"
proof (cases l)
  case (Start m k)
  with assms show ?thesis
    by (auto simp: alive_def live_reader_def is_open_def nth_append new_reader_def less_Suc_eq)
next
  case (Cancel j)
  with assms show ?thesis by (auto split: if_splits intro!: alive_set)
next
  case Connect
  have "ts_conns s \<notin> set (ts_closed s)" using assms(2) by (auto simp: sub_inv_def conns_ok_def)
  with Connect assms(1,3) show ?thesis by (auto simp: alive_def live_reader_def is_open_def connect_def)
next
  case (Delete_Sub m)
  with assms alive_stop_other [of n i s m] show ?thesis
    by (auto simp: delete_subscription_def delete_subscription_config_def alive_configs)
next
  case (Stop_Sub m)
  with assms alive_stop_other [of n i s m] show ?thesis by simp
next
  case (Set_Config m k)
  with assms(1,3) show ?thesis by (auto simp: set_subscription_config_def alive_configs)
next
  case (Delete_Config m)
  with assms(1,3) show ?thesis by (auto simp: delete_subscription_config_def alive_configs)
qed (use assms(3,4) in simp_all)

lemma alive_reader_step:
  assumes "alive n i s" and "sub_inv s" and "reader_step l j (ts_readers s ! j) s = Some s'" and "reader_of l = Some j"
    and "j < length (ts_readers s)" and "\<not> disturbs n i l"
  shows "alive n i s'"
proof -
  have lv: "live_reader (ts_readers s ! i) s" using assms(1) by (simp add: alive_def)
  note set = alive_set [OF assms(1,5)]
  show ?thesis
  proof (cases l)
    case (Attempt k)
    with assms show ?thesis by (auto intro: alive_attempt split: if_splits)
  next
    case (Client_Ok k)
    with assms(3) lv show ?thesis
      by (auto split: if_splits simp: live_reader_def is_open_def intro!: set)
  next
    case (Client_Err k err)
    with assms(3) obtain opened where "rd_phase (ts_readers s ! j) = Creating opened" by (auto split: rphase.splits)
    moreover have "j \<noteq> i" if "err = Some cause" "may_cancel cause (ts_readers s ! j) s" for cause
      using that Client_Err assms(4,6) lv calculation by (cases cause) (auto simp: live_reader_def)
    ultimately show ?thesis
      using assms(3) Client_Err lv by (auto split: option.splits if_splits simp: live_reader_def is_open_def intro!: set)
  next
    case (Register k)
    with assms show ?thesis by (auto intro: alive_register split: if_splits)
  next
    case (Send_Err k)
    with assms(3) lv show ?thesis
      by (auto split: if_splits simp: live_reader_def is_open_def intro!: set)
  next
    case (Handled k x)
    moreover have "handle_mode (rd_kind (ts_readers s ! j)) x" if "j = i" "may_receive x (ts_readers s ! j) s"
      "rd_phase (ts_readers s ! j) = Streaming"
    proof (cases x)
      case (RCanceled cause)
      with that Handled assms(4,6) lv show ?thesis by (cases cause) (auto simp: live_reader_def)
    qed (use that lv in \<open>auto simp: live_reader_def\<close>)
    ultimately show ?thesis
      using assms(3) lv by (auto split: if_splits simp: live_reader_def is_open_def intro!: set)
  next
    case (Unwind k)
    with assms show ?thesis by (auto intro: alive_unwind split: rphase.splits)
  qed (use assms(4) in auto)
qed

lemma alive_run:
  assumes "alive n i s" and "sub_inv s" and "run s ls = Some s'" and "\<forall>l \<in> set ls. \<not> disturbs n i l"
  shows "alive n i s'"
  using assms
proof (induction ls arbitrary: s)
  case (Cons l ls)
  then obtain t where t: "step l s = Some t" "run t ls = Some s'" by (auto split: option.splits)
  have "alive n i t"
  proof (cases "reader_of l")
    case None
    with t(1) have st: "caller_step l s = Some t" by (auto simp: step_def split: if_splits)
    show ?thesis
      by (rule alive_caller_step [OF Cons.prems(1,2) st]) (use Cons.prems(4) in simp)
  next
    case (Some j)
    with t(1) have lt: "j < length (ts_readers s)" and st: "reader_step l j (ts_readers s ! j) s = Some t"
      by (auto simp: step_def split: if_splits)
    show ?thesis
      by (rule alive_reader_step [OF Cons.prems(1,2) st Some lt]) (use Cons.prems(4) in simp)
  qed
  with Cons.IH [OF _ step_inv [OF t(1) Cons.prems(2)] t(2)] Cons.prems(4) show ?case by simp
qed simp

text \<open>C10. A streaming or polling subscription (not ONCE) that is started over an open connection, when no other
  goroutine of its name runs, is kept up: as long as nobody stops it or starts it again, closes the target or cancels its context,
  and the device does not answer with the code Canceled, its goroutine never returns, whatever other
  errors and ends of streams the device sends, and the attempt it has registered is never cancelled.\<close>

theorem subscription_is_kept:
  assumes "run new_tsub ls0 = Some s0" and "ts_conn s0 = Some c" and "c \<notin> set (ts_closed s0)" and "k \<noteq> ONCE"
    and "\<forall>r \<in> set (ts_readers s0). rd_name r = n \<longrightarrow> rd_phase r = Done"
    and "run s0 (Start n k # ls) = Some s" and "i = length (ts_readers s0)" and "\<forall>l \<in> set ls. \<not> disturbs n i l"
  shows "rd_phase (ts_readers s ! i) \<noteq> Done \<and>
    (rd_phase (ts_readers s ! i) = Streaming \<longrightarrow> \<not> rd_cancelled (ts_readers s ! i) \<and>
      map_of (ts_clients s) n = Some (i, rd_attempt (ts_readers s ! i)))"
proof -
  have inv0: "sub_inv s0" by (rule run_inv [OF assms(1) new_tsub_inv])
  obtain t where t: "step (Start n k) s0 = Some t" "run t ls = Some s" using assms(6) by (auto split: option.splits)
  have "t = s0\<lparr>ts_readers := ts_readers s0 @ [new_reader n k]\<rparr>" using t(1) by (auto simp: step_def split: if_splits)
  then have "alive n i t"
    using assms(2-5,7) by (auto simp: alive_def live_reader_def new_reader_def nth_append less_Suc_eq)
  moreover have inv: "sub_inv t" by (rule step_inv [OF t(1) inv0])
  ultimately have al: "alive n i s" by (rule alive_run [OF _ _ t(2) assms(8)])
  have "sub_inv s" by (rule run_inv [OF t(2) inv])
  with al show ?thesis
    using owner_okD [of s i] by (auto simp: alive_def live_reader_def sub_inv_def registered_def)
qed

text \<open>A subscription whose attempt fails once and is repeated, beside another one that is stopped.\<close>

definition kept :: "label list" where
  "kept = [Start ''cpu'' POLL, Attempt 0, Client_Err 0 None, Attempt 1, Client_Ok 1, Register 1, Attempt 0, Client_Ok 0,
    Register 0, Stop_Sub ''cpu'', Handled 1 RNil, Unwind 1, Handled 0 REof, Unwind 0, Attempt 0, Client_Ok 0, Register 0]"

lemma run_kept:
  "case run new_tsub [Connect] of None \<Rightarrow> False
    | Some s0 \<Rightarrow> ts_conn s0 = Some 0 \<and> ts_closed s0 = [] \<and> ts_readers s0 = [] \<and>
        (case run s0 (Start ''if'' STREAM # kept) of None \<Rightarrow> False
         | Some s \<Rightarrow> rd_phase (ts_readers s ! 0) = Streaming \<and> rd_attempt (ts_readers s ! 0) = 3)"
  by code_simp

theorem subscription_is_kept_witness:
  "\<exists>s. run new_tsub (Connect # Start ''if'' STREAM # kept) = Some s \<and> \<not> rd_cancelled (ts_readers s ! 0) \<and>
    map_of (ts_clients s) ''if'' = Some (0, 3)"
proof -
  obtain s0 s where s: "run new_tsub [Connect] = Some s0" "ts_conn s0 = Some 0" "ts_closed s0 = []" "ts_readers s0 = []"
    "run s0 (Start ''if'' STREAM # kept) = Some s" "rd_phase (ts_readers s ! 0) = Streaming" "rd_attempt (ts_readers s ! 0) = 3"
    using run_kept by (auto split: option.splits)
  then have "run new_tsub (Connect # Start ''if'' STREAM # kept) = Some s" by (auto split: option.splits)
  moreover have "\<forall>l \<in> set kept. \<not> disturbs ''if'' 0 l" by (simp add: kept_def)
  ultimately show ?thesis
    using subscription_is_kept [OF s(1,2) _ _ _ s(5), of 0] s(3,4,6,7) by auto
qed

section \<open>How a subscription can be lost\<close>

text \<open>
  The target is closed and connected again, and the subscription restarted, before the old
  goroutine has returned: its deferred call stops the new attempt, whose goroutine takes that for
  a request to stop.
\<close>

lemma replacement_killed:
  "case run new_tsub [Connect, Start ''if'' STREAM, Attempt 0, Client_Ok 0, Register 0, Close, Connect,
      Start ''if'' STREAM, Attempt 1, Client_Ok 1, Register 1, Handled 0 RNil, Unwind 0, Handled 1 RNil, Unwind 1] of
    None \<Rightarrow> False
  | Some s \<Rightarrow> map rd_phase (ts_readers s) = [Done, Done] \<and> map rd_parent (ts_readers s) = [False, False] \<and> ts_clients s = []"
  by code_simp

text \<open>The code \<open>Canceled\<close> sent by the device ends a stream without an error or a retry.\<close>

lemma canceled_by_device:
  "case run new_tsub [Connect, Start ''if'' STREAM, Attempt 0, Client_Ok 0, Register 0, Handled 0 (RCanceled ByPeer), Unwind 0] of
    None \<Rightarrow> False
  | Some s \<Rightarrow> map rd_phase (ts_readers s) = [Done] \<and> \<not> rd_parent (ts_readers s ! 0)"
  by code_simp

text \<open>A subscription of a target that never got a connection uses a nil client.\<close>

lemma nil_client_panics:
  "case run new_tsub [Start ''if'' STREAM, Attempt 0] of None \<Rightarrow> False | Some s \<Rightarrow> ts_panicked s"
  by code_simp

end
