(* ===== verification/Go_Env.thy ===== *)
theory Go_Env
  imports Go_Strings
begin

text \<open>
  The parts of the standard library that target configurations use: \<open>os.Expand\<close> for references to
  environment variables and the host and port routines of package \<open>net\<close>.
\<close>

section \<open>Environment variables\<close>

definition is_alnum :: "char \<Rightarrow> bool" where
  "is_alnum c \<longleftrightarrow> c = CHR ''_'' \<or> 48 \<le> byte c \<and> byte c \<le> 57 \<or> 97 \<le> byte c \<and> byte c \<le> 122 \<or> 65 \<le> byte c \<and> byte c \<le> 90"

definition is_special_var :: "char \<Rightarrow> bool" where
  "is_special_var c \<longleftrightarrow> c \<in> set ''*#$@!?-0123456789''"

text \<open>\<open>getShellName\<close>: the name at the start of a text that is not empty, and the bytes it takes.\<close>

definition shell_name :: "string \<Rightarrow> string \<times> nat" where
  "shell_name s =
    (if s ! 0 = CHR ''{'' then
       (if 2 < length s \<and> is_special_var (s ! 1) \<and> s ! 2 = CHR ''}'' then (take 1 (drop 1 s), 3)
        else case index_char CHR ''}'' (drop 1 s) of
          None \<Rightarrow> ([], 1)
        | Some i \<Rightarrow> if i = 0 then ([], 2) else (take i (drop 1 s), i + 2))
     else if is_special_var (s ! 0) then (take 1 s, 1)
     else (let w = length (takeWhile is_alnum s) in (take w s, w)))"

function expand :: "(string \<Rightarrow> string) \<Rightarrow> string \<Rightarrow> string" where
  "expand env [] = []"
| "expand env (c # s) =
    (if c = CHR ''$'' \<and> s \<noteq> []
     then (case shell_name s of (name, w) \<Rightarrow>
       (if name \<noteq> [] then env name else if 0 < w then [] else [c]) @ expand env (drop w s))
     else c # expand env s)"
  by pat_completeness auto
termination by (relation "measure (\<lambda>(env, s). length s)") auto

declare expand.simps [simp del]

lemma expand_Nil [simp]: "expand env [] = []"
  by (simp add: expand.simps)

text \<open>A text without references is not changed.\<close>

lemma expand_plain: "CHR ''$'' \<notin> set s \<Longrightarrow> expand env s = s"
  by (induction s) (auto simp: expand.simps)

lemma expand_name:
  assumes "name \<noteq> []" and "\<forall>c \<in> set name. is_alnum c" and "\<not> is_special_var (hd name)"
  shows "expand env (CHR ''$'' # name) = env name"
proof -
  have h: "name ! 0 = hd name" using assms(1) by (simp add: hd_conv_nth)
  have "is_alnum (hd name)" using assms(1,2) by simp
  then have "hd name \<noteq> CHR ''{''" by (auto simp: is_alnum_def byte_def)
  moreover have tw: "takeWhile is_alnum name = name" using assms(2) by (simp add: takeWhile_eq_all_conv)
  ultimately have "shell_name name = (name, length name)"
    unfolding shell_name_def Let_def tw using h assms(3) by simp
  with assms(1) show ?thesis by (simp add: expand.simps(2) [of env "CHR ''$''" name])
qed

section \<open>Hosts and ports\<close>

definition last_index :: "char \<Rightarrow> string \<Rightarrow> nat option" where
  "last_index c s = map_option (\<lambda>i. length s - 1 - i) (index_char c (rev s))"

abbreviation colon :: char where "colon \<equiv> CHR '':''"
abbreviation lbr :: char where "lbr \<equiv> CHR ''[''"
abbreviation rbr :: char where "rbr \<equiv> CHR '']''"

definition missing_port :: string where "missing_port = ''missing port in address''"
definition too_many_colons :: string where "too_many_colons = ''too many colons in address''"

text \<open>The text of an \<open>AddrError\<close>.\<close>

definition addr_err :: "string \<Rightarrow> string \<Rightarrow> 'a res" where
  "addr_err addr why = Inl (''address '' @ addr @ '': '' @ why)"

definition split_host_port :: "string \<Rightarrow> (string \<times> string) res" where
  "split_host_port hp =
    (case last_index colon hp of
      None \<Rightarrow> addr_err hp missing_port
    | Some i \<Rightarrow>
        if hp ! 0 = lbr then
          (case index_char rbr hp of
            None \<Rightarrow> addr_err hp ''missing ']' in address''
          | Some e \<Rightarrow>
              if e + 1 = length hp then addr_err hp missing_port
              else if e + 1 = i then
                (if lbr \<in> set (drop 1 hp) then addr_err hp ''unexpected '[' in address''
                 else if rbr \<in> set (drop (e + 1) hp) then addr_err hp ''unexpected ']' in address''
                 else Inr (take (e - 1) (drop 1 hp), drop (i + 1) hp))
              else if hp ! (e + 1) = colon then addr_err hp too_many_colons
              else addr_err hp missing_port)
        else if colon \<in> set (take i hp) then addr_err hp too_many_colons
        else if lbr \<in> set hp then addr_err hp ''unexpected '[' in address''
        else if rbr \<in> set hp then addr_err hp ''unexpected ']' in address''
        else Inr (take i hp, drop (i + 1) hp))"

definition join_host_port :: "string \<Rightarrow> string \<Rightarrow> string" where
  "join_host_port host port =
    (if colon \<in> set host then lbr # host @ rbr # colon # port else host @ colon # port)"

lemma last_index_append: "c \<notin> set t \<Longrightarrow> last_index c (s @ c # t) = Some (length s)"
  by (simp add: last_index_def index_char_append)

lemma last_index_None [simp]: "last_index c s = None \<longleftrightarrow> c \<notin> set s"
  by (simp add: last_index_def)

text \<open>A host and a port that are joined are split again.\<close>

lemma split_join_host_port:
  assumes "lbr \<notin> set host" and "rbr \<notin> set host" and "colon \<notin> set port" and "lbr \<notin> set port" and "rbr \<notin> set port"
  shows "split_host_port (join_host_port host port) = Inr (host, port)"
proof (cases "colon \<in> set host")
  case True
  let ?hp = "lbr # host @ rbr # colon # port"
  have "last_index colon ?hp = Some (length host + 2)"
    using last_index_append [OF assms(3), of "lbr # host @ [rbr]"] by simp
  moreover have "index_char rbr ?hp = Some (length host + 1)"
    using index_char_append [of rbr host "colon # port"] assms(2) by simp
  ultimately show ?thesis
    using True assms by (simp add: split_host_port_def join_host_port_def)
next
  case False
  have "last_index colon (host @ colon # port) = Some (length host)" by (rule last_index_append [OF assms(3)])
  moreover have "(host @ colon # port) ! 0 \<noteq> lbr" using assms(1) by (cases host) auto
  ultimately show ?thesis
    using False assms by (simp add: split_host_port_def join_host_port_def)
qed

end
