(* ===== verification/Target_Config.thy ===== *)
theory Target_Config
  imports Go_Env
begin

text \<open>
  Target configurations: the type \<open>TargetConfig\<close> of \<open>pkg/api/types/target.go\<close> with its copy and
  comparison, and the targets of the configuration file with their defaults from the global flags
  and their environment variables, \<open>pkg/config/targets.go\<close>. Pointer fields are kept as pointers
  there, because a default points into the global flags, which all targets share. Expanding
  paths, environment variables and the decoding of the file are parameters.
\<close>

section \<open>The configuration of a target\<close>

text \<open>
  \<open>'s\<close> and \<open>'b\<close> are the types of the pointers to texts and truth values. The pointers to gRPC
  sizes carry an address, because they are compared by it. A slice is \<open>None\<close> when it is nil.
\<close>

type_synonym size_ptr = "(nat \<times> int) option"

record ('s, 'b) target_config =
  tc_name :: string
  tc_address :: string
  tc_username :: 's
  tc_password :: 's
  tc_auth_scheme :: string
  tc_timeout :: int
  tc_insecure :: 'b
  tc_tls_ca :: 's
  tc_tls_cert :: 's
  tc_tls_key :: 's
  tc_skip_verify :: 'b
  tc_tls_server_name :: string
  tc_subscriptions :: "string list option"
  tc_outputs :: "string list option"
  tc_buffer_size :: nat
  tc_grpc_sizes :: "size_ptr list" \<comment> \<open>read and write buffer, connection, window, static connection and stream\<close>
  tc_retry_timer :: int
  tc_tls_min_version :: string
  tc_tls_max_version :: string
  tc_tls_version :: string
  tc_log_tls_secret :: 'b
  tc_proto_files :: "string list option"
  tc_proto_dirs :: "string list option"
  tc_tags :: "string list option"
  tc_event_tags :: "string nmap"
  tc_gzip :: 'b
  tc_token :: 's
  tc_proxy :: string
  tc_tunnel_type :: string
  tc_encoding :: 's
  tc_metadata :: "string nmap"
  tc_cipher_suites :: "string list option"
  tc_tcp_keepalive :: int
  tc_grpc_keepalive :: "(int \<times> int \<times> bool) option"
  tc_tls_reload :: 'b

type_synonym tconf = "(string option, bool option) target_config"

definition slice :: "'a list option \<Rightarrow> 'a list" where
  "slice x = (case x of None \<Rightarrow> [] | Some xs \<Rightarrow> xs)"

lemma slice_simps [simp]: "slice None = []" "slice (Some xs) = xs"
  by (simp_all add: slice_def)

text \<open>\<open>clonePtr\<close> allocates: \<open>fresh\<close> is the address the \<open>i\<close>-th clone gets.\<close>

definition clone_sizes :: "(nat \<Rightarrow> nat) \<Rightarrow> size_ptr list \<Rightarrow> size_ptr list" where
  "clone_sizes fresh ps = map2 (\<lambda>i p. map_option (\<lambda>(_, v). (fresh i, v)) p) [0..<length ps] ps"

definition copy_map :: "string nmap \<Rightarrow> string nmap" where
  "copy_map m = Some (gset_all (entries m) [])"

definition deep_copy :: "(nat \<Rightarrow> nat) \<Rightarrow> tconf \<Rightarrow> tconf" where
  "deep_copy fresh tc = tc\<lparr>
    tc_subscriptions := Some (slice (tc_subscriptions tc)),
    tc_outputs := Some (slice (tc_outputs tc)),
    tc_grpc_sizes := clone_sizes fresh (tc_grpc_sizes tc),
    tc_proto_files := Some (slice (tc_proto_files tc)),
    tc_proto_dirs := Some (slice (tc_proto_dirs tc)),
    tc_tags := Some (slice (tc_tags tc)),
    tc_event_tags := copy_map (tc_event_tags tc),
    tc_metadata := copy_map (tc_metadata tc),
    tc_cipher_suites := Some (slice (tc_cipher_suites tc))\<rparr>"

text \<open>What is shown of a configuration hides its secrets.\<close>

definition redact :: "string option \<Rightarrow> string option" where
  "redact p = map_option (\<lambda>_. ''****'') p"

definition redacted_deep_copy :: "(nat \<Rightarrow> nat) \<Rightarrow> tconf \<Rightarrow> tconf" where
  "redacted_deep_copy fresh tc =
    (let out = deep_copy fresh tc
     in out\<lparr>tc_password := redact (tc_password out), tc_token := redact (tc_token out)\<rparr>)"

definition maps_equal :: "string nmap \<Rightarrow> string nmap \<Rightarrow> bool" where
  "maps_equal a b \<longleftrightarrow> length (entries a) = length (entries b) \<and>
    list_all (\<lambda>(k, v). map_of (entries b) k = Some v) (entries a)"

text \<open>\<open>Equal\<close> of two different, non-nil configurations.\<close>

definition config_equal :: "tconf \<Rightarrow> tconf \<Rightarrow> bool" where
  "config_equal a b \<longleftrightarrow>
    tc_name a = tc_name b \<and> tc_address a = tc_address b \<and> tc_username a = tc_username b \<and>
    tc_password a = tc_password b \<and> tc_auth_scheme a = tc_auth_scheme b \<and> tc_timeout a = tc_timeout b \<and>
    tc_insecure a = tc_insecure b \<and> tc_tls_ca a = tc_tls_ca b \<and> tc_tls_cert a = tc_tls_cert b \<and>
    tc_tls_key a = tc_tls_key b \<and> tc_skip_verify a = tc_skip_verify b \<and> tc_tls_server_name a = tc_tls_server_name b \<and>
    slice (tc_subscriptions a) = slice (tc_subscriptions b) \<and> slice (tc_outputs a) = slice (tc_outputs b) \<and>
    tc_buffer_size a = tc_buffer_size b \<and> tc_retry_timer a = tc_retry_timer b \<and>
    tc_tls_min_version a = tc_tls_min_version b \<and> tc_tls_max_version a = tc_tls_max_version b \<and>
    tc_tls_version a = tc_tls_version b \<and> tc_log_tls_secret a = tc_log_tls_secret b \<and>
    slice (tc_proto_files a) = slice (tc_proto_files b) \<and> slice (tc_proto_dirs a) = slice (tc_proto_dirs b) \<and>
    slice (tc_tags a) = slice (tc_tags b) \<and> maps_equal (tc_event_tags a) (tc_event_tags b) \<and>
    tc_gzip a = tc_gzip b \<and> tc_token a = tc_token b \<and> tc_tls_reload a = tc_tls_reload b \<and> tc_proxy a = tc_proxy b \<and>
    tc_tunnel_type a = tc_tunnel_type b \<and> tc_encoding a = tc_encoding b \<and>
    maps_equal (tc_metadata a) (tc_metadata b) \<and> slice (tc_cipher_suites a) = slice (tc_cipher_suites b) \<and>
    tc_tcp_keepalive a = tc_tcp_keepalive b \<and> tc_grpc_keepalive a = tc_grpc_keepalive b \<and>
    map (map_option fst) (tc_grpc_sizes a) = map (map_option fst) (tc_grpc_sizes b)"

section \<open>TLS versions and the texts shown\<close>

definition tls_version_number :: "string \<Rightarrow> nat" where
  "tls_version_number v =
    (if v = ''1.3'' then 0x0304 else if v = ''1.2'' then 0x0303 else if v = ''1.1'' then 0x0302
     else if v = ''1.0'' \<or> v = ''1'' then 0x0301 else 0)"

definition tls_min_version :: "tconf \<Rightarrow> nat" where
  "tls_min_version tc =
    (let v = tls_version_number (tc_tls_version tc) in if 0 < v then v else tls_version_number (tc_tls_min_version tc))"

definition tls_max_version :: "tconf \<Rightarrow> nat" where
  "tls_max_version tc =
    (let v = tls_version_number (tc_tls_version tc) in if 0 < v then v else tls_version_number (tc_tls_max_version tc))"

text \<open>The cipher suites of a TLS configuration that has none; \<open>table\<close> is \<open>ciphersMap\<close>.\<close>

definition cipher_suites ::
  "(string \<Rightarrow> nat option) \<Rightarrow> nat list \<Rightarrow> nat list \<Rightarrow> tconf \<Rightarrow> nat list res" where
  "cipher_suites table defaults defaults13 tc =
    (if slice (tc_cipher_suites tc) = []
     then Inr (if tls_max_version tc = 0x0304 \<or> tls_max_version tc = 0 then defaults @ defaults13 else defaults)
     else rmap (\<lambda>cs. case table cs of None \<Rightarrow> Inl ''unknown cipher suite'' | Some n \<Rightarrow> Inr n) (slice (tc_cipher_suites tc)))"

section \<open>Copies\<close>

definition wf_config :: "tconf \<Rightarrow> bool" where
  "wf_config tc \<longleftrightarrow> wf_nmap (tc_event_tags tc) \<and> wf_nmap (tc_metadata tc)"

lemma gset_all_append: "wf_gmap (dst @ src) \<Longrightarrow> gset_all src dst = dst @ src"
proof (induction src dst rule: gset_all.induct)
  case (2 k v src dst)
  then have "gset k v dst = dst @ [(k, v)]" by (intro gset_fresh) (auto simp: wf_gmap_def)
  with 2 show ?case by simp
qed simp

lemma entries_copy_map: "wf_nmap m \<Longrightarrow> entries (copy_map m) = entries m"
  by (simp add: copy_map_def wf_nmap_def gset_all_append)

lemma maps_equal_copy: "wf_nmap m \<Longrightarrow> maps_equal (copy_map m) m"
  by (auto simp: maps_equal_def entries_copy_map wf_nmap_def map_of_Some_wf list_all_iff)

lemma clone_sizes_same:
  "map (map_option fst) (clone_sizes fresh ps) = map (map_option fst) ps \<longleftrightarrow>
    (\<forall>i < length ps. \<forall>a v. ps ! i = Some (a, v) \<longrightarrow> fresh i = a)"
proof -
  have one: "map_option fst (map_option (\<lambda>(_, v). (n, v)) p) = map_option fst p \<longleftrightarrow> (\<forall>a v. p = Some (a, v) \<longrightarrow> n = a)"
    for n and p :: size_ptr by (cases p) auto
  show ?thesis
    unfolding list_eq_iff_nth_eq by (simp add: clone_sizes_def one del: option.map_comp)
qed

text \<open>A copy of a configuration is equal to it exactly when it sets none of the gRPC buffer and window sizes:
  everything else is copied by value, but those are compared by address, and a copy is allocated.\<close>

theorem copy_equal_iff_no_sizes:
  assumes "wf_config tc" and "\<forall>i < length (tc_grpc_sizes tc). \<forall>a v. tc_grpc_sizes tc ! i = Some (a, v) \<longrightarrow> fresh i \<noteq> a"
  shows "config_equal (deep_copy fresh tc) tc \<longleftrightarrow> (\<forall>p \<in> set (tc_grpc_sizes tc). p = None)"
proof -
  have "config_equal (deep_copy fresh tc) tc \<longleftrightarrow>
      map (map_option fst) (clone_sizes fresh (tc_grpc_sizes tc)) = map (map_option fst) (tc_grpc_sizes tc)"
    using assms(1) by (simp add: config_equal_def deep_copy_def wf_config_def maps_equal_copy)
  also have "\<dots> \<longleftrightarrow> (\<forall>i < length (tc_grpc_sizes tc). tc_grpc_sizes tc ! i = None)"
    unfolding clone_sizes_same using assms(2) by (metis option.exhaust surj_pair option.distinct(1))
  also have "\<dots> \<longleftrightarrow> (\<forall>p \<in> set (tc_grpc_sizes tc). p = None)" by (simp add: all_set_conv_all_nth)
  finally show ?thesis .
qed

definition sample_config :: tconf where
  "sample_config = \<lparr>tc_name = ''r1'', tc_address = ''10.0.0.1:57400'', tc_username = Some ''admin'', tc_password = Some ''secret'',
    tc_auth_scheme = [], tc_timeout = 10, tc_insecure = Some True, tc_tls_ca = None, tc_tls_cert = None, tc_tls_key = None,
    tc_skip_verify = Some False, tc_tls_server_name = [], tc_subscriptions = None, tc_outputs = None, tc_buffer_size = 100,
    tc_grpc_sizes = [Some (1, 65536), None, None, None, None, None], tc_retry_timer = 10, tc_tls_min_version = [],
    tc_tls_max_version = [], tc_tls_version = [], tc_log_tls_secret = None, tc_proto_files = None, tc_proto_dirs = None,
    tc_tags = None, tc_event_tags = Some [(''site'', ''a'')], tc_gzip = None, tc_token = Some [], tc_proxy = [],
    tc_tunnel_type = [], tc_encoding = None, tc_metadata = None, tc_cipher_suites = None, tc_tcp_keepalive = 0,
    tc_grpc_keepalive = None, tc_tls_reload = None\<rparr>"

theorem copy_equal_iff_no_sizes_witness:
  "\<not> config_equal (deep_copy (\<lambda>i. i + 100) sample_config) sample_config"
proof -
  have "wf_config sample_config" by (simp add: wf_config_def sample_config_def wf_nmap_def wf_gmap_def)
  moreover have "\<forall>i < length (tc_grpc_sizes sample_config). \<forall>a v. tc_grpc_sizes sample_config ! i = Some (a, v) \<longrightarrow> i + 100 \<noteq> a"
    by (simp add: sample_config_def less_Suc_eq numeral_eq_Suc)
  ultimately show ?thesis
    using copy_equal_iff_no_sizes [of sample_config "\<lambda>i. i + 100"] by (simp add: sample_config_def)
qed

end
