(* ===== verification/Config_Targets.thy ===== *)
theory Config_Targets
  imports Target_Config
begin

text \<open>
  The targets of the configuration, \<open>pkg/config/targets.go\<close>: their defaults from the global flags,
  their addresses, the expansion of file paths and of environment variables. A pointer of a target
  that was nil points into the global flags afterwards, so a write through it changes the flag for
  every target. The decoder of the file and the expansion of paths by the operating system are
  parameters, as is the environment.
\<close>

section \<open>Pointers into the flags\<close>

datatype 'a ptr = Unset | Own 'a | Flag

text \<open>Each pointer field can only point to the flag of the same name, whose value is \<open>flag\<close>.\<close>

definition deref :: "'a \<Rightarrow> 'a ptr \<Rightarrow> 'a option" where
  "deref flag p = (case p of Unset \<Rightarrow> None | Own v \<Rightarrow> Some v | Flag \<Rightarrow> Some flag)"

definition default_ptr :: "'a ptr \<Rightarrow> 'a ptr" where
  "default_ptr p = (case p of Unset \<Rightarrow> Flag | _ \<Rightarrow> p)"

text \<open>\<open>*p = f(*p)\<close>, if \<open>p\<close> is not nil: the pointer and the flag afterwards.\<close>

definition write_ptr :: "('a \<Rightarrow> 'a) \<Rightarrow> 'a ptr \<Rightarrow> 'a \<Rightarrow> 'a ptr \<times> 'a" where
  "write_ptr f p flag = (case p of Unset \<Rightarrow> (Unset, flag) | Own v \<Rightarrow> (Own (f v), flag) | Flag \<Rightarrow> (Flag, f flag))"

record gflags =
  gl_port :: string
  gl_username :: string
  gl_password :: string
  gl_token :: string
  gl_auth_scheme :: string
  gl_timeout :: int
  gl_insecure :: bool
  gl_skip_verify :: bool
  gl_tls_ca :: string
  gl_tls_cert :: string
  gl_tls_key :: string
  gl_retry :: int
  gl_tls_version :: string
  gl_tls_min_version :: string
  gl_tls_max_version :: string
  gl_tls_server_name :: string
  gl_log_tls_secret :: bool
  gl_tls_reload :: bool
  gl_gzip :: bool
  gl_metadata :: "string nmap"
  gl_tunnel_server :: bool

type_synonym pconf = "(string ptr, bool ptr) target_config"

section \<open>Addresses\<close>

definition contains :: "string \<Rightarrow> string \<Rightarrow> bool" where
  "contains s sub \<longleftrightarrow> index_sub sub s \<noteq> None"

text \<open>One address of the list; the port is added when the standard library misses it.\<close>

definition default_host_port :: "string \<Rightarrow> string \<Rightarrow> string res" where
  "default_host_port port addr =
    (case split_host_port addr of
      Inr _ \<Rightarrow> Inr addr
    | Inl err \<Rightarrow>
        if contains err missing_port \<or> contains err too_many_colons then Inr (join_host_port addr port)
        else Inl ''error parsing address'')"

definition default_address :: "gflags \<Rightarrow> string \<Rightarrow> string res" where
  "default_address gl addr =
    (if has_prefix addr ''unix://'' then Inr addr
     else rbind
       (rmap (\<lambda>a. if gl_tunnel_server gl then Inr (trim_space a) else default_host_port (gl_port gl) (trim_space a))
         (split_char CHR '','' addr))
       (\<lambda>addrs. Inr (join '','' addrs)))"

section \<open>Defaults\<close>

definition or_text :: "string \<Rightarrow> string \<Rightarrow> string" where
  "or_text v def = (if v = [] then def else v)"

definition or_num :: "'a::zero \<Rightarrow> 'a \<Rightarrow> 'a" where
  "or_num v def = (if v = 0 then def else v)"

definition default_port :: "string \<Rightarrow> gflags \<Rightarrow> gflags" where
  "default_port port gl = gl\<lparr>gl_port := or_text (gl_port gl) port\<rparr>"

definition is_secure :: "gflags \<Rightarrow> pconf \<Rightarrow> bool" where
  "is_secure gl tc \<longleftrightarrow> deref (gl_insecure gl) (tc_insecure tc) = Some False"

definition default_tls :: "gflags \<Rightarrow> pconf \<Rightarrow> pconf" where
  "default_tls gl tc = tc\<lparr>
    tc_tls_ca := (if is_secure gl tc \<and> gl_tls_ca gl \<noteq> [] then default_ptr (tc_tls_ca tc) else tc_tls_ca tc),
    tc_tls_cert := (if is_secure gl tc then default_ptr (tc_tls_cert tc) else tc_tls_cert tc),
    tc_tls_key := (if is_secure gl tc then default_ptr (tc_tls_key tc) else tc_tls_key tc)\<rparr>"

definition default_metadata :: "gflags \<Rightarrow> pconf \<Rightarrow> pconf" where
  "default_metadata gl tc = tc\<lparr>
    tc_metadata := (if tc_metadata tc = None \<and> gl_metadata gl \<noteq> None then copy_map (gl_metadata gl) else tc_metadata tc)\<rparr>"

definition default_credentials :: "gflags \<Rightarrow> pconf \<Rightarrow> pconf" where
  "default_credentials gl tc = tc\<lparr>
    tc_username := default_ptr (tc_username tc),
    tc_password := default_ptr (tc_password tc),
    tc_token := default_ptr (tc_token tc),
    tc_auth_scheme := or_text (tc_auth_scheme tc) (gl_auth_scheme gl),
    tc_timeout := or_num (tc_timeout tc) (gl_timeout gl),
    tc_insecure := default_ptr (tc_insecure tc),
    tc_skip_verify := default_ptr (tc_skip_verify tc)\<rparr>"

definition default_options :: "gflags \<Rightarrow> pconf \<Rightarrow> pconf" where
  "default_options gl tc = tc\<lparr>
    tc_retry_timer := or_num (tc_retry_timer tc) (gl_retry gl),
    tc_tls_version := or_text (tc_tls_version tc) (gl_tls_version gl),
    tc_tls_min_version := or_text (tc_tls_min_version tc) (gl_tls_min_version gl),
    tc_tls_max_version := or_text (tc_tls_max_version tc) (gl_tls_max_version gl),
    tc_tls_server_name := or_text (tc_tls_server_name tc) (gl_tls_server_name gl),
    tc_log_tls_secret := default_ptr (tc_log_tls_secret tc),
    tc_tls_reload := default_ptr (tc_tls_reload tc),
    tc_gzip := default_ptr (tc_gzip tc),
    tc_buffer_size := or_num (tc_buffer_size tc) 100\<rparr>"

definition set_target_defaults :: "gflags \<Rightarrow> pconf \<Rightarrow> pconf res" where
  "set_target_defaults gl tc =
    rbind (default_address gl (tc_address tc)) (\<lambda>addr.
      Inr (default_metadata gl (default_options gl (default_tls gl (default_credentials gl (tc\<lparr>tc_address := addr\<rparr>))))))"

section \<open>Paths and environment variables\<close>

text \<open>The path of a certificate, if it is set.\<close>

definition expand_cert :: "(string \<Rightarrow> string res) \<Rightarrow> string ptr \<Rightarrow> string \<Rightarrow> (string ptr \<times> string) res" where
  "expand_cert ex p flag =
    (case deref flag p of
      None \<Rightarrow> Inr (p, flag)
    | Some v \<Rightarrow> if v = [] then Inr (p, flag) else rbind (ex v) (\<lambda>v'. Inr (write_ptr (\<lambda>_. v') p flag)))"

definition expand_cert_paths :: "(string \<Rightarrow> string res) \<Rightarrow> gflags \<Rightarrow> pconf \<Rightarrow> (gflags \<times> pconf) res" where
  "expand_cert_paths ex gl tc =
    (if \<not> is_secure gl tc then Inr (gl, tc)
     else rbind (expand_cert ex (tc_tls_ca tc) (gl_tls_ca gl)) (\<lambda>(ca, gca).
       rbind (expand_cert ex (tc_tls_cert tc) (gl_tls_cert gl)) (\<lambda>(cert, gcert).
       rbind (expand_cert ex (tc_tls_key tc) (gl_tls_key gl)) (\<lambda>(key, gkey).
         Inr (gl\<lparr>gl_tls_ca := gca, gl_tls_cert := gcert, gl_tls_key := gkey\<rparr>,
              tc\<lparr>tc_tls_ca := ca, tc_tls_cert := cert, tc_tls_key := key\<rparr>)))))"

text \<open>The password of the file, read as a text, replaces the decoded one.\<close>

definition set_password :: "string \<Rightarrow> gflags \<times> pconf \<Rightarrow> gflags \<times> pconf" where
  "set_password pass s =
    (if pass = [] then s
     else case (s, write_ptr (\<lambda>_. pass) (tc_password (snd s)) (gl_password (fst s))) of
       ((gl, tc), (p, flag)) \<Rightarrow> (gl\<lparr>gl_password := flag\<rparr>, tc\<lparr>tc_password := p\<rparr>))"

definition expand_password :: "(string \<Rightarrow> string) \<Rightarrow> string \<Rightarrow> string" where
  "expand_password env v = (if has_prefix v ''$'' then expand env v else v)"

definition expand_flags_of :: "(string \<Rightarrow> string) \<Rightarrow> gflags \<Rightarrow> pconf \<Rightarrow> gflags" where
  "expand_flags_of env gl tc = gl\<lparr>
    gl_username := snd (write_ptr (expand env) (tc_username tc) (gl_username gl)),
    gl_password := snd (write_ptr (expand_password env) (tc_password tc) (gl_password gl)),
    gl_token := snd (write_ptr (expand env) (tc_token tc) (gl_token gl)),
    gl_tls_ca := snd (write_ptr (expand env) (tc_tls_ca tc) (gl_tls_ca gl)),
    gl_tls_cert := snd (write_ptr (expand env) (tc_tls_cert tc) (gl_tls_cert gl)),
    gl_tls_key := snd (write_ptr (expand env) (tc_tls_key tc) (gl_tls_key gl))\<rparr>"

definition expand_list :: "(string \<Rightarrow> string) \<Rightarrow> string list option \<Rightarrow> string list option" where
  "expand_list env xs = map_option (map (expand env)) xs"

definition expand_texts :: "(string \<Rightarrow> string) \<Rightarrow> ('s, 'b) target_config \<Rightarrow> ('s, 'b) target_config" where
  "expand_texts env tc = tc\<lparr>
    tc_name := expand env (tc_name tc),
    tc_address := expand env (tc_address tc),
    tc_subscriptions := expand_list env (tc_subscriptions tc),
    tc_outputs := expand_list env (tc_outputs tc),
    tc_tls_min_version := expand env (tc_tls_min_version tc),
    tc_tls_max_version := expand env (tc_tls_max_version tc),
    tc_tls_version := expand env (tc_tls_version tc),
    tc_proto_files := expand_list env (tc_proto_files tc),
    tc_proto_dirs := expand_list env (tc_proto_dirs tc),
    tc_tags := expand_list env (tc_tags tc)\<rparr>"

definition expand_target_env :: "(string \<Rightarrow> string) \<Rightarrow> gflags \<times> pconf \<Rightarrow> gflags \<times> pconf" where
  "expand_target_env env s =
    (case s of (gl, tc) \<Rightarrow>
      (expand_flags_of env gl tc,
       expand_texts env (tc\<lparr>
         tc_username := fst (write_ptr (expand env) (tc_username tc) (gl_username gl)),
         tc_password := fst (write_ptr (expand_password env) (tc_password tc) (gl_password gl)),
         tc_token := fst (write_ptr (expand env) (tc_token tc) (gl_token gl)),
         tc_tls_ca := fst (write_ptr (expand env) (tc_tls_ca tc) (gl_tls_ca gl)),
         tc_tls_cert := fst (write_ptr (expand env) (tc_tls_cert tc) (gl_tls_cert gl)),
         tc_tls_key := fst (write_ptr (expand env) (tc_tls_key tc) (gl_tls_key gl))\<rparr>)))"

section \<open>The targets of the configuration\<close>

definition zero_config :: pconf where
  "zero_config = \<lparr>tc_name = [], tc_address = [], tc_username = Unset, tc_password = Unset, tc_auth_scheme = [], tc_timeout = 0,
    tc_insecure = Unset, tc_tls_ca = Unset, tc_tls_cert = Unset, tc_tls_key = Unset, tc_skip_verify = Unset,
    tc_tls_server_name = [], tc_subscriptions = None, tc_outputs = None, tc_buffer_size = 0,
    tc_grpc_sizes = replicate 6 None, tc_retry_timer = 0, tc_tls_min_version = [], tc_tls_max_version = [],
    tc_tls_version = [], tc_log_tls_secret = Unset, tc_proto_files = None, tc_proto_dirs = None, tc_tags = None,
    tc_event_tags = None, tc_gzip = Unset, tc_token = Unset, tc_proxy = [], tc_tunnel_type = [], tc_encoding = Unset,
    tc_metadata = None, tc_cipher_suites = None, tc_tcp_keepalive = 0, tc_grpc_keepalive = None, tc_tls_reload = Unset\<rparr>"

text \<open>One entry of the map of targets; \<open>pass\<close> is its password read as a text.\<close>

definition one_target ::
  "(string \<Rightarrow> string) \<Rightarrow> (string \<Rightarrow> string res) \<Rightarrow> string \<Rightarrow> string \<Rightarrow> pconf \<Rightarrow> gflags \<Rightarrow> (gflags \<times> pconf) res" where
  "one_target env ex name pass tc gl =
    rbind (set_target_defaults gl (tc\<lparr>tc_address := or_text (tc_address tc) name, tc_name := or_text (tc_name tc) name\<rparr>)) (\<lambda>tc1.
    rbind (expand_cert_paths ex gl tc1) (\<lambda>s. Inr (expand_target_env env (set_password pass s))))"

text \<open>\<open>entries\<close> is the map in the order in which it is ranged over, each entry as the decoder gives it.\<close>

fun targets_loop ::
  "(string \<Rightarrow> string) \<Rightarrow> (string \<Rightarrow> string res) \<Rightarrow> (string \<Rightarrow> string) \<Rightarrow> string \<Rightarrow> (string \<times> pconf res) list \<Rightarrow> gflags \<Rightarrow>
   pconf gmap \<Rightarrow> (gflags \<times> pconf gmap) res" where
  "targets_loop env ex pass port [] gl ts = Inr (gl, ts)"
| "targets_loop env ex pass port ((name, entry) # es) gl ts =
    rbind entry (\<lambda>tc.
    rbind (one_target env ex name (pass name) tc (default_port port gl)) (\<lambda>(gl', tc').
      targets_loop env ex pass port es gl' (gset name tc' ts)))"

fun addresses_loop :: "string \<Rightarrow> string list \<Rightarrow> gflags \<Rightarrow> pconf gmap \<Rightarrow> (gflags \<times> pconf gmap) res" where
  "addresses_loop port [] gl ts = Inr (gl, ts)"
| "addresses_loop port (a # as) gl ts =
    (let gl' = default_port port gl
     in rbind (set_target_defaults gl' (zero_config\<lparr>tc_name := a, tc_address := a\<rparr>)) (\<lambda>tc.
       addresses_loop port as gl' (gset (tc_name tc) tc ts)))"

text \<open>What the configuration file holds under \<open>targets\<close>.\<close>

datatype targets_value = Text string | Entries "(string \<times> pconf res) list" | Absent | Malformed

definition target_entries :: "targets_value \<Rightarrow> (string \<times> pconf res) list res" where
  "target_entries v =
    (case v of
      Text s \<Rightarrow> Inr (fold (\<lambda>a. gset a (Inr zero_config)) (split_char CHR '' '' s) [])
    | Entries es \<Rightarrow> if es = [] then Inl ''no targets found'' else Inr es
    | Absent \<Rightarrow> Inl ''no targets found''
    | Malformed \<Rightarrow> Inl ''unexpected targets format'')"

definition set_subscriptions :: "string list \<Rightarrow> pconf gmap \<Rightarrow> pconf gmap" where
  "set_subscriptions names ts =
    (if names = [] then ts else map (\<lambda>(n, tc). (n, tc\<lparr>tc_subscriptions := Some names\<rparr>)) ts)"

definition get_targets ::
  "(string \<Rightarrow> string) \<Rightarrow> (string \<Rightarrow> string res) \<Rightarrow> (string \<Rightarrow> string) \<Rightarrow> string \<Rightarrow> string list \<Rightarrow> string list \<Rightarrow>
   targets_value \<Rightarrow> gflags \<Rightarrow> pconf gmap \<Rightarrow> (gflags \<times> pconf gmap) res" where
  "get_targets env ex pass port addrs sub_names v gl ts =
    (if addrs \<noteq> [] then addresses_loop port addrs gl ts
     else rbind (target_entries v) (\<lambda>es.
       rbind (targets_loop env ex pass port es gl []) (\<lambda>(gl', ts'). Inr (gl', set_subscriptions sub_names ts'))))"

text \<open>\<open>GetDiffTargets\<close>: a target that is not configured is made from its address.\<close>

definition diff_target :: "string \<Rightarrow> pconf gmap \<Rightarrow> gflags \<Rightarrow> string \<Rightarrow> (gflags \<times> pconf) res" where
  "diff_target port ts gl a =
    (case map_of ts a of
      Some tc \<Rightarrow> Inr (gl, tc)
    | None \<Rightarrow>
        (let gl' = default_port port gl
         in rbind (set_target_defaults gl' (zero_config\<lparr>tc_name := a, tc_address := a\<rparr>)) (\<lambda>tc. Inr (gl', tc))))"

fun diff_compare_loop :: "string \<Rightarrow> pconf gmap \<Rightarrow> string list \<Rightarrow> gflags \<Rightarrow> pconf gmap \<Rightarrow> pconf gmap res" where
  "diff_compare_loop port ts [] gl acc = Inr acc"
| "diff_compare_loop port ts (a # as) gl acc =
    rbind (diff_target port ts gl a) (\<lambda>(gl', tc).
      diff_compare_loop port ts as gl' (gset (if map_of ts a = None then tc_name tc else a) tc acc))"

definition get_diff_targets ::
  "string \<Rightarrow> pconf gmap \<Rightarrow> string \<Rightarrow> string list \<Rightarrow> gflags \<Rightarrow> (pconf \<times> pconf gmap) res" where
  "get_diff_targets port ts ref compare gl =
    rbind (diff_target port ts gl ref) (\<lambda>(gl', tc).
    rbind (diff_compare_loop port ts compare gl' []) (\<lambda>cs. Inr (tc, cs)))"

section \<open>The values of a target\<close>

text \<open>What the pointers of a target hold when the flags are \<open>gl\<close>.\<close>

definition resolve :: "gflags \<Rightarrow> pconf \<Rightarrow> tconf" where
  "resolve gl tc = \<lparr>tc_name = tc_name tc, tc_address = tc_address tc,
    tc_username = deref (gl_username gl) (tc_username tc), tc_password = deref (gl_password gl) (tc_password tc),
    tc_auth_scheme = tc_auth_scheme tc, tc_timeout = tc_timeout tc,
    tc_insecure = deref (gl_insecure gl) (tc_insecure tc), tc_tls_ca = deref (gl_tls_ca gl) (tc_tls_ca tc),
    tc_tls_cert = deref (gl_tls_cert gl) (tc_tls_cert tc), tc_tls_key = deref (gl_tls_key gl) (tc_tls_key tc),
    tc_skip_verify = deref (gl_skip_verify gl) (tc_skip_verify tc), tc_tls_server_name = tc_tls_server_name tc,
    tc_subscriptions = tc_subscriptions tc, tc_outputs = tc_outputs tc, tc_buffer_size = tc_buffer_size tc,
    tc_grpc_sizes = tc_grpc_sizes tc, tc_retry_timer = tc_retry_timer tc, tc_tls_min_version = tc_tls_min_version tc,
    tc_tls_max_version = tc_tls_max_version tc, tc_tls_version = tc_tls_version tc,
    tc_log_tls_secret = deref (gl_log_tls_secret gl) (tc_log_tls_secret tc), tc_proto_files = tc_proto_files tc,
    tc_proto_dirs = tc_proto_dirs tc, tc_tags = tc_tags tc, tc_event_tags = tc_event_tags tc,
    tc_gzip = deref (gl_gzip gl) (tc_gzip tc), tc_token = deref (gl_token gl) (tc_token tc), tc_proxy = tc_proxy tc,
    tc_tunnel_type = tc_tunnel_type tc, tc_encoding = deref [] (tc_encoding tc), tc_metadata = tc_metadata tc,
    tc_cipher_suites = tc_cipher_suites tc, tc_tcp_keepalive = tc_tcp_keepalive tc,
    tc_grpc_keepalive = tc_grpc_keepalive tc, tc_tls_reload = deref (gl_tls_reload gl) (tc_tls_reload tc)\<rparr>"

text \<open>
  The same target by values, as if it had flags of its own: what a field gets that the file leaves
  out is the flag, then paths and variables are expanded.
\<close>

definition value_or :: "'a \<Rightarrow> 'a ptr \<Rightarrow> 'a" where
  "value_or flag p = (case p of Own v \<Rightarrow> v | _ \<Rightarrow> flag)"

definition own :: "'a ptr \<Rightarrow> 'a option" where
  "own p = (case p of Own v \<Rightarrow> Some v | _ \<Rightarrow> None)"

definition cert_value :: "(string \<Rightarrow> string res) \<Rightarrow> bool \<Rightarrow> bool \<Rightarrow> string ptr \<Rightarrow> string \<Rightarrow> string option res" where
  "cert_value ex secure def p flag =
    (case (if secure \<and> def then Some (value_or flag p) else own p) of
      None \<Rightarrow> Inr None
    | Some v \<Rightarrow> if secure \<and> v \<noteq> [] then rbind (ex v) (\<lambda>v'. Inr (Some v')) else Inr (Some v))"

definition target_fields ::
  "(string \<Rightarrow> string) \<Rightarrow> string \<Rightarrow> string \<Rightarrow> pconf \<Rightarrow> gflags \<Rightarrow> string \<Rightarrow> string option \<Rightarrow> string option \<Rightarrow> string option \<Rightarrow> tconf" where
  "target_fields env name pass tc gl addr ca cert key =
    expand_texts env \<lparr>
      tc_name = or_text (tc_name tc) name, tc_address = addr,
      tc_username = Some (expand env (value_or (gl_username gl) (tc_username tc))),
      tc_password = Some (expand_password env (if pass = [] then value_or (gl_password gl) (tc_password tc) else pass)),
      tc_auth_scheme = or_text (tc_auth_scheme tc) (gl_auth_scheme gl),
      tc_timeout = or_num (tc_timeout tc) (gl_timeout gl), tc_insecure = Some (value_or (gl_insecure gl) (tc_insecure tc)),
      tc_tls_ca = map_option (expand env) ca, tc_tls_cert = map_option (expand env) cert,
      tc_tls_key = map_option (expand env) key,
      tc_skip_verify = Some (value_or (gl_skip_verify gl) (tc_skip_verify tc)),
      tc_tls_server_name = or_text (tc_tls_server_name tc) (gl_tls_server_name gl),
      tc_subscriptions = tc_subscriptions tc, tc_outputs = tc_outputs tc,
      tc_buffer_size = or_num (tc_buffer_size tc) 100, tc_grpc_sizes = tc_grpc_sizes tc,
      tc_retry_timer = or_num (tc_retry_timer tc) (gl_retry gl),
      tc_tls_min_version = or_text (tc_tls_min_version tc) (gl_tls_min_version gl),
      tc_tls_max_version = or_text (tc_tls_max_version tc) (gl_tls_max_version gl),
      tc_tls_version = or_text (tc_tls_version tc) (gl_tls_version gl),
      tc_log_tls_secret = Some (value_or (gl_log_tls_secret gl) (tc_log_tls_secret tc)),
      tc_proto_files = tc_proto_files tc, tc_proto_dirs = tc_proto_dirs tc, tc_tags = tc_tags tc,
      tc_event_tags = tc_event_tags tc, tc_gzip = Some (value_or (gl_gzip gl) (tc_gzip tc)),
      tc_token = Some (expand env (value_or (gl_token gl) (tc_token tc))), tc_proxy = tc_proxy tc,
      tc_tunnel_type = tc_tunnel_type tc, tc_encoding = own (tc_encoding tc),
      tc_metadata = (if tc_metadata tc = None \<and> gl_metadata gl \<noteq> None then copy_map (gl_metadata gl) else tc_metadata tc),
      tc_cipher_suites = tc_cipher_suites tc, tc_tcp_keepalive = tc_tcp_keepalive tc,
      tc_grpc_keepalive = tc_grpc_keepalive tc,
      tc_tls_reload = Some (value_or (gl_tls_reload gl) (tc_tls_reload tc))\<rparr>"

definition target_value ::
  "(string \<Rightarrow> string) \<Rightarrow> (string \<Rightarrow> string res) \<Rightarrow> string \<Rightarrow> string \<Rightarrow> pconf \<Rightarrow> gflags \<Rightarrow> tconf res" where
  "target_value env ex name pass tc gl =
    (let secure = \<not> value_or (gl_insecure gl) (tc_insecure tc)
     in rbind (default_address gl (or_text (tc_address tc) name)) (\<lambda>addr.
       rbind (cert_value ex secure (gl_tls_ca gl \<noteq> []) (tc_tls_ca tc) (gl_tls_ca gl)) (\<lambda>ca.
       rbind (cert_value ex secure True (tc_tls_cert tc) (gl_tls_cert gl)) (\<lambda>cert.
       rbind (cert_value ex secure True (tc_tls_key tc) (gl_tls_key gl)) (\<lambda>key.
         Inr (target_fields env name pass tc gl addr ca cert key))))))"

text \<open>Flags that the expansion does not change: no variables in them, and absolute paths.\<close>

definition stable_flags :: "(string \<Rightarrow> string) \<Rightarrow> (string \<Rightarrow> string res) \<Rightarrow> gflags \<Rightarrow> bool" where
  "stable_flags env ex gl \<longleftrightarrow>
    expand env (gl_username gl) = gl_username gl \<and> expand_password env (gl_password gl) = gl_password gl \<and>
    expand env (gl_token gl) = gl_token gl \<and>
    (\<forall>f \<in> {gl_tls_ca gl, gl_tls_cert gl, gl_tls_key gl}. expand env f = f \<and> (f = [] \<or> ex f = Inr f))"

text \<open>What the decoder gives: pointers of its own, and the password whenever the file has one.\<close>

definition decoded :: "string \<Rightarrow> pconf \<Rightarrow> bool" where
  "decoded pass tc \<longleftrightarrow> tc_username tc \<noteq> Flag \<and> tc_password tc \<noteq> Flag \<and> tc_token tc \<noteq> Flag \<and> tc_tls_ca tc \<noteq> Flag \<and>
    tc_tls_cert tc \<noteq> Flag \<and> tc_tls_key tc \<noteq> Flag \<and> tc_encoding tc \<noteq> Flag \<and> (pass \<noteq> [] \<longrightarrow> (\<exists>v. tc_password tc = Own v))"

definition keeping :: "gflags \<Rightarrow> (gflags \<times> pconf) res \<Rightarrow> tconf res \<Rightarrow> bool" where
  "keeping gl r v \<longleftrightarrow>
    (case r of Inl e \<Rightarrow> v = Inl e | Inr (gl', tc) \<Rightarrow> gl' = gl \<and> v = Inr (resolve gl tc))"

lemma write_stable:
  "f flag = flag \<Longrightarrow> snd (write_ptr f p flag) = flag"
  "f flag = flag \<Longrightarrow> deref flag (fst (write_ptr f p flag)) = map_option f (deref flag p)"
  by (cases p; simp add: write_ptr_def deref_def)+

lemma deref_default [simp]: "deref flag (default_ptr p) = Some (value_or flag p)"
  by (cases p) (simp_all add: deref_def default_ptr_def value_or_def)

lemma deref_own: "p \<noteq> Flag \<Longrightarrow> deref flag p = own p"
  by (cases p) (simp_all add: deref_def own_def)

definition cert_of :: "(string \<Rightarrow> string res) \<Rightarrow> string option \<Rightarrow> string option res" where
  "cert_of ex v =
    (case v of None \<Rightarrow> Inr None | Some x \<Rightarrow> if x = [] then Inr (Some x) else rbind (ex x) (\<lambda>x'. Inr (Some x')))"

lemma expand_cert_stable:
  "flag = [] \<or> ex flag = Inr flag \<Longrightarrow>
    (case expand_cert ex p flag of Inl e \<Rightarrow> cert_of ex (deref flag p) = Inl e
     | Inr (p', flag') \<Rightarrow> flag' = flag \<and> cert_of ex (deref flag p) = Inr (deref flag p'))"
  by (cases p) (auto simp: expand_cert_def cert_of_def deref_def write_ptr_def rbind_def split: sum.splits)

text \<open>The fields of a target after its defaults.\<close>

definition defaulted :: "gflags \<Rightarrow> string \<Rightarrow> string \<Rightarrow> pconf \<Rightarrow> pconf" where
  "defaulted gl addr name tc =
    default_metadata gl (default_options gl (default_tls gl (default_credentials gl
      (tc\<lparr>tc_name := or_text (tc_name tc) name, tc_address := addr\<rparr>))))"

lemma set_target_defaults_eq:
  "set_target_defaults gl (tc\<lparr>tc_address := or_text (tc_address tc) name, tc_name := or_text (tc_name tc) name\<rparr>) =
    rbind (default_address gl (or_text (tc_address tc) name)) (\<lambda>addr. Inr (defaulted gl addr name tc))"
  by (simp add: set_target_defaults_def defaulted_def)

lemma secure_defaulted: "is_secure gl (defaulted gl addr name tc) \<longleftrightarrow> \<not> value_or (gl_insecure gl) (tc_insecure tc)"
  by (simp add: defaulted_def default_metadata_def default_options_def default_tls_def default_credentials_def is_secure_def)

lemma resolve_defaulted_certs:
  assumes "decoded pass tc" and "secure = (\<not> value_or (gl_insecure gl) (tc_insecure tc))"
  shows "deref (gl_tls_ca gl) (tc_tls_ca (defaulted gl addr name tc)) =
      (if secure \<and> gl_tls_ca gl \<noteq> [] then Some (value_or (gl_tls_ca gl) (tc_tls_ca tc)) else own (tc_tls_ca tc))"
    and "deref (gl_tls_cert gl) (tc_tls_cert (defaulted gl addr name tc)) =
      (if secure then Some (value_or (gl_tls_cert gl) (tc_tls_cert tc)) else own (tc_tls_cert tc))"
    and "deref (gl_tls_key gl) (tc_tls_key (defaulted gl addr name tc)) =
      (if secure then Some (value_or (gl_tls_key gl) (tc_tls_key tc)) else own (tc_tls_key tc))"
  using assms
  by (auto simp: decoded_def defaulted_def default_metadata_def default_options_def default_tls_def default_credentials_def
      is_secure_def deref_own)

text \<open>The target with its certificates replaced, then its password set and its variables expanded.\<close>

definition finished :: "(string \<Rightarrow> string) \<Rightarrow> string \<Rightarrow> gflags \<Rightarrow> pconf \<Rightarrow> gflags \<times> pconf" where
  "finished env pass gl tc = expand_target_env env (set_password pass (gl, tc))"

lemma expand_flags_stable: "stable_flags env ex gl \<Longrightarrow> expand_flags_of env gl tc = gl"
  by (simp add: expand_flags_of_def stable_flags_def write_stable)

lemma set_password_own:
  "decoded pass tc0 \<Longrightarrow> tc_password tc = default_ptr (tc_password tc0) \<Longrightarrow>
    set_password pass (gl, tc) = (gl, if pass = [] then tc else tc\<lparr>tc_password := Own pass\<rparr>)"
  by (auto simp: set_password_def decoded_def default_ptr_def write_ptr_def)

lemma finished_flags:
  assumes "stable_flags env ex gl" and "decoded pass tc0" and "tc_password tc = default_ptr (tc_password tc0)"
  shows "fst (finished env pass gl tc) = gl"
  by (simp add: finished_def set_password_own [OF assms(2,3)] expand_target_env_def expand_flags_stable [OF assms(1)])

lemma finished_resolve:
  assumes "stable_flags env ex gl" and "decoded pass tc0" and "tc_password tc = default_ptr (tc_password tc0)"
  shows "resolve gl (snd (finished env pass gl tc)) =
    expand_texts env ((resolve gl tc)\<lparr>
      tc_username := map_option (expand env) (deref (gl_username gl) (tc_username tc)),
      tc_password := Some (expand_password env (if pass = [] then value_or (gl_password gl) (tc_password tc0) else pass)),
      tc_token := map_option (expand env) (deref (gl_token gl) (tc_token tc)),
      tc_tls_ca := map_option (expand env) (deref (gl_tls_ca gl) (tc_tls_ca tc)),
      tc_tls_cert := map_option (expand env) (deref (gl_tls_cert gl) (tc_tls_cert tc)),
      tc_tls_key := map_option (expand env) (deref (gl_tls_key gl) (tc_tls_key tc))\<rparr>)"
proof -
  have pv: "map_option f (deref (gl_password gl) (if pass = [] then tc_password tc else Own pass)) =
      Some (f (if pass = [] then value_or (gl_password gl) (tc_password tc0) else pass))" for f :: "string \<Rightarrow> string"
    using assms(3) by (simp add: deref_def [of _ "Own pass"])
  show ?thesis
    using assms(1) pv [of "expand_password env"]
    by (auto simp: finished_def set_password_own [OF assms(2,3)] expand_target_env_def resolve_def expand_texts_def
        stable_flags_def write_stable split: if_splits)
qed

lemma finish_defaulted:
  assumes "stable_flags env ex gl" and "decoded pass tc"
    and "d = (defaulted gl addr name tc)\<lparr>tc_tls_ca := p1, tc_tls_cert := p2, tc_tls_key := p3\<rparr>"
  shows "fst (finished env pass gl d) = gl \<and>
    resolve gl (snd (finished env pass gl d)) = target_fields env name pass tc gl addr (deref (gl_tls_ca gl) p1) (deref (gl_tls_cert gl) p2) (deref (gl_tls_key gl) p3)"
proof -
  have pw: "tc_password d = default_ptr (tc_password tc)"
    by (simp add: assms(3) defaulted_def default_metadata_def default_options_def default_tls_def default_credentials_def)
  have enc: "tc_encoding tc \<noteq> Flag" using assms(2) by (simp add: decoded_def)
  have "resolve gl (snd (finished env pass gl d)) =
      target_fields env name pass tc gl addr (deref (gl_tls_ca gl) p1) (deref (gl_tls_cert gl) p2) (deref (gl_tls_key gl) p3)"
    unfolding finished_resolve [OF assms(1,2) pw]
    by (simp add: assms(3) target_fields_def resolve_def defaulted_def default_metadata_def default_options_def
        default_tls_def default_credentials_def deref_own [OF enc])
  with finished_flags [OF assms(1,2) pw] show ?thesis by simp
qed

lemma cert_value_eq:
  "cert_value ex secure def p flag =
    (if secure then cert_of ex (if def then Some (value_or flag p) else own p) else Inr (own p))"
  by (auto simp: cert_value_def cert_of_def split: option.splits)

lemma one_target_keeps:
  assumes "stable_flags env ex gl" and "decoded pass tc"
  shows "keeping gl (one_target env ex name pass tc gl) (target_value env ex name pass tc gl)"
proof (cases "default_address gl (or_text (tc_address tc) name)")
  case (Inl e)
  then show ?thesis by (simp add: one_target_def set_target_defaults_eq target_value_def keeping_def)
next
  case (Inr addr)
  define secure where "secure = (\<not> value_or (gl_insecure gl) (tc_insecure tc))"
  define d where "d = defaulted gl addr name tc"
  have one: "one_target env ex name pass tc gl = rbind (expand_cert_paths ex gl d) (\<lambda>(gl', t). Inr (expand_target_env env (set_password pass (gl', t))))"
    by (simp add: one_target_def set_target_defaults_eq Inr d_def case_prod_beta')
  note certs = resolve_defaulted_certs [OF assms(2) secure_def, of addr name, folded d_def]
  have fin: "fst (expand_target_env env (set_password pass (gl, d\<lparr>tc_tls_ca := p1, tc_tls_cert := p2, tc_tls_key := p3\<rparr>))) = gl \<and>
      resolve gl (snd (expand_target_env env (set_password pass (gl, d\<lparr>tc_tls_ca := p1, tc_tls_cert := p2, tc_tls_key := p3\<rparr>)))) =
        target_fields env name pass tc gl addr (deref (gl_tls_ca gl) p1) (deref (gl_tls_cert gl) p2) (deref (gl_tls_key gl) p3)"
    for p1 p2 p3
    using finish_defaulted [OF assms, of "d\<lparr>tc_tls_ca := p1, tc_tls_cert := p2, tc_tls_key := p3\<rparr>"]
    by (simp add: finished_def d_def)
  have sec: "is_secure gl d = secure" by (simp add: d_def secure_defaulted secure_def)
  show ?thesis
  proof (cases secure)
    case False
    then have "target_value env ex name pass tc gl = Inr (target_fields env name pass tc gl addr (own (tc_tls_ca tc)) (own (tc_tls_cert tc)) (own (tc_tls_key tc)))"
      by (simp add: target_value_def Inr cert_value_eq flip: secure_def)
    moreover have "one_target env ex name pass tc gl = Inr (expand_target_env env (set_password pass (gl, d)))"
      using False by (simp add: one expand_cert_paths_def sec)
    ultimately show ?thesis
      using fin [of "tc_tls_key d" "tc_tls_cert d" "tc_tls_ca d"] certs False by (auto simp: keeping_def case_prod_unfold)
  next
    case True
    have st: "gl_tls_ca gl = [] \<or> ex (gl_tls_ca gl) = Inr (gl_tls_ca gl)" "gl_tls_cert gl = [] \<or> ex (gl_tls_cert gl) = Inr (gl_tls_cert gl)"
      "gl_tls_key gl = [] \<or> ex (gl_tls_key gl) = Inr (gl_tls_key gl)" using assms(1) by (auto simp: stable_flags_def)
    have tv: "target_value env ex name pass tc gl =
        rbind (cert_of ex (deref (gl_tls_ca gl) (tc_tls_ca d))) (\<lambda>ca.
        rbind (cert_of ex (deref (gl_tls_cert gl) (tc_tls_cert d))) (\<lambda>cert.
        rbind (cert_of ex (deref (gl_tls_key gl) (tc_tls_key d))) (\<lambda>key.
          Inr (target_fields env name pass tc gl addr ca cert key))))"
      using True certs by (simp add: target_value_def Inr cert_value_eq flip: secure_def)
    note st' = expand_cert_stable [of "gl_tls_ca gl" ex "tc_tls_ca d", OF st(1)]
      expand_cert_stable [of "gl_tls_cert gl" ex "tc_tls_cert d", OF st(2)]
      expand_cert_stable [of "gl_tls_key gl" ex "tc_tls_key d", OF st(3)]
    show ?thesis
    proof (cases "expand_cert_paths ex gl d")
      case (Inl e)
      with st' True have "target_value env ex name pass tc gl = Inl e"
        by (auto simp: expand_cert_paths_def sec tv rbind_def split: sum.splits)
      with Inl show ?thesis by (simp add: one keeping_def)
    next
      case (Inr r)
      with st' True obtain p1 p2 p3 where p: "r = (gl, d\<lparr>tc_tls_ca := p1, tc_tls_cert := p2, tc_tls_key := p3\<rparr>)"
        "cert_of ex (deref (gl_tls_ca gl) (tc_tls_ca d)) = Inr (deref (gl_tls_ca gl) p1)"
        "cert_of ex (deref (gl_tls_cert gl) (tc_tls_cert d)) = Inr (deref (gl_tls_cert gl) p2)"
        "cert_of ex (deref (gl_tls_key gl) (tc_tls_key d)) = Inr (deref (gl_tls_key gl) p3)"
        by (auto simp: expand_cert_paths_def sec rbind_def split: sum.splits)
      with fin [of p3 p2 p1] Inr show ?thesis by (simp add: one tv keeping_def case_prod_unfold)
    qed
  qed
qed

section \<open>The targets do not depend on each other\<close>

definition target_result ::
  "(string \<Rightarrow> string) \<Rightarrow> (string \<Rightarrow> string res) \<Rightarrow> (string \<Rightarrow> string) \<Rightarrow> gflags \<Rightarrow> string \<times> pconf res \<Rightarrow> (string \<times> tconf) res" where
  "target_result env ex pass gl en =
    (case en of (name, entry) \<Rightarrow>
      rbind entry (\<lambda>tc. rbind (target_value env ex name (pass name) tc gl) (\<lambda>v. Inr (name, v))))"

definition resolve_all :: "(gflags \<times> pconf gmap) res \<Rightarrow> (string \<times> tconf) list res" where
  "resolve_all r = rbind r (\<lambda>(gl, ts). Inr (map (\<lambda>(n, tc). (n, resolve gl tc)) ts))"

lemma rmap_Cons: "rmap f (x # xs) = rbind (f x) (\<lambda>y. rbind (rmap f xs) (\<lambda>ys. Inr (y # ys)))"
  by (simp add: rbind_def split: sum.splits)

lemma rbind_assoc: "rbind (rbind r f) g = rbind r (\<lambda>x. rbind (f x) g)"
  by (simp add: rbind_def split: sum.splits)

lemma targets_loop_results:
  assumes "stable_flags env ex gl" and "default_port port gl = gl" and "distinct (map fst ts @ map fst es)"
    and "\<forall>(name, entry) \<in> set es. \<forall>tc. entry = Inr tc \<longrightarrow> decoded (pass name) tc"
  shows "resolve_all (targets_loop env ex pass port es gl ts) =
    rbind (rmap (target_result env ex pass gl) es) (\<lambda>vs. Inr (map (\<lambda>(n, tc). (n, resolve gl tc)) ts @ vs))"
  using assms(3,4)
proof (induction es arbitrary: ts)
  case (Cons e es)
  obtain name entry where e: "e = (name, entry)" by (cases e)
  show ?case
  proof (cases entry)
    case (Inr tc)
    then have keep: "keeping gl (one_target env ex name (pass name) tc gl) (target_value env ex name (pass name) tc gl)"
      using Cons.prems(2) e by (intro one_target_keeps [OF assms(1)]) auto
    show ?thesis
    proof (cases "one_target env ex name (pass name) tc gl")
      case (Inl err)
      with keep e Inr assms(2) show ?thesis
        by (simp add: keeping_def rmap_Cons target_result_def resolve_all_def)
    next
      case (Inr r)
      with keep obtain t where t: "one_target env ex name (pass name) tc gl = Inr (gl, t)"
        "target_value env ex name (pass name) tc gl = Inr (resolve gl t)" by (auto simp: keeping_def)
      have "gset name t ts = ts @ [(name, t)]" using Cons.prems(1) e by (intro gset_fresh) auto
      then have "targets_loop env ex pass port (e # es) gl ts = targets_loop env ex pass port es gl (ts @ [(name, t)])"
        using t(1) \<open>entry = Inr tc\<close> e assms(2) by simp
      moreover have "target_result env ex pass gl e = Inr (name, resolve gl t)"
        using t(2) \<open>entry = Inr tc\<close> e by (simp add: target_result_def)
      moreover have "resolve_all (targets_loop env ex pass port es gl (ts @ [(name, t)])) =
          rbind (rmap (target_result env ex pass gl) es) (\<lambda>vs. Inr (map (\<lambda>(n, tc). (n, resolve gl tc)) (ts @ [(name, t)]) @ vs))"
        using Cons.prems e by (intro Cons.IH) auto
      ultimately show ?thesis by (simp add: rmap_Cons rbind_assoc del: targets_loop.simps rmap.simps)
    qed
  qed (simp add: e target_result_def resolve_all_def)
qed (simp add: resolve_all_def)

section \<open>Writes through the shared pointers\<close>

text \<open>
  The first target that has a pointer into a flag writes the expanded value through it. When a value
  that was expanded is not changed by the next expansion, the flags settle: each of them is either
  as given or has its settled value.
\<close>

definition settle_cert :: "(string \<Rightarrow> string) \<Rightarrow> (string \<Rightarrow> string res) \<Rightarrow> string \<Rightarrow> string" where
  "settle_cert env ex f = (if f = [] then [] else case ex f of Inl _ \<Rightarrow> f | Inr y \<Rightarrow> expand env y)"

definition settle :: "(string \<Rightarrow> string) \<Rightarrow> (string \<Rightarrow> string res) \<Rightarrow> gflags \<Rightarrow> gflags" where
  "settle env ex gl = gl\<lparr>gl_username := expand env (gl_username gl), gl_password := expand_password env (gl_password gl),
    gl_token := expand env (gl_token gl), gl_tls_ca := settle_cert env ex (gl_tls_ca gl),
    gl_tls_cert := settle_cert env ex (gl_tls_cert gl), gl_tls_key := settle_cert env ex (gl_tls_key gl)\<rparr>"

definition cert_settles :: "(string \<Rightarrow> string) \<Rightarrow> (string \<Rightarrow> string res) \<Rightarrow> string \<Rightarrow> bool" where
  "cert_settles env ex f \<longleftrightarrow> f = [] \<or>
    (case ex f of Inl _ \<Rightarrow> False | Inr y \<Rightarrow>
      expand env y \<noteq> [] \<and> expand env (expand env y) = expand env y \<and> ex (expand env y) = Inr (expand env y))"

definition settling_flags :: "(string \<Rightarrow> string) \<Rightarrow> (string \<Rightarrow> string res) \<Rightarrow> gflags \<Rightarrow> bool" where
  "settling_flags env ex gl \<longleftrightarrow>
    expand env (expand env (gl_username gl)) = expand env (gl_username gl) \<and>
    expand_password env (expand_password env (gl_password gl)) = expand_password env (gl_password gl) \<and>
    expand env (expand env (gl_token gl)) = expand env (gl_token gl) \<and>
    cert_settles env ex (gl_tls_ca gl) \<and> cert_settles env ex (gl_tls_cert gl) \<and> cert_settles env ex (gl_tls_key gl)"

lemma settle_cert_stable:
  assumes "cert_settles env ex f"
  shows "expand env (settle_cert env ex f) = settle_cert env ex f"
    "settle_cert env ex f = [] \<or> ex (settle_cert env ex f) = Inr (settle_cert env ex f)"
    "settle_cert env ex f = [] \<longleftrightarrow> f = []"
  using assms by (auto simp: cert_settles_def settle_cert_def split: sum.splits)

lemma settle_stable:
  assumes "settling_flags env ex gl"
  shows "stable_flags env ex (settle env ex gl)"
  using assms settle_cert_stable [of env ex "gl_tls_ca gl"] settle_cert_stable [of env ex "gl_tls_cert gl"]
    settle_cert_stable [of env ex "gl_tls_key gl"]
  by (simp add: settling_flags_def stable_flags_def settle_def)

text \<open>Flags on the way from \<open>gl\<close> to the settled ones.\<close>

definition between :: "gflags \<Rightarrow> gflags \<Rightarrow> gflags \<Rightarrow> bool" where
  "between gl s g \<longleftrightarrow>
    gl_port g = gl_port s \<and> gl_auth_scheme g = gl_auth_scheme s \<and> gl_timeout g = gl_timeout s \<and>
    gl_insecure g = gl_insecure s \<and> gl_skip_verify g = gl_skip_verify s \<and> gl_retry g = gl_retry s \<and>
    gl_tls_version g = gl_tls_version s \<and> gl_tls_min_version g = gl_tls_min_version s \<and>
    gl_tls_max_version g = gl_tls_max_version s \<and> gl_tls_server_name g = gl_tls_server_name s \<and>
    gl_log_tls_secret g = gl_log_tls_secret s \<and> gl_tls_reload g = gl_tls_reload s \<and>
    gl_gzip g = gl_gzip s \<and> gl_metadata g = gl_metadata s \<and> gl_tunnel_server g = gl_tunnel_server s \<and>
    gl_username g \<in> {gl_username gl, gl_username s} \<and> gl_password g \<in> {gl_password gl, gl_password s} \<and>
    gl_token g \<in> {gl_token gl, gl_token s} \<and> gl_tls_ca g \<in> {gl_tls_ca gl, gl_tls_ca s} \<and>
    gl_tls_cert g \<in> {gl_tls_cert gl, gl_tls_cert s} \<and> gl_tls_key g \<in> {gl_tls_key gl, gl_tls_key s}"

lemma between_others:
  assumes "between gl s g"
  shows "gl_port g = gl_port s" "gl_auth_scheme g = gl_auth_scheme s" "gl_timeout g = gl_timeout s"
    "gl_insecure g = gl_insecure s" "gl_skip_verify g = gl_skip_verify s" "gl_retry g = gl_retry s"
    "gl_tls_version g = gl_tls_version s" "gl_tls_min_version g = gl_tls_min_version s"
    "gl_tls_max_version g = gl_tls_max_version s" "gl_tls_server_name g = gl_tls_server_name s"
    "gl_log_tls_secret g = gl_log_tls_secret s" "gl_tls_reload g = gl_tls_reload s" "gl_gzip g = gl_gzip s"
    "gl_metadata g = gl_metadata s" "gl_tunnel_server g = gl_tunnel_server s"
  using assms by (simp_all add: between_def)

text \<open>The flags after a target: those its pointers point to are settled.\<close>

definition touch :: "gflags \<Rightarrow> ('s ptr, 'b) target_config \<Rightarrow> gflags \<Rightarrow> gflags" where
  "touch s t g = g\<lparr>
    gl_username := (if tc_username t = Flag then gl_username s else gl_username g),
    gl_password := (if tc_password t = Flag then gl_password s else gl_password g),
    gl_token := (if tc_token t = Flag then gl_token s else gl_token g),
    gl_tls_ca := (if tc_tls_ca t = Flag then gl_tls_ca s else gl_tls_ca g),
    gl_tls_cert := (if tc_tls_cert t = Flag then gl_tls_cert s else gl_tls_cert g),
    gl_tls_key := (if tc_tls_key t = Flag then gl_tls_key s else gl_tls_key g)\<rparr>"

lemma between_touch: "between gl s g \<Longrightarrow> between gl s (touch s t g)"
  by (auto simp: between_def touch_def)

definition settled_for :: "gflags \<Rightarrow> gflags \<Rightarrow> ('s ptr, 'b) target_config \<Rightarrow> bool" where
  "settled_for s g t \<longleftrightarrow>
    (tc_username t = Flag \<longrightarrow> gl_username g = gl_username s) \<and> (tc_password t = Flag \<longrightarrow> gl_password g = gl_password s) \<and>
    (tc_token t = Flag \<longrightarrow> gl_token g = gl_token s) \<and> (tc_tls_ca t = Flag \<longrightarrow> gl_tls_ca g = gl_tls_ca s) \<and>
    (tc_tls_cert t = Flag \<longrightarrow> gl_tls_cert g = gl_tls_cert s) \<and> (tc_tls_key t = Flag \<longrightarrow> gl_tls_key g = gl_tls_key s)"

lemma settled_for_touch: "settled_for s (touch s t g) t" "settled_for s g t' \<Longrightarrow> settled_for s (touch s t g) t'"
  by (simp_all add: settled_for_def touch_def)

lemma deref_cong: "(p = Flag \<Longrightarrow> f = g) \<Longrightarrow> deref f p = deref g p"
  by (cases p) (simp_all add: deref_def)

lemma resolve_settled:
  assumes "between gl s g" and "settled_for s g t"
  shows "resolve g t = resolve s t"
proof -
  have "deref (gl_username g) (tc_username t) = deref (gl_username s) (tc_username t)"
    "deref (gl_password g) (tc_password t) = deref (gl_password s) (tc_password t)"
    "deref (gl_token g) (tc_token t) = deref (gl_token s) (tc_token t)"
    "deref (gl_tls_ca g) (tc_tls_ca t) = deref (gl_tls_ca s) (tc_tls_ca t)"
    "deref (gl_tls_cert g) (tc_tls_cert t) = deref (gl_tls_cert s) (tc_tls_cert t)"
    "deref (gl_tls_key g) (tc_tls_key t) = deref (gl_tls_key s) (tc_tls_key t)"
    using assms(2) by (auto simp: settled_for_def intro!: deref_cong)
  then show ?thesis by (simp add: resolve_def between_others [OF assms(1)])
qed

text \<open>One target, from flags on the way and from the settled ones: the same target results.\<close>

lemma defaulted_between:
  assumes "settling_flags env ex gl" and "s = settle env ex gl" and "between gl s g"
  shows "defaulted g addr name tc = defaulted s addr name tc"
proof -
  have "gl_tls_ca s = settle_cert env ex (gl_tls_ca gl)" by (simp add: assms(2) settle_def)
  moreover have "gl_tls_ca g \<in> {gl_tls_ca gl, gl_tls_ca s}" using assms(3) by (simp only: between_def)
  moreover have "cert_settles env ex (gl_tls_ca gl)" using assms(1) by (simp add: settling_flags_def)
  ultimately have "gl_tls_ca g = [] \<longleftrightarrow> gl_tls_ca s = []"
    using settle_cert_stable(3) [of env ex "gl_tls_ca gl"] by auto
  then show ?thesis
    by (simp add: defaulted_def default_metadata_def default_options_def default_tls_def default_credentials_def is_secure_def
        between_others [OF assms(3)])
qed

lemma default_address_between: "between gl s g \<Longrightarrow> default_address g addr = default_address s addr"
  using between_others(1,15) [of gl s g] by (simp add: default_address_def cong: if_cong)

lemma write_between:
  assumes "f s = s" and "g = s \<or> f g = s"
  shows "fst (write_ptr f p g) = fst (write_ptr f p s)" "snd (write_ptr f p g) = (if p = Flag then s else g)"
  using assms by (cases p; auto simp: write_ptr_def)+

lemma is_flag_write [simp]: "fst (write_ptr f p g) = Flag \<longleftrightarrow> p = Flag"
  by (cases p) (simp_all add: write_ptr_def)

lemma expand_cert_between:
  assumes "cert_settles env ex x" and "s = settle_cert env ex x" and "g \<in> {x, s}"
  shows "case expand_cert ex p s of
      Inl e \<Rightarrow> expand_cert ex p g = Inl e
    | Inr (p', h) \<Rightarrow> h = s \<and> (p' = Flag \<longleftrightarrow> p = Flag) \<and>
        (\<exists>h'. expand_cert ex p g = Inr (p', h') \<and> (if p = Flag then h' = s \<or> expand env h' = s else h' = g))"
proof (cases p)
  case (Own v)
  then show ?thesis by (cases "ex v") (simp_all add: expand_cert_def deref_def write_ptr_def)
next
  case Flag
  then show ?thesis
    using assms settle_cert_stable [OF assms(1)]
    by (auto simp: expand_cert_def deref_def write_ptr_def cert_settles_def settle_cert_def split: sum.splits)
qed (simp add: expand_cert_def deref_def)

lemma fst_write: "fst (write_ptr f p g) = fst (write_ptr f p h)"
  by (cases p) (simp_all add: write_ptr_def)

lemma snd_write: "snd (write_ptr f p g) = (if p = Flag then f g else g)"
  by (cases p) (simp_all add: write_ptr_def)

lemma between_texts:
  assumes "settling_flags env ex gl" and "s = settle env ex gl" and "between gl s g"
  shows "expand env (gl_username g) = gl_username s" "expand_password env (gl_password g) = gl_password s"
    "expand env (gl_token g) = gl_token s"
proof -
  have s: "gl_username s = expand env (gl_username gl)" "gl_password s = expand_password env (gl_password gl)"
    "gl_token s = expand env (gl_token gl)" by (simp_all add: assms(2) settle_def)
  have g: "gl_username g \<in> {gl_username gl, gl_username s}" "gl_password g \<in> {gl_password gl, gl_password s}"
    "gl_token g \<in> {gl_token gl, gl_token s}" using assms(3) by (simp_all only: between_def)
  show "expand env (gl_username g) = gl_username s" "expand_password env (gl_password g) = gl_password s"
    "expand env (gl_token g) = gl_token s"
    using s g assms(1) by (auto simp: settling_flags_def)
qed

lemma finish_between:
  assumes "settling_flags env ex gl" and "s = settle env ex gl" and "between gl s g"
    and "if tc_tls_ca t = Flag then expand env a = gl_tls_ca s else a = gl_tls_ca g"
    and "if tc_tls_cert t = Flag then expand env b = gl_tls_cert s else b = gl_tls_cert g"
    and "if tc_tls_key t = Flag then expand env c = gl_tls_key s else c = gl_tls_key g"
  shows "expand_target_env env (g\<lparr>gl_tls_ca := a, gl_tls_cert := b, gl_tls_key := c\<rparr>, t) =
      (touch s (snd (expand_target_env env (s, t))) g, snd (expand_target_env env (s, t)))"
proof -
  let ?h = "g\<lparr>gl_tls_ca := a, gl_tls_cert := b, gl_tls_key := c\<rparr>"
  have t: "snd (expand_target_env env (?h, t)) = snd (expand_target_env env (s, t))"
    unfolding expand_target_env_def prod.case snd_conv
    by (simp only: fst_write [of _ _ "gl_username ?h" "gl_username s"] fst_write [of _ _ "gl_password ?h" "gl_password s"]
      fst_write [of _ _ "gl_token ?h" "gl_token s"] fst_write [of _ _ "gl_tls_ca ?h" "gl_tls_ca s"]
      fst_write [of _ _ "gl_tls_cert ?h" "gl_tls_cert s"] fst_write [of _ _ "gl_tls_key ?h" "gl_tls_key s"])
  have "expand_flags_of env ?h t = touch s t g"
    using assms(4-6) between_texts [OF assms(1-3)]
    by (simp add: expand_flags_of_def touch_def snd_write split: if_splits)
  also have "\<dots> = touch s (snd (expand_target_env env (s, t))) g"
    by (simp add: touch_def expand_target_env_def expand_texts_def)
  finally have "fst (expand_target_env env (?h, t)) = touch s (snd (expand_target_env env (s, t))) g"
    by (simp add: expand_target_env_def)
  with t show ?thesis by (simp add: prod_eq_iff)
qed

lemma one_target_between:
  assumes settling: "settling_flags env ex gl" and s: "s = settle env ex gl" and g: "between gl s g" and dec: "decoded pass tc"
  shows "one_target env ex name pass tc g =
    (case one_target env ex name pass tc s of Inl e \<Rightarrow> Inl e | Inr (h, t) \<Rightarrow> Inr (touch s t g, t))"
proof (cases "default_address s (or_text (tc_address tc) name)")
  case (Inl e)
  then show ?thesis by (simp add: one_target_def set_target_defaults_eq default_address_between [OF g])
next
  case (Inr addr)
  define d where "d = defaulted s addr name tc"
  have one: "one_target env ex name pass tc f =
      rbind (expand_cert_paths ex f d) (\<lambda>u. Inr (expand_target_env env (set_password pass u)))" if "f \<in> {s, g}" for f
    using that by (auto simp: one_target_def set_target_defaults_eq Inr d_def default_address_between [OF g]
        defaulted_between [OF settling s g])
  have pw: "tc_password d = default_ptr (tc_password tc)"
    by (simp add: d_def defaulted_def default_metadata_def default_options_def default_tls_def default_credentials_def)
  have sec: "is_secure g d = is_secure s d" by (simp add: is_secure_def between_others(4) [OF g])
  define final where "final t = (if pass = [] then t else t\<lparr>tc_password := Own pass\<rparr>)" for t :: pconf
  have set_pw: "set_password pass (f, t) = (f, final t)" if "tc_password t = tc_password d" for f t
    using set_password_own [OF dec] that pw by (simp add: final_def)
  have final_certs: "tc_tls_ca (final t) = tc_tls_ca t" "tc_tls_cert (final t) = tc_tls_cert t" "tc_tls_key (final t) = tc_tls_key t" for t
    by (simp_all add: final_def)
  note fin = finish_between [OF settling s g]
  show ?thesis
  proof (cases "is_secure s d")
    case False
    have "tc_tls_ca d \<noteq> Flag" "tc_tls_cert d \<noteq> Flag" "tc_tls_key d \<noteq> Flag"
      using dec False by (auto simp: d_def defaulted_def default_metadata_def default_options_def default_tls_def
          default_credentials_def is_secure_def decoded_def)
    then have "expand_target_env env (g, final d) =
        (touch s (snd (expand_target_env env (s, final d))) g, snd (expand_target_env env (s, final d)))"
      using fin [of "final d" "gl_tls_ca g" "gl_tls_cert g" "gl_tls_key g"] by (simp add: final_certs)
    then show ?thesis using False by (simp add: one expand_cert_paths_def sec set_pw split: prod.split)
  next
    case True
    have c: "cert_settles env ex (gl_tls_ca gl)" "cert_settles env ex (gl_tls_cert gl)" "cert_settles env ex (gl_tls_key gl)"
      using settling by (simp_all add: settling_flags_def)
    have sf: "gl_tls_ca s = settle_cert env ex (gl_tls_ca gl)" "gl_tls_cert s = settle_cert env ex (gl_tls_cert gl)"
      "gl_tls_key s = settle_cert env ex (gl_tls_key gl)" by (simp_all add: s settle_def)
    have gf: "gl_tls_ca g \<in> {gl_tls_ca gl, gl_tls_ca s}" "gl_tls_cert g \<in> {gl_tls_cert gl, gl_tls_cert s}"
      "gl_tls_key g \<in> {gl_tls_key gl, gl_tls_key s}" using g by (simp_all only: between_def)
    note ca = expand_cert_between [OF c(1) sf(1) gf(1), of "tc_tls_ca d"]
    note cert = expand_cert_between [OF c(2) sf(2) gf(2), of "tc_tls_cert d"]
    note key = expand_cert_between [OF c(3) sf(3) gf(3), of "tc_tls_key d"]
    have env_s: "expand env (gl_tls_ca s) = gl_tls_ca s" "expand env (gl_tls_cert s) = gl_tls_cert s" "expand env (gl_tls_key s) = gl_tls_key s"
      unfolding sf by (simp_all only: settle_cert_stable(1) [OF c(1)] settle_cert_stable(1) [OF c(2)] settle_cert_stable(1) [OF c(3)])
    show ?thesis
    proof (cases "expand_cert_paths ex s d")
      case (Inl e)
      then have "expand_cert_paths ex g d = Inl e"
        using ca cert key True by (auto simp: expand_cert_paths_def sec rbind_def split: sum.splits)
      with Inl show ?thesis by (simp add: one)
    next
      case (Inr r)
      then obtain p1 p2 p3 h1 h2 h3 where
        e: "expand_cert ex (tc_tls_ca d) (gl_tls_ca s) = Inr (p1, h1)" "expand_cert ex (tc_tls_cert d) (gl_tls_cert s) = Inr (p2, h2)"
          "expand_cert ex (tc_tls_key d) (gl_tls_key s) = Inr (p3, h3)"
        and r: "r = (s\<lparr>gl_tls_ca := h1, gl_tls_cert := h2, gl_tls_key := h3\<rparr>, d\<lparr>tc_tls_ca := p1, tc_tls_cert := p2, tc_tls_key := p3\<rparr>)"
        using True by (auto simp: expand_cert_paths_def rbind_def split: sum.splits)
      let ?t = "d\<lparr>tc_tls_ca := p1, tc_tls_cert := p2, tc_tls_key := p3\<rparr>"
      have h: "h1 = gl_tls_ca s" "h2 = gl_tls_cert s" "h3 = gl_tls_key s"
        and fl: "p1 = Flag \<longleftrightarrow> tc_tls_ca d = Flag" "p2 = Flag \<longleftrightarrow> tc_tls_cert d = Flag" "p3 = Flag \<longleftrightarrow> tc_tls_key d = Flag"
        using ca cert key e by simp_all
      obtain a b k where x: "expand_cert ex (tc_tls_ca d) (gl_tls_ca g) = Inr (p1, a)"
          "expand_cert ex (tc_tls_cert d) (gl_tls_cert g) = Inr (p2, b)" "expand_cert ex (tc_tls_key d) (gl_tls_key g) = Inr (p3, k)"
        and v: "if p1 = Flag then a = gl_tls_ca s \<or> expand env a = gl_tls_ca s else a = gl_tls_ca g"
          "if p2 = Flag then b = gl_tls_cert s \<or> expand env b = gl_tls_cert s else b = gl_tls_cert g"
          "if p3 = Flag then k = gl_tls_key s \<or> expand env k = gl_tls_key s else k = gl_tls_key g"
        using ca cert key e by (auto simp: fl)
      have rs: "r = (s, ?t)" by (simp add: r h)
      have rg: "expand_cert_paths ex g d = Inr (g\<lparr>gl_tls_ca := a, gl_tls_cert := b, gl_tls_key := k\<rparr>, ?t)"
        using True by (simp add: expand_cert_paths_def sec x)
      have "expand_target_env env (g\<lparr>gl_tls_ca := a, gl_tls_cert := b, gl_tls_key := k\<rparr>, final ?t) =
          (touch s (snd (expand_target_env env (s, final ?t))) g, snd (expand_target_env env (s, final ?t)))"
        by (rule fin) (use v env_s in \<open>auto simp: final_certs\<close>)
      then show ?thesis using Inr rg by (simp add: one rs set_pw split: prod.split)
    qed
  qed
qed

lemma in_set_gset: "x \<in> set (gset k v m) \<Longrightarrow> x = (k, v) \<or> x \<in> set m"
  by (induction m) (auto split: if_splits)

lemma targets_loop_between:
  assumes "settling_flags env ex gl" and "s = settle env ex gl" and "default_port port gl = gl"
    and "\<forall>(name, entry) \<in> set es. \<forall>tc. entry = Inr tc \<longrightarrow> decoded (pass name) tc"
    and "between gl s g" and "\<forall>(n, t) \<in> set ts. settled_for s g t"
  shows "resolve_all (targets_loop env ex pass port es g ts) = resolve_all (targets_loop env ex pass port es s ts)"
  using assms(4-6)
proof (induction es arbitrary: g ts)
  case Nil
  then show ?case by (auto simp: resolve_all_def resolve_settled)
next
  case (Cons e es)
  obtain name entry where e: "e = (name, entry)" by (cases e)
  have port: "default_port port f = f" if "f \<in> {s, g}" for f
  proof -
    have "gl_port f = gl_port gl"
      using that between_others(1) [OF Cons.prems(2)] by (auto simp: assms(2) settle_def)
    moreover have "or_text (gl_port gl) port = gl_port gl"
      using arg_cong [OF assms(3), of gl_port] by (simp add: default_port_def)
    ultimately show ?thesis by (simp add: default_port_def)
  qed
  show ?case
  proof (cases entry)
    case (Inr tc)
    then have dec: "decoded (pass name) tc" using Cons.prems(1) e by auto
    note one = one_target_between [OF assms(1,2) Cons.prems(2) dec, of name]
    show ?thesis
    proof (cases "one_target env ex name (pass name) tc s")
      case (Inl err)
      then show ?thesis using one Inr e by (simp add: port)
    next
      case (Inr r)
      obtain h t where r: "r = (h, t)" by (cases r)
      have "h = s"
        using one_target_keeps [OF settle_stable [OF assms(1), folded assms(2)] dec, of name] Inr r by (simp add: keeping_def)
      moreover have "\<forall>(n, u) \<in> set (gset name t ts). settled_for s (touch s t g) u"
      proof clarify
        fix m u
        assume "(m, u) \<in> set (gset name t ts)"
        then have "u = t \<or> settled_for s g u" using Cons.prems(3) by (auto dest!: in_set_gset)
        then show "settled_for s (touch s t g) u" using settled_for_touch by blast
      qed
      ultimately show ?thesis
        using Cons.IH [where g = "touch s t g" and ts = "gset name t ts", OF _ between_touch [OF Cons.prems(2)]] Cons.prems(1) one Inr r \<open>entry = Inr tc\<close> e
        by (simp add: port)
    qed
  qed (simp add: e)
qed

text \<open>Alone, a target takes the same values from the flags as given and from the settled ones.\<close>

lemma cert_value_settle:
  assumes "cert_settles env ex f"
  shows "case cert_value ex secure def p (settle_cert env ex f) of
      Inl e \<Rightarrow> cert_value ex secure def p f = Inl e
    | Inr v \<Rightarrow> \<exists>v'. cert_value ex secure def p f = Inr v' \<and> map_option (expand env) v' = map_option (expand env) v"
proof (cases "secure \<and> def \<and> (p = Flag \<or> p = Unset)")
  case True
  then have "value_or f p = f" "value_or (settle_cert env ex f) p = settle_cert env ex f"
    by (auto simp: value_or_def)
  then show ?thesis using True assms settle_cert_stable [OF assms]
    by (auto simp: cert_value_def cert_settles_def settle_cert_def split: sum.splits)
next
  case False
  then have "cert_value ex secure def p (settle_cert env ex f) = cert_value ex secure def p f"
    by (cases p) (auto simp: cert_value_def value_or_def own_def)
  then show ?thesis by (simp split: sum.split)
qed

lemma target_value_settle:
  assumes "settling_flags env ex gl"
  shows "target_value env ex name pass tc (settle env ex gl) = target_value env ex name pass tc gl"
proof -
  let ?s = "settle env ex gl"
  have c: "cert_settles env ex (gl_tls_ca gl)" "cert_settles env ex (gl_tls_cert gl)" "cert_settles env ex (gl_tls_key gl)"
    using assms by (simp_all add: settling_flags_def)
  have ca: "gl_tls_ca ?s = settle_cert env ex (gl_tls_ca gl)" "gl_tls_cert ?s = settle_cert env ex (gl_tls_cert gl)"
    "gl_tls_key ?s = settle_cert env ex (gl_tls_key gl)" by (simp_all add: settle_def)
  note def = settle_cert_stable(3) [OF c(1)]
  have addr: "default_address ?s a = default_address gl a" for a by (simp add: default_address_def settle_def cong: if_cong)
  have ins: "gl_insecure ?s = gl_insecure gl" by (simp add: settle_def)
  have texts: "expand env (value_or (expand env u) p) = expand env (value_or u p)" if "expand env (expand env u) = expand env u" for u p
    using that by (cases p) (simp_all add: value_or_def)
  have pws: "expand_password env (value_or (expand_password env u) p) = expand_password env (value_or u p)"
    if "expand_password env (expand_password env u) = expand_password env u" for u p
    using that by (cases p) (simp_all add: value_or_def)
  have settled: "target_fields env name pass tc ?s a x y z = target_fields env name pass tc gl a x y z" for a x y z
    using assms by (simp add: target_fields_def settle_def settling_flags_def texts pws)
  have fields: "target_fields env name pass tc gl a x y z = target_fields env name pass tc gl a x' y' z'"
    if "map_option (expand env) x' = map_option (expand env) x" "map_option (expand env) y' = map_option (expand env) y"
      "map_option (expand env) z' = map_option (expand env) z" for a x y z x' y' z'
    using that by (simp add: target_fields_def)
  define sec where "sec = (\<not> value_or (gl_insecure gl) (tc_insecure tc))"
  note v = cert_value_settle [OF c(1), of sec "gl_tls_ca gl \<noteq> []" "tc_tls_ca tc"]
    cert_value_settle [OF c(2), of sec True "tc_tls_cert tc"] cert_value_settle [OF c(3), of sec True "tc_tls_key tc"]
  show ?thesis
    unfolding target_value_def Let_def ins addr ca def sec_def [symmetric]
    using v by (auto simp: rbind_def settled intro: fields split: sum.splits)
qed

definition with_subscriptions :: "string list \<Rightarrow> tconf \<Rightarrow> tconf" where
  "with_subscriptions names v = (if names = [] then v else v\<lparr>tc_subscriptions := Some names\<rparr>)"

text \<open>C19. The targets of the configuration file do not depend on each other although they write through their
  pointers into the global flags: each has the values it would have alone with the flags as they were
  given, in whatever order the map of targets is ranged over, and the error is that of the first
  target that has one. The condition is that the flags settle: a text that was expanded once is not
  changed by the next expansion, and the path of a certificate can be resolved, the resolved path
  being resolved and expanded to itself.\<close>

theorem targets_independent:
  assumes "settling_flags env ex gl" and "wf_gmap es" and "es \<noteq> []"
    and "\<forall>(name, entry) \<in> set es. \<forall>tc. entry = Inr tc \<longrightarrow> decoded (pass name) tc"
  shows "resolve_all (get_targets env ex pass port [] names (Entries es) gl ts) =
    rbind (rmap (target_result env ex pass (default_port port gl)) es)
      (\<lambda>vs. Inr (map (\<lambda>(n, v). (n, with_subscriptions names v)) vs))"
proof -
  let ?gl = "default_port port gl"
  let ?s = "settle env ex ?gl"
  have settling: "settling_flags env ex ?gl" using assms(1) by (simp add: settling_flags_def default_port_def)
  have port: "default_port port ?gl = ?gl" "default_port port ?s = ?s"
    by (simp_all add: default_port_def or_text_def settle_def)
  have "between ?gl ?s ?gl" by (simp add: between_def settle_def)
  from targets_loop_between [OF settling refl port(1) assms(4) this, of "[]"]
  have "resolve_all (targets_loop env ex pass port es ?gl []) = resolve_all (targets_loop env ex pass port es ?s [])" by simp
  also have "\<dots> = rmap (target_result env ex pass ?s) es"
    using targets_loop_results [OF settle_stable [OF settling] port(2) _ assms(4), of "[]"] assms(2)
    by (simp add: wf_gmap_def rbind_def split: sum.splits)
  also have "target_result env ex pass ?s = target_result env ex pass ?gl"
    by (simp add: fun_eq_iff target_result_def target_value_settle [OF settling])
  finally have loop: "resolve_all (targets_loop env ex pass port es ?gl []) = rmap (target_result env ex pass ?gl) es" .
  obtain n entry es' where "es = (n, entry) # es'" using assms(3) by (cases es) auto
  then have "targets_loop env ex pass port es gl [] = targets_loop env ex pass port es ?gl []" by (simp add: port(1))
  then have "get_targets env ex pass port [] names (Entries es) gl ts =
      rbind (targets_loop env ex pass port es ?gl []) (\<lambda>(gl', ts'). Inr (gl', set_subscriptions names ts'))"
    using assms(3) by (simp add: get_targets_def target_entries_def)
  moreover have "resolve g (t\<lparr>tc_subscriptions := Some names\<rparr>) = (resolve g t)\<lparr>tc_subscriptions := Some names\<rparr>" for g t
    by (simp add: resolve_def)
  ultimately have "resolve_all (get_targets env ex pass port [] names (Entries es) gl ts) =
      rbind (resolve_all (targets_loop env ex pass port es ?gl [])) (\<lambda>vs. Inr (map (\<lambda>(n, v). (n, with_subscriptions names v)) vs))"
    by (auto simp: resolve_all_def rbind_def set_subscriptions_def with_subscriptions_def split: sum.splits)
  then show ?thesis by (simp only: loop)
qed

definition sample_flags :: gflags where
  "sample_flags = \<lparr>gl_port = ''57400'', gl_username = ''admin'', gl_password = ''pw'', gl_token = [], gl_auth_scheme = [],
    gl_timeout = 10, gl_insecure = False, gl_skip_verify = True, gl_tls_ca = ''/ca.pem'', gl_tls_cert = [], gl_tls_key = [],
    gl_retry = 5, gl_tls_version = [], gl_tls_min_version = [], gl_tls_max_version = [], gl_tls_server_name = [],
    gl_log_tls_secret = False, gl_tls_reload = True, gl_gzip = False, gl_metadata = None, gl_tunnel_server = False\<rparr>"

definition sample_entries :: "(string \<times> pconf res) list" where
  "sample_entries = [(''r1'', Inr (zero_config\<lparr>tc_password := Own ''$PW''\<rparr>)), (''r2'', Inr zero_config)]"

text \<open>The flags name a variable for the password, which both targets without one of their own expand.\<close>

definition variable_flags :: gflags where
  "variable_flags = sample_flags\<lparr>gl_password := ''$PW''\<rparr>"

theorem targets_independent_witness:
  "resolve_all (get_targets (\<lambda>_. ''secret'') Inr (\<lambda>_. []) [] [] [''s1''] (Entries sample_entries) variable_flags []) =
    rbind (rmap (target_result (\<lambda>_. ''secret'') Inr (\<lambda>_. []) (default_port [] variable_flags)) sample_entries)
      (\<lambda>vs. Inr (map (\<lambda>(n, v). (n, with_subscriptions [''s1''] v)) vs))"
proof (rule targets_independent)
  have "expand_password (\<lambda>_. ''secret'') (expand_password (\<lambda>_. ''secret'') ''$PW'') = expand_password (\<lambda>_. ''secret'') ''$PW''"
    by code_simp
  then show "settling_flags (\<lambda>_. ''secret'') Inr variable_flags"
    by (simp add: settling_flags_def variable_flags_def sample_flags_def cert_settles_def expand_plain)
qed (auto simp: sample_entries_def zero_config_def decoded_def wf_gmap_def)

text \<open>
  The password of the flags names a variable whose value begins with a dollar sign: the second
  target without a password of its own expands it once more, for both of them.
\<close>

lemma expand_password_twice:
  "expand_password (\<lambda>v. if v = ''PW'' then ''$ecret'' else []) ''$PW'' = ''$ecret'' \<and>
   expand_password (\<lambda>v. if v = ''PW'' then ''$ecret'' else []) ''$ecret'' = []"
  by code_simp

lemma shared_password_expanded_twice:
  fixes env defines "env \<equiv> \<lambda>v. if v = ''PW'' then ''$ecret'' else []"
  assumes "gl_password gl = ''$PW''" and "tc_password tc1 = Flag" and "tc_password tc2 = Flag"
  shows "deref (gl_password (expand_flags_of env gl tc1)) (tc_password tc1) = Some ''$ecret''"
    and "deref (gl_password (expand_flags_of env (expand_flags_of env gl tc1) tc2)) (tc_password tc1) = Some []"
  using assms(2-4) expand_password_twice
  by (simp_all add: env_def expand_flags_of_def write_ptr_def deref_def)

section \<open>Addresses with their ports\<close>

definition plain_port :: "string \<Rightarrow> bool" where
  "plain_port port \<longleftrightarrow> set port \<inter> {colon, lbr, rbr, CHR '',''} = {}"

lemma contains_suffix: "contains (s @ sub) sub"
proof -
  have "index_sub sub (s @ sub) \<noteq> None"
  proof (induction s)
    case Nil
    then show ?case by (cases sub) (auto simp: has_prefix_def)
  next
    case (Cons c s)
    then show ?case by (auto split: option.splits)
  qed
  then show ?thesis by (simp add: contains_def)
qed

lemma contains_addr_err: "addr_err addr why = Inl err \<Longrightarrow> contains err why"
  using contains_suffix [of "''address '' @ addr @ '': ''" why] by (auto simp: addr_err_def)

lemma split_plain_error:
  assumes "lbr \<notin> set a" and "rbr \<notin> set a" and "split_host_port a = Inl err"
  shows "contains err missing_port \<or> contains err too_many_colons"
proof (cases "last_index colon a")
  case None
  with assms(3) show ?thesis by (auto simp: split_host_port_def dest: contains_addr_err)
next
  case (Some i)
  then have "a \<noteq> []" by (auto simp: last_index_def)
  with assms(1) have "a ! 0 \<noteq> lbr" by (cases a) auto
  with Some assms show ?thesis by (auto simp: split_host_port_def dest: contains_addr_err split: if_splits)
qed

lemma default_host_port_ok:
  assumes "lbr \<notin> set a" and "rbr \<notin> set a" and "plain_port port"
  shows "\<exists>x h p. default_host_port port a = Inr x \<and> x \<in> {a, join_host_port a port} \<and> split_host_port x = Inr (h, p) \<and>
    default_host_port port x = Inr x"
proof (cases "split_host_port a")
  case (Inl err)
  have "split_host_port (join_host_port a port) = Inr (a, port)"
    using assms by (intro split_join_host_port) (auto simp: plain_port_def)
  with split_plain_error [OF assms(1,2) Inl] Inl show ?thesis
    by (intro exI [of _ "join_host_port a port"] exI [of _ a] exI [of _ port]) (simp add: default_host_port_def)
next
  case (Inr hp)
  then show ?thesis by (cases hp) (simp add: default_host_port_def)
qed

lemma set_drop_spaces: "set (drop_spaces n ws s) \<subseteq> set s"
proof (induction n arbitrary: s)
  case (Suc n)
  show ?case
    using order_trans [OF Suc.IH set_drop_subset] by (simp split: option.splits)
qed simp

lemma set_trim_space: "set (trim_space s) \<subseteq> set s"
  unfolding trim_space_def Let_def set_rev
  by (rule order_trans [OF set_drop_spaces]) (simp add: set_drop_spaces)

text \<open>Every address of a target without brackets gets a port when it has none, an IPv6 address its brackets with
  it, and can then be split into host and port; an address that has a port is kept, and applying the
  defaults again changes nothing. No address is lost or reordered.\<close>

theorem addresses_have_ports:
  assumes "\<not> has_prefix addr ''unix://''" and "lbr \<notin> set addr" and "rbr \<notin> set addr"
    and "plain_port (gl_port gl)" and "\<not> gl_tunnel_server gl"
  shows "\<exists>addr'. default_address gl addr = Inr addr' \<and>
    list_all2 (\<lambda>a x. (\<exists>h p. split_host_port x = Inr (h, p)) \<and> x \<in> {trim_space a, join_host_port (trim_space a) (gl_port gl)} \<and>
        default_host_port (gl_port gl) x = Inr x)
      (split_char CHR '','' addr) (split_char CHR '','' addr')"
proof -
  let ?as = "split_char CHR '','' addr"
  have el: "set a \<subseteq> set addr \<and> CHR '','' \<notin> set a" if "a \<in> set ?as" for a
    using that split_char_elem [OF that] join_split_char [of "CHR '',''" addr] set_split_char [of a "CHR '',''" addr] by auto
  have ok: "\<exists>x h p. default_host_port (gl_port gl) (trim_space a) = Inr x \<and> x \<in> {trim_space a, join_host_port (trim_space a) (gl_port gl)} \<and>
      split_host_port x = Inr (h, p) \<and> default_host_port (gl_port gl) x = Inr x" if "a \<in> set ?as" for a
    by (rule default_host_port_ok) (use el [OF that] set_trim_space [of a] assms in auto)
  define f where "f a = (SOME x. default_host_port (gl_port gl) (trim_space a) = Inr x)" for a
  have f: "default_host_port (gl_port gl) (trim_space a) = Inr (f a)" if "a \<in> set ?as" for a
    using ok [OF that] by (auto simp: f_def)
  then have "rmap (\<lambda>a. default_host_port (gl_port gl) (trim_space a)) ?as = Inr (map f ?as)"
    by (simp add: rmap_Inr_iff list_all2_map2 list_all2_same)
  then have d: "default_address gl addr = Inr (join '','' (map f ?as))"
    using assms(1,5) by (simp add: default_address_def)
  have fa: "(\<exists>h p. split_host_port (f a) = Inr (h, p)) \<and> f a \<in> {trim_space a, join_host_port (trim_space a) (gl_port gl)} \<and>
      default_host_port (gl_port gl) (f a) = Inr (f a)" if "a \<in> set ?as" for a
    using ok [OF that] f [OF that] by auto
  have "CHR '','' \<notin> set (f a)" if "a \<in> set ?as" for a
    using fa [OF that] el [OF that] set_trim_space [of a] assms(4)
    by (auto simp: join_host_port_def plain_port_def split: if_splits)
  then have "split_char CHR '','' (join '','' (map f ?as)) = map f ?as"
    by (intro split_join_char) auto
  with d fa show ?thesis by (simp add: list_all2_map2 list_all2_same)
qed

theorem addresses_have_ports_witness:
  "\<exists>addr'. default_address sample_flags ''10.0.0.1,fe80::1,r1:830'' = Inr addr' \<and>
    length (split_char CHR '','' addr') = length (split_char CHR '','' ''10.0.0.1,fe80::1,r1:830'')"
proof -
  have "plain_port (gl_port sample_flags)" "\<not> gl_tunnel_server sample_flags"
    by (simp_all add: sample_flags_def plain_port_def)
  from addresses_have_ports [OF _ _ _ this, of "''10.0.0.1,fe80::1,r1:830''"] show ?thesis
    by (auto simp: has_prefix_def dest!: list_all2_lengthD)
qed

text \<open>A bracketed IPv6 address without a port gets a second pair of brackets.\<close>

lemma bracketed_twice:
  "default_host_port ''57400'' ''[::1]'' = Inr ''[[::1]]:57400'' \<and>
   (case split_host_port ''[[::1]]:57400'' of Inl _ \<Rightarrow> True | Inr _ \<Rightarrow> False)"
  by code_simp

end
