(* ===== verification/Config_Subscriptions.thy ===== *)
theory Config_Subscriptions
  imports Gnmi_Subscribe Go_Env
begin

text \<open>
  The subscriptions of the configuration, \<open>pkg/config/subscriptions.go\<close>: made from flags, or
  decoded from the file, completed from flags, expanded, selected by name and checked for modes
  that cannot be mixed. The decoder and the parser of times are parameters; a flag that was not
  given on the command line is \<open>None\<close>.
\<close>

record sub_flags =
  lf_path :: "string list"
  lf_name :: "string list"
  lf_prefix :: string
  lf_target :: string
  lf_set_target :: bool
  lf_mode :: string
  lf_stream_mode :: string
  lf_depth_value :: "32 word"
  lf_depth_set :: bool
  lf_qos :: "32 word option"
  lf_heartbeat :: "64 word option"
  lf_sample :: "64 word option"
  lf_suppress :: bool
  lf_updates_only :: bool
  lf_model :: "string list option"
  lf_snapshot :: "string option"
  lf_start :: "string option"
  lf_end :: "string option"

type_synonym time_parser = "string \<Rightarrow> 64 word option res"

definition or_flag :: "'a option \<Rightarrow> 'a option \<Rightarrow> 'a option" where
  "or_flag v flag = (case v of None \<Rightarrow> flag | Some x \<Rightarrow> Some x)"

text \<open>A snapshot given by its flag.\<close>

definition snapshot_flag :: "time_parser \<Rightarrow> sub_flags \<Rightarrow> history_config option \<Rightarrow> history_config option res" where
  "snapshot_flag parse lf h =
    (case lf_snapshot lf of
      None \<Rightarrow> Inr h
    | Some t \<Rightarrow> rbind (parse t) (\<lambda>x. Inr (Some \<lparr>hc_snapshot = x, hc_start = None, hc_end = None\<rparr>)))"

definition range_flag :: "time_parser \<Rightarrow> sub_flags \<Rightarrow> history_config option \<Rightarrow> history_config option res" where
  "range_flag parse lf h =
    (case (lf_start lf, lf_end lf) of
      (Some a, Some b) \<Rightarrow>
        rbind (parse a) (\<lambda>x. rbind (parse b) (\<lambda>y. Inr (Some \<lparr>hc_snapshot = None, hc_start = x, hc_end = y\<rparr>)))
    | _ \<Rightarrow> Inr h)"

definition subscription_from_flags :: "time_parser \<Rightarrow> string \<Rightarrow> sub_flags \<Rightarrow> 'c sub_config res" where
  "subscription_from_flags parse name lf =
    rbind (snapshot_flag parse lf None) (\<lambda>h1.
    rbind (range_flag parse lf h1) (\<lambda>h.
      Inr \<lparr>sc_name = name, sc_models = lf_model lf, sc_prefix = lf_prefix lf, sc_target = lf_target lf,
        sc_set_target = lf_set_target lf, sc_paths = lf_path lf, sc_mode = lf_mode lf, sc_stream_mode = lf_stream_mode lf,
        sc_encoding = None, sc_qos = lf_qos lf, sc_sample_interval = lf_sample lf, sc_heartbeat_interval = lf_heartbeat lf,
        sc_suppress_redundant = lf_suppress lf, sc_updates_only = lf_updates_only lf, sc_history = h, sc_streams = None,
        sc_outputs = [], sc_depth = lf_depth_value lf\<rparr>))"

definition flag_mode :: "sub_flags \<Rightarrow> 'c sub_config \<Rightarrow> string" where
  "flag_mode lf sub = (if sc_mode sub = [] then lf_mode lf else sc_mode sub)"

definition fields_from_flags :: "time_parser \<Rightarrow> sub_flags \<Rightarrow> 'c sub_config \<Rightarrow> 'c sub_config res" where
  "fields_from_flags parse lf sub =
    (let sub1 = sub\<lparr>
      sc_sample_interval := or_flag (sc_sample_interval sub) (lf_sample lf),
      sc_heartbeat_interval := or_flag (sc_heartbeat_interval sub) (lf_heartbeat lf),
      sc_mode := flag_mode lf sub,
      sc_stream_mode := (if to_upper (flag_mode lf sub) = ''STREAM'' \<and> sc_stream_mode sub = [] then lf_stream_mode lf
        else sc_stream_mode sub),
      sc_qos := or_flag (sc_qos sub) (lf_qos lf),
      sc_depth := (if lf_depth_set lf then lf_depth_value lf else sc_depth sub)\<rparr>
     in rbind (if sc_history sub = None then snapshot_flag parse lf None else Inr (sc_history sub)) (\<lambda>h1.
        rbind (if h1 = None then range_flag parse lf None else Inr h1) (\<lambda>h. Inr (sub1\<lparr>sc_history := h\<rparr>))))"

definition expand_subscription_env :: "(string \<Rightarrow> string) \<Rightarrow> 'c sub_config \<Rightarrow> 'c sub_config" where
  "expand_subscription_env env sc = sc\<lparr>
    sc_name := expand env (sc_name sc),
    sc_models := map_option (map (expand env)) (sc_models sc),
    sc_prefix := expand env (sc_prefix sc),
    sc_target := expand env (sc_target sc),
    sc_paths := map (expand env) (sc_paths sc),
    sc_mode := expand env (sc_mode sc),
    sc_stream_mode := expand env (sc_stream_mode sc),
    sc_encoding := map_option (expand env) (sc_encoding sc)\<rparr>"

definition decode_subscription :: "(string \<Rightarrow> string) \<Rightarrow> time_parser \<Rightarrow> sub_flags \<Rightarrow> string \<Rightarrow> 'c sub_config \<Rightarrow> 'c sub_config res" where
  "decode_subscription env parse lf name sub =
    rbind (fields_from_flags parse lf (sub\<lparr>sc_name := name\<rparr>)) (\<lambda>s. Inr (expand_subscription_env env s))"

text \<open>Poll subscriptions stand alone.\<close>

definition has_mode :: "string \<Rightarrow> 'c sub_config gmap \<Rightarrow> bool" where
  "has_mode m subs \<longleftrightarrow> list_ex (\<lambda>(n, sc). to_upper (sc_mode sc) = m) subs"

definition validate_subscriptions :: "'c sub_config gmap \<Rightarrow> string option" where
  "validate_subscriptions subs =
    (if has_mode ''POLL'' subs \<and> has_mode ''ONCE'' subs \<or> has_mode ''POLL'' subs \<and> has_mode ''STREAM'' subs
     then Some ''subscriptions with mode Poll cannot be mixed with Stream or Once'' else None)"

definition validated :: "'c sub_config gmap \<Rightarrow> 'c sub_config gmap res" where
  "validated subs = (case validate_subscriptions subs of Some err \<Rightarrow> Inl err | None \<Rightarrow> Inr subs)"

fun file_subscriptions ::
  "(string \<Rightarrow> string) \<Rightarrow> time_parser \<Rightarrow> sub_flags \<Rightarrow> (string \<times> 'c sub_config res) list \<Rightarrow> 'c sub_config gmap \<Rightarrow> 'c sub_config gmap res" where
  "file_subscriptions env parse lf [] subs = Inr subs"
| "file_subscriptions env parse lf ((n, entry) # es) subs =
    rbind entry (\<lambda>s. rbind (decode_subscription env parse lf n s) (\<lambda>sub. file_subscriptions env parse lf es (gset n sub subs)))"

fun select_named :: "'c sub_config gmap \<Rightarrow> string list \<Rightarrow> 'c sub_config gmap \<times> string list \<Rightarrow> 'c sub_config gmap \<times> string list" where
  "select_named subs [] acc = acc"
| "select_named subs (n # ns) (found, missing) =
    (case map_of subs n of
      Some s \<Rightarrow> select_named subs ns (gset n s found, missing)
    | None \<Rightarrow> select_named subs ns (found, missing @ [n]))"

definition get_subscriptions ::
  "(string \<Rightarrow> string) \<Rightarrow> time_parser \<Rightarrow> sub_flags \<Rightarrow> string \<Rightarrow> (string \<times> 'c sub_config res) list \<Rightarrow> 'c sub_config gmap \<Rightarrow>
   'c sub_config gmap res" where
  "get_subscriptions env parse lf def_name file subs =
    (if lf_path lf \<noteq> [] \<and> lf_name lf \<noteq> [] then Inl ''flags --path and --name cannot be mixed''
     else if lf_path lf \<noteq> [] then rbind (subscription_from_flags parse def_name lf) (\<lambda>s. Inr (gset def_name s subs))
     else rbind (file_subscriptions env parse lf file subs) (\<lambda>all.
       if lf_name lf = [] then validated all
       else (case select_named all (lf_name lf) ([], []) of (found, missing) \<Rightarrow>
         if missing \<noteq> [] then Inl ''named subscription(s) not found in config file'' else validated found)))"

section \<open>Selection by name\<close>

lemma select_named_eq:
  "snd (select_named subs ns (found, missing)) = missing @ filter (\<lambda>n. map_of subs n = None) ns"
  "map_of (fst (select_named subs ns (found, missing))) n =
    (if n \<in> set ns \<and> map_of subs n \<noteq> None then map_of subs n else map_of found n)"
  by (induction ns arbitrary: found missing) (auto split: option.splits)

lemma select_named_subset:
  "set (fst (select_named subs ns (found, missing))) \<subseteq> set found \<union> {(n, s). n \<in> set ns \<and> map_of subs n = Some s}"
proof (induction ns arbitrary: found missing)
  case (Cons n ns)
  show ?case
  proof (cases "map_of subs n")
    case (Some s)
    have "set (gset n s found) \<subseteq> insert (n, s) (set found)" by (induction found) auto
    with Cons.IH [of "gset n s found" missing] Some show ?thesis by auto
  qed (use Cons.IH [of found "missing @ [n]"] in auto)
qed simp

text \<open>With names on the command line, the subscriptions are exactly the named ones, each as the file and the flags
  define it, and there is an error exactly when a name is not defined or a poll subscription is
  named together with one of another mode.\<close>

theorem named_subscriptions:
  assumes "lf_path lf = []" and "lf_name lf \<noteq> []" and "file_subscriptions env parse lf file subs = Inr all"
  shows "case get_subscriptions env parse lf def_name file subs of
      Inr res \<Rightarrow> (\<forall>n. map_of res n = (if n \<in> set (lf_name lf) then map_of all n else None)) \<and>
        (\<forall>n \<in> set (lf_name lf). map_of all n \<noteq> None) \<and> validate_subscriptions res = None
    | Inl err \<Rightarrow> (\<exists>n \<in> set (lf_name lf). map_of all n = None) \<or>
        (\<exists>n \<in> set (lf_name lf). \<exists>k \<in> set (lf_name lf). \<exists>p s. map_of all n = Some p \<and> map_of all k = Some s \<and>
          to_upper (sc_mode p) = ''POLL'' \<and> to_upper (sc_mode s) \<in> {''ONCE'', ''STREAM''})"
proof -
  obtain found missing where sel: "select_named all (lf_name lf) ([], []) = (found, missing)" by fastforce
  have miss: "missing = filter (\<lambda>n. map_of all n = None) (lf_name lf)"
    using select_named_eq(1) [of all "lf_name lf" "[]" "[]"] sel by simp
  have fnd: "map_of found n = (if n \<in> set (lf_name lf) \<and> map_of all n \<noteq> None then map_of all n else None)" for n
    using select_named_eq(2) [of all "lf_name lf" "[]" "[]" n] sel by simp
  have sub: "set found \<subseteq> {(n, s). n \<in> set (lf_name lf) \<and> map_of all n = Some s}"
    using select_named_subset [of all "lf_name lf" "[]" "[]"] sel by simp
  have get: "get_subscriptions env parse lf def_name file subs =
      (if missing \<noteq> [] then Inl ''named subscription(s) not found in config file'' else validated found)"
    using assms sel by (simp add: get_subscriptions_def)
  show ?thesis
  proof (cases "missing = []")
    case False
    then have "\<exists>n \<in> set (lf_name lf). map_of all n = None" by (auto simp: miss filter_empty_conv)
    with False show ?thesis by (simp add: get)
  next
    case True
    then have def_all: "map_of all n \<noteq> None" if "n \<in> set (lf_name lf)" for n
      using that by (auto simp: miss filter_empty_conv)
    show ?thesis
    proof (cases "validate_subscriptions found")
      case None
      with True fnd def_all show ?thesis by (auto simp: get validated_def)
    next
      case (Some err)
      then obtain n p k s where "(n, p) \<in> set found" "(k, s) \<in> set found" "to_upper (sc_mode p) = ''POLL''"
        "to_upper (sc_mode s) \<in> {''ONCE'', ''STREAM''}"
        by (auto simp: validate_subscriptions_def has_mode_def list_ex_iff split: if_splits)
      with sub have "\<exists>n \<in> set (lf_name lf). \<exists>k \<in> set (lf_name lf). \<exists>p s. map_of all n = Some p \<and> map_of all k = Some s \<and>
          to_upper (sc_mode p) = ''POLL'' \<and> to_upper (sc_mode s) \<in> {''ONCE'', ''STREAM''}" by blast
      with True Some show ?thesis by (simp add: get validated_def)
    qed
  qed
qed

definition no_flags :: sub_flags where
  "no_flags = \<lparr>lf_path = [], lf_name = [''a''], lf_prefix = [], lf_target = [], lf_set_target = False, lf_mode = ''stream'',
    lf_stream_mode = ''target-defined'', lf_depth_value = 0, lf_depth_set = False, lf_qos = None, lf_heartbeat = None,
    lf_sample = None, lf_suppress = False, lf_updates_only = False, lf_model = None, lf_snapshot = None, lf_start = None,
    lf_end = None\<rparr>"

theorem named_subscriptions_witness:
  "case get_subscriptions id (\<lambda>_. Inl []) no_flags [] [] [(''a'', sample_sub), (''b'', sample_sub\<lparr>sc_mode := ''poll''\<rparr>)] of
    Inr res \<Rightarrow> map_of res ''a'' = Some sample_sub \<and> map_of res ''b'' = None
  | Inl _ \<Rightarrow> False"
proof -
  let ?all = "[(''a'', sample_sub), (''b'', sample_sub\<lparr>sc_mode := ''poll''\<rparr>)]"
  have "file_subscriptions id (\<lambda>_. Inl []) no_flags [] ?all = Inr ?all" by simp
  from named_subscriptions [OF _ _ this, of "[]"]
  show ?thesis
    by (auto simp: no_flags_def sample_sub_def split: sum.splits)
qed

end
