(* ===== verification/Targets_Manager.thy ===== *)
theory Targets_Manager
  imports Target_Config Gnmi_Subscribe Go_Fnv
begin

text \<open>
  The manager of targets of the collector, \<open>pkg/collector/managers/targets/targets_manager.go\<close> and
  \<open>cluster.go\<close>: it starts, changes, retries and stops targets as the stores of configurations
  change. Operations that hold a target's lock are atomic; a connection, a capabilities request,
  the locker and the JSON encoder are the environment, whose answers may depend on a world that
  every call changes. A goroutine that keeps a target's lock and whose context is cancelled stops
  the target later: it is a step of its own.
\<close>

section \<open>State\<close>

datatype tstate = Running | Stopped | Starting | FailedState | Paused | Stopping

datatype conn = NoConn | Open | Closed

type_synonym sub = "unit sub_config sub_config"

text \<open>The entry of a target in the store of states; its intended state follows from the state.\<close>

record tstatus =
  ts_state :: tstate
  ts_disabled :: bool
  ts_reason :: string

text \<open>Where the loop of retries of a target is: it waits, it probes with the configuration it has read, or a probe was answered.\<close>

datatype retry_phase = Waiting | Probing tconf | Probed

record mtarget =
  mt_cfg :: tconf \<comment> \<open>\<open>T.Config\<close>\<close>
  mt_conn :: conn
  mt_subs :: "string list" \<comment> \<open>keys of \<open>T.Subscriptions\<close>\<close>
  mt_readers :: "string list" \<comment> \<open>keys of \<open>readersCfn\<close>\<close>
  mt_error :: string
  mt_outputs :: "string list" \<comment> \<open>keys of \<open>outputs\<close>\<close>
  mt_applied :: "string list" \<comment> \<open>\<open>appliedSubscriptions\<close>, which is never nil\<close>
  mt_event_tags :: "string nmap"
  mt_retry :: bool \<comment> \<open>\<open>retryCancel\<close> is set\<close>
  mt_phase :: retry_phase \<comment> \<open>of the loop that \<open>retryCancel\<close> belongs to\<close>
  mt_keeper :: bool \<comment> \<open>a goroutine keeps the lock of the current session\<close>
  mt_stale :: nat \<comment> \<open>such goroutines that are cancelled and have not stopped the target yet\<close>

record 'w mgr =
  mg_targets :: "mtarget gmap"
  mg_subs :: "sub gmap" \<comment> \<open>\<open>subscriptions\<close>\<close>
  mg_states :: "tstatus gmap" \<comment> \<open>the store of states\<close>
  mg_conf_targets :: "tconf gmap" \<comment> \<open>the store of configurations\<close>
  mg_conf_subs :: "sub gmap"
  mg_conf_outputs :: "string list"
  mg_encoding :: string \<comment> \<open>the default encoding\<close>
  mg_incluster :: bool
  mg_cluster :: string
  mg_assigned :: "string list"
  mg_detached :: "mtarget list" \<comment> \<open>removed targets, which goroutines may still hold\<close>
  mg_world :: 'w

section \<open>The part of a configuration that needs a new connection\<close>

record conn_spec =
  cs_address :: string
  cs_username :: string
  cs_password :: string
  cs_auth_scheme :: string
  cs_token :: string
  cs_proxy :: string
  cs_timeout :: int
  cs_tcp_keepalive :: int
  cs_grpc_keepalive :: "(int \<times> int \<times> bool) option"
  cs_insecure :: bool
  cs_tls_ca :: string
  cs_tls_cert :: string
  cs_tls_key :: string
  cs_skip_verify :: bool
  cs_tls_server_name :: string
  cs_tls_min_version :: string
  cs_tls_max_version :: string
  cs_tls_version :: string
  cs_cipher_suites :: "string list"
  cs_encoding :: string
  cs_gzip :: bool

definition val :: "'a \<Rightarrow> 'a option \<Rightarrow> 'a" where
  "val z p = (case p of None \<Rightarrow> z | Some x \<Rightarrow> x)"

definition conn_spec_from :: "tconf \<Rightarrow> conn_spec" where
  "conn_spec_from tc = \<lparr>cs_address = tc_address tc, cs_username = val [] (tc_username tc),
    cs_password = val [] (tc_password tc), cs_auth_scheme = tc_auth_scheme tc, cs_token = val [] (tc_token tc),
    cs_proxy = tc_proxy tc, cs_timeout = tc_timeout tc, cs_tcp_keepalive = tc_tcp_keepalive tc,
    cs_grpc_keepalive = tc_grpc_keepalive tc, cs_insecure = val False (tc_insecure tc), cs_tls_ca = val [] (tc_tls_ca tc),
    cs_tls_cert = val [] (tc_tls_cert tc), cs_tls_key = val [] (tc_tls_key tc), cs_skip_verify = val False (tc_skip_verify tc),
    cs_tls_server_name = tc_tls_server_name tc, cs_tls_min_version = tc_tls_min_version tc,
    cs_tls_max_version = tc_tls_max_version tc, cs_tls_version = tc_tls_version tc,
    cs_cipher_suites = sort (slice (tc_cipher_suites tc)), cs_encoding = val [] (tc_encoding tc), cs_gzip = val False (tc_gzip tc)\<rparr>"

text \<open>The environment: answers and the world after the call; \<open>None\<close> is no error.\<close>

record 'w tenv =
  te_json :: "conn_spec \<Rightarrow> string"
  te_lib :: proto_lib
  te_connect :: "tconf \<Rightarrow> 'w \<Rightarrow> string option \<times> 'w" \<comment> \<open>\<open>CreateGNMIClient\<close>\<close>
  te_capabilities :: "tconf \<Rightarrow> 'w \<Rightarrow> string option \<times> 'w"
  te_lock :: "string \<Rightarrow> 'w \<Rightarrow> bool res \<times> 'w"
  te_unlock :: "string \<Rightarrow> 'w \<Rightarrow> 'w"

definition hash_conn_spec :: "'w tenv \<Rightarrow> tconf \<Rightarrow> 64 word" where
  "hash_conn_spec e tc = fnv1a (te_json e (conn_spec_from tc))"

definition should_reconnect :: "'w tenv \<Rightarrow> tconf \<Rightarrow> tconf \<Rightarrow> bool" where
  "should_reconnect e old new \<longleftrightarrow> hash_conn_spec e old \<noteq> hash_conn_spec e new"

section \<open>States of targets\<close>

definition state_of :: "string \<Rightarrow> 'w mgr \<Rightarrow> tstate option" where
  "state_of n m = map_option ts_state (map_of (mg_states m) n)"

definition put :: "string \<Rightarrow> mtarget \<Rightarrow> 'w mgr \<Rightarrow> 'w mgr" where
  "put n mt m = m\<lparr>mg_targets := gset n mt (mg_targets m)\<rparr>"

text \<open>The reason is read from the target, when it is still known.\<close>

definition set_target_state :: "string \<Rightarrow> tstate \<Rightarrow> 'w mgr \<Rightarrow> 'w mgr" where
  "set_target_state n st m = m\<lparr>mg_states := gset n
    \<lparr>ts_state = st, ts_disabled = (st = Stopped),
     ts_reason = (case map_of (mg_targets m) n of None \<Rightarrow> [] | Some mt \<Rightarrow> mt_error mt)\<rparr> (mg_states m)\<rparr>"

text \<open>\<open>setLastError\<close> followed by \<open>setTargetState\<close>.\<close>

definition fail_target :: "string \<Rightarrow> string \<Rightarrow> mtarget \<Rightarrow> 'w mgr \<Rightarrow> mtarget \<times> 'w mgr" where
  "fail_target n err mt m =
    (let mt' = mt\<lparr>mt_error := err\<rparr> in (mt', set_target_state n FailedState (put n mt' m)))"

text \<open>The labels of metrics and log entries are left out.\<close>

definition new_managed_target :: "tconf \<Rightarrow> mtarget" where
  "new_managed_target cfg = \<lparr>mt_cfg = cfg, mt_conn = NoConn, mt_subs = [], mt_readers = [], mt_error = [],
    mt_outputs = remdups (slice (tc_outputs cfg)), mt_applied = [], mt_event_tags = tc_event_tags cfg, mt_retry = False, mt_phase = Waiting,
    mt_keeper = False, mt_stale = 0\<rparr>"

text \<open>
  \<open>closeClient\<close>: the context is cancelled, which ends the keeper of the lock, and the connection
  closed. No reader cancel function is ever set, so the readers are not waited for.
\<close>

definition close_client :: "mtarget \<Rightarrow> mtarget" where
  "close_client mt = mt\<lparr>mt_conn := (if mt_conn mt = NoConn then NoConn else Closed), mt_keeper := False,
    mt_stale := mt_stale mt + (if mt_keeper mt then 1 else 0)\<rparr>"

definition lock_key :: "string \<Rightarrow> string \<Rightarrow> string" where
  "lock_key cluster n = ''gnmic/'' @ cluster @ ''/targets/'' @ n"

definition unlock_target :: "'w tenv \<Rightarrow> string \<Rightarrow> 'w mgr \<Rightarrow> 'w mgr" where
  "unlock_target e n m = (if mg_incluster m then m\<lparr>mg_world := te_unlock e (lock_key (mg_cluster m) n) (mg_world m)\<rparr> else m)"

text \<open>\<open>stop\<close> of a target of the manager.\<close>

definition stop_target :: "'w tenv \<Rightarrow> string \<Rightarrow> mtarget \<Rightarrow> 'w mgr \<Rightarrow> mtarget \<times> 'w mgr" where
  "stop_target e n mt m =
    (if state_of n m = Some Stopped then (mt, m)
     else (let mt1 = mt\<lparr>mt_error := []\<rparr>;
               m1 = set_target_state n Stopping (put n mt1 m);
               mt2 = close_client mt1;
               m2 = set_target_state n Stopped (put n mt2 m1)
           in (mt2, unlock_target e n m2)))"

section \<open>Subscriptions of a target\<close>

definition insert_name :: "string \<Rightarrow> string list \<Rightarrow> string list" where
  "insert_name n ns = (if n \<in> set ns then ns else ns @ [n])"

definition target_info_of :: "tconf \<Rightarrow> target_info" where
  "target_info_of tc = \<lparr>ti_name = tc_name tc, ti_encoding = tc_encoding tc\<rparr>"

text \<open>Whether a request can be made for the subscription; the configuration gets its defaults.\<close>

definition request_for :: "'w tenv \<Rightarrow> 'w mgr \<Rightarrow> mtarget \<Rightarrow> sub \<Rightarrow> proto_msg mres \<times> sub" where
  "request_for e m mt cfg = create_subscribe_request (te_lib e) cfg (Some (target_info_of (mt_cfg mt))) (mg_encoding m)"

definition start_target_subscription :: "'w tenv \<Rightarrow> 'w mgr \<Rightarrow> string \<Rightarrow> sub \<Rightarrow> mtarget \<Rightarrow> mtarget" where
  "start_target_subscription e m s cfg mt =
    (case fst (request_for e m mt (cfg\<lparr>sc_name := s\<rparr>)) of
      Inl err \<Rightarrow> mt
    | Inr req \<Rightarrow> mt\<lparr>mt_subs := insert_name s (mt_subs mt), mt_readers := insert_name s (mt_readers mt)\<rparr>)"

definition stop_target_subscription :: "string \<Rightarrow> mtarget \<Rightarrow> mtarget" where
  "stop_target_subscription s mt = mt\<lparr>mt_readers := filter (\<lambda>r. r \<noteq> s) (mt_readers mt)\<rparr>"

definition delete_target_subscription :: "string \<Rightarrow> mtarget \<Rightarrow> mtarget" where
  "delete_target_subscription s mt = mt\<lparr>mt_subs := filter (\<lambda>r. r \<noteq> s) (mt_subs mt)\<rparr>"

text \<open>The manager's own map first, then the store.\<close>

definition find_subscription :: "string \<Rightarrow> 'w mgr \<Rightarrow> sub option" where
  "find_subscription s m = (case map_of (mg_subs m) s of Some c \<Rightarrow> Some c | None \<Rightarrow> map_of (mg_conf_subs m) s)"

fun start_subscriptions :: "'w tenv \<Rightarrow> 'w mgr \<Rightarrow> string list \<Rightarrow> mtarget \<Rightarrow> mtarget" where
  "start_subscriptions e m [] mt = mt"
| "start_subscriptions e m (s # ss) mt =
    start_subscriptions e m ss
      (case find_subscription s m of None \<Rightarrow> mt | Some cfg \<Rightarrow> start_target_subscription e m s cfg mt)"

section \<open>Starting a target\<close>

definition connect_target :: "'w tenv \<Rightarrow> mtarget \<Rightarrow> 'w mgr \<Rightarrow> string option \<times> 'w mgr" where
  "connect_target e mt m = (case te_connect e (mt_cfg mt) (mg_world m) of (r, w) \<Rightarrow> (r, m\<lparr>mg_world := w\<rparr>))"

definition capabilities :: "'w tenv \<Rightarrow> mtarget \<Rightarrow> 'w mgr \<Rightarrow> string option \<times> 'w mgr" where
  "capabilities e mt m = (case te_capabilities e (mt_cfg mt) (mg_world m) of (r, w) \<Rightarrow> (r, m\<lparr>mg_world := w\<rparr>))"

text \<open>The lock of a target, in a cluster. On failure the target is stopped.\<close>

definition acquire_lock :: "'w tenv \<Rightarrow> string \<Rightarrow> mtarget \<Rightarrow> 'w mgr \<Rightarrow> string option \<times> mtarget \<times> 'w mgr" where
  "acquire_lock e n mt m =
    (if \<not> mg_incluster m then (None, mt, m)
     else case te_lock e (lock_key (mg_cluster m) n) (mg_world m) of
       (Inr True, w) \<Rightarrow> (let mt' = mt\<lparr>mt_keeper := True\<rparr> in (None, mt', put n mt' (m\<lparr>mg_world := w\<rparr>)))
     | (Inr False, w) \<Rightarrow>
         (case fail_target n ''lock not acquired'' mt (m\<lparr>mg_world := w\<rparr>) of (mt', m') \<Rightarrow>
           (case stop_target e n mt' m' of (mt'', m'') \<Rightarrow> (Some ''lock not acquired for target'', mt'', m'')))
     | (Inl err, w) \<Rightarrow>
         (case fail_target n err mt (m\<lparr>mg_world := w\<rparr>) of (mt', m') \<Rightarrow>
           (case stop_target e n mt' m' of (mt'', m'') \<Rightarrow> (Some err, mt'', m''))))"

text \<open>A target without subscriptions of its own takes all that are known.\<close>

definition attach_subscriptions :: "'w tenv \<Rightarrow> string \<Rightarrow> mtarget \<Rightarrow> 'w mgr \<Rightarrow> mtarget \<times> 'w mgr" where
  "attach_subscriptions e n mt m =
    (let own = slice (tc_subscriptions (mt_cfg mt));
         known = map fst (mg_subs m);
         mt1 = (if own = [] then mt\<lparr>mt_applied := mt_applied mt @ known\<rparr> else mt);
         mt2 = start_subscriptions e m (if own = [] then known else own) mt1
     in (mt2, set_target_state n Running (put n mt2 m)))"

definition start_target :: "'w tenv \<Rightarrow> string \<Rightarrow> mtarget \<Rightarrow> 'w mgr \<Rightarrow> string option \<times> mtarget \<times> 'w mgr" where
  "start_target e n mt m =
    (if state_of n m = Some Running then (None, mt, m)
     else let mt1 = mt\<lparr>mt_error := []\<rparr>; m1 = set_target_state n Starting (put n mt1 m)
       in case connect_target e mt1 m1 of
         (Some err, m2) \<Rightarrow> (case fail_target n err mt1 m2 of (mt', m') \<Rightarrow> (Some err, mt', m'))
       | (None, m2) \<Rightarrow>
           (let mt2 = mt1\<lparr>mt_conn := Open\<rparr>
            in case acquire_lock e n mt2 (put n mt2 m2) of
              (Some err, mt3, m3) \<Rightarrow> (Some err, mt3, m3)
            | (None, mt3, m3) \<Rightarrow>
                (case capabilities e mt3 m3 of
                  (Some err, m4) \<Rightarrow> (case fail_target n err mt3 m4 of (mt', m') \<Rightarrow> (Some err, mt', m'))
                | (None, m4) \<Rightarrow>
                    (case attach_subscriptions e n mt3 (set_target_state n Running m4) of (mt', m') \<Rightarrow> (None, mt', m')))))"

section \<open>Changes of a configuration\<close>

text \<open>Added and removed names; an empty list stands for all names of the store.\<close>

definition diff_names :: "string list \<Rightarrow> string list \<Rightarrow> string list \<Rightarrow> string list \<times> string list" where
  "diff_names all old new =
    (let new' = (if new = [] then all else new); old' = (if old = [] then all else old)
     in (filter (\<lambda>s. s \<notin> set old') new', filter (\<lambda>s. s \<notin> set new') old'))"

definition compare_subscriptions :: "'w mgr \<Rightarrow> string list \<Rightarrow> string list \<Rightarrow> string list \<times> string list" where
  "compare_subscriptions m old new = diff_names (map fst (mg_conf_subs m)) old new"

definition compare_outputs :: "'w mgr \<Rightarrow> tconf \<Rightarrow> tconf \<Rightarrow> string list \<times> string list" where
  "compare_outputs m old new = diff_names (mg_conf_outputs m) (slice (tc_outputs old)) (slice (tc_outputs new))"

text \<open>Each added subscription is looked up in the store.\<close>

fun add_subscriptions :: "'w tenv \<Rightarrow> 'w mgr \<Rightarrow> string list \<Rightarrow> mtarget \<Rightarrow> mtarget" where
  "add_subscriptions e m [] mt = mt"
| "add_subscriptions e m (s # ss) mt =
    add_subscriptions e m ss
      (case map_of (mg_conf_subs m) s of
        None \<Rightarrow> mt
      | Some cfg \<Rightarrow> start_target_subscription e m s cfg (mt\<lparr>mt_applied := mt_applied mt @ [s]\<rparr>))"

fun remove_subscriptions :: "string list \<Rightarrow> mtarget \<Rightarrow> mtarget" where
  "remove_subscriptions [] mt = mt"
| "remove_subscriptions (s # ss) mt =
    remove_subscriptions ss
      ((delete_target_subscription s (stop_target_subscription s mt))\<lparr>mt_applied := filter (\<lambda>x. x \<noteq> s) (mt_applied mt)\<rparr>)"

text \<open>\<open>reflect.DeepEqual\<close> tells a nil slice from an empty one.\<close>

definition update_subscriptions :: "'w tenv \<Rightarrow> 'w mgr \<Rightarrow> tconf \<Rightarrow> mtarget \<Rightarrow> mtarget" where
  "update_subscriptions e m cfg mt =
    (if Some (mt_applied mt) = tc_subscriptions cfg then mt
     else (case compare_subscriptions m (slice (tc_subscriptions (mt_cfg mt))) (slice (tc_subscriptions cfg)) of
       (added, removed) \<Rightarrow>
         (let mt1 = remove_subscriptions removed (add_subscriptions e m added mt)
          in mt1\<lparr>mt_cfg := (mt_cfg mt1)\<lparr>tc_subscriptions := tc_subscriptions cfg\<rparr>\<rparr>)))"

definition update_outputs :: "'w mgr \<Rightarrow> tconf \<Rightarrow> mtarget \<Rightarrow> mtarget" where
  "update_outputs m cfg mt =
    (if tc_outputs (mt_cfg mt) = tc_outputs cfg then mt
     else (case compare_outputs m (mt_cfg mt) cfg of
       (added, removed) \<Rightarrow>
         mt\<lparr>mt_outputs := filter (\<lambda>x. x \<notin> set removed) (fold insert_name added (mt_outputs mt)),
            mt_cfg := (mt_cfg mt)\<lparr>tc_outputs := tc_outputs cfg\<rparr>\<rparr>))"

definition set_event_tags :: "string nmap \<Rightarrow> mtarget \<Rightarrow> mtarget" where
  "set_event_tags tags mt = mt\<lparr>mt_event_tags := tags, mt_cfg := (mt_cfg mt)\<lparr>tc_event_tags := tags\<rparr>\<rparr>"

definition update_event_tags :: "tconf \<Rightarrow> mtarget \<Rightarrow> mtarget" where
  "update_event_tags cfg mt =
    (if maps_equal (mt_event_tags mt) (tc_event_tags cfg) then mt else set_event_tags (tc_event_tags cfg) mt)"

definition update_in_place :: "'w tenv \<Rightarrow> 'w mgr \<Rightarrow> tconf \<Rightarrow> mtarget \<Rightarrow> mtarget" where
  "update_in_place e m cfg mt = update_event_tags cfg (update_outputs m cfg (update_subscriptions e m cfg mt))"

text \<open>A loop of retries that is pending goes on; otherwise one is started.\<close>

definition schedule_retry :: "mtarget \<Rightarrow> mtarget" where
  "schedule_retry mt = (if mt_retry mt then mt else mt\<lparr>mt_retry := True, mt_phase := Waiting\<rparr>)"

text \<open>A start whose failure is recorded and retried.\<close>

definition start_or_retry :: "'w tenv \<Rightarrow> string \<Rightarrow> mtarget \<Rightarrow> 'w mgr \<Rightarrow> string option \<times> mtarget \<times> 'w mgr" where
  "start_or_retry e n mt m =
    (case start_target e n mt m of
      (None, mt', m') \<Rightarrow> (None, mt', m')
    | (Some err, mt', m') \<Rightarrow>
        (case fail_target n err mt' m' of (mt'', m'') \<Rightarrow> (Some err, schedule_retry mt'', put n (schedule_retry mt'') m'')))"

definition reconnect :: "'w tenv \<Rightarrow> string \<Rightarrow> tconf \<Rightarrow> mtarget \<Rightarrow> 'w mgr \<Rightarrow> 'w mgr" where
  "reconnect e n cfg mt m =
    (case stop_target e n mt m of (mt1, m1) \<Rightarrow>
      (let mt2 = set_event_tags (tc_event_tags cfg) (mt1\<lparr>mt_cfg := cfg\<rparr>)
       in snd (snd (start_or_retry e n mt2 (put n mt2 m1)))))"

definition create_target :: "'w tenv \<Rightarrow> string \<Rightarrow> tconf \<Rightarrow> 'w mgr \<Rightarrow> 'w mgr" where
  "create_target e n cfg m =
    (let mt = new_managed_target cfg
     in case start_or_retry e n mt (put n mt m) of
       (Some err, mt', m') \<Rightarrow> m'
     | (None, mt', m') \<Rightarrow> (let mt'' = mt'\<lparr>mt_error := []\<rparr> in set_target_state n Running (put n mt'' m')))"

text \<open>\<open>apply\<close>. A copy of the configuration is kept; \<open>fresh\<close> gives its addresses.\<close>

definition apply_target :: "'w tenv \<Rightarrow> (nat \<Rightarrow> nat) \<Rightarrow> string \<Rightarrow> tconf \<Rightarrow> 'w mgr \<Rightarrow> 'w mgr" where
  "apply_target e fresh n cfg m =
    (case map_of (mg_targets m) n of
      None \<Rightarrow> create_target e n (deep_copy fresh cfg) m
    | Some mt \<Rightarrow>
        if config_equal (mt_cfg mt) cfg then m
        else if should_reconnect e (mt_cfg mt) cfg then reconnect e n cfg mt m
        else put n (update_in_place e m cfg mt) m)"

definition remove_target :: "'w tenv \<Rightarrow> string \<Rightarrow> 'w mgr \<Rightarrow> 'w mgr" where
  "remove_target e n m =
    (let m1 = m\<lparr>mg_targets := gdel n (mg_targets m)\<rparr>;
         m2 = (case map_of (mg_targets m) n of
           None \<Rightarrow> m1
         | Some mt \<Rightarrow>
             if state_of n m = Some Stopped then m1\<lparr>mg_detached := mt\<lparr>mt_retry := False\<rparr> # mg_detached m\<rparr>
             else (unlock_target e n m1)\<lparr>
               mg_detached := (close_client mt)\<lparr>mt_retry := False, mt_error := []\<rparr> # mg_detached m\<rparr>)
     in m2\<lparr>mg_states := gdel n (mg_states m2)\<rparr>)"

section \<open>Changes of subscriptions\<close>

definition takes_subscription :: "string \<Rightarrow> mtarget \<Rightarrow> bool" where
  "takes_subscription s mt \<longleftrightarrow>
    slice (tc_subscriptions (mt_cfg mt)) = [] \<or> s \<in> set (slice (tc_subscriptions (mt_cfg mt)))"

definition restart_subscription :: "'w tenv \<Rightarrow> 'w mgr \<Rightarrow> string \<Rightarrow> sub \<Rightarrow> mtarget \<Rightarrow> mtarget" where
  "restart_subscription e m s cfg mt =
    (let mt1 = stop_target_subscription s mt
     in start_target_subscription e m s cfg (mt1\<lparr>mt_subs := insert_name s (mt_subs mt1)\<rparr>))"

definition apply_subscription :: "'w tenv \<Rightarrow> string \<Rightarrow> sub \<Rightarrow> 'w mgr \<Rightarrow> 'w mgr" where
  "apply_subscription e s cfg m =
    (let m1 = m\<lparr>mg_subs := gset s (cfg\<lparr>sc_name := s\<rparr>) (mg_subs m)\<rparr>
     in m1\<lparr>mg_targets := map (\<lambda>(n, mt). (n, if takes_subscription s mt then restart_subscription e m1 s cfg mt else mt)) (mg_targets m)\<rparr>)"

definition remove_subscription :: "string \<Rightarrow> 'w mgr \<Rightarrow> 'w mgr" where
  "remove_subscription s m = m\<lparr>mg_subs := gdel s (mg_subs m),
    mg_targets := map (\<lambda>(n, mt). (n, delete_target_subscription s (stop_target_subscription s mt))) (mg_targets m)\<rparr>"

section \<open>Retries, intended states and assignments\<close>

definition assigned_here :: "string \<Rightarrow> 'w mgr \<Rightarrow> bool" where
  "assigned_here n m \<longleftrightarrow> (if mg_incluster m then n \<in> set (mg_assigned m) else True)"

definition retry_wanted :: "string \<Rightarrow> 'w mgr \<Rightarrow> bool" where
  "retry_wanted n m \<longleftrightarrow> assigned_here n m \<and> state_of n m = Some FailedState"

text \<open>The delay between attempts: the retry timer and a random part of at most a fifth of it.\<close>

definition retry_delay :: "int \<Rightarrow> mtarget \<Rightarrow> int" where
  "retry_delay rnd mt =
    (let d = (if 0 < tc_retry_timer (mt_cfg mt) then tc_retry_timer (mt_cfg mt) else 10 * 10 ^ 9) in d + rnd mod (d div 5 + 1))"

text \<open>
  A round of \<open>retryLoop\<close> is three steps, between which the target's lock is free: after the delay the
  loop looks whether a retry is wanted; a probe with a client of its own ends, and its error is
  recorded; under the lock the state is looked at again and the target started. A loop that was
  cancelled does none of them.
\<close>

definition probe :: "'w tenv \<Rightarrow> tconf \<Rightarrow> 'w mgr \<Rightarrow> string option \<times> 'w mgr" where
  "probe e cfg m =
    (case te_connect e cfg (mg_world m) of
      (Some err, w) \<Rightarrow> (Some err, m\<lparr>mg_world := w\<rparr>)
    | (None, w) \<Rightarrow> (case te_capabilities e cfg w of (r, w') \<Rightarrow> (r, m\<lparr>mg_world := w'\<rparr>)))"

definition retry_wake :: "string \<Rightarrow> 'w mgr \<Rightarrow> 'w mgr" where
  "retry_wake n m =
    (case map_of (mg_targets m) n of
      None \<Rightarrow> m
    | Some mt \<Rightarrow>
        if \<not> mt_retry mt \<or> mt_phase mt \<noteq> Waiting then m
        else if \<not> retry_wanted n m then put n (mt\<lparr>mt_retry := False\<rparr>) m
        else put n (mt\<lparr>mt_phase := Probing (mt_cfg mt)\<rparr>) m)"

definition retry_probe :: "'w tenv \<Rightarrow> string \<Rightarrow> 'w mgr \<Rightarrow> 'w mgr" where
  "retry_probe e n m =
    (case map_of (mg_targets m) n of
      None \<Rightarrow> m
    | Some mt \<Rightarrow>
        if \<not> mt_retry mt then m
        else (case mt_phase mt of
          Probing cfg \<Rightarrow>
            (case probe e cfg m of
              (Some err, m1) \<Rightarrow> snd (fail_target n err (mt\<lparr>mt_phase := Waiting\<rparr>) m1)
            | (None, m1) \<Rightarrow> put n (mt\<lparr>mt_phase := Probed\<rparr>) m1)
        | _ \<Rightarrow> m))"

definition retry_start :: "'w tenv \<Rightarrow> string \<Rightarrow> 'w mgr \<Rightarrow> 'w mgr" where
  "retry_start e n m =
    (case map_of (mg_targets m) n of
      None \<Rightarrow> m
    | Some mt \<Rightarrow>
        if \<not> mt_retry mt \<or> mt_phase mt \<noteq> Probed then m
        else if state_of n m \<noteq> Some FailedState then put n (mt\<lparr>mt_retry := False\<rparr>) m
        else (let mt1 = close_client mt
          in case start_target e n mt1 (put n mt1 m) of
            (Some err, mt2, m2) \<Rightarrow> snd (fail_target n err (mt2\<lparr>mt_phase := Waiting\<rparr>) m2)
          | (None, mt2, m2) \<Rightarrow> put n (mt2\<lparr>mt_retry := False\<rparr>) m2))"

definition cancel_retry :: "mtarget \<Rightarrow> mtarget" where
  "cancel_retry mt = mt\<lparr>mt_retry := False\<rparr>"

definition enable_target :: "'w tenv \<Rightarrow> string \<Rightarrow> mtarget \<Rightarrow> 'w mgr \<Rightarrow> 'w mgr" where
  "enable_target e n mt m =
    (if state_of n m \<in> {Some Running, Some Starting} then m
     else (let mt1 = (if state_of n m = Some FailedState then close_client (cancel_retry mt) else mt)
       in case start_target e n mt1 (put n mt1 m) of
         (None, mt2, m2) \<Rightarrow> m2
       | (Some err, mt2, m2) \<Rightarrow> put n (schedule_retry (mt2\<lparr>mt_error := err\<rparr>)) m2))"

definition disable_target :: "'w tenv \<Rightarrow> string \<Rightarrow> mtarget \<Rightarrow> 'w mgr \<Rightarrow> 'w mgr" where
  "disable_target e n mt m =
    (let mt1 = cancel_retry mt; m1 = put n mt1 m
     in if state_of n m \<in> {Some Stopped, Some Stopping} then m1 else snd (stop_target e n mt1 m1))"

definition set_intended_state :: "'w tenv \<Rightarrow> string \<Rightarrow> bool \<Rightarrow> 'w mgr \<Rightarrow> 'w mgr" where
  "set_intended_state e n enabled m =
    (case map_of (mg_targets m) n of
      None \<Rightarrow> m
    | Some mt \<Rightarrow> if enabled then enable_target e n mt m else disable_target e n mt m)"

definition set_assigned :: "'w tenv \<Rightarrow> (nat \<Rightarrow> nat) \<Rightarrow> string \<Rightarrow> bool \<Rightarrow> 'w mgr \<Rightarrow> 'w mgr" where
  "set_assigned e fresh n v m =
    (if v then
       (let m1 = m\<lparr>mg_assigned := insert_name n (mg_assigned m)\<rparr>
        in case map_of (mg_conf_targets m1) n of None \<Rightarrow> m1 | Some cfg \<Rightarrow> apply_target e fresh n cfg m1)
     else remove_target e n (m\<lparr>mg_assigned := filter (\<lambda>x. x \<noteq> n) (mg_assigned m)\<rparr>))"

text \<open>A keeper whose context was cancelled stops the target: it does not hold the target's lock.\<close>

definition keeper_ends :: "'w tenv \<Rightarrow> string \<Rightarrow> 'w mgr \<Rightarrow> 'w mgr" where
  "keeper_ends e n m =
    (case map_of (mg_targets m) n of
      None \<Rightarrow> m
    | Some mt \<Rightarrow>
        if mt_stale mt = 0 then m
        else (let mt1 = mt\<lparr>mt_stale := mt_stale mt - 1\<rparr> in snd (stop_target e n mt1 (put n mt1 m))))"

text \<open>The keeper of the current session fails to maintain the lock.\<close>

definition keeper_fails :: "'w tenv \<Rightarrow> string \<Rightarrow> string \<Rightarrow> 'w mgr \<Rightarrow> 'w mgr" where
  "keeper_fails e n err m =
    (case map_of (mg_targets m) n of
      None \<Rightarrow> m
    | Some mt \<Rightarrow>
        if \<not> mt_keeper mt then m
        else (let mt1 = mt\<lparr>mt_keeper := False\<rparr>
          in case stop_target e n mt1 (put n mt1 m) of (mt2, m2) \<Rightarrow> snd (fail_target n err mt2 m2)))"

text \<open>
  A refresh writes the state that is stored once more, with the current error: a change of the
  connection, an error or the end of a subscription. The first response of a subscription sets
  \<open>Running\<close>; it arrives over an open connection. Neither takes the target's lock: a response may
  be handled late, after the connection was closed, and a refresh may write a state it has read
  before the target changed. The loop of retries does two things without the lock as well: it
  records the error of a probe after it has seen that it is not cancelled, and it gives up the
  retry after it has seen that none is wanted. These are steps of their own.
\<close>

definition refresh_state :: "string \<Rightarrow> 'w mgr \<Rightarrow> 'w mgr" where
  "refresh_state n m = (case state_of n m of None \<Rightarrow> m | Some st \<Rightarrow> set_target_state n st m)"

definition subscription_error :: "string \<Rightarrow> string \<Rightarrow> 'w mgr \<Rightarrow> 'w mgr" where
  "subscription_error n err m =
    (case map_of (mg_targets m) n of
      None \<Rightarrow> m
    | Some mt \<Rightarrow> refresh_state n (put n (mt\<lparr>mt_error := err\<rparr>) m))"

definition first_response :: "string \<Rightarrow> string \<Rightarrow> 'w mgr \<Rightarrow> 'w mgr" where
  "first_response n s m =
    (case map_of (mg_targets m) n of
      None \<Rightarrow> m
    | Some mt \<Rightarrow>
        if s \<in> set (mt_readers mt) \<and> mt_conn mt = Open
        then set_target_state n Running (put n (mt\<lparr>mt_error := []\<rparr>) m) else m)"

definition late_response :: "string \<Rightarrow> 'w mgr \<Rightarrow> 'w mgr" where
  "late_response n m =
    (case map_of (mg_targets m) n of
      None \<Rightarrow> set_target_state n Running m
    | Some mt \<Rightarrow> set_target_state n Running (put n (mt\<lparr>mt_error := []\<rparr>) m))"

definition late_failure :: "string \<Rightarrow> string \<Rightarrow> 'w mgr \<Rightarrow> 'w mgr" where
  "late_failure n err m =
    (case map_of (mg_targets m) n of
      None \<Rightarrow> set_target_state n FailedState m
    | Some mt \<Rightarrow> snd (fail_target n err mt m))"

definition late_end :: "string \<Rightarrow> 'w mgr \<Rightarrow> 'w mgr" where
  "late_end n m =
    (case map_of (mg_targets m) n of
      None \<Rightarrow> m
    | Some mt \<Rightarrow> put n (mt\<lparr>mt_retry := False\<rparr>) m)"

section \<open>Steps of the manager\<close>

datatype mevent =
    Set_Target string tconf
  | Delete_Target string
  | Set_Subscription string sub
  | Delete_Subscription string
  | Set_Assignment string bool
  | Intend string bool
  | Retry_Wake string
  | Retry_Probe string
  | Retry_Start string
  | Refresh string
  | Subscription_Error string string
  | First_Response string string
  | Late_Response string
  | Late_Refresh string tstate
  | Late_Failure string string
  | Late_End string
  | Keeper_Ends string
  | Keeper_Fails string string

text \<open>
  A change of the store of configurations is handled before the next one. Events of targets that
  are not assigned are ignored.
\<close>

fun handle :: "'w tenv \<Rightarrow> (nat \<Rightarrow> nat) \<Rightarrow> mevent \<Rightarrow> 'w mgr \<Rightarrow> 'w mgr" where
  "handle e fresh (Set_Target n cfg) m =
    (let m1 = m\<lparr>mg_conf_targets := gset n cfg (mg_conf_targets m)\<rparr>
     in if assigned_here n m1 then apply_target e fresh n cfg m1 else m1)"
| "handle e fresh (Delete_Target n) m =
    (let m1 = m\<lparr>mg_conf_targets := gdel n (mg_conf_targets m)\<rparr>
     in if assigned_here n m1 then remove_target e n m1 else m1)"
| "handle e fresh (Set_Subscription s cfg) m = apply_subscription e s cfg (m\<lparr>mg_conf_subs := gset s cfg (mg_conf_subs m)\<rparr>)"
| "handle e fresh (Delete_Subscription s) m = remove_subscription s (m\<lparr>mg_conf_subs := gdel s (mg_conf_subs m)\<rparr>)"
| "handle e fresh (Set_Assignment n v) m = set_assigned e fresh n v m"
| "handle e fresh (Intend n enabled) m = set_intended_state e n enabled m"
| "handle e fresh (Retry_Wake n) m = retry_wake n m"
| "handle e fresh (Retry_Probe n) m = retry_probe e n m"
| "handle e fresh (Retry_Start n) m = retry_start e n m"
| "handle e fresh (Refresh n) m = refresh_state n m"
| "handle e fresh (Subscription_Error n err) m = subscription_error n err m"
| "handle e fresh (First_Response n s) m = first_response n s m"
| "handle e fresh (Late_Response n) m = late_response n m"
| "handle e fresh (Late_Refresh n st) m = set_target_state n st m"
| "handle e fresh (Late_Failure n err) m = late_failure n err m"
| "handle e fresh (Late_End n) m = late_end n m"
| "handle e fresh (Keeper_Ends n) m = keeper_ends e n m"
| "handle e fresh (Keeper_Fails n err) m = keeper_fails e n err m"

definition handle_all :: "'w tenv \<Rightarrow> (nat \<Rightarrow> nat) \<Rightarrow> mevent list \<Rightarrow> 'w mgr \<Rightarrow> 'w mgr" where
  "handle_all e fresh evs m = fold (handle e fresh) evs m"

definition new_mgr :: "bool \<Rightarrow> string \<Rightarrow> string \<Rightarrow> string list \<Rightarrow> 'w \<Rightarrow> 'w mgr" where
  "new_mgr incluster cluster encoding outputs w = \<lparr>mg_targets = [], mg_subs = [], mg_states = [], mg_conf_targets = [], mg_conf_subs = [],
    mg_conf_outputs = outputs, mg_encoding = encoding, mg_incluster = incluster, mg_cluster = cluster, mg_assigned = [],
    mg_detached = [], mg_world = w\<rparr>"

section \<open>Reads after writes\<close>

abbreviation target :: "'w mgr \<Rightarrow> string \<Rightarrow> mtarget option" where
  "target m n \<equiv> map_of (mg_targets m) n"

lemma put_simps [simp]:
  "target (put n mt m) k = (if k = n then Some mt else target m k)" "state_of k (put n mt m) = state_of k m"
  "mg_incluster (put n mt m) = mg_incluster m" "mg_subs (put n mt m) = mg_subs m" "mg_conf_subs (put n mt m) = mg_conf_subs m"
  "mg_states (put n mt m) = mg_states m" "mg_encoding (put n mt m) = mg_encoding m" "mg_assigned (put n mt m) = mg_assigned m"
  by (simp_all add: put_def state_of_def)

lemma set_state_simps [simp]:
  "target (set_target_state n st m) k = target m k"
  "state_of k (set_target_state n st m) = (if k = n then Some st else state_of k m)"
  "mg_incluster (set_target_state n st m) = mg_incluster m" "mg_subs (set_target_state n st m) = mg_subs m"
  "mg_conf_subs (set_target_state n st m) = mg_conf_subs m" "mg_encoding (set_target_state n st m) = mg_encoding m"
  "mg_assigned (set_target_state n st m) = mg_assigned m" "mg_targets (set_target_state n st m) = mg_targets m"
  by (simp_all add: set_target_state_def state_of_def)

lemma world_simps [simp]: "state_of k (m\<lparr>mg_world := w\<rparr>) = state_of k m"
  by (simp add: state_of_def)


lemma start_sub_simps [simp]:
  "mt_conn (start_target_subscription e m s c mt) = mt_conn mt" "mt_keeper (start_target_subscription e m s c mt) = mt_keeper mt"
  "mt_stale (start_target_subscription e m s c mt) = mt_stale mt" "mt_retry (start_target_subscription e m s c mt) = mt_retry mt"
  "mt_cfg (start_target_subscription e m s c mt) = mt_cfg mt" "mt_error (start_target_subscription e m s c mt) = mt_error mt"
  "mt_applied (start_target_subscription e m s c mt) = mt_applied mt"
  by (simp_all add: start_target_subscription_def split: sum.splits)

lemma start_subs_simps [simp]:
  "mt_conn (start_subscriptions e m ss mt) = mt_conn mt" "mt_keeper (start_subscriptions e m ss mt) = mt_keeper mt"
  "mt_stale (start_subscriptions e m ss mt) = mt_stale mt" "mt_retry (start_subscriptions e m ss mt) = mt_retry mt"
  "mt_cfg (start_subscriptions e m ss mt) = mt_cfg mt" "mt_error (start_subscriptions e m ss mt) = mt_error mt"
  by (induction ss arbitrary: mt) (simp_all split: option.splits)

lemma add_subs_simps [simp]:
  "mt_conn (add_subscriptions e m ss mt) = mt_conn mt" "mt_keeper (add_subscriptions e m ss mt) = mt_keeper mt"
  "mt_stale (add_subscriptions e m ss mt) = mt_stale mt" "mt_retry (add_subscriptions e m ss mt) = mt_retry mt"
  "mt_cfg (add_subscriptions e m ss mt) = mt_cfg mt"
  by (induction ss arbitrary: mt) (simp_all split: option.splits)

lemma remove_subs_simps [simp]:
  "mt_conn (remove_subscriptions ss mt) = mt_conn mt" "mt_keeper (remove_subscriptions ss mt) = mt_keeper mt"
  "mt_stale (remove_subscriptions ss mt) = mt_stale mt" "mt_retry (remove_subscriptions ss mt) = mt_retry mt"
  "mt_cfg (remove_subscriptions ss mt) = mt_cfg mt"
  by (induction ss arbitrary: mt) (simp_all add: delete_target_subscription_def stop_target_subscription_def)

lemma update_in_place_simps [simp]:
  "mt_conn (update_in_place e m cfg mt) = mt_conn mt" "mt_keeper (update_in_place e m cfg mt) = mt_keeper mt"
  "mt_stale (update_in_place e m cfg mt) = mt_stale mt" "mt_retry (update_in_place e m cfg mt) = mt_retry mt"
  by (simp_all add: update_in_place_def update_event_tags_def set_event_tags_def update_outputs_def update_subscriptions_def
      Let_def split: prod.splits)

section \<open>A manager outside a cluster\<close>

text \<open>An operation on target \<open>n\<close> leaves the other targets and their states alone.\<close>

definition only :: "string \<Rightarrow> 'w mgr \<Rightarrow> 'w mgr \<Rightarrow> bool" where
  "only n m m' \<longleftrightarrow> mg_incluster m' = mg_incluster m \<and> (\<forall>k. k \<noteq> n \<longrightarrow> target m' k = target m k \<and> state_of k m' = state_of k m)"




lemma only_world [simp]: "only n m (m\<lparr>mg_world := w\<rparr>)"
  by (simp add: only_def)

definition no_keepers :: "mtarget \<Rightarrow> bool" where
  "no_keepers mt \<longleftrightarrow> \<not> mt_keeper mt \<and> mt_stale mt = 0"



definition target_ok :: "tstate option \<Rightarrow> mtarget \<Rightarrow> bool" where
  "target_ok st mt \<longleftrightarrow> no_keepers mt \<and>
    (st = Some Running \<and> mt_conn mt = Open \<or> st = Some FailedState \<and> mt_retry mt \<or> st = Some Stopped \<and> mt_conn mt \<noteq> Open)"

definition state_entry_ok :: "tstate option \<Rightarrow> mtarget option \<Rightarrow> bool" where
  "state_entry_ok st o' \<longleftrightarrow> (case o' of None \<Rightarrow> st = None | Some mt \<Rightarrow> target_ok st mt)"

lemma state_entry_ok_simps [simp]: "state_entry_ok st None \<longleftrightarrow> st = None" "state_entry_ok st (Some mt) \<longleftrightarrow> target_ok st mt"
  by (simp_all add: state_entry_ok_def)

definition mgr_inv :: "'w mgr \<Rightarrow> bool" where
  "mgr_inv m \<longleftrightarrow> \<not> mg_incluster m \<and> (\<forall>n. state_entry_ok (state_of n m) (target m n))"
















lemma restart_subscription_simps [simp]:
  "mt_conn (restart_subscription e m s c mt) = mt_conn mt" "mt_keeper (restart_subscription e m s c mt) = mt_keeper mt"
  "mt_stale (restart_subscription e m s c mt) = mt_stale mt" "mt_retry (restart_subscription e m s c mt) = mt_retry mt"
  by (simp_all add: restart_subscription_def stop_target_subscription_def Let_def)










lemma probe_only:
  assumes "probe e cfg m = (r, m')"
  shows "only n m m'" "target m' k = target m k" "state_of k m' = state_of k m" "mg_incluster m' = mg_incluster m"
  using assms by (auto simp: probe_def only_def state_of_def split: prod.splits option.splits)









text \<open>The stores of configurations and the assignments play no part in the invariant.\<close>

lemma stores_inv [simp]:
  "mgr_inv (m\<lparr>mg_conf_targets := x\<rparr>) = mgr_inv m" "mgr_inv (m\<lparr>mg_conf_subs := y\<rparr>) = mgr_inv m"
  "mgr_inv (m\<lparr>mg_assigned := z\<rparr>) = mgr_inv m"
  by (simp_all add: mgr_inv_def state_of_def)







section \<open>Subscriptions that run\<close>

text \<open>The subscriptions a configuration asks for, and those that can be started.\<close>

definition wanted :: "string list \<Rightarrow> string list \<Rightarrow> string list" where
  "wanted all names = (if names = [] then all else names)"

definition requestable :: "'w tenv \<Rightarrow> 'w mgr \<Rightarrow> tconf \<Rightarrow> string \<Rightarrow> sub \<Rightarrow> bool" where
  "requestable e m cfg s c \<longleftrightarrow>
    \<not> isl (fst (create_subscribe_request (te_lib e) (c\<lparr>sc_name := s\<rparr>) (Some (target_info_of cfg)) (mg_encoding m)))"

definition startable :: "'w tenv \<Rightarrow> 'w mgr \<Rightarrow> (string \<Rightarrow> sub option) \<Rightarrow> tconf \<Rightarrow> string \<Rightarrow> bool" where
  "startable e m look cfg s \<longleftrightarrow> (case look s of None \<Rightarrow> False | Some c \<Rightarrow> requestable e m cfg s c)"

lemma startable_simps:
  "look s = None \<Longrightarrow> \<not> startable e m look cfg s" "look s = Some c \<Longrightarrow> startable e m look cfg s = requestable e m cfg s c"
  by (simp_all add: startable_def)

lemma start_sub_readers:
  "set (mt_readers (start_target_subscription e m s c mt)) =
    set (mt_readers mt) \<union> (if requestable e m (mt_cfg mt) s c then {s} else {})"
  by (auto simp: start_target_subscription_def requestable_def request_for_def insert_name_def split: sum.splits)

lemma start_subs_readers:
  "set (mt_readers (start_subscriptions e m ss mt)) =
    set (mt_readers mt) \<union> {s \<in> set ss. startable e m (\<lambda>s. find_subscription s m) (mt_cfg mt) s}"
proof (induction ss arbitrary: mt)
  case (Cons s ss)
  then show ?case by (cases "find_subscription s m") (auto simp: start_sub_readers startable_simps)
qed simp

lemma add_subs_readers:
  "set (mt_readers (add_subscriptions e m ss mt)) =
    set (mt_readers mt) \<union> {s \<in> set ss. startable e m (map_of (mg_conf_subs m)) (mt_cfg mt) s}"
proof (induction ss arbitrary: mt)
  case (Cons s ss)
  then show ?case by (cases "map_of (mg_conf_subs m) s") (auto simp: start_sub_readers startable_simps)
qed simp

lemma remove_subs_readers: "set (mt_readers (remove_subscriptions ss mt)) = set (mt_readers mt) - set ss"
  by (induction ss arbitrary: mt) (auto simp: delete_target_subscription_def stop_target_subscription_def)

lemma update_in_place_readers: "mt_readers (update_in_place e m cfg mt) = mt_readers (update_subscriptions e m cfg mt)"
  by (simp add: update_in_place_def update_event_tags_def set_event_tags_def update_outputs_def split: prod.splits)

section \<open>Properties\<close>


text \<open>What a retry that meets a device comes to.\<close>

definition recovered :: "'w tenv \<Rightarrow> string \<Rightarrow> mtarget \<Rightarrow> 'w mgr \<Rightarrow> 'w mgr \<Rightarrow> bool" where
  "recovered e n mt m m' \<longleftrightarrow> state_of n m' = Some Running \<and>
    (case target m' n of
      None \<Rightarrow> False
    | Some mt' \<Rightarrow> mt_conn mt' = Open \<and> \<not> mt_retry mt' \<and> mt_error mt' = [] \<and>
        set (mt_readers mt') = set (mt_readers mt) \<union>
          {s \<in> set (wanted (map fst (mg_subs m)) (slice (tc_subscriptions (mt_cfg mt)))).
            startable e m (\<lambda>s. find_subscription s m) (mt_cfg mt) s})"

definition reachable_device :: "'w tenv \<Rightarrow> tconf \<Rightarrow> bool" where
  "reachable_device e cfg \<longleftrightarrow> (\<forall>w. fst (te_connect e cfg w) = None \<and> fst (te_capabilities e cfg w) = None)"

text \<open>Only the parts of the manager that subscriptions are looked up in matter.\<close>

lemma find_subscription_cong:
  "mg_subs m' = mg_subs m \<Longrightarrow> mg_conf_subs m' = mg_conf_subs m \<Longrightarrow> find_subscription s m' = find_subscription s m"
  by (simp add: find_subscription_def split: option.split)

lemma startable_cong:
  assumes "mg_subs m' = mg_subs m" and "mg_conf_subs m' = mg_conf_subs m" and "mg_encoding m' = mg_encoding m"
  shows "startable e m' (\<lambda>s. find_subscription s m') cfg s = startable e m (\<lambda>s. find_subscription s m) cfg s"
  by (simp add: startable_def requestable_def find_subscription_cong [OF assms(1,2)] assms(3) split: option.split)

lemma start_subscriptions_cong:
  assumes "mg_subs m' = mg_subs m" and "mg_conf_subs m' = mg_conf_subs m" and "mg_encoding m' = mg_encoding m"
  shows "start_subscriptions e m' ss mt = start_subscriptions e m ss mt"
proof (induction ss arbitrary: mt)
  case (Cons s ss)
  have "start_target_subscription e m' s c x = start_target_subscription e m s c x" for c x
    by (simp add: start_target_subscription_def request_for_def assms)
  moreover have "find_subscription s m' = find_subscription s m" by (rule find_subscription_cong [OF assms(1,2)])
  ultimately show ?case using Cons by (cases "find_subscription s m") simp_all
qed simp

definition attached :: "'w tenv \<Rightarrow> 'w mgr \<Rightarrow> mtarget \<Rightarrow> mtarget" where
  "attached e m mt = start_subscriptions e m (wanted (map fst (mg_subs m)) (slice (tc_subscriptions (mt_cfg mt))))
    (mt\<lparr>mt_applied := mt_applied mt @ (if slice (tc_subscriptions (mt_cfg mt)) = [] then map fst (mg_subs m) else [])\<rparr>)"

lemma attach_eq:
  assumes "mg_subs m' = mg_subs m" and "mg_conf_subs m' = mg_conf_subs m" and "mg_encoding m' = mg_encoding m"
  shows "attach_subscriptions e n mt m' = (attached e m mt, set_target_state n Running (put n (attached e m mt) m'))"
  using start_subscriptions_cong [OF assms]
  by (simp add: attach_subscriptions_def attached_def wanted_def Let_def assms(1))

lemma attached_simps [simp]:
  "mt_conn (attached e m mt) = mt_conn mt" "mt_retry (attached e m mt) = mt_retry mt" "mt_error (attached e m mt) = mt_error mt"
  "set (mt_readers (attached e m mt)) = set (mt_readers mt) \<union>
    {s \<in> set (wanted (map fst (mg_subs m)) (slice (tc_subscriptions (mt_cfg mt)))).
      startable e m (\<lambda>s. find_subscription s m) (mt_cfg mt) s}"
  by (simp_all add: attached_def start_subs_readers)

lemma start_reachable:
  assumes "\<not> mg_incluster m" and "state_of n m \<noteq> Some Running" and "reachable_device e (mt_cfg mt)"
  shows "\<exists>m'. start_target e n mt m = (None, attached e m (mt\<lparr>mt_error := [], mt_conn := Open\<rparr>), m') \<and>
    state_of n m' = Some Running"
proof -
  obtain w1 where c: "te_connect e (mt_cfg mt) (mg_world m) = (None, w1)"
    using assms(3) by (metis prod.collapse reachable_device_def)
  obtain w2 where k: "te_capabilities e (mt_cfg mt) w1 = (None, w2)"
    using assms(3) by (metis prod.collapse reachable_device_def)
  have w: "mg_world (set_target_state n st m') = mg_world m'" "mg_world (put n x m') = mg_world m'" for st x m'
    by (simp_all add: set_target_state_def put_def)
  let ?mt = "mt\<lparr>mt_error := [], mt_conn := Open\<rparr>"
  define m4 where "m4 = set_target_state n Running ((put n ?mt ((set_target_state n Starting (put n (mt\<lparr>mt_error := []\<rparr>) m))
    \<lparr>mg_world := w1\<rparr>))\<lparr>mg_world := w2\<rparr>)"
  have "attach_subscriptions e n ?mt m4 = (attached e m ?mt, set_target_state n Running (put n (attached e m ?mt) m4))"
    by (rule attach_eq) (simp_all add: m4_def)
  moreover have "start_target e n mt m = (case attach_subscriptions e n ?mt m4 of (mt', m') \<Rightarrow> (None, mt', m'))"
    using assms(1,2) c k by (simp add: start_target_def connect_target_def capabilities_def acquire_lock_def w Let_def m4_def)
  ultimately show ?thesis by simp
qed

text \<open>The three steps of a round one after the other.\<close>

definition retry_round :: "'w tenv \<Rightarrow> string \<Rightarrow> 'w mgr \<Rightarrow> 'w mgr" where
  "retry_round e n m = retry_start e n (retry_probe e n (retry_wake n m))"

text \<open>C12. In a manager outside a cluster, a failed target whose loop of retries waits and then meets a
  device that answers, with no other change in the round, is running over an open connection when
  the round ends: the retry is over, the error is cleared, and every subscription that its
  configuration asks for and that a request can be made for is read, besides those that were.
\<close>

theorem failed_target_recovers:
  assumes "\<not> mg_incluster m" and "target m n = Some mt" and "state_of n m = Some FailedState" and "mt_retry mt"
    and "mt_phase mt = Waiting" and "reachable_device e (mt_cfg mt)"
  shows "recovered e n mt m (retry_round e n m)"
proof -
  let ?p = "mt\<lparr>mt_phase := Probing (mt_cfg mt)\<rparr>"
  let ?q = "mt\<lparr>mt_phase := Probed\<rparr>"
  have wake: "retry_wake n m = put n ?p m"
    using assms by (simp add: retry_wake_def retry_wanted_def assigned_here_def)
  obtain r :: "string option" and m1 where pr: "probe e (mt_cfg mt) (put n ?p m) = (r, m1)" by fastforce
  have r: "r = None" and m1: "mg_subs m1 = mg_subs m" "mg_conf_subs m1 = mg_conf_subs m" "mg_encoding m1 = mg_encoding m"
    using pr assms(6) by (auto simp: probe_def reachable_device_def split: prod.splits option.splits)
      (metis fst_conv option.simps(3))+
  note p = probe_only [OF pr]
  define m2 where "m2 = put n ?q m1"
  have probed: "retry_probe e n (retry_wake n m) = m2"
    using pr r assms(4) by (simp add: wake retry_probe_def m2_def)
  let ?mt = "close_client ?q"
  obtain m3 where st: "start_target e n ?mt (put n ?mt m2) = (None, attached e (put n ?mt m2) (?mt\<lparr>mt_error := [], mt_conn := Open\<rparr>), m3)"
    and s3: "state_of n m3 = Some Running"
    using start_reachable [where m = "put n ?mt m2" and n = n and e = e and mt = ?mt] assms(1,3,6) p(3,4)
    by (auto simp: close_client_def m2_def)
  have "retry_round e n m = put n ((attached e (put n ?mt m2) (?mt\<lparr>mt_error := [], mt_conn := Open\<rparr>))\<lparr>mt_retry := False\<rparr>) m3"
    using assms(1-4) st p(3) by (simp add: retry_round_def probed retry_start_def Let_def) (simp add: m2_def Let_def)
  moreover have "startable e (put n ?mt m2) (\<lambda>s. find_subscription s (put n ?mt m2)) cfg s = startable e m (\<lambda>s. find_subscription s m) cfg s" for cfg s
    by (rule startable_cong) (simp_all add: m1 m2_def)
  ultimately show ?thesis using s3 by (simp add: recovered_def m1(1) m2_def) (simp add: close_client_def)
qed

definition router_config :: tconf where
  "router_config = \<lparr>tc_name = ''r1'', tc_address = ''r1:1'', tc_username = None, tc_password = None, tc_auth_scheme = [], tc_timeout = 0,
    tc_insecure = None, tc_tls_ca = None, tc_tls_cert = None, tc_tls_key = None, tc_skip_verify = None,
    tc_tls_server_name = [], tc_subscriptions = Some [''a''], tc_outputs = None, tc_buffer_size = 0,
    tc_grpc_sizes = replicate 6 None, tc_retry_timer = 0, tc_tls_min_version = [], tc_tls_max_version = [],
    tc_tls_version = [], tc_log_tls_secret = None, tc_proto_files = None, tc_proto_dirs = None, tc_tags = None,
    tc_event_tags = None, tc_gzip = None, tc_token = None, tc_proxy = [], tc_tunnel_type = [], tc_encoding = None,
    tc_metadata = None, tc_cipher_suites = None, tc_tcp_keepalive = 0, tc_grpc_keepalive = None, tc_tls_reload = None\<rparr>"

definition sample_env :: "unit tenv" where
  "sample_env = \<lparr>te_json = cs_address, te_lib = spec_lib, te_connect = (\<lambda>c w. (None, w)), te_capabilities = (\<lambda>c w. (None, w)),
    te_lock = (\<lambda>k w. (Inr True, w)), te_unlock = (\<lambda>k w. w)\<rparr>"

definition once_sub :: sub where
  "once_sub = sample_sub\<lparr>sc_mode := ''once''\<rparr>"

definition sample_events :: "mevent list" where
  "sample_events = [Set_Subscription ''a'' once_sub, Set_Target ''r1'' router_config, First_Response ''r1'' ''a'']"


definition failed_target :: mtarget where
  "failed_target = (new_managed_target router_config)\<lparr>mt_error := ''refused'', mt_retry := True\<rparr>"

definition failed_mgr :: "unit mgr" where
  "failed_mgr = (new_mgr False ''c'' ''json'' [] ())\<lparr>mg_targets := [(''r1'', failed_target)], mg_subs := [(''a'', once_sub)],
    mg_states := [(''r1'', \<lparr>ts_state = FailedState, ts_disabled = False, ts_reason = ''refused''\<rparr>)]\<rparr>"

theorem failed_target_recovers_witness:
  "recovered sample_env ''r1'' failed_target failed_mgr (retry_round sample_env ''r1'' failed_mgr) \<and>
    startable sample_env failed_mgr (\<lambda>s. find_subscription s failed_mgr) router_config ''a''"
proof
  show "recovered sample_env ''r1'' failed_target failed_mgr (retry_round sample_env ''r1'' failed_mgr)"
    by (rule failed_target_recovers)
      (simp_all add: failed_mgr_def failed_target_def new_managed_target_def new_mgr_def state_of_def reachable_device_def sample_env_def)
  show "startable sample_env failed_mgr (\<lambda>s. find_subscription s failed_mgr) router_config ''a''" by code_simp
qed

section \<open>Changes in place\<close>

text \<open>C17. What a change of the subscriptions that needs no new connection does. The manager notes the
  names it added since the target was started. When they are not exactly the new list, a target that
  reads the subscriptions its old configuration asks for reads afterwards exactly those the new one asks
  for: the ones of its list, or all of the store's when the list is empty, as far as a request can be
  made for them. When they are the new list the change is taken for applied and the readers are left alone:
  the target goes on reading what the old configuration asks for, whatever the new one says.
\<close>

theorem update_in_place_converges:
  assumes "set (mt_readers mt) = {s \<in> set (wanted (map fst (mg_conf_subs m)) (slice (tc_subscriptions (mt_cfg mt)))).
      startable e m (map_of (mg_conf_subs m)) (mt_cfg mt) s}"
  shows "set (mt_readers (update_in_place e m cfg mt)) =
    (let asked = (if Some (mt_applied mt) = tc_subscriptions cfg then tc_subscriptions (mt_cfg mt) else tc_subscriptions cfg)
     in {s \<in> set (wanted (map fst (mg_conf_subs m)) (slice asked)).
          startable e m (map_of (mg_conf_subs m)) (mt_cfg mt) s})"
proof (cases "Some (mt_applied mt) = tc_subscriptions cfg")
  case True
  then have "mt_readers (update_in_place e m cfg mt) = mt_readers mt"
    by (simp add: update_in_place_readers update_subscriptions_def)
  with True show ?thesis by (simp add: assms Let_def)
next
  case False
  then have "mt_readers (update_in_place e m cfg mt) =
    (case diff_names (map fst (mg_conf_subs m)) (slice (tc_subscriptions (mt_cfg mt))) (slice (tc_subscriptions cfg)) of
      (added, removed) \<Rightarrow> mt_readers (remove_subscriptions removed (add_subscriptions e m added mt)))"
    by (simp add: update_in_place_readers update_subscriptions_def compare_subscriptions_def Let_def split: prod.split)
  with False show ?thesis
    by (simp add: Let_def diff_names_def remove_subs_readers add_subs_readers assms wanted_def [symmetric]) auto
qed

definition two_subs_mgr :: "unit mgr" where
  "two_subs_mgr = (new_mgr False ''c'' ''json'' [] ())\<lparr>mg_conf_subs := [(''a'', once_sub), (''b'', once_sub)]\<rparr>"

definition reading_target :: mtarget where
  "reading_target = (new_managed_target router_config)\<lparr>mt_readers := [''a'']\<rparr>"

lemma once_startable: "s \<in> {''a'', ''b''} \<Longrightarrow> startable sample_env two_subs_mgr (map_of (mg_conf_subs two_subs_mgr)) router_config s"
proof -
  have "startable sample_env two_subs_mgr (map_of (mg_conf_subs two_subs_mgr)) router_config ''a''"
    "startable sample_env two_subs_mgr (map_of (mg_conf_subs two_subs_mgr)) router_config ''b''" by code_simp+
  then show "s \<in> {''a'', ''b''} \<Longrightarrow> startable sample_env two_subs_mgr (map_of (mg_conf_subs two_subs_mgr)) router_config s" by auto
qed

theorem update_in_place_converges_witness:
  "set (mt_readers (update_in_place sample_env two_subs_mgr (router_config\<lparr>tc_subscriptions := Some [''b'']\<rparr>) reading_target)) = {''b''}"
proof -
  have c: "mt_cfg reading_target = router_config" "tc_subscriptions router_config = Some [''a'']" "mt_readers reading_target = [''a'']"
    "mt_applied reading_target = []"
    by (simp_all add: reading_target_def new_managed_target_def router_config_def)
  show ?thesis
    by (subst update_in_place_converges) (auto simp: c wanted_def once_startable)
qed

section \<open>What the model shows\<close>

definition readers_of :: "string \<Rightarrow> 'w mgr \<Rightarrow> string list option" where
  "readers_of n m = map_option mt_readers (target m n)"

text \<open>
  The noted names are only those added since the target was started, so they can equal a new list
  while more is read: the subscriptions go from a to a, b and then to b, and a is still read.
\<close>

lemma applied_names_are_stale:
  "readers_of ''r1'' (handle_all sample_env (\<lambda>i. i)
    [Set_Subscription ''a'' once_sub, Set_Subscription ''b'' once_sub, Set_Target ''r1'' router_config,
     Set_Target ''r1'' (router_config\<lparr>tc_subscriptions := Some [''a'', ''b'']\<rparr>),
     Set_Target ''r1'' (router_config\<lparr>tc_subscriptions := Some [''b'']\<rparr>)]
    (new_mgr False ''c'' ''json'' [] ())) = Some [''a'', ''b'']"
  by code_simp

text \<open>
  In a cluster, a change of the address closes the client, which cancels the goroutine that keeps
  the lock, and starts the target anew. The cancelled goroutine then stops the new session, and
  nothing starts it again.
\<close>

definition moved_events :: "mevent list" where
  "moved_events = [Set_Assignment ''r1'' True, Set_Target ''r1'' router_config,
    Set_Target ''r1'' (router_config\<lparr>tc_address := ''r1:2''\<rparr>)]"

lemma cancelled_keeper_stops_new_session:
  "state_of ''r1'' (handle_all sample_env (\<lambda>i. i) moved_events (new_mgr True ''c'' ''json'' [] ())) = Some Running"
  "state_of ''r1'' (handle_all sample_env (\<lambda>i. i) (moved_events @ [Keeper_Ends ''r1'']) (new_mgr True ''c'' ''json'' [] ())) =
    Some Stopped"
  by code_simp+

text \<open>
  The readers keep their contexts when a target is stopped, so a response that waits in the channel
  is handled after the connection was closed: the target is running for the stores, and enabling
  it changes nothing.
\<close>

lemma late_response_revives:
  "case handle_all sample_env (\<lambda>i. i) (sample_events @ [Intend ''r1'' False, Late_Response ''r1'', Intend ''r1'' True])
      (new_mgr False ''c'' ''json'' [] ()) of m \<Rightarrow>
    state_of ''r1'' m = Some Running \<and> map_option mt_conn (target m ''r1'') = Some Closed"
  by code_simp

text \<open>
  The error of a probe is recorded without the lock, so it can hit a target that was started in
  between: it runs over an open connection, counts as failed, and no retry is pending. A retry can
  also be given up after the target has failed once more.
\<close>

definition bad_address_env :: "unit tenv" where
  "bad_address_env = sample_env\<lparr>te_connect := \<lambda>c w. (if tc_address c = ''r1:9'' then Some ''refused'' else None, w)\<rparr>"

definition unreachable_config :: tconf where
  "unreachable_config = router_config\<lparr>tc_address := ''r1:9''\<rparr>"

lemma late_failure_marks_running_target:
  "case handle_all sample_env (\<lambda>i. i) (sample_events @ [Late_Failure ''r1'' ''refused''])
      (new_mgr False ''c'' ''json'' [] ()) of m \<Rightarrow>
    state_of ''r1'' m = Some FailedState \<and> map_option mt_conn (target m ''r1'') = Some Open \<and>
    map_option mt_retry (target m ''r1'') = Some False"
  by code_simp

lemma late_end_forgets_target:
  "case handle_all bad_address_env (\<lambda>i. i)
      [Set_Subscription ''a'' once_sub, Set_Target ''r1'' unreachable_config, Set_Target ''r1'' router_config,
       Set_Target ''r1'' unreachable_config, Late_End ''r1'', Retry_Wake ''r1'']
      (new_mgr False ''c'' ''json'' [] ()) of m \<Rightarrow>
    state_of ''r1'' m = Some FailedState \<and> map_option mt_retry (target m ''r1'') = Some False"
  by code_simp

text \<open>Between the second and the third change of that run the loop has seen a target that runs.\<close>

lemma pending_retry_of_running_target:
  "case handle_all bad_address_env (\<lambda>i. i)
      [Set_Subscription ''a'' once_sub, Set_Target ''r1'' unreachable_config, Set_Target ''r1'' router_config]
      (new_mgr False ''c'' ''json'' [] ()) of m \<Rightarrow>
    state_of ''r1'' m = Some Running \<and> map_option mt_retry (target m ''r1'') = Some True \<and> \<not> retry_wanted ''r1'' m"
  by code_simp

end
