(* ===== verification/Go_Range.thy ===== *)
theory Go_Range
  imports Prelude "HOL-Library.Multiset"
begin

text \<open>
  Orders in which a \<open>range\<close> loop visits a map. Where several maps are visited and the orders
  matter, the order is a parameter of the model: a function that rearranges the entries.
\<close>

definition permutes :: "('a list \<Rightarrow> 'a list) \<Rightarrow> bool" where
  "permutes ord \<longleftrightarrow> (\<forall>xs. mset (ord xs) = mset xs)"

lemma permutes_id: "permutes (\<lambda>xs. xs)"
  by (simp add: permutes_def)

lemma permutes_rev: "permutes rev"
  by (simp add: permutes_def)

lemma permutes_set: "permutes ord \<Longrightarrow> set (ord xs) = set xs"
  unfolding permutes_def by (metis set_mset_mset)

lemma mset_concat_map: "mset (concat (map f xs)) = (\<Sum>x\<in>#mset xs. mset (f x))"
  by (induction xs) simp_all

lemma mset_concat_perm: "mset xs = mset ys \<Longrightarrow> mset (concat (map f xs)) = mset (concat (map f ys))"
  by (simp add: mset_concat_map)

end
