(* ===== verification/Out_Prometheus.thy ===== *)
theory Out_Prometheus
  imports Event Go_Fnv Go_Range "HOL-Library.Signed_Division"
begin

text \<open>
  The metrics that the Prometheus outputs make of events,
  \<open>pkg/outputs/prometheus_output/prometheus_common.go\<close>: names of metrics and labels, the labels
  of an event with the resolution of names that collide, the metrics for scraping and the time
  series for remote writes. The parser of floating point texts is a parameter, as is the order in
  which the groups of equal names are ranged over.
\<close>

section \<open>Names\<close>

text \<open>\<open>MetricNameRegex.ReplaceAllString(s, "_")\<close>: each run of other characters becomes one underscore.\<close>

definition name_char :: "char \<Rightarrow> bool" where
  "name_char c \<longleftrightarrow> c = CHR ''_'' \<or> CHR ''a'' \<le> c \<and> c \<le> CHR ''z'' \<or> CHR ''A'' \<le> c \<and> c \<le> CHR ''Z'' \<or>
    CHR ''0'' \<le> c \<and> c \<le> CHR ''9''"

fun sanitize_run :: "bool \<Rightarrow> string \<Rightarrow> string" where
  "sanitize_run inside [] = []"
| "sanitize_run inside (c # s) =
    (if name_char c then c # sanitize_run False s
     else if inside then sanitize_run True s else CHR ''_'' # sanitize_run True s)"

definition sanitize :: "string \<Rightarrow> string" where
  "sanitize s = sanitize_run False s"

record metric_builder =
  mb_prefix :: string
  mb_append_subscription_name :: bool
  mb_strings_as_labels :: bool
  mb_override_timestamps :: bool
  mb_export_timestamps :: bool

definition metric_name :: "metric_builder \<Rightarrow> string \<Rightarrow> string \<Rightarrow> string" where
  "metric_name mb meas val =
    (if mb_prefix mb \<noteq> [] then sanitize (mb_prefix mb) @ ''_'' else []) @
    (if mb_append_subscription_name mb then trim_right_char CHR ''_'' (sanitize meas) @ ''_'' else []) @
    trim_left_char CHR ''_'' (sanitize val)"

section \<open>Values\<close>

type_synonym float_parser = "string \<Rightarrow> 64 word res"

text \<open>\<open>toFloat\<close>; \<open>None\<close> is its error.\<close>

definition to_float :: "float_parser \<Rightarrow> gval \<Rightarrow> 64 word option" where
  "to_float pf v =
    (case v of
      VF64 f \<Rightarrow> Some f
    | VF32 f \<Rightarrow> Some (f64_of_f32 f)
    | VInt64 i \<Rightarrow> Some (f64_of_int (sint i))
    | VInt32 i \<Rightarrow> Some (f64_of_int (sint i))
    | VInt16 i \<Rightarrow> Some (f64_of_int (sint i))
    | VInt8 i \<Rightarrow> Some (f64_of_int (sint i))
    | VUint64 i \<Rightarrow> Some (f64_of_int (uint i))
    | VUint32 i \<Rightarrow> Some (f64_of_int (uint i))
    | VUint16 i \<Rightarrow> Some (f64_of_int (uint i))
    | VUint8 i \<Rightarrow> Some (f64_of_int (uint i))
    | VInt i \<Rightarrow> Some (f64_of_int (sint i))
    | VUint i \<Rightarrow> Some (f64_of_int (uint i))
    | VBool b \<Rightarrow> Some (f64_of_int (if b then 1 else 0))
    | VStr s \<Rightarrow> (case pf s of Inl _ \<Rightarrow> None | Inr f \<Rightarrow> Some f)
    | VProto (TVDecimal d p) \<Rightarrow> Some (f64_div (f64_of_int (sint d)) (pow10 (unat p)))
    | _ \<Rightarrow> None)"

section \<open>Labels\<close>

record label =
  lb_name :: string
  lb_value :: string

text \<open>The labels of the tags: the first tag of a name wins.\<close>

fun tag_labels :: "(string \<times> string) list \<Rightarrow> label list \<Rightarrow> string list \<Rightarrow> label list \<times> string list" where
  "tag_labels [] labels added = (labels, added)"
| "tag_labels ((k, v) # ts) labels added =
    (let n = sanitize (base_name k)
     in if n \<in> set added then tag_labels ts labels added
        else tag_labels ts (labels @ [\<lparr>lb_name = n, lb_value = v\<rparr>]) (added @ [n]))"

record temp_label =
  tl_path :: string
  tl_name :: string
  tl_value :: string
  tl_count :: nat

definition path_segments :: "string \<Rightarrow> string list" where
  "path_segments p = filter (\<lambda>e. e \<noteq> []) (split_char slash p)"

definition label_name_from_path :: "string \<Rightarrow> nat \<Rightarrow> string" where
  "label_name_from_path p n =
    (let segs = path_segments p; m = min n (length segs)
     in sanitize (join ''_'' (drop (length segs - m) segs)))"

fun gather_labels :: "float_parser \<Rightarrow> (string \<times> gval) list \<Rightarrow> temp_label list" where
  "gather_labels pf [] = []"
| "gather_labels pf ((k, v) # vs) =
    (if to_float pf v \<noteq> None then gather_labels pf vs
     else \<lparr>tl_path = k, tl_name = sanitize (base_name k), tl_value = (case v of VStr s \<Rightarrow> s | _ \<Rightarrow> []), tl_count = 1\<rparr> #
       gather_labels pf vs)"

text \<open>One round: \<open>groups\<close> maps a name to the indices of its labels, as they are when the round starts.\<close>

fun group_indices :: "temp_label list \<Rightarrow> nat \<Rightarrow> nat list gmap \<Rightarrow> nat list gmap" where
  "group_indices [] i groups = groups"
| "group_indices (l # ls) i groups =
    group_indices ls (Suc i)
      (gset (tl_name l) ((case map_of groups (tl_name l) of None \<Rightarrow> [] | Some is \<Rightarrow> is) @ [i]) groups)"

definition lengthen :: "temp_label \<Rightarrow> temp_label" where
  "lengthen l = l\<lparr>tl_count := tl_count l + 1, tl_name := label_name_from_path (tl_path l) (tl_count l + 1)\<rparr>"

fun lengthen_all :: "nat list \<Rightarrow> temp_label list \<times> bool \<Rightarrow> temp_label list \<times> bool" where
  "lengthen_all [] s = s"
| "lengthen_all (i # is) (ls, changed) =
    lengthen_all is (ls[i := lengthen (ls ! i)], changed \<or> tl_name (lengthen (ls ! i)) \<noteq> tl_name (ls ! i))"

fun resolve_groups :: "string list \<Rightarrow> (string \<times> nat list) list \<Rightarrow> temp_label list \<times> bool \<Rightarrow> temp_label list \<times> bool" where
  "resolve_groups added [] s = s"
| "resolve_groups added ((n, is) # gs) s =
    resolve_groups added gs (if length is \<le> 1 \<and> n \<notin> set added then s else lengthen_all is s)"

type_synonym group_order = "nat list gmap \<Rightarrow> nat list gmap"

definition resolve_round :: "group_order \<Rightarrow> string list \<Rightarrow> temp_label list \<Rightarrow> temp_label list \<times> bool" where
  "resolve_round ord added ls = resolve_groups added (ord (group_indices ls 0 [])) (ls, False)"

partial_function (option) resolve_loop :: "group_order \<Rightarrow> string list \<Rightarrow> temp_label list \<Rightarrow> temp_label list option" where
  "resolve_loop ord added ls =
    (case resolve_round ord added ls of (ls', changed) \<Rightarrow>
      if changed then resolve_loop ord added ls' else Some ls')"

text \<open>Labels whose names still collide are dropped.\<close>

fun drop_taken :: "string list \<Rightarrow> temp_label list \<Rightarrow> label list" where
  "drop_taken taken [] = []"
| "drop_taken taken (l # ls) =
    (if tl_name l \<in> set taken then drop_taken taken ls
     else \<lparr>lb_name = tl_name l, lb_value = tl_value l\<rparr> # drop_taken (tl_name l # taken) ls)"

definition labels_from_values :: "float_parser \<Rightarrow> group_order \<Rightarrow> (string \<times> gval) list \<Rightarrow> string list \<Rightarrow> label list option" where
  "labels_from_values pf ord vals added =
    (case resolve_loop ord added (gather_labels pf vals) of None \<Rightarrow> None | Some ls \<Rightarrow> Some (drop_taken added ls))"

definition get_labels :: "float_parser \<Rightarrow> group_order \<Rightarrow> metric_builder \<Rightarrow> event_msg \<Rightarrow> label list option" where
  "get_labels pf ord mb ev =
    (case tag_labels (tags_of ev) [] [] of (labels, added) \<Rightarrow>
      if \<not> mb_strings_as_labels mb then Some labels
      else (case labels_from_values pf ord (values_of ev) added of None \<Rightarrow> None | Some ls \<Rightarrow> Some (labels @ ls)))"

section \<open>Metrics\<close>

record prom_metric =
  pm_name :: string
  pm_time :: "64 word option"
  pm_added_at :: int
  pm_labels :: "label list"
  pm_value :: "64 word"

text \<open>The text whose FNV-1a hash is the key of a metric; the labels are sorted in place first.\<close>

definition key_text :: "prom_metric \<Rightarrow> string" where
  "key_text p = pm_name p @
    (if pm_labels p = [] then []
     else '':'' @ concat (map (\<lambda>l. lb_name l @ '':'' @ lb_value l @ '':'') (sort_key lb_name (pm_labels p))))"

definition calculate_key :: "prom_metric \<Rightarrow> 64 word" where
  "calculate_key p = fnv1a (key_text p)"

text \<open>\<open>time.Now()\<close> in nanoseconds. \<open>None\<close>: a text that is no number and not wanted as a label.\<close>

definition metric_value :: "float_parser \<Rightarrow> metric_builder \<Rightarrow> gval \<Rightarrow> 64 word option" where
  "metric_value pf mb v =
    (case to_float pf v of Some f \<Rightarrow> Some f | None \<Rightarrow> if mb_strings_as_labels mb then Some (f64_of_int 1) else None)"

fun metrics_loop ::
  "float_parser \<Rightarrow> metric_builder \<Rightarrow> int \<Rightarrow> label list \<Rightarrow> (string \<times> gval) list \<Rightarrow> event_msg \<Rightarrow> prom_metric list \<times> event_msg" where
  "metrics_loop pf mb now labels [] ev = ([], ev)"
| "metrics_loop pf mb now labels ((k, v) # vs) ev =
    (case metric_value pf mb v of
      None \<Rightarrow> metrics_loop pf mb now labels vs ev
    | Some f \<Rightarrow>
        (let ev' = (if mb_override_timestamps mb \<and> mb_export_timestamps mb then ev\<lparr>em_timestamp := word_of_int now\<rparr> else ev);
             pm = \<lparr>pm_name = metric_name mb (em_name ev) k,
               pm_time = (if mb_export_timestamps mb then Some (em_timestamp ev') else None),
               pm_added_at = now, pm_labels = labels, pm_value = f\<rparr>
         in case metrics_loop pf mb now labels vs ev' of (pms, ev'') \<Rightarrow> (pm # pms, ev'')))"

definition metrics_from_event ::
  "float_parser \<Rightarrow> group_order \<Rightarrow> metric_builder \<Rightarrow> int \<Rightarrow> event_msg \<Rightarrow> (prom_metric list \<times> event_msg) option" where
  "metrics_from_event pf ord mb now ev =
    (case get_labels pf ord mb ev of
      None \<Rightarrow> None
    | Some labels \<Rightarrow> Some (metrics_loop pf mb now labels (values_of ev) ev))"

text \<open>What \<open>Write\<close> hands to the client library: time stamps in milliseconds.\<close>

definition millis :: "64 word \<Rightarrow> int" where
  "millis t = sint t sdiv 1000000"

definition write_metric :: "prom_metric \<Rightarrow> label list \<times> 64 word \<times> int option" where
  "write_metric p = (pm_labels p, pm_value p, map_option millis (pm_time p))"

section \<open>Time series\<close>

record time_series =
  ser_name :: string
  ser_labels :: "label list"
  ser_value :: "64 word"
  ser_time :: int

fun series_loop :: "float_parser \<Rightarrow> metric_builder \<Rightarrow> event_msg \<Rightarrow> label list \<Rightarrow> (string \<times> gval) list \<Rightarrow> time_series list" where
  "series_loop pf mb ev labels [] = []"
| "series_loop pf mb ev labels ((k, v) # vs) =
    (case metric_value pf mb v of
      None \<Rightarrow> series_loop pf mb ev labels vs
    | Some f \<Rightarrow>
        (let n = metric_name mb (em_name ev) k
         in \<lparr>ser_name = n, ser_labels = sort_key lb_name (labels @ [\<lparr>lb_name = ''__name__'', lb_value = n\<rparr>]), ser_value = f,
              ser_time = millis (em_timestamp ev)\<rparr> # series_loop pf mb ev labels vs))"

definition time_series_from_event ::
  "float_parser \<Rightarrow> group_order \<Rightarrow> metric_builder \<Rightarrow> event_msg \<Rightarrow> time_series list option" where
  "time_series_from_event pf ord mb ev =
    (case get_labels pf ord mb ev of None \<Rightarrow> None | Some labels \<Rightarrow> Some (series_loop pf mb ev labels (values_of ev)))"

section \<open>One round of the resolution\<close>

definition conflicts :: "string list \<Rightarrow> temp_label list \<Rightarrow> string \<Rightarrow> bool" where
  "conflicts added ls n \<longleftrightarrow> n \<in> set added \<or> 1 < length (filter (\<lambda>l. tl_name l = n) ls)"

definition indices_of :: "string \<Rightarrow> temp_label list \<Rightarrow> nat list" where
  "indices_of n ls = filter (\<lambda>i. tl_name (ls ! i) = n) [0..<length ls]"

lemma indices_of_Cons:
  "indices_of n (l # ls) = (if tl_name l = n then [0] else []) @ map Suc (indices_of n ls)"
proof -
  have "[0..<length (l # ls)] = 0 # map Suc [0..<length ls]" by (simp add: map_Suc_upt upt_conv_Cons del: upt_Suc)
  then show ?thesis by (simp add: indices_of_def filter_map comp_def)
qed

lemma group_indices_map_of:
  "map_of (group_indices ls i g) n =
    (if indices_of n ls = [] then map_of g n
     else Some ((case map_of g n of None \<Rightarrow> [] | Some is \<Rightarrow> is) @ map (\<lambda>j. i + j) (indices_of n ls)))"
proof (induction ls arbitrary: i g)
  case (Cons l ls)
  show ?case by (auto simp: Cons.IH indices_of_Cons comp_def split: option.splits)
qed (simp add: indices_of_def)

lemma group_indices_wf: "wf_gmap g \<Longrightarrow> wf_gmap (group_indices ls i g)"
  by (induction ls arbitrary: i g) simp_all

lemma length_indices_of: "length (indices_of n ls) = length (filter (\<lambda>l. tl_name l = n) ls)"
  by (induction ls) (simp_all add: indices_of_Cons, simp add: indices_of_def)

lemma set_indices_of: "set (indices_of n ls) = {i. i < length ls \<and> tl_name (ls ! i) = n}"
  by (auto simp: indices_of_def)

lemma lengthen_all_append: "lengthen_all (is @ js) s = lengthen_all js (lengthen_all is s)"
  by (induction "is" s rule: lengthen_all.induct) simp_all

text \<open>The groups with a conflict are lengthened one after the other.\<close>

lemma resolve_groups_concat:
  "resolve_groups added gs s =
    lengthen_all (concat (map snd (filter (\<lambda>(n, is). \<not> (length is \<le> 1 \<and> n \<notin> set added)) gs))) s"
  by (induction added gs s rule: resolve_groups.induct) (simp_all add: lengthen_all_append)

lemma lengthen_all_eq:
  assumes "distinct is" and "\<forall>i \<in> set is. i < length ls"
  shows "lengthen_all is (ls, c) =
    (map (\<lambda>i. if i \<in> set is then lengthen (ls ! i) else ls ! i) [0..<length ls],
     c \<or> (\<exists>i \<in> set is. tl_name (lengthen (ls ! i)) \<noteq> tl_name (ls ! i)))"
  using assms
proof (induction "is" arbitrary: ls c)
  case Nil
  then show ?case by (simp add: map_nth)
next
  case (Cons i js)
  let ?ls = "ls[i := lengthen (ls ! i)]"
  have other: "?ls ! j = ls ! j" if "j \<in> set js" for j
    using that Cons.prems(1) by (intro nth_list_update_neq) auto
  have "lengthen_all js (?ls, c \<or> tl_name (lengthen (ls ! i)) \<noteq> tl_name (ls ! i)) =
    (map (\<lambda>j. if j \<in> set js then lengthen (?ls ! j) else ?ls ! j) [0..<length ?ls],
     (c \<or> tl_name (lengthen (ls ! i)) \<noteq> tl_name (ls ! i)) \<or> (\<exists>j \<in> set js. tl_name (lengthen (?ls ! j)) \<noteq> tl_name (?ls ! j)))"
    using Cons.prems by (intro Cons.IH) simp_all
  moreover have "map (\<lambda>j. if j \<in> set js then lengthen (?ls ! j) else ?ls ! j) [0..<length ?ls] =
      map (\<lambda>j. if j \<in> set (i # js) then lengthen (ls ! j) else ls ! j) [0..<length ls]"
    using Cons.prems by (auto simp: nth_list_update)
  moreover have "(\<exists>j \<in> set js. tl_name (lengthen (?ls ! j)) \<noteq> tl_name (?ls ! j)) = (\<exists>j \<in> set js. tl_name (lengthen (ls ! j)) \<noteq> tl_name (ls ! j))"
    using other by (intro bex_cong) simp_all
  ultimately show ?case by auto
qed

definition resolved :: "string list \<Rightarrow> temp_label list \<Rightarrow> temp_label \<Rightarrow> temp_label" where
  "resolved added ls l = (if conflicts added ls (tl_name l) then lengthen l else l)"

definition unsettled :: "string list \<Rightarrow> temp_label list \<Rightarrow> bool" where
  "unsettled added ls \<longleftrightarrow> (\<exists>l \<in> set ls. conflicts added ls (tl_name l) \<and> tl_name (lengthen l) \<noteq> tl_name l)"

lemma group_indices_mem:
  "(n, is) \<in> set (group_indices ls 0 []) \<longleftrightarrow> is = indices_of n ls \<and> is \<noteq> []"
  by (subst map_of_Some_wf [OF group_indices_wf]) (auto simp: group_indices_map_of)

text \<open>The indices of different groups are different.\<close>

lemma distinct_group_indices:
  assumes "distinct (map fst gs)" and "set gs \<subseteq> set (group_indices ls 0 [])"
  shows "distinct (concat (map snd gs))"
  using assms
proof (induction gs)
  case (Cons x gs)
  obtain n "is" where x: "x = (n, is)" by (cases x)
  have "distinct is" using Cons.prems(2) x by (auto simp: group_indices_mem indices_of_def)
  moreover have "set is \<inter> set (concat (map snd gs)) = {}"
  proof (rule ccontr)
    assume "set is \<inter> set (concat (map snd gs)) \<noteq> {}"
    then obtain i m js where "i \<in> set is" "(m, js) \<in> set gs" "i \<in> set js" by auto
    moreover from this have "tl_name (ls ! i) = n" "tl_name (ls ! i) = m"
      using Cons.prems(2) x group_indices_mem by (auto simp: set_indices_of)
    ultimately show False using Cons.prems(1) x by force
  qed
  ultimately show ?case using Cons x by simp
qed simp

lemma conflict_iff:
  "conflicts added ls n \<longleftrightarrow> \<not> (length (indices_of n ls) \<le> 1 \<and> n \<notin> set added)"
  by (auto simp: conflicts_def length_indices_of)

lemma conflict_indices:
  assumes "set gs = set (group_indices ls 0 [])"
  shows "set (concat (map snd (filter (\<lambda>(n, is). \<not> (length is \<le> 1 \<and> n \<notin> set added)) gs))) =
    {i. i < length ls \<and> conflicts added ls (tl_name (ls ! i))}"
    (is "set ?L = ?C")
proof (intro set_eqI iffI)
  fix i
  assume "i \<in> set ?L"
  then obtain n "is" where "(n, is) \<in> set (group_indices ls 0 [])" "\<not> (length is \<le> 1 \<and> n \<notin> set added)" "i \<in> set is"
    using assms by auto
  then show "i \<in> ?C" by (simp add: group_indices_mem conflict_iff set_indices_of)
next
  fix i
  assume i: "i \<in> ?C"
  let ?n = "tl_name (ls ! i)"
  have "i \<in> set (indices_of ?n ls)" using i by (simp add: set_indices_of)
  moreover from this have "(?n, indices_of ?n ls) \<in> set gs" by (auto simp: assms group_indices_mem)
  ultimately show "i \<in> set ?L" using i conflict_iff by fastforce
qed

text \<open>The order of the groups does not matter: every label is looked at once.\<close>

lemma resolve_round_eq:
  assumes "permutes ord"
  shows "resolve_round ord added ls = (map (resolved added ls) ls, unsettled added ls)"
proof -
  let ?g = "group_indices ls 0 []"
  have ms: "mset (ord ?g) = mset ?g" using assms by (simp add: permutes_def)
  then have set_g: "set (ord ?g) = set ?g" by (rule mset_eq_setD)
  have "distinct (map fst (ord ?g))"
    using group_indices_wf [of "[]" ls 0] ms by (metis wf_gmap_def wf_gmap_Nil mset_map mset_eq_imp_distinct_iff)
  define L where "L = concat (map snd (filter (\<lambda>(n, is). \<not> (length is \<le> 1 \<and> n \<notin> set added)) (ord ?g)))"
  have L: "set L = {i. i < length ls \<and> conflicts added ls (tl_name (ls ! i))}"
    unfolding L_def by (rule conflict_indices [OF set_g])
  have "distinct L"
    unfolding L_def
    by (rule distinct_group_indices [of _ ls]) (use \<open>distinct (map fst (ord ?g))\<close> set_g in \<open>auto simp: distinct_map_filter\<close>)
  moreover have "resolve_round ord added ls = lengthen_all L (ls, False)"
    unfolding L_def resolve_round_def resolve_groups_concat ..
  ultimately have "resolve_round ord added ls =
    (map (\<lambda>i. if i \<in> set L then lengthen (ls ! i) else ls ! i) [0..<length ls],
     \<exists>i \<in> set L. tl_name (lengthen (ls ! i)) \<noteq> tl_name (ls ! i))"
    using lengthen_all_eq [of L ls False] L by simp
  moreover have "map (\<lambda>i. if i \<in> set L then lengthen (ls ! i) else ls ! i) [0..<length ls] = map (resolved added ls) ls"
    by (rule nth_equalityI) (simp_all add: L resolved_def)
  moreover have "(\<exists>i \<in> set L. tl_name (lengthen (ls ! i)) \<noteq> tl_name (ls ! i)) = unsettled added ls"
    by (simp add: L unsettled_def Bex_def) (metis in_set_conv_nth)
  ultimately show ?thesis by simp
qed

section \<open>The resolution ends\<close>

text \<open>From the second element on, the name is made of the last elements of the path.\<close>

definition full_name :: "string \<Rightarrow> string" where
  "full_name p = label_name_from_path p (length (path_segments p))"

lemma sanitize_run_append_us: "sanitize_run b (s @ CHR ''_'' # t) = sanitize_run b s @ CHR ''_'' # sanitize_run False t"
  by (induction b s rule: sanitize_run.induct) (simp_all add: name_char_def)

lemma sanitize_nonempty: "s \<noteq> [] \<Longrightarrow> sanitize s \<noteq> []"
  by (cases s) (simp_all add: sanitize_def)

lemma label_name_step:
  assumes "n < length (path_segments p)" and "0 < n"
  shows "length (label_name_from_path p n) < length (label_name_from_path p (Suc n))"
proof -
  let ?s = "path_segments p"
  let ?k = "length ?s - Suc n"
  have d: "drop ?k ?s = ?s ! ?k # drop (length ?s - n) ?s"
    using assms(1) by (simp add: Cons_nth_drop_Suc [symmetric] Suc_diff_Suc)
  obtain w ws where r: "drop (length ?s - n) ?s = w # ws"
    using assms by (cases "drop (length ?s - n) ?s") auto
  have "?s ! ?k \<noteq> []" using assms(1) nth_mem [of ?k ?s] by (auto simp: path_segments_def)
  then have "sanitize (?s ! ?k) \<noteq> []" by (rule sanitize_nonempty)
  moreover have "sanitize (join ''_'' (?s ! ?k # w # ws)) = sanitize (?s ! ?k) @ CHR ''_'' # sanitize (join ''_'' (w # ws))"
    by (simp add: sanitize_def sanitize_run_append_us del: sanitize_run.simps)
  moreover have "min n (length ?s) = n" "min (Suc n) (length ?s) = Suc n" using assms(1) by simp_all
  ultimately show ?thesis using d r by (simp add: label_name_from_path_def Let_def)
qed

text \<open>The base name is the last element.\<close>

lemma split_char_at: "split_char c (x @ c # y) = split_char c x @ split_char c y"
proof (induction x)
  case (Cons a x)
  then show ?case by (cases "split_char c x") auto
qed simp

lemma path_segments_at: "path_segments (x @ slash # y) = path_segments x @ path_segments y"
  by (simp add: path_segments_def split_char_at)

lemma path_segments_word: "slash \<notin> set w \<Longrightarrow> path_segments w = (if w = [] then [] else [w])"
  by (simp add: path_segments_def split_char_no_sep)

lemma path_segments_slashes: "set y \<subseteq> {slash} \<Longrightarrow> path_segments (x @ y) = path_segments x"
proof (induction y arbitrary: x)
  case (Cons a y)
  then have "path_segments (x @ a # y) = path_segments x @ path_segments y" using path_segments_at by simp
  moreover have "path_segments y = []" using Cons.IH [of "[]"] Cons.prems by (simp add: path_segments_word)
  ultimately show ?case by simp
qed simp

lemma base_name_segment:
  assumes "path_segments p \<noteq> []"
  shows "base_name p = last (path_segments p)"
proof -
  define t where "t = trim_right_char slash p"
  define y where "y = rev (takeWhile (\<lambda>c. c = slash) (rev p))"
  have "t @ y = rev (takeWhile (\<lambda>c. c = slash) (rev p) @ dropWhile (\<lambda>c. c = slash) (rev p))"
    by (simp only: t_def y_def trim_right_char_def rev_append)
  then have "p = t @ y" by simp
  moreover have "set y \<subseteq> {slash}" by (auto simp: y_def dest: set_takeWhileD)
  ultimately have seg: "path_segments p = path_segments t" by (simp add: path_segments_slashes)
  define w where "w = rev (takeWhile (\<lambda>c. c \<noteq> slash) (rev t))"
  have w: "slash \<notin> set w" by (auto simp: w_def dest: set_takeWhileD)
  have "t \<noteq> []" using assms seg by (auto simp: path_segments_word)
  then have "hd (rev t) \<noteq> slash"
    using hd_dropWhile [of "\<lambda>c. c = slash" "rev p"] by (auto simp: t_def trim_right_char_def)
  with \<open>t \<noteq> []\<close> have wn: "w \<noteq> []" by (cases "rev t") (auto simp: w_def)
  have t: "t = rev (dropWhile (\<lambda>c. c \<noteq> slash) (rev t)) @ w"
    using takeWhile_dropWhile_id [of "\<lambda>c. c \<noteq> slash" "rev t"] by (simp add: w_def flip: rev_append)
  have "last (path_segments t) = w"
  proof (cases "dropWhile (\<lambda>c. c \<noteq> slash) (rev t)")
    case Nil
    with t have "t = w" by simp
    then show ?thesis using w wn by (simp add: path_segments_word)
  next
    case (Cons a r)
    then have "a = slash" using hd_dropWhile [of "\<lambda>c. c \<noteq> slash" "rev t"] by auto
    with Cons t have "t = rev r @ slash # w" by simp
    then show ?thesis using w wn by (simp add: path_segments_at path_segments_word)
  qed
  moreover have "p \<noteq> []" using assms by (auto simp: path_segments_word)
  ultimately show ?thesis using seg wn by (simp add: base_name_def Let_def flip: t_def w_def del: rev_is_Nil_conv)
qed

text \<open>The name of a label is made of the last elements of its path, as many as it counts.\<close>

definition label_ok :: "temp_label \<Rightarrow> bool" where
  "label_ok l \<longleftrightarrow> 1 \<le> tl_count l \<and>
    (path_segments (tl_path l) \<noteq> [] \<or> 2 \<le> tl_count l \<longrightarrow> tl_name l = label_name_from_path (tl_path l) (tl_count l))"

definition label_full :: "temp_label \<Rightarrow> bool" where
  "label_full l \<longleftrightarrow> tl_name l = full_name (tl_path l)"

definition rank :: "temp_label \<Rightarrow> nat" where
  "rank l = max 1 (length (path_segments (tl_path l))) + 1 - tl_count l"

lemma name_from_all: "length (path_segments p) \<le> n \<Longrightarrow> label_name_from_path p n = full_name p"
  by (simp add: full_name_def label_name_from_path_def Let_def)

lemma name_from_one: "path_segments p \<noteq> [] \<Longrightarrow> label_name_from_path p 1 = sanitize (base_name p)"
proof -
  assume p: "path_segments p \<noteq> []"
  then have "drop (length (path_segments p) - 1) (path_segments p) = [last (path_segments p)]"
    by (cases "path_segments p" rule: rev_cases) auto
  moreover have "min 1 (length (path_segments p)) = 1" using p by (cases "path_segments p") auto
  ultimately show ?thesis using p by (simp add: label_name_from_path_def base_name_segment Let_def)
qed

lemma label_ok_lengthen: "label_ok l \<Longrightarrow> label_ok (lengthen l)"
  by (simp add: label_ok_def lengthen_def)

lemma rank_lengthen: "rank (lengthen l) \<le> rank l"
  by (simp add: rank_def lengthen_def)

text \<open>A name changes only while its path has more elements, and one that does not change is full.\<close>

lemma lengthen_changes:
  assumes "label_ok l" and "tl_name (lengthen l) \<noteq> tl_name l"
  shows "rank (lengthen l) < rank l"
proof (cases "path_segments (tl_path l) = []")
  case True
  then have "tl_count l = 1" using assms by (cases "2 \<le> tl_count l") (auto simp: lengthen_def label_ok_def name_from_all)
  then show ?thesis by (simp add: rank_def lengthen_def)
next
  case False
  have "tl_count l < length (path_segments (tl_path l))"
  proof (rule ccontr)
    assume "\<not> ?thesis"
    then show False using assms False by (simp add: lengthen_def name_from_all label_ok_def)
  qed
  then show ?thesis by (simp add: rank_def lengthen_def)
qed

lemma lengthen_settled:
  assumes "label_ok l" and "tl_name (lengthen l) = tl_name l"
  shows "label_full l"
proof (cases "length (path_segments (tl_path l)) \<le> tl_count l")
  case True
  with assms(2) show ?thesis by (simp add: label_full_def lengthen_def name_from_all)
next
  case False
  then have "path_segments (tl_path l) \<noteq> []" "tl_count l < length (path_segments (tl_path l))" by auto
  with assms show ?thesis
    using label_name_step [of "tl_count l" "tl_path l"] by (simp add: label_ok_def lengthen_def)
qed

lemma lengthen_sel [simp]: "tl_path (lengthen l) = tl_path l" "tl_value (lengthen l) = tl_value l"
  by (simp_all add: lengthen_def)

lemma resolved_sel [simp]: "tl_path (resolved added ls l) = tl_path l" "tl_value (resolved added ls l) = tl_value l"
  by (simp_all add: resolved_def)

definition same_texts :: "temp_label list \<Rightarrow> temp_label list \<Rightarrow> bool" where
  "same_texts ls ls' \<longleftrightarrow> map (\<lambda>l. (tl_path l, tl_value l)) ls' = map (\<lambda>l. (tl_path l, tl_value l)) ls"

lemma sum_list_less:
  fixes f g :: "'a \<Rightarrow> nat"
  assumes "x \<in> set xs" and "f x < g x" and "\<And>y. y \<in> set xs \<Longrightarrow> f y \<le> g y"
  shows "(\<Sum>y\<leftarrow>xs. f y) < (\<Sum>y\<leftarrow>xs. g y)"
proof -
  obtain us vs where xs: "xs = us @ x # vs" using split_list [OF assms(1)] by blast
  have "(\<Sum>y\<leftarrow>us. f y) \<le> (\<Sum>y\<leftarrow>us. g y)" "(\<Sum>y\<leftarrow>vs. f y) \<le> (\<Sum>y\<leftarrow>vs. g y)"
    using assms(3) xs by (auto intro!: sum_list_mono)
  then show ?thesis using assms(2) by (simp add: xs)
qed

lemma conflicts_names:
  assumes "map tl_name ls' = map tl_name ls"
  shows "conflicts added ls' n = conflicts added ls n"
proof -
  have f: "length (filter (\<lambda>l. tl_name l = n) xs) = length (filter (\<lambda>m. m = n) (map tl_name xs))" for xs
    by (induction xs) simp_all
  show ?thesis unfolding conflicts_def f assms ..
qed

text \<open>The loop returns, keeps paths and texts, and leaves in conflict only names of whole paths.\<close>

lemma resolve_loop_returns:
  assumes "permutes ord" and "\<forall>l \<in> set ls. label_ok l"
  shows "\<exists>ls'. resolve_loop ord added ls = Some ls' \<and> same_texts ls ls' \<and>
    (\<forall>l \<in> set ls'. conflicts added ls' (tl_name l) \<longrightarrow> label_full l)"
  using assms(2)
proof (induction "sum_list (map rank ls)" arbitrary: ls rule: less_induct)
  case less
  let ?ls = "map (resolved added ls) ls"
  have step: "resolve_loop ord added ls = (if unsettled added ls then resolve_loop ord added ?ls else Some ?ls)"
    by (subst resolve_loop.simps) (simp add: resolve_round_eq [OF assms(1)])
  have same: "same_texts ls ?ls" by (simp add: same_texts_def)
  show ?case
  proof (cases "unsettled added ls")
    case True
    then obtain l where l: "l \<in> set ls" "resolved added ls l = lengthen l" "tl_name (lengthen l) \<noteq> tl_name l"
      by (auto simp: unsettled_def resolved_def)
    have "sum_list (map rank ?ls) < sum_list (map rank ls)"
      unfolding map_map comp_def
      by (rule sum_list_less [OF l(1)]) (use less.prems l lengthen_changes rank_lengthen in \<open>auto simp: resolved_def\<close>)
    moreover have "\<forall>l \<in> set ?ls. label_ok l" using less.prems label_ok_lengthen by (auto simp: resolved_def)
    ultimately obtain ls' where "resolve_loop ord added ?ls = Some ls'" "same_texts ?ls ls'"
      "\<forall>l \<in> set ls'. conflicts added ls' (tl_name l) \<longrightarrow> label_full l"
      using less.hyps by blast
    with True step same show ?thesis by (simp add: same_texts_def)
  next
    case False
    have names: "map tl_name ?ls = map tl_name ls"
      using False by (auto simp: unsettled_def resolved_def)
    have conf: "conflicts added ?ls n = conflicts added ls n" for n by (rule conflicts_names [OF names])
    have "label_full (resolved added ls l)" if "l \<in> set ls" "conflicts added ?ls (tl_name (resolved added ls l))" for l
    proof -
      have n: "tl_name (resolved added ls l) = tl_name l"
        using that(1) False by (auto simp: unsettled_def resolved_def)
      then have "conflicts added ls (tl_name l)" using that(2) conf by simp
      moreover from this have "tl_name (lengthen l) = tl_name l" using that(1) False by (auto simp: unsettled_def)
      ultimately show ?thesis using lengthen_settled [of l] less.prems that(1) n by (simp add: label_full_def)
    qed
    with False step same show ?thesis by auto
  qed
qed

section \<open>Labels are unique\<close>

abbreviation names_of :: "label list \<Rightarrow> string set" where
  "names_of ls \<equiv> lb_name ` set ls"

lemma drop_taken_distinct:
  "distinct (map lb_name (drop_taken taken ls)) \<and> names_of (drop_taken taken ls) \<inter> set taken = {}"
  by (induction taken ls rule: drop_taken.induct) auto

lemma drop_taken_names: "l \<in> set ls \<Longrightarrow> tl_name l \<in> set taken \<union> names_of (drop_taken taken ls)"
  by (induction taken ls rule: drop_taken.induct) auto

lemma drop_taken_keeps:
  assumes "l \<in> set ls" and "\<not> conflicts taken ls (tl_name l)"
  shows "\<lparr>lb_name = tl_name l, lb_value = tl_value l\<rparr> \<in> set (drop_taken taken ls)"
  using assms
proof (induction taken ls rule: drop_taken.induct)
  case (2 taken a ls)
  show ?case
  proof (cases "l = a")
    case True
    with 2 show ?thesis by (simp add: conflicts_def)
  next
    case False
    then have l: "l \<in> set ls" using 2 by simp
    then have "filter (\<lambda>x. tl_name x = tl_name l) ls \<noteq> []" by (auto simp: filter_empty_conv)
    then have "tl_name a \<noteq> tl_name l" using 2 by (auto simp: conflicts_def)
    with 2 l show ?thesis by (auto simp: conflicts_def)
  qed
qed simp

lemma tag_labels_eq:
  "map lb_name labels = added \<Longrightarrow> distinct added \<Longrightarrow>
    map lb_name (fst (tag_labels ts labels added)) = snd (tag_labels ts labels added) \<and>
    distinct (snd (tag_labels ts labels added)) \<and> set added \<subseteq> set (snd (tag_labels ts labels added)) \<and>
    (\<forall>kv \<in> set ts. sanitize (base_name (fst kv)) \<in> set (snd (tag_labels ts labels added)))"
proof (induction ts labels added rule: tag_labels.induct)
  case (2 k v ts labels added)
  let ?n = "sanitize (base_name k)"
  show ?case
  proof (cases "?n \<in> set added")
    case True
    with "2.IH"(1) [OF refl True "2.prems"] show ?thesis by (auto simp: Let_def)
  next
    case False
    have "map lb_name (labels @ [\<lparr>lb_name = ?n, lb_value = v\<rparr>]) = added @ [?n]" using "2.prems"(1) by simp
    from "2.IH"(2) [OF refl False this] False "2.prems"(2) show ?thesis by (auto simp: Let_def)
  qed
qed simp

definition text_of :: "gval \<Rightarrow> string" where
  "text_of v = (case v of VStr s \<Rightarrow> s | _ \<Rightarrow> [])"

lemma gather_labels_ok: "\<forall>l \<in> set (gather_labels pf vs). label_ok l"
  using name_from_one by (induction pf vs rule: gather_labels.induct) (auto simp: label_ok_def)

lemma gather_labels_mem:
  "(k, v) \<in> set vs \<Longrightarrow> to_float pf v = None \<Longrightarrow> (k, text_of v) \<in> (\<lambda>l. (tl_path l, tl_value l)) ` set (gather_labels pf vs)"
  by (induction pf vs rule: gather_labels.induct) (auto simp: text_of_def)

lemma labels_from_values_spec:
  assumes "permutes ord"
  shows "\<exists>ls. labels_from_values pf ord vs added = Some ls \<and> distinct (map lb_name ls) \<and> names_of ls \<inter> set added = {} \<and>
    (\<forall>(k, v) \<in> set vs. to_float pf v = None \<longrightarrow>
      text_of v \<in> lb_value ` set ls \<or> full_name k \<in> set added \<union> names_of ls)"
proof -
  obtain ls where ls: "resolve_loop ord added (gather_labels pf vs) = Some ls" "same_texts (gather_labels pf vs) ls"
    "\<forall>l \<in> set ls. conflicts added ls (tl_name l) \<longrightarrow> label_full l"
    using resolve_loop_returns [OF assms gather_labels_ok] by blast
  have "text_of v \<in> lb_value ` set (drop_taken added ls) \<or> full_name k \<in> set added \<union> names_of (drop_taken added ls)"
    if kv: "(k, v) \<in> set vs" "to_float pf v = None" for k v
  proof -
    have "(k, text_of v) \<in> (\<lambda>l. (tl_path l, tl_value l)) ` set ls"
      using gather_labels_mem [OF kv] arg_cong [of _ _ set, OF ls(2) [unfolded same_texts_def]] by (simp only: set_map)
    then obtain l where l: "l \<in> set ls" "tl_path l = k" "tl_value l = text_of v" by auto
    show ?thesis
    proof (cases "conflicts added ls (tl_name l)")
      case True
      with ls(3) l(1) have "label_full l" by blast
      then have "tl_name l = full_name k" by (simp add: label_full_def l(2))
      with drop_taken_names [OF l(1), of added] show ?thesis by simp
    next
      case False
      from drop_taken_keeps [OF l(1) this] l(3) show ?thesis by force
    qed
  qed
  moreover have "labels_from_values pf ord vs added = Some (drop_taken added ls)" using ls(1) by (simp add: labels_from_values_def)
  ultimately show ?thesis using drop_taken_distinct [of added ls] by auto
qed

lemma get_labels_spec:
  assumes "permutes ord"
  shows "\<exists>labels. get_labels pf ord mb ev = Some labels \<and> distinct (map lb_name labels) \<and>
    (\<forall>kv \<in> set (tags_of ev). sanitize (base_name (fst kv)) \<in> names_of labels) \<and>
    (mb_strings_as_labels mb \<longrightarrow> (\<forall>(k, v) \<in> set (values_of ev). to_float pf v = None \<longrightarrow>
      text_of v \<in> lb_value ` set labels \<or> full_name k \<in> names_of labels))"
proof -
  obtain labels added where tl: "tag_labels (tags_of ev) [] [] = (labels, added)" by fastforce
  from tag_labels_eq [of "[]" "[]" "tags_of ev"] tl
  have t: "map lb_name labels = added" "distinct added" "\<forall>kv \<in> set (tags_of ev). sanitize (base_name (fst kv)) \<in> set added" by auto
  then have n: "set added = names_of labels" by force
  obtain ls where ls: "labels_from_values pf ord (values_of ev) added = Some ls" "distinct (map lb_name ls)"
    "names_of ls \<inter> set added = {}"
    "\<forall>(k, v) \<in> set (values_of ev). to_float pf v = None \<longrightarrow> text_of v \<in> lb_value ` set ls \<or> full_name k \<in> set added \<union> names_of ls"
    using labels_from_values_spec [OF assms] by blast
  show ?thesis
  proof (cases "mb_strings_as_labels mb")
    case False
    with tl t n show ?thesis by (simp add: get_labels_def)
  next
    case True
    then have "get_labels pf ord mb ev = Some (labels @ ls)" using tl ls(1) by (simp add: get_labels_def)
    moreover have "distinct (map lb_name (labels @ ls))" using t(1,2) ls(2,3) n by auto
    moreover have "\<forall>kv \<in> set (tags_of ev). sanitize (base_name (fst kv)) \<in> names_of (labels @ ls)" using t(3) n by auto
    moreover have "\<forall>(k, v) \<in> set (values_of ev). to_float pf v = None \<longrightarrow>
        text_of v \<in> lb_value ` set (labels @ ls) \<or> full_name k \<in> names_of (labels @ ls)" using ls(4) n by auto
    ultimately show ?thesis by blast
  qed
qed

text \<open>C8. The labels of an event are found, whatever the tags and values are called and however the maps are
  ranged over: no name is used twice, every tag has its name among them, and a value that is no
  number becomes a label unless even the name of its whole path is taken.\<close>

theorem labels_unique_and_complete:
  assumes "permutes ord"
  shows "\<exists>labels. get_labels pf ord mb ev = Some labels \<and> distinct (map lb_name labels) \<and>
    (\<forall>(k, v) \<in> set (tags_of ev). sanitize (base_name k) \<in> names_of labels) \<and>
    (mb_strings_as_labels mb \<longrightarrow> (\<forall>(k, v) \<in> set (values_of ev). to_float pf v = None \<longrightarrow>
      text_of v \<in> lb_value ` set labels \<or> full_name k \<in> names_of labels))"
  using get_labels_spec [OF assms] by (simp add: case_prod_beta')

definition label_builder :: metric_builder where
  "label_builder = \<lparr>mb_prefix = ''gnmic'', mb_append_subscription_name = True, mb_strings_as_labels = True,
    mb_override_timestamps = False, mb_export_timestamps = True\<rparr>"

definition no_floats :: float_parser where
  "no_floats s = Inl ''invalid syntax''"

text \<open>Two texts whose paths end alike, and a tag of that name.\<close>

definition state_event :: event_msg where
  "state_event = \<lparr>em_name = ''sub1'', em_timestamp = 5000000, em_tags = Some [(''interface/name'', ''e1''), (''state'', ''t'')],
    em_values = Some [(''/a/state'', VStr ''up''), (''/b/state'', VStr ''down''), (''/b/in-octets'', VF64 0x4008000000000000)], em_deletes = None\<rparr>"

lemma labels_of_state_event:
  "get_labels no_floats (\<lambda>gs. gs) label_builder state_event = Some [\<lparr>lb_name = ''name'', lb_value = ''e1''\<rparr>,
    \<lparr>lb_name = ''state'', lb_value = ''t''\<rparr>, \<lparr>lb_name = ''a_state'', lb_value = ''up''\<rparr>, \<lparr>lb_name = ''b_state'', lb_value = ''down''\<rparr>]"
proof -
  have "resolve_round (\<lambda>gs. gs) [''name'', ''state''] (gather_labels no_floats (values_of state_event)) =
      ([\<lparr>tl_path = ''/a/state'', tl_name = ''a_state'', tl_value = ''up'', tl_count = 2\<rparr>,
        \<lparr>tl_path = ''/b/state'', tl_name = ''b_state'', tl_value = ''down'', tl_count = 2\<rparr>], True)"
    "resolve_round (\<lambda>gs. gs) [''name'', ''state'']
      [\<lparr>tl_path = ''/a/state'', tl_name = ''a_state'', tl_value = ''up'', tl_count = 2\<rparr>,
       \<lparr>tl_path = ''/b/state'', tl_name = ''b_state'', tl_value = ''down'', tl_count = 2\<rparr>] =
      ([\<lparr>tl_path = ''/a/state'', tl_name = ''a_state'', tl_value = ''up'', tl_count = 2\<rparr>,
        \<lparr>tl_path = ''/b/state'', tl_name = ''b_state'', tl_value = ''down'', tl_count = 2\<rparr>], False)"
    by code_simp+
  then have loop: "resolve_loop (\<lambda>gs. gs) [''name'', ''state''] (gather_labels no_floats (values_of state_event)) =
      Some [\<lparr>tl_path = ''/a/state'', tl_name = ''a_state'', tl_value = ''up'', tl_count = 2\<rparr>,
        \<lparr>tl_path = ''/b/state'', tl_name = ''b_state'', tl_value = ''down'', tl_count = 2\<rparr>]"
    by (subst resolve_loop.simps) (simp, subst resolve_loop.simps, simp)
  have "tag_labels (tags_of state_event) [] [] =
      ([\<lparr>lb_name = ''name'', lb_value = ''e1''\<rparr>, \<lparr>lb_name = ''state'', lb_value = ''t''\<rparr>], [''name'', ''state''])"
    by code_simp
  then show ?thesis using loop by (simp add: get_labels_def labels_from_values_def label_builder_def)
qed

theorem labels_unique_and_complete_witness:
  "case get_labels no_floats (\<lambda>gs. gs) label_builder state_event of
    None \<Rightarrow> False
  | Some labels \<Rightarrow> distinct (map lb_name labels) \<and> length labels = 4"
  using labels_unique_and_complete [OF permutes_id, of no_floats label_builder state_event]
  by (auto simp: labels_of_state_event)

section \<open>Time series\<close>

lemma series_loop_names:
  "map ser_name (series_loop pf mb ev labels vs) =
    map (\<lambda>(k, v). metric_name mb (em_name ev) k) (filter (\<lambda>(k, v). metric_value pf mb v \<noteq> None) vs)"
  by (induction pf mb ev labels vs rule: series_loop.induct) (auto simp: Let_def split: option.split)

lemma series_loop_labels:
  "s \<in> set (series_loop pf mb ev labels vs) \<Longrightarrow>
    ser_labels s = sort_key lb_name (labels @ [\<lparr>lb_name = ''__name__'', lb_value = ser_name s\<rparr>]) \<and>
    ser_time s = millis (em_timestamp ev)"
  by (induction pf mb ev labels vs rule: series_loop.induct) (auto simp: Let_def split: option.splits)

text \<open>An event becomes one time series for each number, and for each other value when texts are wanted as
  labels. Each has the labels of the event and its name, sorted by name as the remote write protocol
  requires, and no name is repeated as long as none of the labels is called __name__.\<close>

theorem time_series_sorted:
  assumes "permutes ord"
  shows "\<exists>labels sers. get_labels pf ord mb ev = Some labels \<and> time_series_from_event pf ord mb ev = Some sers \<and>
    map ser_name sers = map (\<lambda>(k, v). metric_name mb (em_name ev) k) (filter (\<lambda>(k, v). metric_value pf mb v \<noteq> None) (values_of ev)) \<and>
    (\<forall>s \<in> set sers. sorted (map lb_name (ser_labels s)) \<and> ser_time s = millis (em_timestamp ev) \<and>
      set (ser_labels s) = insert \<lparr>lb_name = ''__name__'', lb_value = ser_name s\<rparr> (set labels) \<and>
      (''__name__'' \<notin> names_of labels \<longrightarrow> distinct (map lb_name (ser_labels s))))"
proof -
  obtain labels where l: "get_labels pf ord mb ev = Some labels" "distinct (map lb_name labels)"
    using get_labels_spec [OF assms] by blast
  have "distinct (map lb_name (ser_labels s))" if "s \<in> set (series_loop pf mb ev labels (values_of ev))" "''__name__'' \<notin> names_of labels" for s
  proof -
    have "distinct (map lb_name (labels @ [\<lparr>lb_name = ''__name__'', lb_value = ser_name s\<rparr>]))" using l(2) that(2) by simp
    then show ?thesis
      unfolding series_loop_labels [OF that(1), THEN conjunct1]
      by (subst mset_eq_imp_distinct_iff [of _ "map lb_name (labels @ [\<lparr>lb_name = ''__name__'', lb_value = ser_name s\<rparr>])"])
        (simp_all only: mset_map mset_sort)
  qed
  with l(1) show ?thesis
    by (intro exI [of _ labels] exI [of _ "series_loop pf mb ev labels (values_of ev)"])
      (simp add: time_series_from_event_def series_loop_names series_loop_labels)
qed

lemma series_names_of_state_event:
  "map (\<lambda>(k, v). metric_name label_builder (em_name state_event) k)
    (filter (\<lambda>(k, v). metric_value no_floats label_builder v \<noteq> None) (values_of state_event)) =
    [''gnmic_sub1_a_state'', ''gnmic_sub1_b_state'', ''gnmic_sub1_b_in_octets'']"
proof -
  have "filter (\<lambda>(k, v). metric_value no_floats label_builder v \<noteq> None) (values_of state_event) = values_of state_event"
    by (simp add: metric_value_def to_float_def no_floats_def label_builder_def state_event_def)
  moreover have "map (\<lambda>(k, v). metric_name label_builder (em_name state_event) k) (values_of state_event) =
    [''gnmic_sub1_a_state'', ''gnmic_sub1_b_state'', ''gnmic_sub1_b_in_octets'']"
    by code_simp
  ultimately show ?thesis by simp
qed

theorem time_series_sorted_witness:
  "\<exists>sers. time_series_from_event no_floats (\<lambda>gs. gs) label_builder state_event = Some sers \<and>
    map ser_name sers = [''gnmic_sub1_a_state'', ''gnmic_sub1_b_state'', ''gnmic_sub1_b_in_octets''] \<and>
    distinct (map lb_name (ser_labels (hd sers)))"
proof -
  obtain labels where *: "\<exists>sers. get_labels no_floats (\<lambda>gs. gs) label_builder state_event = Some labels \<and>
      time_series_from_event no_floats (\<lambda>gs. gs) label_builder state_event = Some sers \<and>
      map ser_name sers = [''gnmic_sub1_a_state'', ''gnmic_sub1_b_state'', ''gnmic_sub1_b_in_octets''] \<and>
      (\<forall>s \<in> set sers. sorted (map lb_name (ser_labels s)) \<and> ser_time s = millis (em_timestamp state_event) \<and>
        set (ser_labels s) = insert \<lparr>lb_name = ''__name__'', lb_value = ser_name s\<rparr> (set labels) \<and>
        (''__name__'' \<notin> names_of labels \<longrightarrow> distinct (map lb_name (ser_labels s))))"
    by (rule exE [OF time_series_sorted [OF permutes_id, of no_floats label_builder state_event,
      unfolded series_names_of_state_event]])
  from * have l: "get_labels no_floats (\<lambda>gs. gs) label_builder state_event = Some labels" by (elim exE conjE)
  have "''__name__'' \<notin> names_of labels" using l unfolding labels_of_state_event by auto
  moreover obtain sers where t: "time_series_from_event no_floats (\<lambda>gs. gs) label_builder state_event = Some sers"
    and n: "map ser_name sers = [''gnmic_sub1_a_state'', ''gnmic_sub1_b_state'', ''gnmic_sub1_b_in_octets'']"
    and d: "\<forall>s \<in> set sers. sorted (map lb_name (ser_labels s)) \<and> ser_time s = millis (em_timestamp state_event) \<and>
        set (ser_labels s) = insert \<lparr>lb_name = ''__name__'', lb_value = ser_name s\<rparr> (set labels) \<and>
        (''__name__'' \<notin> names_of labels \<longrightarrow> distinct (map lb_name (ser_labels s)))"
    using * by (elim exE conjE)
  moreover have "hd sers \<in> set sers" using n by (cases sers) simp_all
  ultimately have "distinct (map lb_name (ser_labels (hd sers)))" by simp
  then show ?thesis by (intro exI [of _ sers] conjI t n)
qed

text \<open>A tag called __name__ gives every series of the event that label twice.\<close>

lemma name_label_twice:
  "case time_series_from_event no_floats (\<lambda>gs. gs) (label_builder\<lparr>mb_strings_as_labels := False\<rparr>)
      (state_event\<lparr>em_tags := Some [(''__name__'', ''x'')]\<rparr>) of
    None \<Rightarrow> False
  | Some sers \<Rightarrow> map (\<lambda>s. map lb_name (ser_labels s)) sers = [[''__name__'', ''__name__'']]"
  by code_simp

text \<open>The text that is hashed does not tell where a value ends.\<close>

lemma key_text_ambiguous:
  "key_text \<lparr>pm_name = ''m'', pm_time = None, pm_added_at = 0, pm_labels = [\<lparr>lb_name = ''a'', lb_value = ''1:b:2''\<rparr>], pm_value = 0\<rparr> =
   key_text \<lparr>pm_name = ''m'', pm_time = None, pm_added_at = 0,
     pm_labels = [\<lparr>lb_name = ''a'', lb_value = ''1''\<rparr>, \<lparr>lb_name = ''b'', lb_value = ''2''\<rparr>], pm_value = 0\<rparr>"
  by code_simp

end
