(* ===== verification/Out_Otlp.thy ===== *)
theory Out_Otlp
  imports Event Condition Go_Range
begin

text \<open>
  The OpenTelemetry output, \<open>pkg/outputs/otlp_output/otlp_converter.go\<close> and the configuration in
  \<open>otlp_output.go\<close>: grouping of events into resources, conversion of values into metrics, the
  validation of a request before it is sent, defaults and validation of the configuration. The
  order in which the groups are ranged over, the compiler of regular expressions, the parser of
  floating point texts and the generator of names are parameters.
\<close>

section \<open>Configuration\<close>

record tls_config =
  tls_ca_file :: string
  tls_key_file :: string
  tls_cert_file :: string
  tls_skip_verify :: bool
  tls_client_auth :: string

text \<open>Durations are in nanoseconds.\<close>

record otlp_config =
  oc_name :: string
  oc_endpoint :: string
  oc_protocol :: string
  oc_timeout :: int
  oc_tls :: "tls_config option"
  oc_batch_size :: int
  oc_interval :: int
  oc_buffer_size :: int
  oc_compression :: string
  oc_max_retries :: int
  oc_metric_prefix :: string
  oc_append_subscription_name :: bool
  oc_strings_as_attributes :: bool
  oc_strip_leading_underscore :: bool
  oc_resource_tag_keys :: "string list"
  oc_counter_patterns :: "string list"
  oc_resource_attributes :: "string gmap"
  oc_resource_tag_set :: "string list"
  oc_counters :: "regexp list"
  oc_num_workers :: int
  oc_processors :: "string list"

definition second :: int where "second = 1000000000"

definition wrap64 :: "int \<Rightarrow> int" where
  "wrap64 i = sint (word_of_int i :: 64 word)"

definition set_defaults_for :: "string \<Rightarrow> otlp_config \<Rightarrow> otlp_config" where
  "set_defaults_for uuid c0 =
    (let c1 = c0\<lparr>oc_timeout := (if oc_timeout c0 = 0 then 10 * second else oc_timeout c0),
           oc_batch_size := (if oc_batch_size c0 = 0 then 1000 else oc_batch_size c0),
           oc_num_workers := (if oc_num_workers c0 = 0 then 1 else oc_num_workers c0),
           oc_max_retries := (if oc_max_retries c0 = 0 then 3 else oc_max_retries c0),
           oc_protocol := (if oc_protocol c0 = [] then ''grpc'' else oc_protocol c0)\<rparr>;
         c2 = c1\<lparr>oc_compression := (if oc_protocol c1 = ''http'' \<and> oc_compression c1 = [] then ''gzip'' else oc_compression c1),
           oc_name := (if oc_name c1 = [] then ''gnmic-otlp-'' @ uuid else oc_name c1),
           oc_interval := (if oc_interval c1 = 0 then 5 * second else oc_interval c1)\<rparr>
     in c2\<lparr>oc_buffer_size := (if oc_buffer_size c2 = 0 then wrap64 (oc_batch_size c2 * 2) else oc_buffer_size c2),
       oc_resource_tag_set := oc_resource_tag_keys c2\<rparr>)"

definition validate_config :: "re_compiler \<Rightarrow> otlp_config \<Rightarrow> otlp_config res" where
  "validate_config compile c =
    (if oc_protocol c \<notin> {''grpc'', ''http''} then Inl ''unsupported protocol''
     else if oc_compression c \<notin> {'''', ''none'', ''gzip''} then Inl ''invalid compression''
     else if oc_endpoint c = [] then Inl ''endpoint is required''
     else if oc_timeout c \<le> 0 then Inl ''invalid timeout''
     else if oc_batch_size c \<le> 0 then Inl ''invalid batch-size''
     else if oc_interval c \<le> 0 then Inl ''invalid interval''
     else if oc_buffer_size c \<le> 0 then Inl ''invalid buffer-size''
     else if oc_num_workers c \<le> 0 then Inl ''invalid num-workers''
     else if oc_max_retries c < 0 then Inl ''invalid max-retries''
     else rbind (rmap compile (oc_counter_patterns c)) (\<lambda>res. Inr (c\<lparr>oc_counters := res\<rparr>)))"

definition tls_equal :: "tls_config option \<Rightarrow> tls_config option \<Rightarrow> bool" where
  "tls_equal t u =
    (case (t, u) of
      (None, None) \<Rightarrow> True
    | (Some a, Some b) \<Rightarrow> tls_ca_file a = tls_ca_file b \<and> tls_cert_file a = tls_cert_file b \<and> tls_key_file a = tls_key_file b \<and>
        tls_skip_verify a = tls_skip_verify b \<and> tls_client_auth a = tls_client_auth b
    | _ \<Rightarrow> False)"

definition channel_needs_swap :: "otlp_config option \<Rightarrow> otlp_config option \<Rightarrow> bool" where
  "channel_needs_swap old new = (case (old, new) of (Some o1, Some n) \<Rightarrow> oc_buffer_size o1 \<noteq> oc_buffer_size n | _ \<Rightarrow> True)"

definition needs_worker_restart :: "otlp_config option \<Rightarrow> otlp_config option \<Rightarrow> bool" where
  "needs_worker_restart old new =
    (case (old, new) of
      (Some o1, Some n) \<Rightarrow> oc_num_workers o1 \<noteq> oc_num_workers n \<or> oc_batch_size o1 \<noteq> oc_batch_size n \<or> oc_interval o1 \<noteq> oc_interval n
    | _ \<Rightarrow> True)"

definition needs_transport_rebuild :: "otlp_config option \<Rightarrow> otlp_config option \<Rightarrow> bool" where
  "needs_transport_rebuild old new =
    (case (old, new) of
      (Some o1, Some n) \<Rightarrow> oc_endpoint o1 \<noteq> oc_endpoint n \<or> oc_protocol o1 \<noteq> oc_protocol n \<or>
        oc_compression o1 \<noteq> oc_compression n \<or> \<not> tls_equal (oc_tls o1) (oc_tls n)
    | _ \<Rightarrow> True)"

section \<open>Requests\<close>

type_synonym attrs = "(string \<times> string) list"

datatype number = AsInt "64 word" | AsDouble "64 word"

record data_point =
  dp_attrs :: attrs
  dp_time :: "64 word"
  dp_value :: "number option"

text \<open>The pointer inside a gauge or a sum may be nil.\<close>

datatype metric_data =
    Gauge "data_point list option"
  | Sum bool "data_point list option"
  | Histogram
  | ExponentialHistogram
  | Summary

record metric =
  mt_name :: string
  mt_data :: "metric_data option"

record scope_metrics =
  sm_scope :: "string option"
  sm_metrics :: "metric list"

record resource_metrics =
  rm_resource :: "attrs option"
  rm_scopes :: "scope_metrics list"

section \<open>Resources\<close>

definition tag_of :: "event_msg \<Rightarrow> string \<Rightarrow> string" where
  "tag_of e k = (case map_of (tags_of e) k of None \<Rightarrow> [] | Some v \<Rightarrow> v)"

definition resource_key :: "event_msg \<Rightarrow> string" where
  "resource_key e =
    (let k1 = tag_of e ''device'';
         k2 = (if k1 = [] then tag_of e ''target'' else k1);
         k3 = (if k2 = [] then tag_of e ''source'' else k2)
     in if k3 = [] then ''unknown'' else k3)"

definition append_to :: "string \<Rightarrow> 'a \<Rightarrow> 'a list gmap \<Rightarrow> 'a list gmap" where
  "append_to k x groups = gset k ((case map_of groups k of None \<Rightarrow> [] | Some xs \<Rightarrow> xs) @ [x]) groups"

fun group_loop :: "event_msg list \<Rightarrow> event_msg list gmap \<Rightarrow> event_msg list gmap" where
  "group_loop [] groups = groups"
| "group_loop (e # es) groups = group_loop es (append_to (resource_key e) e groups)"

definition group_by_resource :: "event_msg list \<Rightarrow> event_msg list gmap" where
  "group_by_resource es = group_loop es []"

text \<open>The first value of a tag and whether another event of the group disagrees.\<close>

fun agree_loop :: "string \<Rightarrow> event_msg list \<Rightarrow> string option \<Rightarrow> string option \<times> bool" where
  "agree_loop k [] chosen = (chosen, False)"
| "agree_loop k (e # es) chosen =
    (case map_of (tags_of e) k of
      None \<Rightarrow> agree_loop k es chosen
    | Some v \<Rightarrow>
        (case chosen of
          None \<Rightarrow> agree_loop k es (Some v)
        | Some w \<Rightarrow> if v \<noteq> w then (chosen, True) else agree_loop k es chosen))"

fun resource_loop :: "string list \<Rightarrow> event_msg list \<Rightarrow> attrs \<times> string list" where
  "resource_loop [] es = ([], [])"
| "resource_loop (k # ks) es =
    (case resource_loop ks es of (attrs, divergent) \<Rightarrow>
      (case agree_loop k es None of
        (None, _) \<Rightarrow> (attrs, divergent)
      | (Some v, diverges) \<Rightarrow> if diverges then (attrs, k # divergent) else ((k, v) # attrs, divergent)))"

definition create_resource :: "otlp_config \<Rightarrow> event_msg list \<Rightarrow> attrs \<times> string list" where
  "create_resource c es =
    (case resource_loop (oc_resource_tag_keys c) es of (attrs, divergent) \<Rightarrow> (attrs @ oc_resource_attributes c, divergent))"

section \<open>Metrics\<close>

definition replace_char :: "char \<Rightarrow> char \<Rightarrow> string \<Rightarrow> string" where
  "replace_char a b s = map (\<lambda>c. if c = a then b else c) s"

definition build_metric_name :: "otlp_config \<Rightarrow> event_msg \<Rightarrow> string \<Rightarrow> string" where
  "build_metric_name c e k =
    (let p = (if oc_strip_leading_underscore c then trim_prefix k ''/'' else k)
     in replace_char CHR ''-'' CHR ''_''
       ((if oc_metric_prefix c \<noteq> [] then oc_metric_prefix c @ ''_'' else []) @
        (if oc_append_subscription_name c then em_name e @ ''_'' else []) @
        replace_char slash CHR ''_'' p))"

definition extract_attributes :: "otlp_config \<Rightarrow> string list \<Rightarrow> event_msg \<Rightarrow> attrs" where
  "extract_attributes c divergent e =
    filter (\<lambda>(k, v). \<not> (k \<in> set (oc_resource_tag_set c) \<and> k \<notin> set divergent)) (tags_of e)"

definition is_counter :: "otlp_config \<Rightarrow> string \<Rightarrow> bool" where
  "is_counter c k = matches_any k (oc_counters c)"

text \<open>\<open>createNumberDataPointWithValue\<close>; the text case is a number too when it parses.\<close>

definition number_of :: "(string \<Rightarrow> 64 word res) \<Rightarrow> gval \<Rightarrow> number option" where
  "number_of pf v =
    (case v of
      VInt i \<Rightarrow> Some (AsInt i)
    | VInt32 i \<Rightarrow> Some (AsInt (scast i))
    | VInt64 i \<Rightarrow> Some (AsInt i)
    | VUint i \<Rightarrow> Some (AsInt i)
    | VUint32 i \<Rightarrow> Some (AsInt (ucast i))
    | VUint64 i \<Rightarrow> Some (if 9223372036854775807 < i then AsDouble (f64_of_int (uint i)) else AsInt i)
    | VF32 f \<Rightarrow> Some (AsDouble (f64_of_f32 f))
    | VF64 f \<Rightarrow> Some (AsDouble f)
    | VStr s \<Rightarrow> (case pf s of Inl _ \<Rightarrow> None | Inr f \<Rightarrow> Some (AsDouble f))
    | VBool b \<Rightarrow> Some (AsInt (if b then 1 else 0))
    | _ \<Rightarrow> None)"

definition number_data_point :: "(string \<Rightarrow> 64 word res) \<Rightarrow> event_msg \<Rightarrow> attrs \<Rightarrow> gval \<Rightarrow> data_point option" where
  "number_data_point pf e as v =
    map_option (\<lambda>n. \<lparr>dp_attrs = as, dp_time = em_timestamp e, dp_value = Some n\<rparr>) (number_of pf v)"

text \<open>The bits of \<open>float64(1)\<close>.\<close>

definition one_f64 :: "64 word" where "one_f64 = 0x3FF0000000000000"

definition gauge_with_string :: "event_msg \<Rightarrow> attrs \<Rightarrow> string \<Rightarrow> metric_data" where
  "gauge_with_string e as s =
    Gauge (Some [\<lparr>dp_attrs = as @ [(''value'', s)], dp_time = em_timestamp e, dp_value = Some (AsDouble one_f64)\<rparr>])"

definition value_data :: "(string \<Rightarrow> 64 word res) \<Rightarrow> otlp_config \<Rightarrow> event_msg \<Rightarrow> attrs \<Rightarrow> string \<Rightarrow> gval \<Rightarrow> metric_data option" where
  "value_data pf c e as k v =
    (case v of
      VStr s \<Rightarrow> if oc_strings_as_attributes c then Some (gauge_with_string e as s) else None
    | _ \<Rightarrow>
        (case number_data_point pf e as v of
          None \<Rightarrow> None
        | Some dp \<Rightarrow> Some (if is_counter c k then Sum True (Some [dp]) else Gauge (Some [dp]))))"

fun values_loop :: "(string \<Rightarrow> 64 word res) \<Rightarrow> otlp_config \<Rightarrow> event_msg \<Rightarrow> attrs \<Rightarrow> (string \<times> gval) list \<Rightarrow> metric list" where
  "values_loop pf c e as [] = []"
| "values_loop pf c e as ((k, v) # vs) =
    (case value_data pf c e as k v of
      None \<Rightarrow> values_loop pf c e as vs
    | Some d \<Rightarrow> \<lparr>mt_name = build_metric_name c e k, mt_data = Some d\<rparr> # values_loop pf c e as vs)"

definition event_to_metrics :: "(string \<Rightarrow> 64 word res) \<Rightarrow> otlp_config \<Rightarrow> string list \<Rightarrow> event_msg \<Rightarrow> metric list" where
  "event_to_metrics pf c divergent e = values_loop pf c e (extract_attributes c divergent e) (values_of e)"

definition convert_group :: "(string \<Rightarrow> 64 word res) \<Rightarrow> otlp_config \<Rightarrow> event_msg list \<Rightarrow> resource_metrics" where
  "convert_group pf c es =
    (case create_resource c es of (attrs, divergent) \<Rightarrow>
      \<lparr>rm_resource = Some attrs,
       rm_scopes = [\<lparr>sm_scope = Some ''gNMIc'', sm_metrics = concat (map (event_to_metrics pf c divergent) es)\<rparr>]\<rparr>)"

definition metrics_of :: "resource_metrics \<Rightarrow> metric list" where
  "metrics_of rm = concat (map sm_metrics (rm_scopes rm))"

type_synonym event_order = "event_msg list gmap \<Rightarrow> event_msg list gmap"

definition convert_to_otlp :: "(string \<Rightarrow> 64 word res) \<Rightarrow> event_order \<Rightarrow> otlp_config \<Rightarrow> event_msg list \<Rightarrow> resource_metrics list" where
  "convert_to_otlp pf ord c es =
    filter (\<lambda>rm. metrics_of rm \<noteq> []) (map (\<lambda>(k, g). convert_group pf c g) (ord (group_by_resource es)))"

section \<open>Validation of a request\<close>

text \<open>\<open>validateMetricData\<close>; \<open>None\<close>: no error.\<close>

fun check_points :: "data_point list \<Rightarrow> string option" where
  "check_points [] = None"
| "check_points (dp # dps) =
    (if dp_time dp = 0 then Some ''zero timestamp''
     else if dp_value dp = None then Some ''nil value''
     else check_points dps)"

definition validate_metric_data :: "metric_data \<Rightarrow> string option" where
  "validate_metric_data d =
    (let points = (\<lambda>dps. if dps = [] then Some ''no data points'' else check_points dps)
     in case d of
      Gauge None \<Rightarrow> Some ''Gauge is nil''
    | Gauge (Some dps) \<Rightarrow> points dps
    | Sum _ None \<Rightarrow> Some ''Sum is nil''
    | Sum _ (Some dps) \<Rightarrow> points dps
    | _ \<Rightarrow> None)"

text \<open>A loop that returns the first error.\<close>

fun first_err :: "('a \<Rightarrow> string option) \<Rightarrow> 'a list \<Rightarrow> string option" where
  "first_err f [] = None"
| "first_err f (x # xs) = (case f x of None \<Rightarrow> first_err f xs | Some e \<Rightarrow> Some e)"

definition validate_metric :: "metric \<Rightarrow> string option" where
  "validate_metric m =
    (if mt_name m = [] then Some ''Name is empty''
     else case mt_data m of None \<Rightarrow> Some ''Data is nil'' | Some d \<Rightarrow> validate_metric_data d)"

definition validate_scope :: "scope_metrics \<Rightarrow> string option" where
  "validate_scope sm =
    (if sm_scope sm = None then Some ''Scope is nil''
     else if sm_metrics sm = [] then Some ''Metrics is empty''
     else first_err validate_metric (sm_metrics sm))"

definition validate_resource :: "resource_metrics \<Rightarrow> string option" where
  "validate_resource rm =
    (if rm_resource rm = None then Some ''Resource is nil''
     else if rm_scopes rm = [] then Some ''ScopeMetrics is empty''
     else first_err validate_scope (rm_scopes rm))"

definition validate_request :: "resource_metrics list option \<Rightarrow> string option" where
  "validate_request req =
    (case req of
      None \<Rightarrow> Some ''request is nil''
    | Some rms \<Rightarrow> if rms = [] then Some ''ResourceMetrics is empty'' else first_err validate_resource rms)"

section \<open>Grouping\<close>

abbreviation group_of :: "event_msg list \<Rightarrow> string \<Rightarrow> event_msg list" where
  "group_of es k \<equiv> filter (\<lambda>e. resource_key e = k) es"

lemma wf_append_to: "wf_gmap g \<Longrightarrow> wf_gmap (append_to k x g)"
  by (simp add: append_to_def)

lemma wf_group_loop: "wf_gmap g \<Longrightarrow> wf_gmap (group_loop es g)"
  by (induction es g rule: group_loop.induct) (simp_all add: wf_append_to)

lemma map_of_append_to:
  "map_of (append_to k x g) k' = (if k' = k then Some ((case map_of g k of None \<Rightarrow> [] | Some xs \<Rightarrow> xs) @ [x]) else map_of g k')"
  by (simp add: append_to_def)

lemma map_of_group_loop:
  "map_of (group_loop es g) k =
    (if group_of es k = [] then map_of g k
     else Some ((case map_of g k of None \<Rightarrow> [] | Some xs \<Rightarrow> xs) @ group_of es k))"
  by (induction es g rule: group_loop.induct) (simp_all add: map_of_append_to split: option.splits)

lemma groups_eq: "(k, g) \<in> set (group_by_resource es) \<Longrightarrow> g = group_of es k \<and> g \<noteq> []"
proof -
  assume "(k, g) \<in> set (group_by_resource es)"
  then have "map_of (group_by_resource es) k = Some g"
    by (subst map_of_Some_wf [symmetric]) (simp_all add: group_by_resource_def wf_group_loop)
  then show ?thesis by (auto simp: group_by_resource_def map_of_group_loop split: if_splits)
qed

lemma mset_gset_append:
  "wf_gmap g \<Longrightarrow> mset (concat (map snd (append_to k x g))) = add_mset x (mset (concat (map snd g)))"
  unfolding append_to_def wf_gmap_def
proof (induction g)
  case (Cons p g)
  show ?case
  proof (cases "fst p = k")
    case True
    then show ?thesis by (cases p) simp
  next
    case False
    then show ?thesis using Cons by (cases p) simp
  qed
qed simp

lemma mset_group_loop: "wf_gmap g \<Longrightarrow> mset (concat (map snd (group_loop es g))) = mset es + mset (concat (map snd g))"
  by (induction es g rule: group_loop.induct) (simp_all add: mset_gset_append wf_append_to)

text \<open>The groups are a partition of the events.\<close>

lemma mset_resource_groups: "mset (concat (map snd (group_by_resource es))) = mset es"
  by (simp add: group_by_resource_def mset_group_loop)

section \<open>Resources\<close>

lemma agree_loop_chosen: "fst (agree_loop k es (Some w)) = Some w"
  by (induction es) (auto split: option.split)

lemma agree_loop_None:
  "fst (agree_loop k es None) = None \<Longrightarrow> e \<in> set es \<Longrightarrow> map_of (tags_of e) k = None"
  by (induction es) (auto simp: agree_loop_chosen split: option.splits)

lemma agree_loop_same:
  "agree_loop k es (Some v) = (u, False) \<Longrightarrow> e \<in> set es \<Longrightarrow> map_of (tags_of e) k = Some w \<Longrightarrow> w = v"
  by (induction es) (auto split: option.splits if_splits)

lemma agree_loop_agree:
  "agree_loop k es None = (Some v, False) \<Longrightarrow> e \<in> set es \<Longrightarrow> map_of (tags_of e) k = Some w \<Longrightarrow> w = v"
proof (induction es)
  case (Cons a es)
  show ?case
  proof (cases "map_of (tags_of a) k")
    case None
    then show ?thesis using Cons by auto
  next
    case (Some u)
    then have l: "agree_loop k es (Some u) = (Some v, False)" using Cons.prems(1) by simp
    then have "u = v" using agree_loop_chosen [of k es u] by simp
    then show ?thesis using Cons.prems(2,3) Some agree_loop_same [OF l] by auto
  qed
qed simp

lemma resource_loop_map_of:
  "map_of (fst (resource_loop ks es)) k =
    (if k \<in> set ks \<and> agree_loop k es None = (fst (agree_loop k es None), False) then fst (agree_loop k es None) else None)"
  by (induction ks) (auto split: prod.split option.split if_splits)

lemma resource_loop_divergent:
  "k \<in> set (snd (resource_loop ks es)) \<longleftrightarrow> k \<in> set ks \<and> fst (agree_loop k es None) \<noteq> None \<and> snd (agree_loop k es None)"
  by (induction ks) (auto split: prod.split option.split if_splits)

text \<open>A tag of an event is at the data point or, with the value of the event, at the resource.\<close>

lemma promoted_tag:
  assumes "e \<in> set es" and "map_of (tags_of e) k = Some v" and "k \<in> set (oc_resource_tag_keys c)"
    and "k \<notin> set (snd (create_resource c es))"
  shows "map_of (fst (create_resource c es)) k = Some v"
proof -
  obtain w d where a: "agree_loop k es None = (w, d)" by (cases "agree_loop k es None")
  have w: "w \<noteq> None" using agree_loop_None [of k es e] assms(1,2) a by auto
  have "\<not> d" using assms(3,4) w a
    by (simp add: create_resource_def case_prod_beta' resource_loop_divergent)
  then obtain u where u: "agree_loop k es None = (Some u, False)" using a w by auto
  then have "v = u" by (rule agree_loop_agree [OF _ assms(1,2)])
  then have "map_of (fst (resource_loop (oc_resource_tag_keys c) es)) k = Some v"
    using u assms(3) by (simp add: resource_loop_map_of)
  then show ?thesis by (simp add: create_resource_def case_prod_beta' map_add_def)
qed

lemma extracted_tag:
  assumes "\<not> (k \<in> set (oc_resource_tag_set c) \<and> k \<notin> set d)"
  shows "map_of (extract_attributes c d e) k = map_of (tags_of e) k"
proof -
  have "map_of (filter (\<lambda>(k, v). P k) m) k = (if P k then map_of m k else None)" for P and m :: "(string \<times> string) list"
    by (induction m) auto
  then show ?thesis using assms by (simp add: extract_attributes_def)
qed

lemma not_extracted: "k \<in> set (oc_resource_tag_set c) \<Longrightarrow> k \<notin> set d \<Longrightarrow> map_of (extract_attributes c d e) k = None"
  by (auto simp: extract_attributes_def map_of_eq_None_iff)

section \<open>Metrics\<close>

definition points_of :: "metric \<Rightarrow> data_point list" where
  "points_of m = (case mt_data m of Some (Gauge (Some dps)) \<Rightarrow> dps | Some (Sum _ (Some dps)) \<Rightarrow> dps | _ \<Rightarrow> [])"

text \<open>What a backend knows of a data point: its attributes and those of its resource.\<close>

definition attribute :: "resource_metrics \<Rightarrow> data_point \<Rightarrow> string \<Rightarrow> string option" where
  "attribute rm dp k = map_of (dp_attrs dp @ (case rm_resource rm of None \<Rightarrow> [] | Some as \<Rightarrow> as)) k"

lemma values_loop_concat:
  "values_loop pf c e as vs =
    concat (map (\<lambda>(k, v). case value_data pf c e as k v of None \<Rightarrow> []
      | Some d \<Rightarrow> [\<lparr>mt_name = build_metric_name c e k, mt_data = Some d\<rparr>]) vs)"
  by (induction pf c e as vs rule: values_loop.induct) (simp_all split: option.split)

lemma value_data_points:
  "value_data pf c e as k v = Some d \<Longrightarrow> dp \<in> set (points_of \<lparr>mt_name = n, mt_data = Some d\<rparr>) \<Longrightarrow>
    \<exists>xs. dp_attrs dp = as @ xs \<and> fst ` set xs \<subseteq> {''value''}"
  by (cases v) (auto simp: value_data_def points_of_def gauge_with_string_def number_data_point_def split: option.splits if_splits)

lemma event_points:
  assumes "m \<in> set (event_to_metrics pf c d e)" and "dp \<in> set (points_of m)"
  shows "\<exists>xs. dp_attrs dp = extract_attributes c d e @ xs \<and> fst ` set xs \<subseteq> {''value''}"
proof -
  obtain k v where "m \<in> set (case value_data pf c e (extract_attributes c d e) k v of None \<Rightarrow> []
      | Some d \<Rightarrow> [\<lparr>mt_name = build_metric_name c e k, mt_data = Some d\<rparr>])"
    using assms(1) by (auto simp: event_to_metrics_def values_loop_concat)
  then obtain u where "value_data pf c e (extract_attributes c d e) k v = Some u" "m = \<lparr>mt_name = build_metric_name c e k, mt_data = Some u\<rparr>"
    by (cases "value_data pf c e (extract_attributes c d e) k v") auto
  then show ?thesis using value_data_points assms(2) by blast
qed

text \<open>C14. No metric is sent with a tag of another event: whatever a backend sees at a data point, as an attribute
  of the point or of its resource, is the value the event had for that tag. This holds for every tag of
  the event, promoted to the resource or not, but for the name the text of a value is stored under.\<close>

theorem otlp_tags_kept:
  assumes "permutes ord" and "oc_resource_tag_set c = oc_resource_tag_keys c" and "rm \<in> set (convert_to_otlp pf ord c es)"
  shows "\<exists>key ms. metrics_of rm = concat (map ms (group_of es key)) \<and>
    (\<forall>e \<in> set (group_of es key). \<forall>m \<in> set (ms e). \<forall>dp \<in> set (points_of m). \<forall>k v.
      map_of (tags_of e) k = Some v \<longrightarrow> k \<noteq> ''value'' \<longrightarrow> attribute rm dp k = Some v)"
proof -
  obtain key g where g: "(key, g) \<in> set (group_by_resource es)" "rm = convert_group pf c g"
    using assms(1,3) by (auto simp: convert_to_otlp_def permutes_set)
  have rm: "rm = convert_group pf c (group_of es key)" using g(2) groups_eq [OF g(1)] by simp
  let ?g = "group_of es key" and ?as = "fst (create_resource c (group_of es key))" and ?d = "snd (create_resource c (group_of es key))"
  have "attribute rm dp k = Some v"
    if e: "e \<in> set ?g" and m: "m \<in> set (event_to_metrics pf c ?d e)" "dp \<in> set (points_of m)"
      and k: "map_of (tags_of e) k = Some v" "k \<noteq> ''value''" for e m dp k v
  proof -
    obtain xs where xs: "dp_attrs dp = extract_attributes c ?d e @ xs" "fst ` set xs \<subseteq> {''value''}"
      using event_points [OF m] by blast
    have "map_of xs k = None" using xs(2) k(2) by (auto simp: map_of_eq_None_iff)
    then have a: "attribute rm dp k = (case map_of (extract_attributes c ?d e) k of None \<Rightarrow> map_of ?as k | Some w \<Rightarrow> Some w)"
      by (simp add: attribute_def xs(1) rm convert_group_def case_prod_beta' map_add_def split: option.split)
    show ?thesis
    proof (cases "k \<in> set (oc_resource_tag_set c) \<and> k \<notin> set ?d")
      case True
      then show ?thesis using a promoted_tag [OF e k(1)] assms(2) by (simp add: not_extracted)
    next
      case False
      then show ?thesis using a k(1) by (simp add: extracted_tag)
    qed
  qed
  moreover have "metrics_of rm = concat (map (event_to_metrics pf c ?d) ?g)"
    by (simp add: rm metrics_of_def convert_group_def case_prod_beta')
  ultimately show ?thesis by (intro exI [of _ key] exI [of _ "event_to_metrics pf c ?d"]) simp
qed

text \<open>The data point of a value, without its attributes: name, whether it is a counter, time, number.\<close>

definition sample_of :: "metric \<Rightarrow> string \<times> bool \<times> (64 word \<times> number option) list" where
  "sample_of m = (mt_name m, (case mt_data m of Some (Sum b _) \<Rightarrow> b | _ \<Rightarrow> False), map (\<lambda>dp. (dp_time dp, dp_value dp)) (points_of m))"

definition exported :: "(string \<Rightarrow> 64 word res) \<Rightarrow> otlp_config \<Rightarrow> gval \<Rightarrow> bool" where
  "exported pf c v = (case v of VStr s \<Rightarrow> oc_strings_as_attributes c | _ \<Rightarrow> number_of pf v \<noteq> None)"

definition value_sample :: "(string \<Rightarrow> 64 word res) \<Rightarrow> otlp_config \<Rightarrow> event_msg \<Rightarrow> string \<times> gval \<Rightarrow> string \<times> bool \<times> (64 word \<times> number option) list" where
  "value_sample pf c e kv = (case kv of (k, v) \<Rightarrow>
    (build_metric_name c e k,
     (case v of VStr _ \<Rightarrow> False | _ \<Rightarrow> is_counter c k),
     [(em_timestamp e, case v of VStr _ \<Rightarrow> Some (AsDouble one_f64) | _ \<Rightarrow> number_of pf v)]))"

lemma value_data_exported: "value_data pf c e as k v = None \<longleftrightarrow> \<not> exported pf c v"
  by (cases v) (simp_all add: value_data_def exported_def number_data_point_def split: option.split)

lemma value_data_sample:
  "value_data pf c e as k v = Some d \<Longrightarrow> sample_of \<lparr>mt_name = build_metric_name c e k, mt_data = Some d\<rparr> = value_sample pf c e (k, v)"
  by (cases v) (auto simp: value_data_def value_sample_def sample_of_def points_of_def gauge_with_string_def number_data_point_def split: option.splits if_splits)

lemma event_samples:
  "map sample_of (event_to_metrics pf c d e) = map (value_sample pf c e) (filter (\<lambda>(k, v). exported pf c v) (values_of e))"
proof -
  have "map sample_of (values_loop pf c e as vs) = map (value_sample pf c e) (filter (\<lambda>(k, v). exported pf c v) vs)" for as vs
    by (induction vs) (auto simp: value_data_exported value_data_sample split: option.split)
  then show ?thesis by (simp add: event_to_metrics_def)
qed

lemma concat_nonempty: "concat (map f (filter (\<lambda>x. f x \<noteq> []) xs)) = concat (map f xs)"
  by (induction xs) simp_all

lemma metrics_of_convert:
  "concat (map metrics_of (convert_to_otlp pf ord c es)) =
    concat (map (\<lambda>(k, g). metrics_of (convert_group pf c g)) (ord (group_by_resource es)))"
  unfolding convert_to_otlp_def concat_nonempty by (simp add: comp_def case_prod_beta')

lemma group_samples:
  "map sample_of (metrics_of (convert_group pf c g)) =
    concat (map (\<lambda>e. map (value_sample pf c e) (filter (\<lambda>(k, v). exported pf c v) (values_of e))) g)"
  by (simp add: metrics_of_def convert_group_def case_prod_beta' map_concat comp_def event_samples)

text \<open>C15. Every value that is a number, or a text when texts are wanted, becomes exactly one metric with exactly one
  data point, at the time of its event; nothing else is sent, in whatever order the groups come.\<close>

theorem otlp_samples_complete:
  assumes "permutes ord"
  shows "mset (map sample_of (concat (map metrics_of (convert_to_otlp pf ord c es)))) =
    mset (concat (map (\<lambda>e. map (value_sample pf c e) (filter (\<lambda>(k, v). exported pf c v) (values_of e))) es))"
proof -
  let ?f = "\<lambda>e. map (value_sample pf c e) (filter (\<lambda>(k, v). exported pf c v) (values_of e))"
  have "map sample_of (concat (map metrics_of (convert_to_otlp pf ord c es))) =
    concat (map (\<lambda>(k, g). concat (map ?f g)) (ord (group_by_resource es)))"
    by (simp add: metrics_of_convert map_concat comp_def case_prod_beta' group_samples)
  also have "mset \<dots> = mset (concat (map (\<lambda>(k, g). concat (map ?f g)) (group_by_resource es)))"
    using assms by (intro mset_concat_perm) (simp add: permutes_def)
  also have "concat (map (\<lambda>(k, g). concat (map ?f g)) gs) = concat (map ?f (concat (map snd gs)))" for gs :: "event_msg list gmap"
    by (induction gs) auto
  also have "mset (concat (map ?f (concat (map snd (group_by_resource es))))) = mset (concat (map ?f es))"
    by (rule mset_concat_perm [OF mset_resource_groups])
  finally show ?thesis .
qed

section \<open>Validity\<close>

lemma first_err_None: "first_err f xs = None \<longleftrightarrow> (\<forall>x \<in> set xs. f x = None)"
  by (induction xs) (auto split: option.split)

lemma validate_scope_None:
  "validate_scope sm = None \<longleftrightarrow>
    sm_scope sm \<noteq> None \<and> sm_metrics sm \<noteq> [] \<and> (\<forall>m \<in> set (sm_metrics sm). validate_metric m = None)"
  by (simp add: validate_scope_def first_err_None)

lemma validate_resource_None:
  "validate_resource rm = None \<longleftrightarrow>
    rm_resource rm \<noteq> None \<and> rm_scopes rm \<noteq> [] \<and> (\<forall>sm \<in> set (rm_scopes rm). validate_scope sm = None)"
  by (simp add: validate_resource_def first_err_None)

lemma value_data_valid:
  "value_data pf c e as k v = Some d \<Longrightarrow>
    validate_metric \<lparr>mt_name = n, mt_data = Some d\<rparr> = None \<longleftrightarrow> n \<noteq> [] \<and> em_timestamp e \<noteq> 0"
  by (cases v) (auto simp: value_data_def validate_metric_def validate_metric_data_def gauge_with_string_def number_data_point_def
    split: option.splits if_splits)

definition valid_value :: "(string \<Rightarrow> 64 word res) \<Rightarrow> otlp_config \<Rightarrow> event_msg \<Rightarrow> bool" where
  "valid_value pf c e \<longleftrightarrow>
    (\<forall>(k, v) \<in> set (values_of e). exported pf c v \<longrightarrow> em_timestamp e \<noteq> 0 \<and> build_metric_name c e k \<noteq> [])"

lemma event_valid: "(\<forall>m \<in> set (event_to_metrics pf c d e). validate_metric m = None) \<longleftrightarrow> valid_value pf c e"
proof -
  have "(\<forall>m \<in> set (values_loop pf c e as vs). validate_metric m = None) \<longleftrightarrow>
    (\<forall>(k, v) \<in> set vs. exported pf c v \<longrightarrow> em_timestamp e \<noteq> 0 \<and> build_metric_name c e k \<noteq> [])" for as vs
  proof (induction vs)
    case (Cons p vs)
    show ?case
    proof (cases p)
      case (Pair k v)
      show ?thesis
      proof (cases "value_data pf c e as k v")
        case None
        then have "\<not> exported pf c v" by (simp add: value_data_exported)
        then show ?thesis using Cons Pair None by simp
      next
        case (Some d)
        then have "exported pf c v" using value_data_exported [of pf c e as k v] by simp
        then show ?thesis using Cons Pair Some value_data_valid [OF Some] by auto
      qed
    qed
  qed simp
  then show ?thesis by (simp add: event_to_metrics_def valid_value_def)
qed

lemma group_valid:
  "validate_resource (convert_group pf c g) = None \<longleftrightarrow>
    metrics_of (convert_group pf c g) \<noteq> [] \<and> (\<forall>e \<in> set g. valid_value pf c e)"
proof -
  let ?ms = "concat (map (event_to_metrics pf c (snd (create_resource c g))) g)"
  have "metrics_of (convert_group pf c g) = ?ms"
    by (simp add: metrics_of_def convert_group_def case_prod_beta')
  moreover have "validate_resource (convert_group pf c g) = None \<longleftrightarrow> ?ms \<noteq> [] \<and> (\<forall>m \<in> set ?ms. validate_metric m = None)"
    unfolding validate_resource_None convert_group_def by (simp add: case_prod_beta' validate_scope_None)
  moreover have "(\<forall>m \<in> set ?ms. validate_metric m = None) \<longleftrightarrow> (\<forall>e \<in> set g. valid_value pf c e)"
    by (simp flip: event_valid [of pf c "snd (create_resource c g)"])
  ultimately show ?thesis by simp
qed

lemma group_metrics_Nil:
  "metrics_of (convert_group pf c g) = [] \<longleftrightarrow> (\<forall>e \<in> set g. \<forall>(k, v) \<in> set (values_of e). \<not> exported pf c v)"
proof -
  have "metrics_of (convert_group pf c g) = [] \<longleftrightarrow> map sample_of (metrics_of (convert_group pf c g)) = []" by simp
  also have "\<dots> \<longleftrightarrow> (\<forall>e \<in> set g. \<forall>(k, v) \<in> set (values_of e). \<not> exported pf c v)"
    unfolding group_samples by (auto simp: filter_empty_conv)
  finally show ?thesis .
qed

lemma groups_cover: "(\<forall>(k, g) \<in> set (group_by_resource es). \<forall>e \<in> set g. P e) \<longleftrightarrow> (\<forall>e \<in> set es. P e)"
proof -
  have "set (concat (map snd (group_by_resource es))) = set es"
    using mset_resource_groups [of es] by (metis set_mset_mset)
  then have "(\<Union>(k, g) \<in> set (group_by_resource es). set g) = set es" by (simp add: case_prod_beta')
  then show ?thesis by blast
qed

text \<open>C16. A request made of a batch passes the validation exactly when the batch has a value to export and every event
  with such a value has a time and a name for it: one event without a time makes the whole batch
  invalid, and so does a batch in which nothing is a number.\<close>

theorem otlp_valid_iff:
  assumes "permutes ord"
  shows "validate_request (Some (convert_to_otlp pf ord c es)) = None \<longleftrightarrow>
    (\<exists>e \<in> set es. \<exists>(k, v) \<in> set (values_of e). exported pf c v) \<and>
    (\<forall>e \<in> set es. \<forall>(k, v) \<in> set (values_of e). exported pf c v \<longrightarrow> em_timestamp e \<noteq> 0 \<and> build_metric_name c e k \<noteq> [])"
proof -
  let ?gs = "group_by_resource es"
  have s: "set (ord ?gs) = set ?gs" by (rule permutes_set [OF assms])
  have "convert_to_otlp pf ord c es = [] \<longleftrightarrow>
    (\<forall>(k, g) \<in> set ?gs. \<forall>e \<in> set g. \<forall>(k, v) \<in> set (values_of e). \<not> exported pf c v)"
    by (simp add: convert_to_otlp_def filter_empty_conv s case_prod_beta' group_metrics_Nil)
  also have "\<dots> \<longleftrightarrow> (\<forall>e \<in> set es. \<forall>(k, v) \<in> set (values_of e). \<not> exported pf c v)" by (rule groups_cover)
  finally have empty: "convert_to_otlp pf ord c es = [] \<longleftrightarrow> (\<forall>e \<in> set es. \<forall>(k, v) \<in> set (values_of e). \<not> exported pf c v)" .
  have quiet: "valid_value pf c e" if "metrics_of (convert_group pf c g) = []" "e \<in> set g" for g e
    using that by (auto simp: group_metrics_Nil valid_value_def)
  have "(\<forall>rm \<in> set (convert_to_otlp pf ord c es). validate_resource rm = None) \<longleftrightarrow>
    (\<forall>(k, g) \<in> set ?gs. metrics_of (convert_group pf c g) \<noteq> [] \<longrightarrow> (\<forall>e \<in> set g. valid_value pf c e))"
    by (auto simp: convert_to_otlp_def s group_valid)
  also have "\<dots> \<longleftrightarrow> (\<forall>(k, g) \<in> set ?gs. \<forall>e \<in> set g. valid_value pf c e)"
    using quiet by blast
  also have "\<dots> \<longleftrightarrow> (\<forall>e \<in> set es. valid_value pf c e)" by (rule groups_cover)
  finally show ?thesis
    using empty by (auto simp: validate_request_def first_err_None valid_value_def)
qed

section \<open>Examples\<close>

definition sample_otlp :: otlp_config where
  "sample_otlp = \<lparr>oc_name = ''o'', oc_endpoint = ''collector:4317'', oc_protocol = ''grpc'', oc_timeout = second, oc_tls = None,
    oc_batch_size = 10, oc_interval = second, oc_buffer_size = 20, oc_compression = [], oc_max_retries = 3,
    oc_metric_prefix = ''gnmic'', oc_append_subscription_name = False, oc_strings_as_attributes = True,
    oc_strip_leading_underscore = True, oc_resource_tag_keys = [''device'', ''site''], oc_counter_patterns = [],
    oc_resource_attributes = [(''team'', ''noc'')], oc_resource_tag_set = [''device'', ''site''], oc_counters = [],
    oc_num_workers = 1, oc_processors = []\<rparr>"

definition no_parse :: "string \<Rightarrow> 64 word res" where
  "no_parse s = Inl ''invalid syntax''"

text \<open>Two interfaces of a device in one batch; the events disagree on one of the tags for the resource.\<close>

definition port_event :: "string \<Rightarrow> string \<Rightarrow> 64 word \<Rightarrow> event_msg" where
  "port_event site port t = \<lparr>em_name = ''sub'', em_timestamp = t,
    em_tags = Some [(''device'', ''r1''), (''site'', site), (''port'', port)],
    em_values = Some [(''/port/in-octets'', VInt64 7), (''/port/state'', VStr ''up''), (''/port/speed'', VInt8 3)], em_deletes = None\<rparr>"

definition port_events :: "event_msg list" where
  "port_events = [port_event ''lab'' ''e1'' 5, port_event ''dc'' ''e2'' 6]"

definition port_request :: "resource_metrics list" where
  "port_request = convert_to_otlp no_parse (\<lambda>gs. gs) sample_otlp port_events"

lemma port_request_shape:
  "port_request \<noteq> [] \<and> map mt_name (metrics_of (hd port_request)) =
    [''gnmic_port_in_octets'', ''gnmic_port_state'', ''gnmic_port_in_octets'', ''gnmic_port_state''] \<and>
    map (length \<circ> points_of) (metrics_of (hd port_request)) = [1, 1, 1, 1]"
  by code_simp

theorem otlp_tags_kept_witness:
  "attribute (hd port_request) (hd (points_of (hd (metrics_of (hd port_request))))) ''device'' = Some ''r1''"
proof -
  let ?rm = "hd port_request" and ?m = "hd (metrics_of (hd port_request))"
  have rm: "?rm \<in> set (convert_to_otlp no_parse (\<lambda>gs. gs) sample_otlp port_events)"
    using port_request_shape list.set_sel(1) unfolding port_request_def by blast
  obtain key ms where ms: "metrics_of ?rm = concat (map ms (group_of port_events key))"
    and k: "\<forall>e \<in> set (group_of port_events key). \<forall>m \<in> set (ms e). \<forall>dp \<in> set (points_of m). \<forall>k v.
      map_of (tags_of e) k = Some v \<longrightarrow> k \<noteq> ''value'' \<longrightarrow> attribute ?rm dp k = Some v"
    using otlp_tags_kept [OF permutes_id _ rm] by (simp add: sample_otlp_def) blast
  have "?m \<in> set (metrics_of ?rm)" using port_request_shape by (cases "metrics_of ?rm") simp_all
  then obtain e where e: "e \<in> set (group_of port_events key)" "?m \<in> set (ms e)" using ms by auto
  then have "e \<in> set port_events" by auto
  then have "map_of (tags_of e) ''device'' = Some ''r1''" by (auto simp: port_events_def port_event_def)
  moreover have "hd (points_of ?m) \<in> set (points_of ?m)"
    using port_request_shape by (cases "metrics_of ?rm"; cases "points_of ?m") auto
  ultimately show ?thesis using k e by blast
qed

theorem otlp_samples_complete_witness:
  "length (concat (map metrics_of port_request)) = 4"
proof -
  have "length (concat (map (\<lambda>e. map (value_sample no_parse sample_otlp e) (filter (\<lambda>(k, v). exported no_parse sample_otlp v) (values_of e))) port_events)) = 4"
    by code_simp
  then show ?thesis
    using arg_cong [OF otlp_samples_complete [OF permutes_id, of no_parse sample_otlp port_events], of size]
    by (simp add: port_request_def)
qed

theorem otlp_valid_iff_witness: "validate_request (Some port_request) = None"
proof -
  have "(\<exists>e \<in> set port_events. \<exists>(k, v) \<in> set (values_of e). exported no_parse sample_otlp v) \<and>
    (\<forall>e \<in> set port_events. \<forall>(k, v) \<in> set (values_of e). exported no_parse sample_otlp v \<longrightarrow>
      em_timestamp e \<noteq> 0 \<and> build_metric_name sample_otlp e k \<noteq> [])"
    by code_simp
  then show ?thesis unfolding port_request_def otlp_valid_iff [OF permutes_id] .
qed

text \<open>One event without a time makes the request with the others invalid.\<close>

lemma zero_time_rejects_batch:
  "validate_request (Some (convert_to_otlp no_parse (\<lambda>gs. gs) sample_otlp (port_event ''lab'' ''e3'' 0 # port_events))) =
    Some ''zero timestamp''"
  by code_simp

text \<open>A batch with nothing to export, such as one of deletes, is an error too.\<close>

lemma nothing_to_export:
  "validate_request (Some (convert_to_otlp no_parse (\<lambda>gs. gs) sample_otlp [zero_event])) = Some ''ResourceMetrics is empty''"
  by code_simp

text \<open>A large uint becomes negative although a uint64 does not; small integers are not sent at all.\<close>

lemma uint_wraps: "number_of pf (VUint 0xFFFFFFFFFFFFFFFF) = Some (AsInt (- 1))"
  by (simp add: number_of_def)

lemma small_integers_dropped: "number_of pf (VInt8 i) = None" "number_of pf (VUint16 j) = None"
  by (simp_all add: number_of_def)

text \<open>A batch size whose double does not fit is reported as a wrong buffer size.\<close>

lemma huge_batch_size:
  "validate_config compile (set_defaults_for u (sample_otlp\<lparr>oc_batch_size := 2 ^ 62, oc_buffer_size := 0\<rparr>)) = Inl ''invalid buffer-size''"
proof -
  have "wrap64 (2 ^ 62 * 2) = - (2 ^ 63)" by code_simp
  then show ?thesis by (simp add: validate_config_def set_defaults_for_def sample_otlp_def second_def Let_def)
qed

end
