(* ===== verification/Out_Otlp_Send.thy ===== *)
theory Out_Otlp_Send
  imports Out_Otlp Go_Env "HOL-Library.Signed_Division"
begin

text \<open>
  How the OpenTelemetry output sends its batches, \<open>otlp_output.go\<close> and \<open>otlp_http.go\<close> of
  \<open>pkg/outputs/otlp_output\<close>: the worker that collects batches, the loop of attempts with its
  sleeps, the two transports, and the life of a transport under updates of the configuration. The
  collector's answers, the codec of protobuf, \<open>net/url\<close>, the parser of dates and the random
  generator are parameters.
\<close>

section \<open>Answers of the collector\<close>

datatype send_error =
    HttpStatus int int \<comment> \<open>status, Retry-After\<close>
  | PartialSuccess int
  | Plain string

definition is_permanent_http_error :: "send_error \<Rightarrow> bool" where
  "is_permanent_http_error e = (case e of HttpStatus st _ \<Rightarrow> st \<notin> {429, 502, 503, 504} | _ \<Rightarrow> False)"

definition is_partial_success_error :: "send_error \<Rightarrow> bool" where
  "is_partial_success_error e = (case e of PartialSuccess _ \<Rightarrow> True | _ \<Rightarrow> False)"

definition retry_after_from_error :: "send_error \<Rightarrow> int" where
  "retry_after_from_error e = (case e of HttpStatus _ d \<Rightarrow> d | _ \<Rightarrow> 0)"

text \<open>\<open>http.ParseTime\<close> gives an instant in nanoseconds; \<open>Sub\<close> saturates.\<close>

definition parse_retry_after :: "(string \<Rightarrow> int option) \<Rightarrow> string \<Rightarrow> int \<Rightarrow> int" where
  "parse_retry_after parse_time h0 now =
    (let h = trim_space h0
     in if h = [] then 0
        else case atoi h of
          Inr secs \<Rightarrow>
            if secs \<ge> 0 then wrap64 (secs * second)
            else (case parse_time h of None \<Rightarrow> 0 | Some t \<Rightarrow> let d = max (- (2 ^ 63)) (min (2 ^ 63 - 1) (t - now)) in if d < 0 then 0 else d)
        | Inl _ \<Rightarrow>
            (case parse_time h of None \<Rightarrow> 0 | Some t \<Rightarrow> let d = max (- (2 ^ 63)) (min (2 ^ 63 - 1) (t - now)) in if d < 0 then 0 else d))"

definition max_retry_after :: int where "max_retry_after = 30 * second"

text \<open>\<open>rand.Int64N\<close> panics unless its argument is positive.\<close>

definition effective_retry_sleep :: "(int \<Rightarrow> int) \<Rightarrow> string \<Rightarrow> nat \<Rightarrow> int \<Rightarrow> int \<Rightarrow> int option" where
  "effective_retry_sleep rnd protocol attempt retry_after max_sleep =
    (if protocol = ''http'' \<and> retry_after > 0 then Some (if retry_after > max_sleep then max_sleep else retry_after)
     else if protocol \<noteq> ''http'' then Some (wrap64 (wrap64 (int attempt + 1) * 100000000))
     else let e = min attempt 30;
              b = wrap64 (wrap64 (2 ^ e) * 100000000);
              b' = (if b \<le> 0 \<or> b > max_sleep then max_sleep else b)
          in if b' \<le> 0 then None else Some (rnd b'))"

section \<open>Endpoints\<close>

record url =
  url_scheme :: string
  url_user :: "string option"
  url_host :: string
  url_hostname :: string
  url_path :: string

definition otlp_http_metrics_path :: string where "otlp_http_metrics_path = ''/v1/metrics''"

definition bare_endpoint :: "string \<Rightarrow> unit res" where
  "bare_endpoint endpoint =
    (case split_host_port endpoint of
      Inl err \<Rightarrow> Inl ''must be host:port''
    | Inr (host, port) \<Rightarrow> if host = [] \<or> port = [] then Inl ''must be host:port'' else Inr ())"

definition resolve_metrics_url :: "(string \<Rightarrow> url res) \<Rightarrow> (url \<Rightarrow> string) \<Rightarrow> string \<Rightarrow> bool \<Rightarrow> string res" where
  "resolve_metrics_url parse print endpoint0 tls_enabled =
    (let endpoint = trim_space endpoint0
     in if endpoint = [] then Inl ''endpoint is required''
        else rbind
          (if index_sub ''://'' endpoint \<noteq> None then Inr endpoint
           else if slash \<in> set endpoint then Inl ''must be host:port only''
           else rbind (bare_endpoint endpoint) (\<lambda>_.
             Inr ((if tls_enabled then ''https'' else ''http'') @ ''://'' @ endpoint @ otlp_http_metrics_path)))
          (\<lambda>full. rbind (parse full) (\<lambda>u.
            if to_lower (url_scheme u) \<notin> {''http'', ''https''} then Inl ''unsupported endpoint scheme''
            else if url_user u \<noteq> None then Inl ''endpoint must not include userinfo''
            else if url_hostname u = [] \<or> (\<exists>ch \<in> set (url_host u). ch = CHR '' '' \<or> ch = CHR 0x09 \<or> ch = CHR 0x0D \<or> ch = CHR 0x0A)
              then Inl ''invalid endpoint host''
            else Inr (print (if url_path u = [] \<or> url_path u = ''/'' then u\<lparr>url_path := otlp_http_metrics_path\<rparr> else u)))))"

text \<open>The checks of \<open>initHTTPFor\<close> and \<open>initGRPCFor\<close> before the clients of the libraries are made.\<close>

definition init_http_for :: "(string \<Rightarrow> url res) \<Rightarrow> (url \<Rightarrow> string) \<Rightarrow> (tls_config \<Rightarrow> unit res) \<Rightarrow> otlp_config \<Rightarrow> string res" where
  "init_http_for parse print make_tls c =
    (let endpoint = trim_space (oc_endpoint c)
     in if oc_tls c \<noteq> None \<and> has_prefix (to_lower endpoint) ''http://'' then Inl ''endpoint scheme is http:// but tls block is configured''
        else rbind (case oc_tls c of None \<Rightarrow> Inr () | Some t \<Rightarrow> make_tls t) (\<lambda>_.
          resolve_metrics_url parse print endpoint (oc_tls c \<noteq> None)))"

definition init_grpc_for :: "(tls_config \<Rightarrow> unit res) \<Rightarrow> (string \<Rightarrow> unit res) \<Rightarrow> otlp_config \<Rightarrow> string res" where
  "init_grpc_for make_tls new_client c =
    (let endpoint = trim_space (oc_endpoint c)
     in rbind (if index_sub ''://'' endpoint = None then bare_endpoint endpoint else Inr ()) (\<lambda>_.
          rbind (case oc_tls c of None \<Rightarrow> Inr () | Some t \<Rightarrow> make_tls t) (\<lambda>_.
          rbind (new_client endpoint) (\<lambda>_. Inr endpoint))))"

section \<open>One attempt\<close>

record http_response =
  hr_status :: int
  hr_retry_after :: string
  hr_body :: string

text \<open>\<open>canon\<close>: the canonical form of a header's name. Headers are set one after the other.\<close>

definition set_header :: "(string \<Rightarrow> string) \<Rightarrow> string \<Rightarrow> string \<Rightarrow> string gmap \<Rightarrow> string gmap" where
  "set_header canon k v h = gset (canon k) v h"

fun set_headers :: "(string \<Rightarrow> string) \<Rightarrow> (string \<times> string) list \<Rightarrow> string gmap \<Rightarrow> string gmap" where
  "set_headers canon [] h = h"
| "set_headers canon ((k, v) # kvs) h = set_headers canon kvs (set_header canon k v h)"

definition request_headers :: "(string \<Rightarrow> string) \<Rightarrow> otlp_config \<Rightarrow> string gmap \<Rightarrow> string gmap" where
  "request_headers canon c headers =
    (let h = set_header canon ''Content-Type'' ''application/x-protobuf'' (set_headers canon headers [])
     in if oc_compression c = ''gzip'' then set_header canon ''Content-Encoding'' ''gzip'' h
        else gdel (canon ''Content-Encoding'') h)"

text \<open>\<open>decode\<close>: the rejected points of a response, when it has a partial success. Reading stops at 64 KiB.\<close>

definition rejected_error :: "int option \<Rightarrow> send_error option" where
  "rejected_error r = (case r of Some n \<Rightarrow> if n > 0 then Some (PartialSuccess n) else None | None \<Rightarrow> None)"

definition http_result :: "(string \<Rightarrow> int option res) \<Rightarrow> (string \<Rightarrow> int) \<Rightarrow> http_response res \<Rightarrow> send_error option" where
  "http_result decode retry_after answer =
    (case answer of
      Inl err \<Rightarrow> Some (Plain err)
    | Inr resp \<Rightarrow>
        if hr_status resp sdiv 100 = 2 then
          (let body = take (64 * 1024) (hr_body resp)
           in if body = [] then None
              else case decode body of Inl _ \<Rightarrow> None | Inr r \<Rightarrow> rejected_error r)
        else Some (HttpStatus (hr_status resp) (retry_after (hr_retry_after resp))))"

text \<open>The answers of the collector to the attempts of one batch.\<close>

record collector =
  co_http :: "nat \<Rightarrow> http_response res"
  co_grpc :: "nat \<Rightarrow> int option res"

text \<open>What the functions of libraries are: encoding of a request, decoding of a response, Retry-After.\<close>

record codec =
  cd_marshal :: "resource_metrics list \<Rightarrow> string res"
  cd_decode :: "string \<Rightarrow> int option res"
  cd_retry_after :: "string \<Rightarrow> int"

definition send_http :: "codec \<Rightarrow> bool \<Rightarrow> resource_metrics list \<Rightarrow> http_response res \<Rightarrow> send_error option" where
  "send_http cd client req answer =
    (if \<not> client then Some (Plain ''HTTP client not initialized'')
     else case validate_request (Some req) of
       Some err \<Rightarrow> Some (Plain err)
     | None \<Rightarrow> (case cd_marshal cd req of
         Inl err \<Rightarrow> Some (Plain err)
       | Inr raw \<Rightarrow> http_result (cd_decode cd) (cd_retry_after cd) answer))"

definition send_grpc :: "bool \<Rightarrow> resource_metrics list \<Rightarrow> int option res \<Rightarrow> send_error option" where
  "send_grpc client req answer =
    (if \<not> client then Some (Plain ''gRPC client not initialized'')
     else case validate_request (Some req) of
       Some err \<Rightarrow> Some (Plain err)
     | None \<Rightarrow> (case answer of Inl err \<Rightarrow> Some (Plain err) | Inr r \<Rightarrow> rejected_error r))"

text \<open>\<open>kind\<close>: the protocol the transport was made for.\<close>

definition send_once :: "codec \<Rightarrow> collector \<Rightarrow> otlp_config \<Rightarrow> string \<Rightarrow> resource_metrics list \<Rightarrow> nat \<Rightarrow> send_error option" where
  "send_once cd co c kind req attempt =
    (if oc_protocol c = ''grpc'' then send_grpc (kind = ''grpc'') req (co_grpc co attempt)
     else send_http cd (kind = ''http'') req (co_http co attempt))"

section \<open>The attempts of a batch\<close>

datatype batch_result = Sent | Failed send_error

text \<open>
  \<open>left\<close> is \<open>MaxRetries - attempt\<close>; \<open>cancelled n\<close>: the context ends during the sleep after attempt
  \<open>n\<close>. Returned with the number of attempts made.
\<close>

fun retry_loop :: "(nat \<Rightarrow> send_error option) \<Rightarrow> (nat \<Rightarrow> bool) \<Rightarrow> nat \<Rightarrow> nat \<Rightarrow> batch_result \<times> nat" where
  "retry_loop send cancelled attempt left =
    (case send attempt of
      None \<Rightarrow> (Sent, attempt + 1)
    | Some err \<Rightarrow>
        if is_partial_success_error err then (Sent, attempt + 1)
        else if is_permanent_http_error err then (Failed err, attempt + 1)
        else (case left of
          0 \<Rightarrow> (Failed err, attempt + 1)
        | Suc l \<Rightarrow>
            if cancelled attempt then (Failed (Plain ''context canceled''), attempt + 1)
            else retry_loop send cancelled (attempt + 1) l))"

declare retry_loop.simps [simp del]

text \<open>Nothing is done for an empty batch. The configuration has been validated, so MaxRetries is not negative.\<close>

definition send_batch ::
  "codec \<Rightarrow> collector \<Rightarrow> (nat \<Rightarrow> bool) \<Rightarrow> (string \<Rightarrow> 64 word res) \<Rightarrow> event_order \<Rightarrow> otlp_config \<Rightarrow> string \<Rightarrow> event_msg list \<Rightarrow>
    (batch_result \<times> nat) option" where
  "send_batch cd co cancelled pf ord c kind es =
    (if es = [] then None
     else if oc_max_retries c < 0 then Some (Failed (Plain ''''), 0)
     else if oc_protocol c \<notin> {''grpc'', ''http''} then Some (Failed (Plain ''unsupported protocol''), 0)
     else Some (retry_loop (send_once cd co c kind (convert_to_otlp pf ord c es)) cancelled 0 (nat (oc_max_retries c))))"

section \<open>The worker\<close>

datatype worker_event = WDone | WEvent "event_msg option" | WTick

text \<open>The batches that a worker sends, its batch and whether it has returned.\<close>

definition worker_step :: "otlp_config \<Rightarrow> worker_event \<Rightarrow> event_msg list \<Rightarrow> event_msg list list \<times> event_msg list \<times> bool" where
  "worker_step c ev batch =
    (case ev of
      WDone \<Rightarrow> (if batch \<noteq> [] then [batch] else [], [], True)
    | WEvent None \<Rightarrow> (if batch \<noteq> [] then [batch] else [], [], True)
    | WEvent (Some e) \<Rightarrow>
        (let b = batch @ [e] in if int (length b) \<ge> oc_batch_size c then ([b], [], False) else ([], b, False))
    | WTick \<Rightarrow> (if batch \<noteq> [] then ([batch], [], False) else ([], batch, False)))"

fun worker :: "otlp_config \<Rightarrow> worker_event list \<Rightarrow> event_msg list \<Rightarrow> event_msg list list \<times> event_msg list \<times> bool" where
  "worker c [] batch = ([], batch, False)"
| "worker c (ev # evs) batch =
    (case worker_step c ev batch of (sent, batch', finished) \<Rightarrow>
      if finished then (sent, batch', True)
      else case worker c evs batch' of (sent', r) \<Rightarrow> (sent @ sent', r))"

section \<open>The life of a transport\<close>

text \<open>
  The published pair of configuration and transport, the counter of each transport, the goroutines
  that wait to close one, the batches in flight with the pair they captured, and the \<open>Update\<close> that
  has loaded the state but not yet published. \<open>tr_built\<close> has the configuration of each transport.
\<close>

record transports =
  tr_state :: "(otlp_config \<times> nat) option"
  tr_inflight :: "nat \<Rightarrow> nat"
  tr_cleaners :: "nat list"
  tr_closed :: "nat list"
  tr_batches :: "(nat \<times> otlp_config \<times> nat) list"
  tr_built :: "otlp_config list"
  tr_update :: "(otlp_config \<times> (otlp_config \<times> nat) option) option"

datatype transport_event =
    BeginBatch nat
  | EndBatch nat
  | LoadState otlp_config
  | FailUpdate
  | Publish
  | Cleanup nat
  | CloseOutput

definition init_transports :: "otlp_config \<Rightarrow> transports" where
  "init_transports c = \<lparr>tr_state = Some (c, 0), tr_inflight = (\<lambda>_. 0), tr_cleaners = [], tr_closed = [], tr_batches = [],
    tr_built = [c], tr_update = None\<rparr>"

definition begin_batch :: "nat \<Rightarrow> transports \<Rightarrow> transports option" where
  "begin_batch w s =
    (case tr_state s of
      None \<Rightarrow> None
    | Some (c, t) \<Rightarrow>
        if map_of (tr_batches s) w \<noteq> None then None
        else Some (s\<lparr>tr_inflight := (tr_inflight s)(t := tr_inflight s t + 1), tr_batches := (w, c, t) # tr_batches s\<rparr>))"

definition end_batch :: "nat \<Rightarrow> transports \<Rightarrow> transports option" where
  "end_batch w s =
    (case map_of (tr_batches s) w of
      None \<Rightarrow> None
    | Some (c, t) \<Rightarrow>
        Some (s\<lparr>tr_inflight := (tr_inflight s)(t := tr_inflight s t - 1), tr_batches := AList.delete w (tr_batches s)\<rparr>))"

text \<open>
  The manager of the outputs makes one \<open>Update\<close> after the other, but has released its lock by then,
  so that a \<open>Close\<close> can fall between what an \<open>Update\<close> loads and what it publishes.
\<close>

definition load_state :: "otlp_config \<Rightarrow> transports \<Rightarrow> transports option" where
  "load_state c s = (if tr_update s \<noteq> None then None else Some (s\<lparr>tr_update := Some (c, tr_state s)\<rparr>))"

definition publish :: "transports \<Rightarrow> transports option" where
  "publish s =
    (case tr_update s of
      None \<Rightarrow> None
    | Some (c, cur) \<Rightarrow>
        if needs_transport_rebuild (map_option fst cur) (Some c) then
          Some (s\<lparr>tr_state := Some (c, length (tr_built s)), tr_built := tr_built s @ [c], tr_update := None,
            tr_cleaners := (case tr_state s of None \<Rightarrow> [] | Some (_, t) \<Rightarrow> [t]) @ tr_cleaners s\<rparr>)
        else (case cur of
          None \<Rightarrow> None
        | Some (_, t) \<Rightarrow> Some (s\<lparr>tr_state := Some (c, t), tr_update := None\<rparr>)))"

definition cleanup :: "nat \<Rightarrow> transports \<Rightarrow> transports option" where
  "cleanup t s =
    (if t \<in> set (tr_cleaners s) \<and> tr_inflight s t = 0
     then Some (s\<lparr>tr_cleaners := remove1 t (tr_cleaners s), tr_closed := t # tr_closed s\<rparr>) else None)"

text \<open>
  \<open>Close\<close> takes the published pair away and closes its transport when no batch uses it. It has waited
  for the workers it knows of; an \<open>Update\<close> beside it may have started others. A second \<open>Close\<close> finds nothing.
\<close>

definition close_output :: "transports \<Rightarrow> transports" where
  "close_output s =
    (case tr_state s of
      None \<Rightarrow> s
    | Some (_, t) \<Rightarrow> s\<lparr>tr_state := None, tr_cleaners := t # tr_cleaners s\<rparr>)"

definition transport_step :: "transport_event \<Rightarrow> transports \<Rightarrow> transports option" where
  "transport_step ev s =
    (case ev of
      BeginBatch w \<Rightarrow> begin_batch w s
    | EndBatch w \<Rightarrow> end_batch w s
    | LoadState c \<Rightarrow> load_state c s
    | FailUpdate \<Rightarrow> (if tr_update s = None then None else Some (s\<lparr>tr_update := None\<rparr>))
    | Publish \<Rightarrow> publish s
    | Cleanup t \<Rightarrow> cleanup t s
    | CloseOutput \<Rightarrow> Some (close_output s))"

definition run_transports :: "transport_event list \<Rightarrow> transports \<Rightarrow> transports option" where
  "run_transports evs s = ofold transport_step evs s"

section \<open>Attempts\<close>

definition counts_as_sent :: "send_error option \<Rightarrow> bool" where
  "counts_as_sent r = (case r of None \<Rightarrow> True | Some err \<Rightarrow> is_partial_success_error err)"

definition gives_up :: "send_error option \<Rightarrow> bool" where
  "gives_up r = (case r of None \<Rightarrow> False | Some err \<Rightarrow> is_permanent_http_error err)"

lemma retry_loop_spec:
  "retry_loop send cancelled a l = (r, n) \<Longrightarrow>
    a < n \<and> n \<le> a + l + 1 \<and> (\<forall>i. a \<le> i \<and> i + 1 < n \<longrightarrow> \<not> counts_as_sent (send i)) \<and>
    (r = Sent \<longleftrightarrow> counts_as_sent (send (n - 1))) \<and>
    (r \<noteq> Sent \<longrightarrow> n < a + l + 1 \<longrightarrow> gives_up (send (n - 1)) \<or> cancelled (n - 1))"
proof (induction l arbitrary: a)
  case 0
  then show ?case
    by (subst (asm) retry_loop.simps) (auto simp: counts_as_sent_def gives_up_def split: option.splits if_splits)
next
  case (Suc l)
  show ?case
  proof (cases "\<not> counts_as_sent (send a) \<and> \<not> gives_up (send a) \<and> \<not> cancelled a")
    case True
    then have "retry_loop send cancelled (a + 1) l = (r, n)" and a: "\<not> counts_as_sent (send a)"
      using Suc.prems by (subst (asm) retry_loop.simps, simp add: counts_as_sent_def gives_up_def split: option.splits)+
    note ih = Suc.IH [OF this(1)]
    moreover have "\<not> counts_as_sent (send i)" if "a \<le> i" "i + 1 < n" for i
      using a ih that by (cases "i = a") simp_all
    ultimately show ?thesis by simp
  next
    case False
    then have "n = a + 1 \<and> (r = Sent \<longleftrightarrow> counts_as_sent (send a)) \<and> (r \<noteq> Sent \<longrightarrow> gives_up (send a) \<or> cancelled a)"
      using Suc.prems
      by (subst (asm) retry_loop.simps) (auto simp: counts_as_sent_def gives_up_def split: option.splits if_splits)
    then show ?thesis by auto
  qed
qed






text \<open>Whatever the collector did with the first attempt, without an answer there is a second one.\<close>

lemma lost_answer_sent_again:
  assumes "oc_protocol c = ''grpc''" and "co_grpc co 0 = Inl err" and "\<not> cancelled 0" and "0 < oc_max_retries c" and "es \<noteq> []"
  shows "\<exists>r n. send_batch cd co cancelled pf ord c kind es = Some (r, n) \<and> 1 < n"
proof -
  let ?send = "send_once cd co c kind (convert_to_otlp pf ord c es)"
  obtain l where l: "nat (oc_max_retries c) = Suc l" using assms(4) by (cases "nat (oc_max_retries c)") auto
  have "\<exists>e. ?send 0 = Some (Plain e)"
    by (cases "kind = ''grpc''"; cases "validate_request (Some (convert_to_otlp pf ord c es))")
      (simp_all add: send_once_def send_grpc_def assms(1,2))
  then obtain e where e: "?send 0 = Some (Plain e)" by blast
  obtain r n where r: "retry_loop ?send cancelled 1 l = (r, n)" by fastforce
  have "retry_loop ?send cancelled 0 (Suc l) = (r, n)"
    using assms(3) r by (subst retry_loop.simps) (simp add: e is_partial_success_error_def is_permanent_http_error_def)
  moreover have "1 < n" using retry_loop_spec [OF r] by simp
  ultimately show ?thesis using assms by (simp add: send_batch_def l)
qed

text \<open>A request that does not pass the validation is tried as often as one that the network loses.\<close>

lemma invalid_request_retried:
  assumes "validate_request (Some req) = Some err" and "\<forall>i. \<not> cancelled i"
  shows "snd (retry_loop (send_once cd co c ''grpc'' req) cancelled a l) = a + l + 1 \<or> oc_protocol c \<noteq> ''grpc''"
proof (cases "oc_protocol c = ''grpc''")
  case True
  have s: "send_once cd co c ''grpc'' req i = Some (Plain err)" for i
    using assms(1) True by (simp add: send_once_def send_grpc_def)
  have "snd (retry_loop (send_once cd co c ''grpc'' req) cancelled a l) = a + l + 1"
    by (induction l arbitrary: a)
      (subst retry_loop.simps, simp add: s assms(2) is_partial_success_error_def is_permanent_http_error_def)+
  then show ?thesis ..
qed simp

section \<open>Sleeps\<close>

text \<open>A sleep between two attempts over HTTP is never negative and never longer than 30 seconds, whatever the
  collector asks for, and the choice of a random sleep does not panic.\<close>

lemma http_sleep_bounded:
  assumes "\<And>b. 0 < b \<Longrightarrow> 0 \<le> rnd b \<and> rnd b < b"
  shows "\<exists>d. effective_retry_sleep rnd ''http'' attempt retry_after max_retry_after = Some d \<and> 0 \<le> d \<and> d \<le> max_retry_after"
proof -
  have m: "0 < max_retry_after" by (simp add: max_retry_after_def second_def)
  have "0 \<le> rnd b \<and> rnd b \<le> max_retry_after" if "0 < b" "b \<le> max_retry_after" for b
    using assms [OF that(1)] that(2) by simp
  then show ?thesis using m by (auto simp: effective_retry_sleep_def Let_def)
qed

lemma http_sleep_bounded_witness:
  "\<exists>d. effective_retry_sleep (\<lambda>b. b - 1) ''http'' 70 0 max_retry_after = Some d \<and> 0 \<le> d \<and> d \<le> max_retry_after"
  by (rule http_sleep_bounded) simp

text \<open>The seconds of a Retry-After are not bounded before they are multiplied.\<close>

lemma retry_after_wraps:
  assumes "trim_space h \<noteq> []" and "atoi (trim_space h) = Inr 18446744074"
  shows "parse_retry_after parse_time h now = 290448384"
proof -
  have "wrap64 (18446744074 * second) = 290448384" by code_simp
  then show ?thesis using assms by (simp add: parse_retry_after_def)
qed

section \<open>Headers\<close>

lemma request_headers_content_type:
  assumes "canon ''Content-Type'' \<noteq> canon ''Content-Encoding''"
  shows "map_of (request_headers canon c hs) (canon ''Content-Type'') = Some ''application/x-protobuf''"
  using assms by (simp add: request_headers_def set_header_def Let_def)

text \<open>The encoding that is announced is the one of the body, whatever headers are configured.\<close>

lemma request_headers_encoding:
  "map_of (request_headers canon c hs) (canon ''Content-Encoding'') = (if oc_compression c = ''gzip'' then Some ''gzip'' else None)"
  by (simp add: request_headers_def set_header_def Let_def)

section \<open>Batches of a worker\<close>

text \<open>What a worker has received when it returns.\<close>

fun received :: "worker_event list \<Rightarrow> event_msg list" where
  "received [] = []"
| "received (WDone # evs) = []"
| "received (WEvent None # evs) = []"
| "received (WEvent (Some e) # evs) = e # received evs"
| "received (WTick # evs) = received evs"

lemma worker_step_spec:
  assumes "worker_step c ev b = (s1, b1, f1)" and "int (length b) < oc_batch_size c" and "0 < oc_batch_size c"
  shows "concat s1 @ b1 = b @ received [ev] \<and> (\<forall>x \<in> set s1. x \<noteq> [] \<and> int (length x) \<le> oc_batch_size c) \<and>
    int (length b1) < oc_batch_size c \<and> (f1 \<longleftrightarrow> ev = WDone \<or> ev = WEvent None) \<and> (f1 \<longrightarrow> b1 = [] \<and> received [ev] = [])"
proof (cases ev)
  case WDone
  then show ?thesis using assms by (auto simp: worker_step_def)
next
  case (WEvent e)
  then show ?thesis using assms by (cases e) (auto simp: worker_step_def Let_def split: if_splits)
next
  case WTick
  then show ?thesis using assms by (auto simp: worker_step_def split: if_splits)
qed

lemma received_Cons: "received (ev # evs) = (if ev = WDone \<or> ev = WEvent None then [] else received [ev] @ received evs)"
  by (cases ev; cases "case ev of WEvent e \<Rightarrow> e | _ \<Rightarrow> None") simp_all

lemma worker_spec:
  assumes "0 < oc_batch_size c"
  shows "int (length b) < oc_batch_size c \<Longrightarrow> worker c evs b = (sent, rest, finished) \<Longrightarrow>
    concat sent @ rest = b @ received evs \<and> (\<forall>x \<in> set sent. x \<noteq> [] \<and> int (length x) \<le> oc_batch_size c) \<and>
    int (length rest) < oc_batch_size c \<and> (finished \<longrightarrow> rest = [])"
proof (induction evs arbitrary: b sent)
  case Nil
  then show ?case by simp
next
  case (Cons ev evs)
  obtain s1 b1 f1 where st: "worker_step c ev b = (s1, b1, f1)" by (cases "worker_step c ev b")
  have step: "concat s1 @ b1 = b @ received [ev] \<and> (\<forall>x \<in> set s1. x \<noteq> [] \<and> int (length x) \<le> oc_batch_size c) \<and>
    int (length b1) < oc_batch_size c \<and> (f1 \<longrightarrow> b1 = [] \<and> received (ev # evs) = [] \<and> received [ev] = []) \<and>
    (\<not> f1 \<longrightarrow> received (ev # evs) = received [ev] @ received evs)"
    using worker_step_spec [OF st Cons.prems(1) assms] by (simp add: received_Cons [of ev evs])
  show ?case
  proof (cases f1)
    case True
    then have "sent = s1" "rest = b1" "finished" using st Cons.prems(2) by simp_all
    moreover have "b1 = []" "received [ev] = []" "received (ev # evs) = []" using step True by simp_all
    ultimately show ?thesis using step by simp
  next
    case False
    obtain s2 r where w: "worker c evs b1 = (s2, r)" by (cases "worker c evs b1")
    then have sent: "sent = s1 @ s2" and "worker c evs b1 = (s2, rest, finished)" using st False Cons.prems(2) by simp_all
    note ih = Cons.IH [OF _ this(2)]
    have b1: "int (length b1) < oc_batch_size c" and 1: "concat s1 @ b1 = b @ received [ev]"
      and r: "received (ev # evs) = received [ev] @ received evs"
      and s1: "\<forall>x \<in> set s1. x \<noteq> [] \<and> int (length x) \<le> oc_batch_size c"
      using step False by simp_all
    have "concat sent @ rest = concat s1 @ b1 @ received evs" using ih [OF b1] by (simp add: sent)
    also have "\<dots> = b @ received (ev # evs)" using arg_cong [OF 1, of "\<lambda>x. x @ received evs"] by (simp add: r)
    finally show ?thesis using ih [OF b1] s1 by (simp add: sent ball_Un)
  qed
qed

text \<open>C35. A worker sends every event it has received in exactly one batch and in the order of their arrival, never an
  empty batch or one beyond the batch size, and keeps nothing back when it returns.\<close>

theorem worker_batches:
  assumes "validate_config compile c0 = Inr c" and "worker c evs [] = (sent, rest, finished)"
  shows "concat sent @ rest = received evs \<and> (\<forall>b \<in> set sent. b \<noteq> [] \<and> int (length b) \<le> oc_batch_size c) \<and>
    (finished \<longrightarrow> rest = [])"
proof -
  have "0 < oc_batch_size c"
    using assms(1) by (auto simp: validate_config_def res_simps split: if_splits)
  then show ?thesis using worker_spec [of c "[]" evs sent rest finished] assms(2) by simp
qed

section \<open>Transports\<close>


































text \<open>
  An update of the batch size that overlaps the end of the output: it publishes the transport that
  \<open>Close\<close> has closed, and the worker it has started works on it.
\<close>

definition resized_otlp :: otlp_config where
  "resized_otlp = sample_otlp\<lparr>oc_batch_size := 7\<rparr>"

lemma close_during_update:
  "\<exists>s. run_transports [LoadState resized_otlp, CloseOutput, Cleanup 0, Publish, BeginBatch 1] (init_transports sample_otlp) = Some s \<and>
    tr_batches s = [(1, resized_otlp, 0)] \<and> tr_closed s = [0]"
proof -
  have "\<not> needs_transport_rebuild (Some sample_otlp) (Some resized_otlp)" by code_simp
  then show ?thesis
    by (simp add: run_transports_def init_transports_def transport_step_def begin_batch_def load_state_def publish_def
      close_output_def cleanup_def)
qed







lemma sample_otlp_valid: "validate_config (\<lambda>_. Inl []) sample_otlp = Inr sample_otlp"
  by code_simp


theorem worker_batches_witness:
  "concat (fst (worker sample_otlp [WEvent (Some zero_event), WTick, WEvent (Some zero_event), WDone] [])) = [zero_event, zero_event]"
proof -
  have "worker sample_otlp [WEvent (Some zero_event), WTick, WEvent (Some zero_event), WDone] [] = ([[zero_event], [zero_event]], [], True)"
    by (simp add: worker_step_def sample_otlp_def)
  from worker_batches [OF sample_otlp_valid this] this show ?thesis by simp
qed

end
