(* ===== verification/Gnmi_Server.thy ===== *)
theory Gnmi_Server
  imports Gnmi_Msgs Gnmi_Subscribe Target_Config Go_Range
begin

text \<open>
  The RPC handlers of the gNMI server, \<open>pkg/gnmiserver\<close>, with the functions they are given by the
  collector, \<open>pkg/collector/api/gnmi/unary.go\<close>, and the notifications made of configurations,
  \<open>pkg/utils/gnmi_notifications.go\<close>. The cache, the store, the connections to targets, the JSON
  encoder and the printer of durations are parameters. An error is a text whose first part is the
  status code.
\<close>

section \<open>Configurations as notifications\<close>

definition named_elem :: "string \<Rightarrow> string \<Rightarrow> path_elem" where
  "named_elem n k = \<lparr>pe_name = n, pe_key = Some [(''name'', k)]\<rparr>"

definition leaf_update :: "string \<Rightarrow> typed_value \<Rightarrow> gupdate" where
  "leaf_update n v = \<lparr>u_path = Some (empty_path\<lparr>p_elem := [\<lparr>pe_name = n, pe_key = None\<rparr>]\<rparr>), u_val = Some v\<rparr>"

definition bool_text :: "bool \<Rightarrow> string" where
  "bool_text b = (if b then ''true'' else ''false'')"

text \<open>A TLS file is given when it is neither nil nor empty, and then \<open>TLSCAString\<close> is its name.\<close>

definition file_update :: "(string \<Rightarrow> typed_value) \<Rightarrow> string \<Rightarrow> string option \<Rightarrow> gupdate list" where
  "file_update wrap n p = (case p of None \<Rightarrow> [] | Some f \<Rightarrow> if f = [] then [] else [leaf_update n (wrap f)])"

definition text_update :: "(string \<Rightarrow> typed_value) \<Rightarrow> string \<Rightarrow> string option \<Rightarrow> gupdate list" where
  "text_update wrap n p = (case p of None \<Rightarrow> [] | Some t \<Rightarrow> [leaf_update n (wrap t)])"

definition list_update_of :: "(string \<Rightarrow> typed_value) \<Rightarrow> string \<Rightarrow> string list option \<Rightarrow> gupdate list" where
  "list_update_of wrap n xs = (if slice xs = [] then [] else [leaf_update n (TVLeaflist (map wrap (slice xs)))])"

text \<open>The updates of the encodings BYTES and ASCII, which differ in the kind of their values.\<close>

definition config_updates :: "(string \<Rightarrow> typed_value) \<Rightarrow> (int \<Rightarrow> string) \<Rightarrow> tconf \<Rightarrow> gupdate list" where
  "config_updates wrap show_duration tc =
    [leaf_update ''address'' (wrap (tc_address tc))] @
    text_update wrap ''username'' (tc_username tc) @
    text_update wrap ''insecure'' (map_option bool_text (tc_insecure tc)) @
    text_update wrap ''skip-verify'' (map_option bool_text (tc_skip_verify tc)) @
    [leaf_update ''timeout'' (wrap (show_duration (tc_timeout tc)))] @
    file_update wrap ''tls-ca'' (tc_tls_ca tc) @
    file_update wrap ''tls-cert'' (tc_tls_cert tc) @
    file_update wrap ''tls-key'' (tc_tls_key tc) @
    list_update_of wrap ''outputs'' (tc_outputs tc) @
    list_update_of wrap ''subscriptions'' (tc_subscriptions tc)"

definition enc_json :: int where "enc_json = 0"
definition enc_bytes :: int where "enc_bytes = 1"
definition enc_ascii :: int where "enc_ascii = 3"
definition enc_json_ietf :: int where "enc_json_ietf = 4"

text \<open>What the conversion needs of its environment: clock, addresses of clones, JSON, durations.\<close>

record conversions =
  cv_now :: "64 word"
  cv_fresh :: "nat \<Rightarrow> nat"
  cv_target_json :: "tconf \<Rightarrow> string"
  cv_sub_json :: "unit sub_config \<Rightarrow> string"
  cv_duration :: "int \<Rightarrow> string"

definition gnmic_path :: "path_elem \<Rightarrow> gpath" where
  "gnmic_path e = \<lparr>p_origin = ''gnmic'', p_elem = [e], p_target = []\<rparr>"

definition json_notification :: "64 word \<Rightarrow> path_elem \<Rightarrow> string \<Rightarrow> notification" where
  "json_notification now e json = \<lparr>n_timestamp = now, n_prefix = None,
    n_update = [\<lparr>u_path = Some (gnmic_path e), u_val = Some (TVJson json)\<rparr>], n_delete = [], n_atomic = False\<rparr>"

definition target_config_to_notification :: "conversions \<Rightarrow> tconf \<Rightarrow> int \<Rightarrow> notification option" where
  "target_config_to_notification cv tc enc =
    (let leaves = (\<lambda>wrap. Some \<lparr>n_timestamp = cv_now cv, n_prefix = Some (gnmic_path (named_elem ''target'' (tc_name tc))),
           n_update = config_updates wrap (cv_duration cv) tc, n_delete = [], n_atomic = False\<rparr>)
     in if enc = enc_json \<or> enc = enc_json_ietf
        then Some (json_notification (cv_now cv) (named_elem ''target'' (tc_name tc))
          (cv_target_json cv (redacted_deep_copy (cv_fresh cv) tc)))
        else if enc = enc_bytes then leaves TVBytes
        else if enc = enc_ascii then leaves TVAscii
        else None)"

definition subscription_config_to_notification :: "conversions \<Rightarrow> unit sub_config \<Rightarrow> int \<Rightarrow> notification option" where
  "subscription_config_to_notification cv sub enc =
    (if enc = enc_json \<or> enc = enc_json_ietf
     then Some (json_notification (cv_now cv) (named_elem ''subscriptions'' (sc_name sub)) (cv_sub_json cv sub))
     else None)"

section \<open>Get of the configuration\<close>

text \<open>Values of the store; those of another type are skipped.\<close>

datatype store_value = SVTarget tconf | SVSubscription "unit sub_config" | SVOther

record config_store =
  cs_targets :: "(string \<times> store_value) list res"
  cs_subscriptions :: "(string \<times> store_value) list res"

fun targets_in :: "(string \<times> store_value) list \<Rightarrow> tconf list" where
  "targets_in [] = []"
| "targets_in ((n, v) # vs) =
    (case v of SVTarget tc \<Rightarrow> (if tc_name tc = [] then tc\<lparr>tc_name := n\<rparr> else tc) # targets_in vs | _ \<Rightarrow> targets_in vs)"

fun subscriptions_in :: "(string \<times> store_value) list \<Rightarrow> unit sub_config list" where
  "subscriptions_in [] = []"
| "subscriptions_in ((n, v) # vs) =
    (case v of SVSubscription sc \<Rightarrow> (if sc_name sc = [] then sc\<lparr>sc_name := n\<rparr> else sc) # subscriptions_in vs | _ \<Rightarrow> subscriptions_in vs)"

text \<open>\<open>sort.Slice\<close> is not stable, but names of stored configurations differ.\<close>

definition list_target_configs :: "config_store \<Rightarrow> tconf list res" where
  "list_target_configs st = rbind (cs_targets st) (\<lambda>vs. Inr (sort_key tc_name (targets_in vs)))"

definition list_subscription_configs :: "config_store \<Rightarrow> unit sub_config list res" where
  "list_subscription_configs st = rbind (cs_subscriptions st) (\<lambda>vs. Inr (sort_key sc_name (subscriptions_in vs)))"

text \<open>The configurations with the name in the key of the element, or all when it has none.\<close>

definition wanted :: "path_elem \<Rightarrow> string \<Rightarrow> bool" where
  "wanted e n = (case nget (pe_key e) ''name'' of None \<Rightarrow> True | Some k \<Rightarrow> n = k)"

definition convert_all :: "('c \<Rightarrow> notification option) \<Rightarrow> 'c list \<Rightarrow> notification list res" where
  "convert_all conv cs = rmap (\<lambda>c. case conv c of None \<Rightarrow> Inl ''Unimplemented'' | Some n \<Rightarrow> Inr n) cs"

definition internal_get_elem :: "conversions \<Rightarrow> config_store \<Rightarrow> int \<Rightarrow> path_elem \<Rightarrow> notification list res" where
  "internal_get_elem cv st enc e =
    (if pe_name e = ''targets'' then
       (case list_target_configs st of
         Inl _ \<Rightarrow> Inl ''Internal''
       | Inr tcs \<Rightarrow> convert_all (\<lambda>tc. target_config_to_notification cv tc enc) (filter (\<lambda>tc. wanted e (tc_name tc)) tcs))
     else if pe_name e = ''subscriptions'' then
       (case list_subscription_configs st of
         Inl _ \<Rightarrow> Inl ''Internal''
       | Inr subs \<Rightarrow> convert_all (\<lambda>sc. subscription_config_to_notification cv sc enc) (filter (\<lambda>sc. wanted e (sc_name sc)) subs))
     else Inl ''InvalidArgument'')"

definition internal_get_path :: "conversions \<Rightarrow> config_store \<Rightarrow> int \<Rightarrow> path_elem list \<Rightarrow> notification list res" where
  "internal_get_path cv st enc es = rbind (rmap (internal_get_elem cv st enc) es) (\<lambda>nss. Inr (concat nss))"

text \<open>\<open>cancelled i\<close>: the context has ended before path \<open>i\<close>.\<close>

fun get_loop :: "(path_elem list \<Rightarrow> notification list res) \<Rightarrow> gpath option \<Rightarrow> (nat \<Rightarrow> bool) \<Rightarrow> nat \<Rightarrow> gpath list \<Rightarrow> notification list res" where
  "get_loop get prefix cancelled i [] = Inr []"
| "get_loop get prefix cancelled i (p # ps) =
    (if cancelled i then Inl ''Canceled''
     else rbind (get (path_elems prefix (Some p))) (\<lambda>ns.
       rbind (get_loop get prefix cancelled (i + 1) ps) (\<lambda>rest. Inr (ns @ rest))))"

definition handle_internal_get :: "conversions \<Rightarrow> config_store \<Rightarrow> (nat \<Rightarrow> bool) \<Rightarrow> get_request \<Rightarrow> notification list res" where
  "handle_internal_get cv st cancelled req =
    get_loop (internal_get_path cv st (gq_encoding req)) (gq_prefix req) cancelled 0 (gq_path req)"

text \<open>
  The same handler of the command \<open>subscribe\<close>, \<open>pkg/app/gnmi_server.go\<close>, which ranges over the maps of
  its configuration.
\<close>

definition app_get_elem :: "conversions \<Rightarrow> tconf gmap \<Rightarrow> unit sub_config gmap \<Rightarrow> int \<Rightarrow> path_elem \<Rightarrow> notification list res" where
  "app_get_elem cv tcs subs enc e =
    (if pe_name e = ''targets'' then
       convert_all (\<lambda>tc. target_config_to_notification cv tc enc) (filter (\<lambda>tc. wanted e (tc_name tc)) (map snd tcs))
     else if pe_name e = ''subscriptions'' then
       convert_all (\<lambda>sc. subscription_config_to_notification cv sc enc) (filter (\<lambda>sc. wanted e (sc_name sc)) (map snd subs))
     else Inl ''InvalidArgument'')"

definition app_get_path :: "conversions \<Rightarrow> tconf gmap \<Rightarrow> unit sub_config gmap \<Rightarrow> int \<Rightarrow> path_elem list \<Rightarrow> notification list res" where
  "app_get_path cv tcs subs enc es = rbind (rmap (app_get_elem cv tcs subs enc) es) (\<lambda>nss. Inr (concat nss))"

definition app_internal_get ::
  "conversions \<Rightarrow> tconf gmap \<Rightarrow> unit sub_config gmap \<Rightarrow> (nat \<Rightarrow> bool) \<Rightarrow> get_request \<Rightarrow> notification list res" where
  "app_internal_get cv tcs subs cancelled req =
    get_loop (app_get_path cv tcs subs (gq_encoding req)) (gq_prefix req) cancelled 0 (gq_path req)"

section \<open>Get from the cache\<close>

definition get_origin :: "gpath option \<Rightarrow> string" where
  "get_origin p = (case p of None \<Rightarrow> [] | Some q \<Rightarrow> p_origin q)"

definition merged_get_path :: "gpath option \<Rightarrow> gpath \<Rightarrow> gpath" where
  "merged_get_path prefix p = \<lparr>p_origin = (if p_origin p = [] then get_origin prefix else p_origin p),
    p_elem = get_elem prefix @ p_elem p, p_target = []\<rparr>"

type_synonym cache_read = "string \<Rightarrow> gpath \<Rightarrow> notification list gmap res"

text \<open>The notifications of one read, in the order of the names of the subscriptions.\<close>

definition in_order :: "notification list gmap \<Rightarrow> notification list" where
  "in_order notifs = concat (map (\<lambda>sub. case map_of notifs sub of None \<Rightarrow> [] | Some ns \<Rightarrow> ns) (sort (map fst notifs)))"

text \<open>\<open>cancelled i\<close>: the context has ended before read \<open>i\<close>.\<close>

fun read_targets :: "cache_read \<Rightarrow> (nat \<Rightarrow> bool) \<Rightarrow> gpath \<Rightarrow> nat \<Rightarrow> string list \<Rightarrow> notification list res" where
  "read_targets rd cancelled fp i [] = Inr []"
| "read_targets rd cancelled fp i (tn # tns) =
    (if cancelled i then Inl ''Canceled''
     else case rd tn fp of
       Inl _ \<Rightarrow> Inl ''Internal''
     | Inr notifs \<Rightarrow> rbind (read_targets rd cancelled fp (i + 1) tns) (\<lambda>rest. Inr (in_order notifs @ rest)))"

fun read_paths :: "cache_read \<Rightarrow> (nat \<Rightarrow> bool) \<Rightarrow> gpath option \<Rightarrow> string list \<Rightarrow> nat \<Rightarrow> gpath list \<Rightarrow> notification list res" where
  "read_paths rd cancelled prefix tns i [] = Inr []"
| "read_paths rd cancelled prefix tns i (p # ps) =
    rbind (read_targets rd cancelled (merged_get_path prefix p) i tns) (\<lambda>ns.
      rbind (read_paths rd cancelled prefix tns (i + length tns) ps) (\<lambda>rest. Inr (ns @ rest)))"

definition selected_names :: "string \<Rightarrow> string list" where
  "selected_names tn = (if tn \<noteq> [] \<and> tn \<noteq> ''*'' then split_char CHR '','' tn else [''*''])"

definition server_get ::
  "(get_request \<Rightarrow> notification list res) option \<Rightarrow> cache_read option \<Rightarrow> (nat \<Rightarrow> bool) \<Rightarrow> get_request \<Rightarrow> notification list res" where
  "server_get internal cache cancelled req =
    (if gq_path req = [] \<and> gq_prefix req = None then Inl ''InvalidArgument''
     else let origins = remdups (map p_origin (gq_path req))
       in if ''gnmic'' \<in> set origins then
            (if length origins > 1 then Inl ''InvalidArgument''
             else case internal of None \<Rightarrow> Inl ''Unimplemented'' | Some get \<Rightarrow> get req)
          else (case cache of
            None \<Rightarrow> Inl ''Unimplemented''
          | Some rd \<Rightarrow> read_paths rd cancelled (gq_prefix req) (selected_names (get_target (gq_prefix req))) 0
              (if gq_path req = [] then [empty_path] else gq_path req)))"

section \<open>Selection of targets\<close>

definition get_host :: "string \<Rightarrow> string" where
  "get_host hp = (case split_host_port hp of Inl _ \<Rightarrow> hp | Inr (h, _) \<Rightarrow> h)"

text \<open>A connection of the manager, by the name of its target, or one that was dialed, by a number.\<close>

datatype conn = Managed string | Temporary nat

record selection =
  sel_targets :: "conn gmap"
  sel_temp :: "nat list"
  sel_dialed :: nat

text \<open>\<open>dial\<close> tells whether the connection is made; a tunnel target cannot be dialed.\<close>

definition create_temporary_target :: "(tconf \<Rightarrow> bool) \<Rightarrow> tconf \<Rightarrow> selection \<Rightarrow> (nat \<times> selection) res" where
  "create_temporary_target dial tc s =
    (if tc_tunnel_type tc \<noteq> [] then Inl ''cannot dial a tunnel target on demand''
     else if dial tc then Inr (sel_dialed s, s\<lparr>sel_dialed := sel_dialed s + 1\<rparr>)
     else Inl ''target'')"

text \<open>Cleaning up closes the connections of \<open>sel_temp\<close>; an error comes with the selection that was cleaned up.\<close>

definition add_temporary :: "(tconf \<Rightarrow> bool) \<Rightarrow> string \<Rightarrow> tconf \<Rightarrow> selection \<Rightarrow> (string \<times> selection) + selection" where
  "add_temporary dial n tc s =
    (case create_temporary_target dial tc s of
      Inl err \<Rightarrow> Inl (err, s)
    | Inr (t, s') \<Rightarrow> Inr (s'\<lparr>sel_temp := sel_temp s' @ [t], sel_targets := gset n (Temporary t) (sel_targets s')\<rparr>))"

fun select_all :: "(tconf \<Rightarrow> bool) \<Rightarrow> string list \<Rightarrow> (string \<times> store_value) list \<Rightarrow> selection \<Rightarrow> (string \<times> selection) + selection" where
  "select_all dial managed [] s = Inr s"
| "select_all dial managed ((n, v) # cfgs) s =
    (if n \<in> set managed then select_all dial managed cfgs (s\<lparr>sel_targets := gset n (Managed n) (sel_targets s)\<rparr>)
     else (case v of
       SVTarget tc \<Rightarrow> rbind (add_temporary dial n tc s) (select_all dial managed cfgs)
     | _ \<Rightarrow> select_all dial managed cfgs s))"

definition matches_name :: "string \<Rightarrow> string \<Rightarrow> bool" where
  "matches_name name n \<longleftrightarrow> n = name \<or> get_host n = name"

fun select_managed :: "string \<Rightarrow> string list \<Rightarrow> selection \<Rightarrow> selection" where
  "select_managed name [] s = s"
| "select_managed name (n # ms) s =
    select_managed name ms (if matches_name name n then s\<lparr>sel_targets := gset n (Managed n) (sel_targets s)\<rparr> else s)"

fun select_configured :: "(tconf \<Rightarrow> bool) \<Rightarrow> string \<Rightarrow> (string \<times> store_value) list \<Rightarrow> selection \<Rightarrow> (string \<times> selection) + selection" where
  "select_configured dial name [] s = Inr s"
| "select_configured dial name ((n, v) # cfgs) s =
    (if \<not> matches_name name n then select_configured dial name cfgs s
     else (case v of SVTarget tc \<Rightarrow> add_temporary dial n tc s | _ \<Rightarrow> select_configured dial name cfgs s))"

text \<open>\<open>cfgs i\<close>: what the store lists, in the order of the range, for name \<open>i\<close>.\<close>

fun select_names ::
  "(tconf \<Rightarrow> bool) \<Rightarrow> string list \<Rightarrow> (nat \<Rightarrow> (string \<times> store_value) list res) \<Rightarrow> nat \<Rightarrow> string list \<Rightarrow> selection \<Rightarrow>
    (string \<times> selection) + selection" where
  "select_names dial managed cfgs i [] s = Inr s"
| "select_names dial managed cfgs i (name # names) s =
    (if \<exists>n \<in> set managed. matches_name name n
     then select_names dial managed cfgs (i + 1) names (select_managed name managed s)
     else (case cfgs i of
       Inl err \<Rightarrow> Inl (err, s)
     | Inr cs \<Rightarrow> rbind (select_configured dial name cs s) (select_names dial managed cfgs (i + 1) names)))"

definition no_selection :: selection where
  "no_selection = \<lparr>sel_targets = [], sel_temp = [], sel_dialed = 0\<rparr>"

definition select_targets ::
  "(tconf \<Rightarrow> bool) \<Rightarrow> string list \<Rightarrow> (nat \<Rightarrow> (string \<times> store_value) list res) \<Rightarrow> string \<Rightarrow> (string \<times> selection) + selection" where
  "select_targets dial managed cfgs tn =
    (if tn = [] \<or> tn = ''*'' then
       (case cfgs 0 of Inl err \<Rightarrow> Inl (err, no_selection) | Inr cs \<Rightarrow> select_all dial managed cs no_selection)
     else select_names dial managed cfgs 0 (split_char CHR '','' tn) no_selection)"

section \<open>Set\<close>

text \<open>The request for one target.\<close>

definition request_for_target :: "set_request \<Rightarrow> string \<Rightarrow> set_request" where
  "request_for_target req name =
    (let p = (case sq_prefix req of None \<Rightarrow> empty_path | Some p \<Rightarrow> p)
     in req\<lparr>sq_prefix := Some (if p_target p = [] \<or> p_target p = ''*'' then p\<lparr>p_target := name\<rparr> else p)\<rparr>)"

definition name_result :: "string \<Rightarrow> update_result \<Rightarrow> update_result" where
  "name_result name u =
    (let p = (case ur_path u of None \<Rightarrow> empty_path | Some p \<Rightarrow> p)
     in u\<lparr>ur_path := Some (if p_target p = [] then p\<lparr>p_target := name\<rparr> else p)\<rparr>)"

text \<open>
  The goroutines of a Set. For each target what it still does: send its results one by one or
  report its error; the collector runs until the context ends; the response so far.
\<close>

record set_run =
  su_pending :: "(string \<times> update_result list) list"
  su_errors :: "string list"
  su_collector :: bool
  su_response :: "update_result list"

datatype set_event = SendResult string | CancelSet

definition set_step :: "set_event \<Rightarrow> set_run \<Rightarrow> set_run option" where
  "set_step ev s =
    (case ev of
      CancelSet \<Rightarrow> Some (s\<lparr>su_collector := False\<rparr>)
    | SendResult n \<Rightarrow>
        (case map_of (su_pending s) n of
          Some (u # us) \<Rightarrow>
            if su_collector s
            then Some (s\<lparr>su_pending := AList.update n us (su_pending s), su_response := su_response s @ [u]\<rparr>) else None
        | _ \<Rightarrow> None))"

text \<open>The answers of the targets to their requests.\<close>

fun set_answers :: "(string \<Rightarrow> set_request \<Rightarrow> update_result list res) \<Rightarrow> set_request \<Rightarrow> string list \<Rightarrow> set_run" where
  "set_answers tset req [] = \<lparr>su_pending = [], su_errors = [], su_collector = True, su_response = []\<rparr>"
| "set_answers tset req (n # ns) =
    (let s = set_answers tset req ns
     in case tset n (request_for_target req n) of
       Inl err \<Rightarrow> s\<lparr>su_errors := err # su_errors s\<rparr>
     | Inr us \<Rightarrow> s\<lparr>su_pending := (n, map (name_result n) us) # su_pending s\<rparr>)"

text \<open>\<open>wg.Wait\<close> returns when nothing is pending; an error of a target wins.\<close>

definition set_done :: "set_run \<Rightarrow> bool" where
  "set_done s \<longleftrightarrow> (\<forall>(n, us) \<in> set (su_pending s). us = [])"

definition set_result :: "set_run \<Rightarrow> update_result list res" where
  "set_result s = (if su_errors s \<noteq> [] then Inl ''Internal'' else Inr (su_response s))"

definition server_set ::
  "(string \<Rightarrow> (string \<times> selection) + selection) \<Rightarrow> (string \<Rightarrow> set_request \<Rightarrow> update_result list res) \<Rightarrow> set_event list \<Rightarrow>
    set_request \<Rightarrow> update_result list res option" where
  "server_set select tset schedule req =
    (if sq_update req = [] \<and> sq_replace req = [] \<and> sq_delete req = [] \<and> sq_union_replace req = []
     then Some (Inl ''InvalidArgument'')
     else case select (get_target (sq_prefix req)) of
       Inl _ \<Rightarrow> Some (Inl ''Internal'')
     | Inr sel \<Rightarrow>
         if sel_targets sel = [] then Some (Inl ''NotFound'')
         else (case ofold set_step schedule (set_answers tset req (map fst (sel_targets sel))) of
           None \<Rightarrow> None
         | Some s \<Rightarrow> if set_done s then Some (set_result s) else None))"

section \<open>Reading options of a subscription\<close>

record server_config =
  sv_default_sample :: int
  sv_min_sample :: int
  sv_min_heartbeat :: int

record read_opts =
  ro_target :: string
  ro_paths :: "gpath list"
  ro_mode :: string
  ro_sample_interval :: int
  ro_heartbeat_interval :: int
  ro_suppress_redundant :: bool
  ro_updates_only :: bool

definition merged_path :: "gpath option \<Rightarrow> subscription \<Rightarrow> gpath" where
  "merged_path prefix sub = \<lparr>p_origin = get_origin prefix, p_elem = get_elem prefix @ get_elem (sb_path sub),
    p_target = get_target prefix\<rparr>"

definition mode_sample :: int where "mode_sample = 2"

text \<open>A conversion to \<open>time.Duration\<close> reads the same bits as a signed number.\<close>

definition stream_read_opts :: "server_config \<Rightarrow> string \<Rightarrow> gpath option \<Rightarrow> subscription \<Rightarrow> read_opts" where
  "stream_read_opts cfg target prefix sub =
    (let hb = sint (sb_heartbeat_interval sub);
         heartbeat = (if hb > 0 \<and> hb < sv_min_heartbeat cfg then sv_min_heartbeat cfg else hb)
     in if sb_mode sub = mode_sample then
          (let p = sint (sb_sample_interval sub);
               period = (if p = 0 then sv_default_sample cfg else if p < sv_min_sample cfg then sv_min_sample cfg else p)
           in \<lparr>ro_target = target, ro_paths = [merged_path prefix sub], ro_mode = ''stream_sample'', ro_sample_interval = period,
             ro_heartbeat_interval = heartbeat, ro_suppress_redundant = sb_suppress_redundant sub, ro_updates_only = False\<rparr>)
        else \<lparr>ro_target = target, ro_paths = [merged_path prefix sub], ro_mode = ''stream_on_change'', ro_sample_interval = 0,
          ro_heartbeat_interval = heartbeat, ro_suppress_redundant = False, ro_updates_only = False\<rparr>)"

section \<open>Secrets\<close>

definition change_secrets :: "(string \<Rightarrow> string) \<Rightarrow> tconf \<Rightarrow> tconf" where
  "change_secrets f tc = tc\<lparr>tc_password := map_option f (tc_password tc), tc_token := map_option f (tc_token tc)\<rparr>"

definition change_value :: "(string \<Rightarrow> string) \<Rightarrow> store_value \<Rightarrow> store_value" where
  "change_value f v = (case v of SVTarget tc \<Rightarrow> SVTarget (change_secrets f tc) | _ \<Rightarrow> v)"

definition change_store :: "(string \<Rightarrow> string) \<Rightarrow> config_store \<Rightarrow> config_store" where
  "change_store f st = st\<lparr>cs_targets := (case cs_targets st of Inl e \<Rightarrow> Inl e | Inr vs \<Rightarrow> Inr (map (\<lambda>(n, v). (n, change_value f v)) vs))\<rparr>"

lemma notification_hides_secrets:
  "target_config_to_notification cv (change_secrets f tc) enc = target_config_to_notification cv tc enc"
proof -
  have "redacted_deep_copy fresh (change_secrets f tc) = redacted_deep_copy fresh tc" for fresh
    by (simp add: redacted_deep_copy_def deep_copy_def change_secrets_def redact_def option.map_comp comp_def Let_def)
  moreover have "config_updates wrap d (change_secrets f tc) = config_updates wrap d tc" for wrap d
    by (simp add: config_updates_def change_secrets_def)
  moreover have "tc_name (change_secrets f tc) = tc_name tc" by (simp add: change_secrets_def)
  ultimately show ?thesis by (simp add: target_config_to_notification_def)
qed

lemma targets_in_change: "targets_in (map (\<lambda>(n, v). (n, change_value f v)) vs) = map (change_secrets f) (targets_in vs)"
  by (induction vs rule: targets_in.induct) (auto simp: change_value_def change_secrets_def split: store_value.splits)

lemma sort_key_map: "(\<And>x. k (g x) = k x) \<Longrightarrow> sort_key k (map g xs) = map g (sort_key k xs)"
proof -
  assume k: "\<And>x. k (g x) = k x"
  have "insort_key k (g x) (map g ys) = map g (insort_key k x ys)" for x ys
    by (induction ys) (simp_all add: k)
  then show ?thesis by (induction xs) simp_all
qed

lemma convert_all_map: "(\<And>c. conv (g c) = conv c) \<Longrightarrow> convert_all conv (map g cs) = convert_all conv cs"
  by (induction cs) (auto simp: convert_all_def split: option.split sum.split)

lemma internal_elem_hides_secrets: "internal_get_elem cv (change_store f st) enc e = internal_get_elem cv st enc e"
proof -
  have "list_target_configs (change_store f st) =
      (case list_target_configs st of Inl e \<Rightarrow> Inl e | Inr tcs \<Rightarrow> Inr (map (change_secrets f) tcs))"
    by (cases "cs_targets st")
      (simp_all add: list_target_configs_def change_store_def targets_in_change sort_key_map change_secrets_def)
  moreover have "filter (\<lambda>tc. wanted e (tc_name tc)) (map (change_secrets f) tcs) =
      map (change_secrets f) (filter (\<lambda>tc. wanted e (tc_name tc)) tcs)" for tcs
    by (simp add: filter_map comp_def change_secrets_def)
  moreover have "list_subscription_configs (change_store f st) = list_subscription_configs st"
    by (simp add: list_subscription_configs_def change_store_def)
  ultimately show ?thesis
    by (simp add: internal_get_elem_def convert_all_map notification_hides_secrets split: sum.split)
qed

lemma app_elem_hides_secrets:
  "app_get_elem cv (map (\<lambda>(n, tc). (n, change_secrets f tc)) tcs) subs enc e = app_get_elem cv tcs subs enc e"
proof -
  have "map snd (map (\<lambda>(n, tc). (n, change_secrets f tc)) tcs) = map (change_secrets f) (map snd tcs)" by (simp add: case_prod_beta')
  moreover have "filter (\<lambda>tc. wanted e (tc_name tc)) (map (change_secrets f) cs) =
      map (change_secrets f) (filter (\<lambda>tc. wanted e (tc_name tc)) cs)" for cs
    by (simp add: filter_map comp_def change_secrets_def)
  ultimately show ?thesis
    by (simp only: app_get_elem_def) (simp add: convert_all_map notification_hides_secrets)
qed

text \<open>C36. What the servers of the collector and of the command tell of the configuration of the targets, in every
  encoding, does not depend on their passwords and tokens: replacing them by others changes no
  answer.\<close>

theorem secrets_not_served:
  "handle_internal_get cv (change_store f st) cancelled req = handle_internal_get cv st cancelled req \<and>
   app_internal_get cv (map (\<lambda>(n, tc). (n, change_secrets f tc)) tcs) subs cancelled req = app_internal_get cv tcs subs cancelled req"
proof -
  have "internal_get_elem cv (change_store f st) enc = internal_get_elem cv st enc" for enc
    by (rule ext) (rule internal_elem_hides_secrets)
  then have "internal_get_path cv (change_store f st) enc = internal_get_path cv st enc" for enc
    by (intro ext) (simp add: internal_get_path_def)
  moreover have "app_get_elem cv (map (\<lambda>(n, tc). (n, change_secrets f tc)) tcs) subs enc = app_get_elem cv tcs subs enc" for enc
    by (rule ext) (rule app_elem_hides_secrets)
  then have "app_get_path cv (map (\<lambda>(n, tc). (n, change_secrets f tc)) tcs) subs enc = app_get_path cv tcs subs enc" for enc
    by (intro ext) (simp add: app_get_path_def)
  ultimately show ?thesis by (simp add: handle_internal_get_def app_internal_get_def)
qed

section \<open>Order of the answers\<close>

definition same_read :: "notification list gmap res \<Rightarrow> notification list gmap res \<Rightarrow> bool" where
  "same_read a b = (case (a, b) of
      (Inr m, Inr n) \<Rightarrow> wf_gmap m \<and> wf_gmap n \<and> map_of m = map_of n
    | (Inl _, Inl _) \<Rightarrow> True
    | _ \<Rightarrow> False)"

lemma in_order_same:
  assumes "wf_gmap m" and "wf_gmap n" and "map_of m = map_of n"
  shows "in_order m = in_order n"
proof -
  have "set (map fst m) = set (map fst n)" using assms(3) by (metis dom_map_of_conv_image_fst set_map)
  then have "sort (map fst m) = sort (map fst n)"
    using assms(1,2) by (metis sorted_list_of_set_sort_remdups distinct_remdups_id wf_gmap_def)
  then show ?thesis using assms(3) by (simp add: in_order_def)
qed

text \<open>The answer to a Get does not depend on the order in which the maps the cache returns are ranged over.\<close>

lemma get_order_independent:
  assumes "\<And>tn fp. same_read (rd tn fp) (rd' tn fp)"
  shows "server_get internal (Some rd) cancelled req = server_get internal (Some rd') cancelled req"
proof -
  have one: "read_targets rd cancelled fp i tns = read_targets rd' cancelled fp i tns" for fp i tns
  proof (induction tns arbitrary: i)
    case (Cons tn tns)
    show ?case
      using assms [of tn fp] Cons by (auto simp: same_read_def split: sum.splits dest: in_order_same)
  qed simp
  have "read_paths rd cancelled p tns i ps = read_paths rd' cancelled p tns i ps" for p tns i ps
    by (induction ps arbitrary: i) (simp_all add: one)
  then show ?thesis by (simp add: server_get_def Let_def)
qed

text \<open>The origin of the prefix does not count when the kind of a Get is decided.\<close>

lemma prefix_origin_ignored:
  assumes "gq_path req = [empty_path]" and "gq_prefix req = Some (empty_path\<lparr>p_origin := ''gnmic''\<rparr>)"
  shows "server_get (Some internal) None cancelled req = Inl ''Unimplemented''"
  using assms by (simp add: server_get_def empty_path_def)

section \<open>Connections\<close>

definition conn_ok :: "string list \<Rightarrow> nat list \<Rightarrow> string \<Rightarrow> conn \<Rightarrow> bool" where
  "conn_ok managed temp n c \<longleftrightarrow> (case c of Managed m \<Rightarrow> m = n \<and> n \<in> set managed | Temporary t \<Rightarrow> t \<in> set temp)"

definition selection_ok :: "string list \<Rightarrow> selection \<Rightarrow> bool" where
  "selection_ok managed s \<longleftrightarrow> sel_temp s = [0..<sel_dialed s] \<and>
    (\<forall>n c. map_of (sel_targets s) n = Some c \<longrightarrow> conn_ok managed (sel_temp s) n c)"

lemma conn_ok_simps [simp]:
  "conn_ok managed temp n (Managed m) \<longleftrightarrow> m = n \<and> n \<in> set managed"
  "conn_ok managed temp n (Temporary t) \<longleftrightarrow> t \<in> set temp"
  by (simp_all add: conn_ok_def)

lemma conn_ok_append: "conn_ok managed temp n c \<Longrightarrow> conn_ok managed (temp @ ts) n c"
  by (cases c) simp_all

definition outcome_ok :: "string list \<Rightarrow> (string \<times> selection) + selection \<Rightarrow> bool" where
  "outcome_ok managed r = (case r of Inl (_, s) \<Rightarrow> selection_ok managed s | Inr s \<Rightarrow> selection_ok managed s)"

lemma outcome_ok_simps [simp]:
  "outcome_ok managed (Inl (e, s)) = selection_ok managed s" "outcome_ok managed (Inr s) = selection_ok managed s"
  by (simp_all add: outcome_ok_def)

lemma outcome_ok_bind:
  "outcome_ok managed r \<Longrightarrow> (\<And>s. r = Inr s \<Longrightarrow> selection_ok managed s \<Longrightarrow> outcome_ok managed (f s)) \<Longrightarrow> outcome_ok managed (rbind r f)"
  by (cases r) (auto simp: outcome_ok_def)

lemma add_managed_ok:
  "selection_ok managed s \<Longrightarrow> n \<in> set managed \<Longrightarrow> selection_ok managed (s\<lparr>sel_targets := gset n (Managed n) (sel_targets s)\<rparr>)"
  by (auto simp: selection_ok_def)

lemma add_temporary_ok: "selection_ok managed s \<Longrightarrow> outcome_ok managed (add_temporary dial n tc s)"
  using conn_ok_append [of managed "sel_temp s" _ _ "[sel_dialed s]"]
  by (auto simp: selection_ok_def outcome_ok_def add_temporary_def create_temporary_target_def)

lemma select_all_ok: "selection_ok managed s \<Longrightarrow> outcome_ok managed (select_all dial managed cfgs s)"
  by (induction dial managed cfgs s rule: select_all.induct)
    (auto split: store_value.split intro: outcome_ok_bind add_managed_ok add_temporary_ok)

lemma select_managed_ok: "set ns \<subseteq> set managed \<Longrightarrow> selection_ok managed s \<Longrightarrow> selection_ok managed (select_managed name ns s)"
  by (induction name ns s rule: select_managed.induct) (simp_all add: add_managed_ok)

lemma select_configured_ok: "selection_ok managed s \<Longrightarrow> outcome_ok managed (select_configured dial name cfgs s)"
  by (induction dial name cfgs s rule: select_configured.induct) (auto split: store_value.split intro: add_temporary_ok)

lemma select_names_ok: "selection_ok managed s \<Longrightarrow> outcome_ok managed (select_names dial managed cfgs i names s)"
  by (induction dial managed cfgs i names s rule: select_names.induct)
    (auto split: sum.split intro: outcome_ok_bind select_managed_ok select_configured_ok)

lemma no_selection_ok: "selection_ok managed no_selection"
  by (simp add: selection_ok_def no_selection_def)

lemma dom_gset: "dom (map_of (gset k v m)) = insert k (dom (map_of m))"
  by (auto simp: domIff)

lemma add_temporary_dom:
  "add_temporary dial n tc s = Inr s' \<Longrightarrow> dom (map_of (sel_targets s')) = insert n (dom (map_of (sel_targets s)))"
  by (auto simp: add_temporary_def create_temporary_target_def split: if_splits)

lemma select_all_dom:
  "select_all dial managed cfgs s = Inr s' \<Longrightarrow>
    dom (map_of (sel_targets s')) =
      dom (map_of (sel_targets s)) \<union> {n. \<exists>v. (n, v) \<in> set cfgs \<and> (n \<in> set managed \<or> (\<exists>tc. v = SVTarget tc))}"
proof (induction dial managed cfgs s rule: select_all.induct)
  case (2 dial managed n v cfgs s)
  show ?case
  proof (cases "n \<in> set managed")
    case True
    then have "dom (map_of (sel_targets s')) = insert n (dom (map_of (sel_targets s))) \<union>
        {n. \<exists>v. (n, v) \<in> set cfgs \<and> (n \<in> set managed \<or> (\<exists>tc. v = SVTarget tc))}"
      using "2.IH"(1) "2.prems" dom_gset [of n "Managed n" "sel_targets s"] by (simp del: map_of_gset)
    then show ?thesis using True by auto
  next
    case False
    show ?thesis
    proof (cases v)
      case (SVTarget tc)
      then obtain s1 where "add_temporary dial n tc s = Inr s1" "select_all dial managed cfgs s1 = Inr s'"
        using "2.prems" False by (auto simp: rbind_Inr_iff)
      then have "dom (map_of (sel_targets s')) = insert n (dom (map_of (sel_targets s))) \<union>
          {n. \<exists>v. (n, v) \<in> set cfgs \<and> (n \<in> set managed \<or> (\<exists>tc. v = SVTarget tc))}"
        using "2.IH"(2) [OF False SVTarget] add_temporary_dom by simp
      then show ?thesis using SVTarget by auto
    qed (use "2.IH"(3,4) "2.prems" False in auto)
  qed
qed simp

text \<open>C37. Cleaning up after an RPC, or after a selection that failed, closes exactly the connections that were dialed
  for it, each once, and none of the manager's; every selected target has such a connection; and a
  request for all targets reaches every configured one.\<close>

theorem selection_closes_what_it_dials:
  "(case select_targets dial managed cfgs tn of
      Inl (_, s) \<Rightarrow> sel_temp s = [0..<sel_dialed s]
    | Inr s \<Rightarrow> sel_temp s = [0..<sel_dialed s] \<and>
        (\<forall>n c. map_of (sel_targets s) n = Some c \<longrightarrow> conn_ok managed (sel_temp s) n c) \<and>
        (tn \<in> {[], ''*''} \<longrightarrow> (\<exists>cs. cfgs 0 = Inr cs \<and> (\<forall>n tc. (n, SVTarget tc) \<in> set cs \<longrightarrow> map_of (sel_targets s) n \<noteq> None))))"
proof -
  have "outcome_ok managed (select_targets dial managed cfgs tn)"
    by (auto simp: select_targets_def no_selection_ok split: sum.split intro: select_all_ok select_names_ok)
  moreover have "\<exists>cs. cfgs 0 = Inr cs \<and> (\<forall>n tc. (n, SVTarget tc) \<in> set cs \<longrightarrow> map_of (sel_targets s) n \<noteq> None)"
    if r: "select_targets dial managed cfgs tn = Inr s" and tn: "tn \<in> {[], ''*''}" for s
  proof -
    obtain cs where cs: "cfgs 0 = Inr cs" "select_all dial managed cs no_selection = Inr s"
      using r tn by (auto simp: select_targets_def split: sum.splits)
    then show ?thesis using select_all_dom [OF cs(2)] by (auto simp: domIff)
  qed
  ultimately show ?thesis
    by (auto simp: outcome_ok_def selection_ok_def split: sum.splits)
qed

section \<open>Results of a Set\<close>

definition all_results :: "set_run \<Rightarrow> update_result list" where
  "all_results s = su_response s @ concat (map snd (su_pending s))"

lemma update_pending:
  "distinct (map fst ps) \<Longrightarrow> map_of ps n = Some (u # us) \<Longrightarrow>
    mset (concat (map snd ps)) = add_mset u (mset (concat (map snd (AList.update n us ps))))"
  by (induction ps) auto

lemma set_step_keeps:
  assumes "set_step ev s = Some s'" and "ev \<noteq> CancelSet" and "distinct (map fst (su_pending s))" and "su_collector s"
  shows "mset (all_results s') = mset (all_results s) \<and> distinct (map fst (su_pending s')) \<and> su_collector s' \<and>
    su_errors s' = su_errors s"
proof (cases ev)
  case (SendResult n)
  then obtain u us where "map_of (su_pending s) n = Some (u # us)"
      "s' = s\<lparr>su_pending := AList.update n us (su_pending s), su_response := su_response s @ [u]\<rparr>"
    using assms(1) by (auto simp: set_step_def split: option.splits list.splits if_splits)
  then show ?thesis
    using update_pending [OF assms(3)] assms(3,4) by (simp add: all_results_def distinct_update)
qed (use assms(2) in simp)

lemma set_answers_names: "map fst (su_pending (set_answers tset req ns)) = filter (\<lambda>n. \<exists>us. tset n (request_for_target req n) = Inr us) ns"
  by (induction ns) (auto simp: Let_def split: sum.splits)

lemma set_answers_start: "su_collector (set_answers tset req ns) \<and> su_response (set_answers tset req ns) = []"
  by (induction ns) (auto simp: Let_def split: sum.splits)

lemma set_answers_errors: "su_errors (set_answers tset req ns) = [] \<longleftrightarrow> (\<forall>n \<in> set ns. \<exists>us. tset n (request_for_target req n) = Inr us)"
  by (induction ns) (auto simp: Let_def split: sum.splits)

lemma set_answers_results:
  "concat (map snd (su_pending (set_answers tset req ns))) =
    concat (map (\<lambda>n. case tset n (request_for_target req n) of Inl _ \<Rightarrow> [] | Inr us \<Rightarrow> map (name_result n) us) ns)"
  by (induction ns) (auto simp: Let_def split: sum.splits)

text \<open>C38. A Set whose context does not end collects the results of all targets whatever the order in which their
  goroutines send: none is lost or doubled, one of them can go on until all are collected, and the
  answer is an error exactly when a target failed.\<close>

theorem set_collects_all:
  assumes "distinct ns" and "CancelSet \<notin> set sched" and "ofold set_step sched (set_answers tset req ns) = Some s"
  shows "mset (all_results s) =
      mset (concat (map (\<lambda>n. case tset n (request_for_target req n) of Inl _ \<Rightarrow> [] | Inr us \<Rightarrow> map (name_result n) us) ns)) \<and>
    (set_done s \<longrightarrow> all_results s = su_response s) \<and>
    (\<not> set_done s \<longrightarrow> (\<exists>n s'. set_step (SendResult n) s = Some s')) \<and>
    ((\<exists>e. set_result s = Inl e) \<longleftrightarrow> (\<exists>n \<in> set ns. \<exists>e. tset n (request_for_target req n) = Inl e))"
proof -
  let ?s0 = "set_answers tset req ns"
  let ?P = "\<lambda>s. mset (all_results s) = mset (all_results ?s0) \<and> distinct (map fst (su_pending s)) \<and> su_collector s \<and>
    su_errors s = su_errors ?s0"
  have "?P s"
  proof (rule ofold_invariant [where P = ?P, OF assms(3)])
    show "?P ?s0" using assms(1) by (simp add: set_answers_names set_answers_start)
    fix ev t t' assume "ev \<in> set sched" "?P t" "set_step ev t = Some t'"
    then show "?P t'" using set_step_keeps [of ev t t'] assms(2) by auto
  qed
  moreover have "all_results s = su_response s" if "set_done s"
    using that by (auto simp: set_done_def all_results_def)
  moreover have "\<exists>n s'. set_step (SendResult n) s = Some s'" if pend: "\<not> set_done s" and P: "?P s"
  proof -
    obtain n us0 where p: "(n, us0) \<in> set (su_pending s)" "us0 \<noteq> []" using pend by (auto simp: set_done_def)
    then obtain u us where "us0 = u # us" by (cases us0) simp_all
    then have "map_of (su_pending s) n = Some (u # us)" using P p(1) by simp
    then have "set_step (SendResult n) s = Some (s\<lparr>su_pending := AList.update n us (su_pending s), su_response := su_response s @ [u]\<rparr>)"
      using P by (simp add: set_step_def)
    then show ?thesis by blast
  qed
  moreover have "(\<exists>e. set_result s = Inl e) \<longleftrightarrow> \<not> (\<forall>n \<in> set ns. \<exists>us. tset n (request_for_target req n) = Inr us)"
    using \<open>?P s\<close> set_answers_errors [of tset req ns] by (auto simp: set_result_def)
  moreover have "(\<forall>n \<in> set ns. \<exists>us. f n = Inr us) \<longleftrightarrow> \<not> (\<exists>n \<in> set ns. \<exists>e. f n = Inl e)" for f :: "string \<Rightarrow> update_result list res"
    by (metis Inl_Inr_False sum.exhaust)
  moreover have "all_results ?s0 =
      concat (map (\<lambda>n. case tset n (request_for_target req n) of Inl _ \<Rightarrow> [] | Inr us \<Rightarrow> map (name_result n) us) ns)"
    by (simp add: all_results_def set_answers_results set_answers_start)
  ultimately show ?thesis by simp
qed

text \<open>When the context ends while a result is on its way nobody takes it, and the call never returns.\<close>

lemma cancelled_set_hangs:
  assumes "\<not> set_done s" and "\<not> su_collector s"
  shows "ofold set_step sched s = Some s' \<Longrightarrow> \<not> set_done s'"
proof -
  have step: "t' = t" if "set_step ev t = Some t'" "\<not> su_collector t" for ev t t'
    using that by (cases ev; cases t) (auto simp: set_step_def split: option.splits list.splits)
  assume run: "ofold set_step sched s = Some s'"
  have "s' = s"
  proof (rule ofold_invariant [where P = "\<lambda>t. t = s", OF run])
    fix ev t t' assume "t = s" "set_step ev t = Some t'"
    then show "t' = s" using step assms(2) by blast
  qed simp
  then show ?thesis using assms(1) by simp
qed

section \<open>Intervals\<close>

text \<open>A sampled subscription is not read more often than configured, whatever its request says.\<close>

lemma sample_interval_bounded:
  assumes "sv_min_sample cfg \<le> sv_default_sample cfg" and "sb_mode sub = mode_sample"
  shows "sv_min_sample cfg \<le> ro_sample_interval (stream_read_opts cfg target prefix sub)"
  using assms by (simp add: stream_read_opts_def Let_def)

lemma heartbeat_bounded:
  "0 < ro_heartbeat_interval (stream_read_opts cfg target prefix sub) \<Longrightarrow>
    sv_min_heartbeat cfg \<le> ro_heartbeat_interval (stream_read_opts cfg target prefix sub)"
  by (auto simp: stream_read_opts_def Let_def split: if_splits)

section \<open>Examples\<close>

definition two_targets :: "(string \<times> store_value) list" where
  "two_targets = [(''r1'', SVTarget sample_config), (''r2'', SVTarget (sample_config\<lparr>tc_name := ''r2''\<rparr>))]"

theorem selection_closes_what_it_dials_witness:
  "\<exists>s. select_targets (\<lambda>_. True) [''r1''] (\<lambda>_. Inr two_targets) [] = Inr s \<and> sel_temp s = [0..<sel_dialed s] \<and>
    map_of (sel_targets s) ''r2'' \<noteq> None"
proof -
  let ?r = "select_targets (\<lambda>_. True) [''r1''] (\<lambda>_. Inr two_targets) []"
  have "\<exists>s. ?r = Inr s"
    by (simp add: select_targets_def two_targets_def add_temporary_def create_temporary_target_def sample_config_def no_selection_def)
  then obtain s where s: "?r = Inr s" by blast
  have "(''r2'', SVTarget (sample_config\<lparr>tc_name := ''r2''\<rparr>)) \<in> set two_targets" by (simp add: two_targets_def)
  then show ?thesis
    using selection_closes_what_it_dials [where dial = "\<lambda>_. True" and managed = "[''r1'']" and cfgs = "\<lambda>_. Inr two_targets" and tn = "[]"] s
    by (auto simp del: not_None_eq)
qed

definition plain_get :: get_request where
  "plain_get = \<lparr>gq_prefix = None, gq_path = [empty_path], gq_type = 0, gq_encoding = 0, gq_models = [], gq_extension = []\<rparr>"

definition empty_notification :: notification where
  "empty_notification = \<lparr>n_timestamp = 1, n_prefix = None, n_update = [], n_delete = [], n_atomic = False\<rparr>"

lemma get_order_independent_witness:
  "server_get None (Some (\<lambda>_ _. Inr [(''a'', [empty_notification]), (''b'', [])])) (\<lambda>_. False) plain_get =
   server_get None (Some (\<lambda>_ _. Inr [(''b'', []), (''a'', [empty_notification])])) (\<lambda>_. False) plain_get"
  by (rule get_order_independent) (auto simp: same_read_def wf_gmap_def)

definition ok_result :: update_result where
  "ok_result = \<lparr>ur_path = None, ur_op = 3\<rparr>"

definition plain_set :: set_request where
  "plain_set = \<lparr>sq_prefix = None, sq_delete = [empty_path], sq_replace = [], sq_update = [], sq_union_replace = [], sq_extension = []\<rparr>"

theorem set_collects_all_witness:
  "\<exists>s. ofold set_step [SendResult ''r2'', SendResult ''r1''] (set_answers (\<lambda>_ _. Inr [ok_result]) plain_set [''r1'', ''r2'']) = Some s \<and>
    mset (su_response s) = {#name_result ''r1'' ok_result, name_result ''r2'' ok_result#}"
proof -
  let ?run = "ofold set_step [SendResult ''r2'', SendResult ''r1''] (set_answers (\<lambda>_ _. Inr [ok_result]) plain_set [''r1'', ''r2''])"
  have "\<exists>s. ?run = Some s \<and> set_done s" by (simp add: set_step_def set_done_def)
  then obtain s where s: "?run = Some s" "set_done s" by blast
  have "mset (su_response s) = {#name_result ''r1'' ok_result, name_result ''r2'' ok_result#}"
    using set_collects_all [OF _ _ s(1)] s(2) by auto
  then show ?thesis using s(1) by blast
qed

end
