(* ===== verification/Gnmi_Server_Subscribe.thy ===== *)
theory Gnmi_Server_Subscribe
  imports Gnmi_Server
begin

text \<open>
  The Subscribe RPC of the gNMI server, \<open>pkg/gnmiserver/subscribe.go\<close>: what is sent to the client
  for the modes ONCE, POLL and STREAM, and the status the call ends with. What the cache delivers
  for a read, the client's messages and the success of each send are parameters.
\<close>

section \<open>One read of the cache\<close>

datatype cache_item = CNotification notification | CError string

text \<open>
  The stream to the client: the responses sent so far. \<open>ok i\<close>: the send number \<open>i\<close> succeeds; a send
  that fails is not seen by the client.
\<close>

record client_stream =
  cl_sent :: "subscribe_response list"
  cl_sends :: nat

definition send :: "(nat \<Rightarrow> bool) \<Rightarrow> subscribe_response \<Rightarrow> client_stream \<Rightarrow> string option \<times> client_stream" where
  "send ok r cl =
    (if ok (cl_sends cl) then (None, cl\<lparr>cl_sent := cl_sent cl @ [r], cl_sends := cl_sends cl + 1\<rparr>)
     else (Some ''send'', cl\<lparr>cl_sends := cl_sends cl + 1\<rparr>))"

text \<open>The loop over a read: it ends at the first error, of the cache or of a send.\<close>

fun forward :: "(nat \<Rightarrow> bool) \<Rightarrow> cache_item list \<Rightarrow> client_stream \<Rightarrow> string option \<times> client_stream" where
  "forward ok [] cl = (None, cl)"
| "forward ok (CError e # is) cl = (Some e, cl)"
| "forward ok (CNotification n # is) cl =
    (case send ok (SRUpdate n) cl of
      (Some e, cl') \<Rightarrow> (Some e, cl')
    | (None, cl') \<Rightarrow> forward ok is cl')"

section \<open>The request\<close>

definition mode_stream :: int where "mode_stream = 0"
definition mode_once :: int where "mode_once = 1"
definition mode_poll :: int where "mode_poll = 2"

text \<open>A request without a target asks for all of them.\<close>

definition default_target :: "subscription_list \<Rightarrow> subscription_list" where
  "default_target sl =
    (if get_target (sl_prefix sl) \<noteq> [] then sl
     else sl\<lparr>sl_prefix := Some (case sl_prefix sl of None \<Rightarrow> empty_path\<lparr>p_target := ''*''\<rparr> | Some p \<Rightarrow> p\<lparr>p_target := ''*''\<rparr>)\<rparr>)"

definition once_read_opts :: "subscription_list \<Rightarrow> read_opts" where
  "once_read_opts sl = \<lparr>ro_target = get_target (sl_prefix sl), ro_paths = map (merged_path (sl_prefix sl)) (sl_subscription sl),
    ro_mode = ''once'', ro_sample_interval = 0, ro_heartbeat_interval = 0, ro_suppress_redundant = False,
    ro_updates_only = sl_updates_only sl\<rparr>"

section \<open>ONCE\<close>

text \<open>\<open>read i ro\<close>: what the cache delivers for the read number \<open>i\<close> of the call. The errors are in their order.\<close>

type_synonym cache_reads = "nat \<Rightarrow> read_opts \<Rightarrow> cache_item list"

definition handle_once_request :: "cache_reads \<Rightarrow> (nat \<Rightarrow> bool) \<Rightarrow> nat \<Rightarrow> subscription_list \<Rightarrow> client_stream \<Rightarrow> string list \<times> client_stream" where
  "handle_once_request rd ok i sl cl =
    (case forward ok (rd i (once_read_opts sl)) cl of (e, cl') \<Rightarrow> (case e of None \<Rightarrow> [] | Some x \<Rightarrow> [x], cl'))"

definition send_sync :: "(nat \<Rightarrow> bool) \<Rightarrow> client_stream \<Rightarrow> string list \<times> client_stream" where
  "send_sync ok cl = (case send ok (SRSync True) cl of (e, cl') \<Rightarrow> (case e of None \<Rightarrow> [] | Some x \<Rightarrow> [x], cl'))"

definition once_round :: "cache_reads \<Rightarrow> (nat \<Rightarrow> bool) \<Rightarrow> nat \<Rightarrow> subscription_list \<Rightarrow> client_stream \<Rightarrow> string list \<times> client_stream" where
  "once_round rd ok i sl cl =
    (case handle_once_request rd ok i sl cl of (es, cl1) \<Rightarrow>
     (case send_sync ok cl1 of (es', cl2) \<Rightarrow> (es @ es', cl2)))"

section \<open>POLL\<close>

datatype client_message = MPoll | MOtherRequest | MEof | MRecvError string

text \<open>\<open>None\<close>: the client sends nothing more and the call goes on.\<close>

fun poll_loop ::
  "cache_reads \<Rightarrow> (nat \<Rightarrow> bool) \<Rightarrow> nat \<Rightarrow> subscription_list \<Rightarrow> client_message list \<Rightarrow> client_stream \<Rightarrow>
    (string list \<times> bool) \<times> client_stream" where
  "poll_loop rd ok i sl [] cl = (([], False), cl)"
| "poll_loop rd ok i sl (m # ms) cl =
    (case m of
      MEof \<Rightarrow> (([''EOF''], True), cl)
    | MRecvError e \<Rightarrow> (([e], True), cl)
    | MOtherRequest \<Rightarrow> (([''unexpected request type''], True), cl)
    | MPoll \<Rightarrow>
        (case once_round rd ok i sl cl of (es, cl1) \<Rightarrow>
         (case poll_loop rd ok (i + 1) sl ms cl1 of ((es', over), cl2) \<Rightarrow> ((es @ es', over), cl2))))"

definition handle_polled :: "cache_reads \<Rightarrow> (nat \<Rightarrow> bool) \<Rightarrow> subscription_list \<Rightarrow> client_message list \<Rightarrow> client_stream \<Rightarrow>
    (string list \<times> bool) \<times> client_stream" where
  "handle_polled rd ok sl ms cl =
    (case once_round rd ok 0 sl cl of (es, cl1) \<Rightarrow>
     (case poll_loop rd ok 1 sl ms cl1 of ((es', over), cl2) \<Rightarrow> ((es @ es', over), cl2)))"

section \<open>STREAM\<close>

text \<open>The first phase: the current state of each item, unless only updates are wanted.\<close>

fun initial_reads :: "cache_reads \<Rightarrow> (nat \<Rightarrow> bool) \<Rightarrow> nat \<Rightarrow> read_opts list \<Rightarrow> client_stream \<Rightarrow> string option \<times> client_stream" where
  "initial_reads rd ok i [] cl = (None, cl)"
| "initial_reads rd ok i (ro # ros) cl =
    (case forward ok (rd i (ro\<lparr>ro_mode := ''once''\<rparr>)) cl of
      (Some e, cl') \<Rightarrow> (Some e, cl')
    | (None, cl') \<Rightarrow> initial_reads rd ok (i + 1) ros cl')"

definition stream_opts :: "server_config \<Rightarrow> subscription_list \<Rightarrow> read_opts list" where
  "stream_opts cfg sl =
    map (\<lambda>sub. (stream_read_opts cfg (get_target (sl_prefix sl)) (sl_prefix sl) sub)\<lparr>ro_updates_only := sl_updates_only sl\<rparr>)
      (sl_subscription sl)"

text \<open>On success the reads that are then run side by side.\<close>

definition stream_start ::
  "server_config \<Rightarrow> cache_reads \<Rightarrow> (nat \<Rightarrow> bool) \<Rightarrow> subscription_list \<Rightarrow> client_stream \<Rightarrow> (string + read_opts list) \<times> client_stream" where
  "stream_start cfg rd ok sl cl =
    (let ros = stream_opts cfg sl
     in case (if sl_updates_only sl then (None, cl) else initial_reads rd ok 0 ros cl) of
       (Some e, cl1) \<Rightarrow> (Inl e, cl1)
     | (None, cl1) \<Rightarrow>
         (case send ok (SRSync True) cl1 of
           (Some e, cl2) \<Rightarrow> (Inl e, cl2)
         | (None, cl2) \<Rightarrow> (Inr (if sl_updates_only sl then ros else map (\<lambda>ro. ro\<lparr>ro_updates_only := True\<rparr>) ros), cl2)))"

section \<open>The call\<close>

text \<open>The status is that of the first error; \<open>None\<close>: the call has not ended.\<close>

definition status_of :: "string list \<Rightarrow> unit res" where
  "status_of es = (if es = [] then Inr () else Inl ''Internal'')"

datatype call_state = Ended "unit res" | Streaming "read_opts list" | Polling

definition server_subscribe ::
  "server_config \<Rightarrow> bool \<Rightarrow> cache_reads \<Rightarrow> (nat \<Rightarrow> bool) \<Rightarrow> subscription_list \<Rightarrow> client_message list \<Rightarrow> call_state \<times> client_stream" where
  "server_subscribe cfg has_cache rd ok sl0 ms =
    (let cl = \<lparr>cl_sent = [], cl_sends = 0\<rparr>; sl = default_target sl0
     in if \<not> has_cache then (Ended (Inl ''Unimplemented''), cl)
        else if sl_mode sl = mode_once then
          (case once_round rd ok 0 sl cl of (es, cl') \<Rightarrow> (Ended (status_of es), cl'))
        else if sl_mode sl = mode_poll then
          (case handle_polled rd ok sl ms cl of ((es, over), cl') \<Rightarrow>
            (if es \<noteq> [] \<or> over then Ended (status_of es) else Polling, cl'))
        else if sl_mode sl = mode_stream then
          (case stream_start cfg rd ok sl cl of (r, cl') \<Rightarrow>
            (case r of Inl e \<Rightarrow> Ended (Inl ''Internal'') | Inr ros \<Rightarrow> Streaming ros, cl'))
        else (Ended (Inl ''InvalidArgument''), cl))"

section \<open>What a client receives\<close>

definition answers :: "cache_item list \<Rightarrow> subscribe_response list" where
  "answers is = List.map_filter (\<lambda>i. case i of CNotification n \<Rightarrow> Some (SRUpdate n) | CError _ \<Rightarrow> None) is"

definition no_errors :: "cache_item list \<Rightarrow> bool" where
  "no_errors is \<longleftrightarrow> (\<forall>e. CError e \<notin> set is)"

lemma answers_simps [simp]:
  "answers [] = []" "answers (CNotification n # is) = SRUpdate n # answers is" "answers (CError e # is) = answers is"
  by (simp_all add: answers_def map_filter_simps)

lemma forward_ok:
  assumes "\<forall>i. ok i" and "no_errors is"
  shows "forward ok is cl = (None, cl\<lparr>cl_sent := cl_sent cl @ answers is, cl_sends := cl_sends cl + length (answers is)\<rparr>)"
  using assms(2)
proof (induction "is" arbitrary: cl)
  case (Cons a xs)
  then obtain n where "a = CNotification n" by (cases a) (auto simp: no_errors_def)
  moreover have "no_errors xs" using Cons.prems by (simp add: no_errors_def)
  ultimately show ?case using Cons.IH assms(1) by (simp add: send_def)
qed simp

definition emit :: "subscribe_response list \<Rightarrow> client_stream \<Rightarrow> client_stream" where
  "emit rs cl = cl\<lparr>cl_sent := cl_sent cl @ rs, cl_sends := cl_sends cl + length rs\<rparr>"

lemma emit_emit [simp]: "emit rs (emit qs cl) = emit (qs @ rs) cl"
  by (simp add: emit_def)

lemma once_round_ok:
  assumes "\<forall>i. ok i" and "no_errors (rd i (once_read_opts sl))"
  shows "once_round rd ok i sl cl = ([], emit (answers (rd i (once_read_opts sl)) @ [SRSync True]) cl)"
  using assms(1)
  by (simp add: once_round_def handle_once_request_def forward_ok [OF assms] send_sync_def send_def emit_def)

lemma poll_loop_ok:
  assumes "\<forall>i. ok i" and "\<forall>i. no_errors (rd i (once_read_opts sl))"
  shows "poll_loop rd ok i sl (replicate k MPoll) cl =
    (([], False), emit (concat (map (\<lambda>j. answers (rd j (once_read_opts sl)) @ [SRSync True]) [i..<i + k])) cl)"
proof (induction k arbitrary: i cl)
  case (Suc k)
  have "[i..<i + Suc k] = i # [i + 1..<(i + 1) + k]" by (simp add: upt_rec)
  then show ?case using Suc by (simp add: once_round_ok assms)
qed (simp add: emit_def)

text \<open>C39. In the mode POLL a client receives the state of the cache and a sync response at once and again for each
  poll, each time what the cache holds then, and the call stays open.\<close>

theorem polls_answered:
  assumes "\<forall>i. ok i" and "\<forall>i. no_errors (rd i (once_read_opts (default_target sl)))" and "sl_mode sl = mode_poll"
  shows "fst (server_subscribe cfg True rd ok sl (replicate k MPoll)) = Polling \<and>
    cl_sent (snd (server_subscribe cfg True rd ok sl (replicate k MPoll))) =
      concat (map (\<lambda>j. answers (rd j (once_read_opts (default_target sl))) @ [SRSync True]) [0..<k + 1])"
proof -
  have m: "sl_mode (default_target sl) = mode_poll" using assms(3) by (simp add: default_target_def)
  have "[0..<k + 1] = 0 # [1..<1 + k]" by (simp add: upt_rec)
  then show ?thesis
    using m once_round_ok [OF assms(1), of rd 0 "default_target sl"] assms(2)
    by (simp add: server_subscribe_def Let_def handle_polled_def poll_loop_ok [where ok = ok and rd = rd and sl = "default_target sl", OF assms(1,2)] mode_once_def mode_poll_def emit_def)
qed

lemma initial_reads_ok:
  assumes "\<forall>i. ok i" and "\<forall>i ro. no_errors (rd i ro)"
  shows "initial_reads rd ok i ros cl =
    (None, emit (concat (map (\<lambda>(j, ro). answers (rd j (ro\<lparr>ro_mode := ''once''\<rparr>))) (zip [i..<i + length ros] ros))) cl)"
proof (induction ros arbitrary: i cl)
  case (Cons ro ros)
  have "[i..<i + length (ro # ros)] = i # [i + 1..<(i + 1) + length ros]" by (simp add: upt_rec)
  then show ?case using Cons assms by (simp add: forward_ok emit_def)
qed (simp add: emit_def)

text \<open>C40. In the mode STREAM a client receives the state of every item, unless it wants updates only, then exactly one
  sync response, and after it only what is new: every read that goes on is asked to leave out the
  state, and has the mode and the intervals of its item.\<close>

theorem stream_starts_with_state:
  assumes "\<forall>i. ok i" and "\<forall>i ro. no_errors (rd i ro)" and "sl_mode sl = mode_stream"
  shows "\<exists>ros. fst (server_subscribe cfg True rd ok sl ms) = Streaming ros \<and>
    map (\<lambda>ro. ro\<lparr>ro_updates_only := sl_updates_only sl\<rparr>) ros = stream_opts cfg (default_target sl) \<and>
    (\<forall>ro \<in> set ros. ro_updates_only ro) \<and>
    cl_sent (snd (server_subscribe cfg True rd ok sl ms)) =
      (if sl_updates_only sl then []
       else concat (map (\<lambda>(j, ro). answers (rd j (ro\<lparr>ro_mode := ''once''\<rparr>)))
         (zip [0..<length ros] (stream_opts cfg (default_target sl))))) @ [SRSync True]"
proof -
  have m: "sl_mode (default_target sl) = mode_stream" "sl_updates_only (default_target sl) = sl_updates_only sl"
    using assms(3) by (simp_all add: default_target_def)
  let ?sl = "default_target sl" and ?cl = "\<lparr>cl_sent = [], cl_sends = 0\<rparr>"
  let ?ros = "stream_opts cfg ?sl"
  let ?ros' = "if sl_updates_only sl then ?ros else map (\<lambda>ro. ro\<lparr>ro_updates_only := True\<rparr>) ?ros"
  let ?state = "if sl_updates_only sl then []
    else concat (map (\<lambda>(j, ro). answers (rd j (ro\<lparr>ro_mode := ''once''\<rparr>))) (zip [0..<length ?ros] ?ros))"
  have s: "ro\<lparr>ro_updates_only := sl_updates_only sl\<rparr> = ro" if "ro \<in> set ?ros" for ro
    using that m(2) by (auto simp: stream_opts_def)
  have "stream_start cfg rd ok ?sl ?cl = (Inr ?ros', emit (?state @ [SRSync True]) ?cl)"
    using assms(1) by (simp add: stream_start_def Let_def m(2) send_def initial_reads_ok [OF assms(1,2)] emit_def)
  then have r: "server_subscribe cfg True rd ok sl ms = (Streaming ?ros', emit (?state @ [SRSync True]) ?cl)"
    using m(1) by (simp add: server_subscribe_def Let_def mode_once_def mode_poll_def mode_stream_def)
  have "map (\<lambda>ro. ro\<lparr>ro_updates_only := sl_updates_only sl\<rparr>) ?ros = ?ros"
    by (rule map_idI) (rule s)
  then have "map (\<lambda>ro. ro\<lparr>ro_updates_only := sl_updates_only sl\<rparr>) ?ros' = ?ros"
    by (cases "sl_updates_only sl") (simp_all add: comp_def)
  moreover have "\<forall>ro \<in> set ?ros'. ro_updates_only ro" using m(2) by (auto simp: stream_opts_def)
  ultimately show ?thesis
    unfolding r by (intro exI [of _ ?ros']) (simp add: emit_def)
qed

text \<open>After an error of the cache a client of the mode ONCE is told that it has received everything.\<close>

lemma sync_after_error:
  assumes "\<forall>i. ok i" and "rd 0 (once_read_opts (default_target sl)) = [CError e]" and "sl_mode sl = mode_once"
  shows "server_subscribe cfg True rd ok sl ms = (Ended (Inl ''Internal''), \<lparr>cl_sent = [SRSync True], cl_sends = 1\<rparr>)"
proof -
  have "sl_mode (default_target sl) = mode_once" using assms(3) by (simp add: default_target_def)
  then show ?thesis using assms(1,2)
    by (simp add: server_subscribe_def Let_def once_round_def handle_once_request_def send_sync_def send_def status_of_def)
qed

text \<open>A client that ends a subscription of the mode POLL in the regular way gets an error.\<close>

lemma poll_end_is_error:
  assumes "\<forall>i. ok i" and "\<forall>i. no_errors (rd i (once_read_opts (default_target sl)))" and "sl_mode sl = mode_poll"
  shows "fst (server_subscribe cfg True rd ok sl [MEof]) = Ended (Inl ''Internal'')"
proof -
  have "sl_mode (default_target sl) = mode_poll" using assms(3) by (simp add: default_target_def)
  then show ?thesis
    using assms(1,2) by (simp add: server_subscribe_def Let_def handle_polled_def once_round_ok status_of_def mode_once_def mode_poll_def)
qed

section \<open>Examples\<close>

definition two_items :: subscription_list where
  "two_items = \<lparr>sl_prefix = None, sl_subscription = [\<lparr>sb_path = None, sb_mode = 2, sb_sample_interval = 5, sb_suppress_redundant = False,
      sb_heartbeat_interval = 0\<rparr>, \<lparr>sb_path = None, sb_mode = 1, sb_sample_interval = 0, sb_suppress_redundant = False, sb_heartbeat_interval = 0\<rparr>],
    sl_qos = None, sl_mode = mode_stream, sl_allow_aggregation = False, sl_models = [], sl_encoding = 0, sl_updates_only = False\<rparr>"

definition one_item :: cache_reads where
  "one_item i ro = [CNotification (empty_notification\<lparr>n_timestamp := of_nat i\<rparr>)]"

lemma one_item_ok: "no_errors (one_item i ro)"
  by (simp add: no_errors_def one_item_def)

theorem polls_answered_witness:
  "length (cl_sent (snd (server_subscribe \<lparr>sv_default_sample = 10, sv_min_sample = 7, sv_min_heartbeat = 1\<rparr> True one_item (\<lambda>_. True) (two_items\<lparr>sl_mode := mode_poll\<rparr>) [MPoll, MPoll]))) = 6"
  using polls_answered [of "\<lambda>_. True" one_item "two_items\<lparr>sl_mode := mode_poll\<rparr>" "\<lparr>sv_default_sample = 10, sv_min_sample = 7, sv_min_heartbeat = 1\<rparr>" 2]
  by (simp add: one_item_ok numeral_2_eq_2, simp add: one_item_def)

theorem stream_starts_with_state_witness:
  "\<exists>ros. fst (server_subscribe \<lparr>sv_default_sample = 10, sv_min_sample = 7, sv_min_heartbeat = 1\<rparr> True one_item (\<lambda>_. True) two_items []) =
      Streaming ros \<and> map ro_sample_interval ros = [7, 0] \<and> list_all ro_updates_only ros"
proof -
  let ?cfg = "\<lparr>sv_default_sample = 10, sv_min_sample = 7, sv_min_heartbeat = 1\<rparr>"
  obtain ros where r: "fst (server_subscribe ?cfg True one_item (\<lambda>_. True) two_items []) = Streaming ros"
    and o: "map (\<lambda>ro. ro\<lparr>ro_updates_only := sl_updates_only two_items\<rparr>) ros = stream_opts ?cfg (default_target two_items)"
    and u: "\<forall>ro \<in> set ros. ro_updates_only ro"
    using stream_starts_with_state [of "\<lambda>_. True" one_item two_items ?cfg "[]"] by (auto simp: one_item_ok two_items_def)
  have "map ro_sample_interval ros = map ro_sample_interval (map (\<lambda>ro. ro\<lparr>ro_updates_only := sl_updates_only two_items\<rparr>) ros)"
    by simp
  also have "\<dots> = [7, 0]" unfolding o by code_simp
  finally show ?thesis using r u by (simp add: list_all_iff)
qed

end
