(* ===== verification/Spec2Isabelle.thy ===== *)
theory Spec2Isabelle
  imports Processors Proc_Convert Proc_Filter Proc_Group Proc_Rate Proc_Strings Proc_Tags Proc_Time
    Proc_Write Cluster_Rebalance Cluster_Manager Cluster_Election Gnmi_Path Gnmi_Msgs Gnmi_Set
    Gnmi_Subscribe Target_Subscribe Config_Targets Config_Subscriptions Targets_Manager
    Out_Prometheus Out_Otlp Out_Otlp_Send Gnmi_Server Gnmi_Server_Subscribe
begin

text \<open>
  Verification library for gnmic, a gNMI client and collector written in Go. It models the parts of
  the program that carry its own logic, translated function by function, and proves what makes
  them correct. Every theory opens with the files it models; a definition keeps the name of its
  function in lower case where Isabelle allows it.

  \<^bold>\<open>The program.\<close> gnmic connects to network devices (targets), subscribes to paths of their data,
  turns the notifications into events, runs the events through configured processors and hands
  them to outputs. Several instances form a cluster: one is elected leader, assigns the targets to
  the members and rebalances them. The command line builds Get, Set and subscribe requests from
  flags and files.

  \<^bold>\<open>Foundations.\<close>
  \<^item> \<open>Prelude\<close>: Go maps (\<open>gmap\<close>, association lists whose order is that of one \<open>range\<close> loop; \<open>nmap\<close>, which may
    be nil), errors (\<open>res\<close>, the error on the left), loops that stop at an error or a panic, and the
    idioms of compaction, deletion and insertion while ranging.
  \<^item> \<open>Go_Strings\<close>, \<open>Go_Env\<close>, \<open>Go_Float\<close>, \<open>Go_Regexp\<close>, \<open>Go_Base64\<close>, \<open>Go_Fnv\<close>: what the program uses of Go's standard
    library, on lists of bytes, machine words and the bit patterns of floats. A regular
    expression is given by its syntax tree, whose matching is modelled.
  \<^item> \<open>Gnmi_Types\<close>: the messages of the protocol, the dynamic values of events (\<open>gval\<close>), and events.
  \<^item> \<open>Interfaces\<close>: the contracts of processors as locales (\<open>in_place_processor\<close>, \<open>filtering_processor\<close>,
    \<open>selecting_processor\<close>), each interpreted on the models of the processors that keep it.

  \<^bold>\<open>Requests.\<close>
  \<^item> \<open>Gnmi_Path\<close> (\<open>pkg/api/path/path.go\<close>): parsing and printing of paths, their round trip, what is accepted.
  \<^item> \<open>Gnmi_Msgs\<close> (\<open>pkg/api/gnmi_msgs.go\<close>): every option of a message, as a function on messages.
  \<^item> \<open>Gnmi_Subscribe\<close> (\<open>pkg/utils/gnmi.go\<close>): validation, defaults and construction of subscribe requests.
  \<^item> \<open>Gnmi_Set\<close> (\<open>pkg/config/config.go\<close>, \<open>set.go\<close>, \<open>diff.go\<close>): Get requests, and Set requests from prototext files,
    from templates or from the flags.

  \<^bold>\<open>Configuration.\<close>
  \<^item> \<open>Target_Config\<close> (\<open>pkg/api/types/target.go\<close>), \<open>Config_Targets\<close> (\<open>pkg/config/targets.go\<close>), \<open>Config_Subscriptions\<close>
    (\<open>pkg/config/subscriptions.go\<close>): copies and comparison of target configurations; defaults from the
    global flags through shared pointers; subscriptions by name.

  \<^bold>\<open>Targets.\<close>
  \<^item> \<open>Target_Subscribe\<close> (\<open>pkg/api/target/subscribe.go\<close>): the goroutines of a target's subscriptions and their
    callers as interleaved steps; at most one attempt of a subscription lives, closing ends them
    all, and a subscription that nobody stops and the device does not cancel is kept up.
  \<^item> \<open>Targets_Manager\<close> (\<open>pkg/collector/managers/targets\<close>): the events that start, change, retry and stop
    targets. A retry takes three steps, its decision, its probe and its start, and anything may happen
    between them. As long as no goroutine writes late without the lock of its target, every target is
    accounted for; failed ones recover, and changes in place converge. The lemmas beside the
    properties show what late writes and the names noted as added do.

  \<^bold>\<open>Events and processors.\<close>
  \<^item> \<open>Event\<close>, \<open>Condition\<close> (\<open>pkg/formatters/event.go\<close>, \<open>msg.go\<close>, \<open>condition.go\<close>): from notifications to events, and
    to generic maps and back.
  \<^item> \<open>Proc_Filter\<close>, \<open>Proc_Tags\<close>, \<open>Proc_Group\<close>, \<open>Proc_Convert\<close>, \<open>Proc_Strings\<close>, \<open>Proc_Time\<close>, \<open>Proc_Rate\<close>, \<open>Proc_Write\<close>,
    \<open>Processors\<close> (\<open>pkg/formatters/event_*\<close>, \<open>processors.go\<close>): \<open>Init\<close> and \<open>Apply\<close> of the processors, and the
    registry that builds them.

  \<^bold>\<open>Cluster.\<close>
  \<^item> \<open>Cluster_Placement\<close>, \<open>Cluster_Rebalance\<close>, \<open>Cluster_Manager\<close>, \<open>Cluster_Election\<close>
    (\<open>pkg/collector/managers/cluster\<close>): quotas, placement, the rebalancing plan and its termination, assignment
    and draining in a world that answers as it likes, and the election as a step relation on all nodes and the shared lock.

  \<^bold>\<open>Outputs.\<close>
  \<^item> \<open>Out_Prometheus\<close> (\<open>pkg/outputs/prometheus_output/prometheus_common.go\<close>): names, labels with the resolution
    of names that collide, metrics and time series; the resolution ends and the labels are unique.
  \<^item> \<open>Out_Otlp\<close> (\<open>pkg/outputs/otlp_output/otlp_converter.go\<close>): resources, data points and the validation of a
    request; no tag or value is lost or attributed to another event.
  \<^item> \<open>Out_Otlp_Send\<close> (\<open>otlp_output.go\<close>, \<open>otlp_http.go\<close>): the worker, the attempts of a batch and the life of the
    transports as interleaved steps. No attempt follows one that was acknowledged (delivery is at least
    once), and a closed transport is never used, unless the output is closed in the middle of an update.

  \<^bold>\<open>Server.\<close>
  \<^item> \<open>Gnmi_Server\<close> (\<open>pkg/gnmiserver/unary.go\<close>, \<open>pkg/collector/api/gnmi/unary.go\<close>,
    \<open>pkg/utils/gnmi_notifications.go\<close>): Get from the cache and of the configuration, the selection of targets and
    Set; no secret is told, every connection dialed is closed, every result is collected.
  \<^item> \<open>Gnmi_Server_Subscribe\<close> (\<open>pkg/gnmiserver/subscribe.go\<close>): what a subscriber receives in each mode.

  \<^bold>\<open>How the parts meet.\<close> \<open>Processors\<close> composes the processors the way an output does; \<open>Cluster_Manager\<close> uses
  the quotas and the placement; \<open>Targets_Manager\<close> makes requests with \<open>Gnmi_Subscribe\<close> and compares
  configurations with \<open>Target_Config\<close>; \<open>Gnmi_Set\<close> and \<open>Gnmi_Subscribe\<close> build messages from the options of
  \<open>Gnmi_Msgs\<close> and paths of \<open>Gnmi_Path\<close>; the outputs read the events of \<open>Event\<close>, and
  the server tells of the configurations of \<open>Target_Config\<close>.

  \<^bold>\<open>State and concurrency.\<close> A stateful operation takes a record and returns it updated. Where the code
  gives up a lock, the model has separate steps that interleave (\<open>Cluster_Election\<close>, \<open>Target_Subscribe\<close>,
  \<open>Targets_Manager\<close>). Calls of services depend on a world that every call may change. Integers keep
  their width where they can overflow. A panic is \<open>None\<close> or an error of its own.

  \<^bold>\<open>Parameters.\<close> Code that is not part of the repository is a parameter: the JSON codec, the jq
  interpreter, the YAML and mapstructure decoders, templates, float parsing and printing, time
  zones, the tables of the generated protobuf enumerations, the LRU cache, the locker, the HTTP
  client and gRPC. The laws a theorem needs of them are its hypotheses, each has a witness with
  concrete functions. \<open>sort.Slice\<close> and shuffles are parameters that permute; the order of a \<open>range\<close>
  over a map is that of the list or a parameter.

  \<^bold>\<open>Loops and bounds.\<close> Loops over data are structural. The loop over the receivers of \<open>rebalance\<close> and
  the resolution of label names in \<open>Out_Prometheus\<close> have no bound in the code; they are partial
  functions and theorems show that they return. The matcher of \<open>Go_Regexp\<close> bounds a star by the
  length of the input, which is enough because an iteration that consumes nothing ends it.
  \<open>drop_spaces\<close> of \<open>Go_Strings\<close> is bounded by the length of its text.

  \<^bold>\<open>Not modelled.\<close> Clients of message queues, databases and service discovery (inputs, most of the
  outputs, lockers, loaders, caches): they pass data to libraries. The command line, the prompt and
  the HTTP and RPC servers around the modelled functions. Dialers, TLS and the tunnel server. The
  starlark and plugin processors, whose effect is that of a script or another process. The reading
  of files and flags through viper. Metrics and logging.
\<close>

end
